(* ===== verification/Prelude.thy ===== *)
theory Prelude
  imports Complex_Main "HOL-Library.Char_ord" "HOL-Library.List_Lexorder" "HOL-Library.Word" "HOL-Library.AList"
    "HOL-Library.Sublist"
begin

text \<open>
  Shared vocabulary of the development: the sentinel errors of
  \<^verbatim>\<open>backend/internal/domain/errors.go\<close>, the Go standard-library operations on strings and
  64-bit integers that several components use, and generic lemmas on association lists and folds.

  Conventions.  A Go \<open>string\<close> is a list of bytes (HOL \<open>char list\<close>), so \<open>len\<close> is \<open>length\<close> and
  \<open><\<close> is the bytewise lexicographic order of \<open>List_Lexorder\<close>.  A function returning
  \<open>(T, error)\<close> returns \<open>gerr + T\<close>, the error on the left.  A Go map is an association list with
  distinct keys where the code ranges over it or takes its \<open>len\<close>; the position of an entry then
  stands for Go's unspecified iteration order.  A finite \<open>float64\<close> is a real number: rounding is
  not modelled (the header of \<open>Spec2Isabelle\<close> says where that matters), and not-a-number and the
  infinities appear where the code can meet them, in decoded payload values.
\<close>

section \<open>Rule collections\<close>

named_theorems model_defs \<open>definitions of straight-line handlers, unfolded together\<close>
named_theorems frame_simps \<open>what an operation leaves unchanged\<close>

section \<open>Domain errors (errors.go)\<close>

text \<open>The violated rule of an error wrapping \<open>ErrValidation\<close>, in place of its English text.\<close>

datatype violation =
    SFOutOfRange int | TxOutOfRange int | WeatherOutOfRange real
  | PacketIDRequired | OriginNodeRequired | TargetParentRequired | HopCountTooSmall
  | RoutingPathEmpty | RoutingPathTooLong | PayloadRequired | RoutingPathBadNode
  | SchemaEmpty | SchemaTooManyFields | BadFieldName string | DuplicateFieldName string
  | StringSizeOutOfRange | UnknownFieldType string
  | EdgeCodeExists string

datatype gerr =
    ErrNotFound
  | ErrSessionInactive
  | ErrSessionStillActive
  | ErrValidation violation
  | ErrOther string string  \<comment> \<open>an infrastructure error: the wrapping text and the cause\<close>

type_synonym 'a res = "gerr + 'a"

fun is_ok :: "'e + 'a \<Rightarrow> bool" where
  "is_ok (Inl _) = False"
| "is_ok (Inr _) = True"

lemma is_ok_iff [simp]: "is_ok r \<longleftrightarrow> (\<exists>x. r = Inr x)"
  by (cases r) auto

section \<open>Go strings\<close>

abbreviation byte_of :: "char \<Rightarrow> nat" where
  "byte_of c \<equiv> of_char c"

definition is_digit :: "char \<Rightarrow> bool" where
  "is_digit c \<longleftrightarrow> 48 \<le> byte_of c \<and> byte_of c \<le> 57"

definition is_letter :: "char \<Rightarrow> bool" where
  "is_letter c \<longleftrightarrow> (65 \<le> byte_of c \<and> byte_of c \<le> 90) \<or> (97 \<le> byte_of c \<and> byte_of c \<le> 122)"

definition digit_val :: "char \<Rightarrow> int" where
  "digit_val c = int (byte_of c) - 48"

text \<open>\<open>strings.HasPrefix\<close>.\<close>

definition HasPrefix :: "string \<Rightarrow> string \<Rightarrow> bool" where
  "HasPrefix s p \<longleftrightarrow> take (length p) s = p"

text \<open>\<open>strings.Join\<close>.\<close>

fun Join :: "string list \<Rightarrow> string \<Rightarrow> string" where
  "Join [] sep = []"
| "Join [x] sep = x"
| "Join (x # y # xs) sep = x @ sep @ Join (y # xs) sep"

lemma HasPrefix_append [simp]: "HasPrefix (p @ s) p"
  by (simp add: HasPrefix_def)

lemma HasPrefix_decomp: "HasPrefix s p \<longleftrightarrow> (\<exists>t. s = p @ t)"
  unfolding HasPrefix_def by (metis append_eq_conv_conj append_take_drop_id)

lemma Join_Cons: "xs \<noteq> [] \<Longrightarrow> Join (x # xs) sep = x @ sep @ Join xs sep"
  by (cases xs) simp_all

lemma Join_snoc: "xs \<noteq> [] \<Longrightarrow> Join (xs @ [x]) sep = Join xs sep @ sep @ x"
  by (induction xs sep rule: Join.induct) simp_all

lemma length_Join:
  "length (Join xs sep) = sum_list (map length xs) + (length xs - 1) * length sep"
proof (induction xs)
  case (Cons x xs)
  then show ?case by (cases xs) (simp_all add: algebra_simps)
qed simp

section \<open>64-bit integers\<close>

definition int64_min :: int where "int64_min = - (2 ^ 63)"
definition int64_max :: int where "int64_max = 2 ^ 63 - 1"

text \<open>The value a Go \<open>int64\<close> (or \<open>int\<close>) holds after an operation whose exact result is \<open>i\<close>.\<close>

definition wrap64 :: "int \<Rightarrow> int" where
  "wrap64 i = sint (word_of_int i :: 64 word)"

lemma wrap64_alt: "wrap64 i = (i + 2 ^ 63) mod 2 ^ 64 - 2 ^ 63"
  unfolding wrap64_def by (simp add: sint_word_ariths signed_take_bit_eq_take_bit_shift
      take_bit_eq_mod signed_of_int word_of_int_eq_iff sint_sbintrunc')

lemma wrap64_range: "int64_min \<le> wrap64 i \<and> wrap64 i \<le> int64_max"
proof -
  have "0 \<le> (i + 2 ^ 63) mod (2 ^ 64 :: int)" and "(i + 2 ^ 63) mod (2 ^ 64 :: int) < 2 ^ 64"
    by simp_all
  then show ?thesis unfolding wrap64_alt int64_min_def int64_max_def by simp
qed

lemma wrap64_id: "int64_min \<le> i \<Longrightarrow> i \<le> int64_max \<Longrightarrow> wrap64 i = i"
  unfolding wrap64_alt int64_min_def int64_max_def by simp

text \<open>
  \<open>strconv.Atoi\<close>: an optional sign, at least one decimal digit, and a value that fits 64 bits;
  \<open>None\<close> is the error.
\<close>

fun digits_val :: "int \<Rightarrow> string \<Rightarrow> int" where
  "digits_val acc [] = acc"
| "digits_val acc (c # cs) = digits_val (acc * 10 + digit_val c) cs"

definition all_digits :: "string \<Rightarrow> bool" where
  "all_digits s \<longleftrightarrow> s \<noteq> [] \<and> (\<forall>c \<in> set s. is_digit c)"

definition Atoi :: "string \<Rightarrow> int option" where
  "Atoi s =
     (let neg = (case s of c # _ \<Rightarrow> c = CHR ''-'' | [] \<Rightarrow> False);
          ds = (case s of c # cs \<Rightarrow> if c = CHR ''-'' \<or> c = CHR ''+'' then cs else s | [] \<Rightarrow> s);
          n = (if neg then - digits_val 0 ds else digits_val 0 ds)
      in if all_digits ds \<and> int64_min \<le> n \<and> n \<le> int64_max then Some n else None)"

lemma Atoi_range: "Atoi s = Some n \<Longrightarrow> int64_min \<le> n \<and> n \<le> int64_max"
  by (auto simp: Atoi_def Let_def split: if_splits)

lemma digit_val_range: "is_digit c \<Longrightarrow> 0 \<le> digit_val c \<and> digit_val c \<le> 9"
  by (auto simp: is_digit_def digit_val_def)

lemma digits_val_nonneg: "0 \<le> acc \<Longrightarrow> \<forall>c \<in> set s. is_digit c \<Longrightarrow> 0 \<le> digits_val acc s"
  by (induction s arbitrary: acc) (auto dest: digit_val_range)

lemma digits_val_bound:
  "0 \<le> acc \<Longrightarrow> \<forall>c \<in> set s. is_digit c \<Longrightarrow> digits_val acc s < (acc + 1) * 10 ^ length s"
proof (induction s arbitrary: acc)
  case (Cons c cs)
  let ?a = "acc * 10 + digit_val c"
  have d: "0 \<le> digit_val c" "digit_val c \<le> 9" using Cons.prems digit_val_range by auto
  then have "digits_val ?a cs < (?a + 1) * 10 ^ length cs"
    using Cons by simp
  also have "\<dots> \<le> ((acc + 1) * 10) * 10 ^ length cs"
    using d by (intro mult_right_mono) auto
  finally show ?case by (simp add: algebra_simps)
qed simp

text \<open>\<open>strconv.Itoa\<close>, and that \<open>Atoi\<close> reads it back.\<close>

definition digit_char :: "nat \<Rightarrow> char" where
  "digit_char d = char_of (48 + d)"

fun nat_digits :: "nat \<Rightarrow> string" where
  "nat_digits n = (if n < 10 then [digit_char n] else nat_digits (n div 10) @ [digit_char (n mod 10)])"

declare nat_digits.simps [simp del]

definition Itoa :: "int \<Rightarrow> string" where
  "Itoa i = (if i < 0 then CHR ''-'' # nat_digits (nat (- i)) else nat_digits (nat i))"

lemma digit_char_facts:
  assumes "d < 10"
  shows "is_digit (digit_char d)" "digit_val (digit_char d) = int d"
  using assms by (simp_all add: digit_char_def is_digit_def digit_val_def)

lemma digits_val_append: "digits_val acc (s @ [c]) = digits_val acc s * 10 + digit_val c"
  by (induction s arbitrary: acc) simp_all

lemma nat_digits_facts: "all_digits (nat_digits n) \<and> digits_val 0 (nat_digits n) = int n"
proof (induction n rule: nat_digits.induct)
  case (1 n)
  show ?case
  proof (cases "n < 10")
    case True
    then show ?thesis by (simp add: nat_digits.simps [of n] all_digits_def digit_char_facts)
  next
    case False
    then have "all_digits (nat_digits (n div 10))" "digits_val 0 (nat_digits (n div 10)) = int (n div 10)"
      using 1 by auto
    moreover have "int (n div 10) * 10 + int (n mod 10) = int n"
      by (metis div_mult_mod_eq of_nat_add of_nat_mult of_nat_numeral)
    ultimately show ?thesis
      using False by (auto simp: nat_digits.simps [of n] all_digits_def digit_char_facts digits_val_append)
  qed
qed

lemma Atoi_Itoa:
  assumes "int64_min \<le> i" "i \<le> int64_max"
  shows "Atoi (Itoa i) = Some i"
proof (cases "i < 0")
  case True
  then show ?thesis using nat_digits_facts [of "nat (- i)"] assms by (simp add: Atoi_def Itoa_def)
next
  case False
  note f = nat_digits_facts [of "nat i"]
  then obtain c cs where c: "nat_digits (nat i) = c # cs" "is_digit c"
    by (cases "nat_digits (nat i)") (auto simp: all_digits_def)
  then have "c \<noteq> CHR ''-''" "c \<noteq> CHR ''+''" by (auto simp: is_digit_def)
  with c False f assms show ?thesis by (simp add: Atoi_def Itoa_def)
qed

text \<open>
  \<open>strconv.ParseFloat\<close> on decimal texts: sign, digits with an optional point, optional exponent.
  The other spellings it knows (hexadecimal, infinities, not-a-number) are never written by this
  program and count as the error \<open>None\<close>.
\<close>

definition is_exp :: "char \<Rightarrow> bool" where
  "is_exp c \<longleftrightarrow> c = CHR ''e'' \<or> c = CHR ''E''"

definition mantissa_val :: "string \<Rightarrow> real option" where
  "mantissa_val s =
     (let whole = takeWhile is_digit s; rest = dropWhile is_digit s;
          frac = (case rest of c # cs \<Rightarrow> if c = CHR ''.'' then cs else rest | [] \<Rightarrow> [])
      in if whole @ frac \<noteq> [] \<and> list_all is_digit frac
         then Some (real_of_int (digits_val 0 (whole @ frac)) / 10 ^ length frac) else None)"

definition ParseFloat :: "string \<Rightarrow> real option" where
  "ParseFloat s =
     (let neg = (case s of c # _ \<Rightarrow> c = CHR ''-'' | [] \<Rightarrow> False);
          body = (case s of c # cs \<Rightarrow> if c = CHR ''-'' \<or> c = CHR ''+'' then cs else s | [] \<Rightarrow> s);
          mant = takeWhile (\<lambda>c. \<not> is_exp c) body; expo = dropWhile (\<lambda>c. \<not> is_exp c) body
      in case (mantissa_val mant, if expo = [] then Some 0 else Atoi (tl expo)) of
           (Some m, Some e) \<Rightarrow> Some ((if neg then - m else m) * 10 powi e)
         | _ \<Rightarrow> None)"

section \<open>Association lists as Go maps\<close>

abbreviation keys_of :: "('k \<times> 'v) list \<Rightarrow> 'k set" where
  "keys_of m \<equiv> fst ` set m"

abbreviation wf_map :: "('k \<times> 'v) list \<Rightarrow> bool" where
  "wf_map m \<equiv> distinct (map fst m)"

lemma map_of_update [simp]: "map_of (AList.update k v m) = (map_of m)(k \<mapsto> v)"
  by (rule update_conv')

lemma map_of_delete [simp]: "map_of (AList.delete k m) = (map_of m)(k := None)"
  by (rule delete_conv')

text \<open>Lookups stay lookups: they are not turned into membership in the list of pairs.\<close>

declare map_of_eq_Some_iff [simp del] map_of_eq_None_iff [simp del]

lemma wf_map_update [simp]: "wf_map m \<Longrightarrow> wf_map (AList.update k v m)"
  by (rule distinct_update)

lemma wf_map_delete [simp]: "wf_map m \<Longrightarrow> wf_map (AList.delete k m)"
  by (rule distinct_delete)

lemma keys_of_update [simp]: "keys_of (AList.update k v m) = insert k (keys_of m)"
  by (metis dom_map_of_conv_image_fst map_of_update dom_fun_upd option.distinct(1))

lemma keys_of_iff: "k \<in> keys_of m \<longleftrightarrow> map_of m k \<noteq> None"
  by (simp add: map_of_eq_None_iff)

lemma map_of_notin: "k \<notin> keys_of m \<Longrightarrow> map_of m k = None"
  by (simp add: map_of_eq_None_iff)

lemma length_wf_map: "wf_map m \<Longrightarrow> length m = card (keys_of m)"
  by (metis distinct_card length_map set_map)

text \<open>Two maps of the same length, the first contained in the keys of the second.\<close>

lemma wf_map_same_keys:
  assumes "wf_map m" "wf_map n" "length m = length n" "keys_of m \<subseteq> keys_of n"
  shows "keys_of m = keys_of n"
  using assms by (metis card_subset_eq finite_imageI finite_set length_wf_map)

section \<open>Folds\<close>

lemma fold_invariant_simple:
  "P s \<Longrightarrow> (\<And>x s. x \<in> set xs \<Longrightarrow> P s \<Longrightarrow> P (f x s)) \<Longrightarrow> P (fold f xs s)"
  by (induction xs arbitrary: s) auto

lemma fold_unchanged:
  "(\<And>x s. x \<in> set xs \<Longrightarrow> g (f x s) = g s) \<Longrightarrow> g (fold f xs s) = g s"
  by (induction xs arbitrary: s) auto

end
