(* ===== verification/Geo.thy ===== *)
theory Geo
  imports Prelude
begin

text \<open>
  \<^verbatim>\<open>backend/internal/domain/geo.go\<close>: the great-circle ("air") distance between two coordinates.
  \<open>HaversineKm\<close> follows the Go body line by line; \<open>Atan2\<close> is \<open>math.Atan2\<close> on finite arguments.
  Arithmetic is exact: in the reals both radicands stay in the unit interval for latitudes within 90
  degrees (in \<open>float64\<close> the first can exceed 1 in its last digit between antipodes, and the result is then
  not a number).  The lemmas show that the distance is the radius times the central angle, symmetric, zero on
  identical points and exact along a meridian.  The locale \<open>air_distance\<close> is the contract the loss
  model and the router rely on.
\<close>

definition earthRadiusKm :: real where
  "earthRadiusKm = 6371.0088"

definition Atan2 :: "real \<Rightarrow> real \<Rightarrow> real" where
  "Atan2 y x =
     (if x > 0 then arctan (y / x)
      else if x < 0 then (if y \<ge> 0 then arctan (y / x) + pi else arctan (y / x) - pi)
      else if y > 0 then pi / 2 else if y < 0 then - (pi / 2) else 0)"

definition haversine_a :: "real \<Rightarrow> real \<Rightarrow> real \<Rightarrow> real \<Rightarrow> real" where
  "haversine_a lat1 lng1 lat2 lng2 =
     (let rad = pi / 180.0;
          dLat = (lat2 - lat1) * rad;
          dLng = (lng2 - lng1) * rad
      in sin (dLat / 2) * sin (dLat / 2)
         + cos (lat1 * rad) * cos (lat2 * rad) * sin (dLng / 2) * sin (dLng / 2))"

definition HaversineKm :: "real \<Rightarrow> real \<Rightarrow> real \<Rightarrow> real \<Rightarrow> real" where
  "HaversineKm lat1 lng1 lat2 lng2 =
     (let a = haversine_a lat1 lng1 lat2 lng2;
          c = 2 * Atan2 (sqrt a) (sqrt (1 - a))
      in earthRadiusKm * c)"

definition valid_lat :: "real \<Rightarrow> bool" where
  "valid_lat x \<longleftrightarrow> -90 \<le> x \<and> x \<le> 90"

definition valid_lng :: "real \<Rightarrow> bool" where
  "valid_lng x \<longleftrightarrow> -180 \<le> x \<and> x \<le> 180"

section \<open>Angles\<close>

lemma Atan2_nonneg: "0 \<le> y \<Longrightarrow> 0 \<le> x \<Longrightarrow> 0 \<le> Atan2 y x"
  by (auto simp: Atan2_def)

lemma Atan2_le_half_pi: "0 \<le> x \<Longrightarrow> Atan2 y x \<le> pi / 2"
  using arctan_ubound [of "y / x"] by (auto simp: Atan2_def less_imp_le)

lemma Atan2_sin_cos:
  assumes "0 \<le> t" "t \<le> pi / 2"
  shows "Atan2 (sin t) (cos t) = t"
proof (cases "t = pi / 2")
  case True
  then have "sin t = 1" "cos t = 0" by (simp_all only: sin_pi_half cos_pi_half)
  with True show ?thesis by (simp add: Atan2_def)
next
  case False
  with assms have t: "- (pi / 2) < t" "t < pi / 2" using pi_gt_zero by linarith+
  then have "0 < cos t" by (rule cos_gt_zero_pi)
  moreover have "arctan (tan t) = t" using t by (rule arctan_unique) simp
  ultimately show ?thesis by (simp add: Atan2_def tan_def)
qed

lemma cos_lat_nonneg:
  assumes "valid_lat x"
  shows "0 \<le> cos (x * (pi / 180))"
proof (rule cos_ge_zero)
  have "x * (pi / 180) \<le> 90 * (pi / 180)" "-90 * (pi / 180) \<le> x * (pi / 180)"
    using assms mult_right_mono [of x 90 "pi / 180"] mult_right_mono [of "-90" x "pi / 180"]
    by (simp_all add: valid_lat_def)
  then show "- (pi / 2) \<le> x * (pi / 180)" "x * (pi / 180) \<le> pi / 2" by simp_all
qed

text \<open>The formula over angles in radians; its two radicands stay in the unit interval.\<close>

definition hav_rad :: "real \<Rightarrow> real \<Rightarrow> real \<Rightarrow> real \<Rightarrow> real" where
  "hav_rad p l q m = (sin ((q - p) / 2))\<^sup>2 + cos p * cos q * (sin ((m - l) / 2))\<^sup>2"

lemma haversine_a_rad:
  "haversine_a lat1 lng1 lat2 lng2
     = hav_rad (lat1 * (pi / 180)) (lng1 * (pi / 180)) (lat2 * (pi / 180)) (lng2 * (pi / 180))"
  unfolding haversine_a_def hav_rad_def Let_def left_diff_distrib power2_eq_square
  by (simp add: mult.assoc)

lemma hav_rad_sym: "hav_rad p l q m = hav_rad q m p l"
proof -
  have flip: "(sin ((x - y) / 2))\<^sup>2 = (sin ((y - x) / 2))\<^sup>2" for x y :: real
  proof -
    have "(y - x) / 2 = - ((x - y) / 2)" by (simp add: field_simps)
    then show ?thesis by (simp only: sin_minus power2_minus)
  qed
  show ?thesis unfolding hav_rad_def flip [of q p] flip [of m l] by simp
qed

lemma half_angle_bound:
  fixes p q :: real
  shows "(sin ((q - p) / 2))\<^sup>2 + cos p * cos q \<le> 1"
proof -
  have "cos (2 * ((q - p) / 2)) = 1 - 2 * (sin ((q - p) / 2))\<^sup>2" by (rule cos_double_sin)
  then have "cos (q - p) = 1 - 2 * (sin ((q - p) / 2))\<^sup>2" by (simp only: mult_2 field_sum_of_halves)
  moreover have "cos (q - p) = cos q * cos p + sin q * sin p" by (rule cos_diff)
  moreover have "cos (p + q) = cos p * cos q - sin p * sin q" by (rule cos_add)
  moreover have "cos (p + q) \<le> 1" by simp
  ultimately have "2 * ((sin ((q - p) / 2))\<^sup>2 + cos p * cos q) = 1 + cos (p + q)"
    by (simp add: algebra_simps)
  moreover have "2 * x = 1 + y \<Longrightarrow> y \<le> 1 \<Longrightarrow> x \<le> 1" for x y :: real by simp
  ultimately show ?thesis using cos_le_one by blast
qed

lemma hav_rad_range:
  assumes "0 \<le> cos p" "0 \<le> cos q"
  shows "0 \<le> hav_rad p l q m" "hav_rad p l q m \<le> 1"
proof -
  show "0 \<le> hav_rad p l q m" using assms by (simp add: hav_rad_def)
  have "(sin ((m - l) / 2))\<^sup>2 \<le> 1" by (simp add: abs_square_le_1)
  then have "cos p * cos q * (sin ((m - l) / 2))\<^sup>2 \<le> cos p * cos q * 1"
    using assms by (intro mult_left_mono) auto
  then show "hav_rad p l q m \<le> 1"
    using half_angle_bound [of q p] by (simp add: hav_rad_def)
qed

lemma haversine_a_range:
  assumes "valid_lat lat1" "valid_lat lat2"
  shows "0 \<le> haversine_a lat1 lng1 lat2 lng2" "haversine_a lat1 lng1 lat2 lng2 \<le> 1"
  using hav_rad_range [OF cos_lat_nonneg [OF assms(1)] cos_lat_nonneg [OF assms(2)]]
  by (simp_all add: haversine_a_rad)

section \<open>Distance laws\<close>

lemma haversine_self: "HaversineKm lat lng lat lng = 0"
  by (simp add: HaversineKm_def haversine_a_def Atan2_def Let_def)

lemma haversine_sym: "HaversineKm lat1 lng1 lat2 lng2 = HaversineKm lat2 lng2 lat1 lng1"
  unfolding HaversineKm_def haversine_a_rad by (subst hav_rad_sym) (rule refl)

lemma haversine_nonneg:
  assumes "valid_lat lat1" "valid_lat lat2"
  shows "0 \<le> HaversineKm lat1 lng1 lat2 lng2"
  using haversine_a_range [OF assms]
  by (simp add: HaversineKm_def Let_def earthRadiusKm_def Atan2_nonneg)

lemma haversine_bound:
  assumes "valid_lat lat1" "valid_lat lat2"
  shows "HaversineKm lat1 lng1 lat2 lng2 \<le> pi * earthRadiusKm"
proof -
  let ?a = "haversine_a lat1 lng1 lat2 lng2"
  have "0 \<le> sqrt (1 - ?a)" using haversine_a_range(2) [OF assms] by simp
  then have "Atan2 (sqrt ?a) (sqrt (1 - ?a)) \<le> pi / 2" by (rule Atan2_le_half_pi)
  then show ?thesis by (simp add: HaversineKm_def Let_def earthRadiusKm_def)
qed

lemma haversine_meridian:
  assumes "\<bar>lat2 - lat1\<bar> \<le> 180"
  shows "HaversineKm lat1 lng lat2 lng = earthRadiusKm * (\<bar>lat2 - lat1\<bar> * (pi / 180))"
proof -
  define t where "t = \<bar>lat2 - lat1\<bar> * (pi / 180) / 2"
  have t: "0 \<le> t" "t \<le> pi / 2" using assms by (auto simp: t_def field_simps)
  have "(lat2 - lat1) * (pi / 180) / 2 \<in> {t, - t}"
    by (cases "lat1 \<le> lat2") (auto simp: t_def abs_if field_simps)
  then have "sin ((lat2 - lat1) * (pi / 180) / 2) \<in> {sin t, - sin t}"
    by (metis insert_iff singletonD sin_minus)
  then have a: "haversine_a lat1 lng lat2 lng = (sin t)\<^sup>2"
    by (auto simp: haversine_a_def Let_def power2_eq_square)
  have "0 \<le> sin t" and "0 \<le> cos t"
    using t pi_gt_zero by (auto intro!: sin_ge_zero cos_ge_zero)
  then have "sqrt ((sin t)\<^sup>2) = sin t" "sqrt (1 - (sin t)\<^sup>2) = cos t"
    by (simp_all flip: cos_squared_eq)
  then show ?thesis
    by (simp add: HaversineKm_def a Let_def Atan2_sin_cos [OF t]) (simp add: t_def)
qed

text \<open>The angle between the two points as seen from the centre of the sphere.\<close>

definition central_angle :: "real \<Rightarrow> real \<Rightarrow> real \<Rightarrow> real \<Rightarrow> real" where
  "central_angle p l q m = arccos (sin p * sin q + cos p * cos q * cos (m - l))"

lemma hav_rad_cos: "1 - 2 * hav_rad p l q m = sin p * sin q + cos p * cos q * cos (m - l)"
proof -
  have half: "2 * (sin (x / 2))\<^sup>2 = 1 - cos x" for x :: real
    using cos_double_sin [of "x / 2"] by simp
  have "1 - 2 * hav_rad p l q m = 1 - 2 * (sin ((q - p) / 2))\<^sup>2 - cos p * cos q * (2 * (sin ((m - l) / 2))\<^sup>2)"
    by (simp add: hav_rad_def algebra_simps)
  also have "\<dots> = cos (q - p) - cos p * cos q * (1 - cos (m - l))" by (simp only: half)
  also have "\<dots> = sin p * sin q + cos p * cos q * cos (m - l)" by (simp add: cos_diff algebra_simps)
  finally show ?thesis .
qed

lemma half_angle_Atan2:
  assumes "0 \<le> a" "a \<le> 1"
  shows "2 * Atan2 (sqrt a) (sqrt (1 - a)) = arccos (1 - 2 * a)"
proof (rule arccos_unique [symmetric])
  let ?t = "arcsin (sqrt a)"
  have t: "sin ?t = sqrt a" "0 \<le> ?t" "?t \<le> pi / 2"
    using assms arcsin_bounded [of "sqrt a"] arcsin_le_arcsin [of 0 "sqrt a"]
    by (simp_all add: order_trans [of "-1" 0 "sqrt a"] arcsin_0)
  then have "cos ?t = sqrt (1 - a)"
    using assms cos_arcsin [of "sqrt a"] by (simp add: order_trans [of "-1" 0 "sqrt a"])
  then have at: "Atan2 (sqrt a) (sqrt (1 - a)) = ?t" using Atan2_sin_cos [OF t(2,3)] t(1) by simp
  show "0 \<le> 2 * Atan2 (sqrt a) (sqrt (1 - a))" "2 * Atan2 (sqrt a) (sqrt (1 - a)) \<le> pi" using t by (simp_all add: at)
  show "cos (2 * Atan2 (sqrt a) (sqrt (1 - a))) = 1 - 2 * a" using assms by (simp add: at cos_double_sin t(1))
qed

lemma haversine_angle:
  assumes "valid_lat lat1" "valid_lat lat2"
  shows "HaversineKm lat1 lng1 lat2 lng2 =
    earthRadiusKm * central_angle (lat1 * (pi / 180)) (lng1 * (pi / 180)) (lat2 * (pi / 180)) (lng2 * (pi / 180))"
  unfolding HaversineKm_def Let_def half_angle_Atan2 [OF haversine_a_range [OF assms]]
  unfolding haversine_a_rad hav_rad_cos central_angle_def ..

section \<open>The contract the other components use\<close>

locale air_distance =
  fixes dist :: "real \<Rightarrow> real \<Rightarrow> real \<Rightarrow> real \<Rightarrow> real"
  assumes dist_self: "dist la lo la lo = 0"
    and dist_sym: "dist la1 lo1 la2 lo2 = dist la2 lo2 la1 lo1"
    and dist_nonneg: "valid_lat la1 \<Longrightarrow> valid_lat la2 \<Longrightarrow> 0 \<le> dist la1 lo1 la2 lo2"
begin

lemma in_range_sym: "dist la1 lo1 la2 lo2 \<le> r \<longleftrightarrow> dist la2 lo2 la1 lo1 \<le> r"
  by (simp add: dist_sym)

lemma own_position_in_range: "0 \<le> r \<Longrightarrow> dist la lo la lo \<le> r"
  by (simp add: dist_self)

end

interpretation hav: air_distance HaversineKm
  by unfold_locales (simp_all add: haversine_self haversine_nonneg haversine_sym)

section \<open>Properties\<close>

text \<open>
  C33. For latitudes in [-90, 90], and up to rounding, the code computes the great-circle distance: the Earth's
  radius times the angle at the centre between the two positions, whose cosine is the inner product of their
  directions.  It is symmetric, zero from a point to itself, at most half the circumference, and does not change
  when a full turn is added to a longitude.
\<close>

theorem HaversineKm_distance:
  assumes "valid_lat lat1" "valid_lat lat2"
  shows "HaversineKm lat1 lng1 lat2 lng2 = earthRadiusKm * arccos
      (sin (lat1 * (pi / 180)) * sin (lat2 * (pi / 180)) +
       cos (lat1 * (pi / 180)) * cos (lat2 * (pi / 180)) * cos (lng2 * (pi / 180) - lng1 * (pi / 180))) \<and>
    HaversineKm lat1 lng1 lat2 lng2 = HaversineKm lat2 lng2 lat1 lng1 \<and>
    HaversineKm lat1 lng1 lat1 lng1 = 0 \<and>
    0 \<le> HaversineKm lat1 lng1 lat2 lng2 \<and> HaversineKm lat1 lng1 lat2 lng2 \<le> pi * earthRadiusKm \<and>
    HaversineKm lat1 lng1 lat2 (lng2 + 360) = HaversineKm lat1 lng1 lat2 lng2"
proof -
  have turn: "(lng2 + 360) * (pi / 180) - lng1 * (pi / 180) = (lng2 * (pi / 180) - lng1 * (pi / 180)) + 2 * pi"
    by (simp add: field_simps)
  have "HaversineKm lat1 lng1 lat2 (lng2 + 360) = HaversineKm lat1 lng1 lat2 lng2"
    unfolding haversine_angle [OF assms] central_angle_def turn by (simp only: cos_periodic)
  then show ?thesis
    using haversine_angle [OF assms, unfolded central_angle_def] haversine_sym haversine_self
      haversine_nonneg [OF assms] haversine_bound [OF assms] by blast
qed

text \<open>A quarter of the equator, a half of a meridian, and the same point named twice.\<close>

theorem HaversineKm_distance_witness:
  "HaversineKm 0 0 0 90 = earthRadiusKm * (pi / 2) \<and> HaversineKm 90 7 (-90) 7 = earthRadiusKm * pi \<and>
   HaversineKm 10 (-180) 10 180 = 0"
proof -
  note d = HaversineKm_distance [unfolded valid_lat_def]
  have "HaversineKm 0 0 0 90 = earthRadiusKm * (pi / 2)" using d [of 0 0 0 90] by simp
  moreover have "HaversineKm 90 7 (-90) 7 = earthRadiusKm * pi" using d [of 90 "-90" 7 7] by simp
  moreover have "HaversineKm 10 (-180) 10 180 = 0" using conjunct2 [OF d [of 10 10 "-180" "-180"]] by simp
  ultimately show ?thesis by blast
qed

end
