(* ===== verification/Radio.thy ===== *)
theory Radio
  imports Geo
begin

text \<open>
  The radio physics: \<^verbatim>\<open>domain/lora.go\<close> (payload ceilings, ACK timeouts, range, parameter
  validation), \<^verbatim>\<open>domain/packetloss.go\<close> (the loss model) and \<^verbatim>\<open>service/anomaly.go\<close> (the dice).
  A \<open>time.Duration\<close> is its number of nanoseconds.  The injectable random source of the anomaly
  service is a function on the world it draws from; \<open>uniform01\<close> states what \<open>rand.Float64\<close>
  documents.
\<close>

section \<open>Physical-layer constants (lora.go)\<close>

definition MinSpreadingFactor :: int where "MinSpreadingFactor = 7"
definition MaxSpreadingFactor :: int where "MaxSpreadingFactor = 12"
definition MinTxPowerDbm :: int where "MinTxPowerDbm = 2"
definition MaxTxPowerDbm :: int where "MaxTxPowerDbm = 20"
definition MaxRetries :: int where "MaxRetries = 3"
definition MinWeatherSeverity :: real where "MinWeatherSeverity = 0.0"
definition MaxWeatherSeverity :: real where "MaxWeatherSeverity = 2.0"

lemmas lora_consts = MinSpreadingFactor_def MaxSpreadingFactor_def MinTxPowerDbm_def
  MaxTxPowerDbm_def MaxRetries_def MinWeatherSeverity_def MaxWeatherSeverity_def

type_synonym duration = int

definition Millisecond :: duration where "Millisecond = 1000000"
definition Second :: duration where "Second = 1000 * Millisecond"
definition Minute :: duration where "Minute = 60 * Second"

lemmas duration_consts = Millisecond_def Second_def Minute_def

definition MaxPayloadBytes :: "int \<Rightarrow> int" where
  "MaxPayloadBytes sf = (if sf \<le> 8 then 242 else if sf = 9 then 115 else 51)"

definition ackTimeouts :: "(int \<times> duration) list" where
  "ackTimeouts =
     [(7, 1000 * Millisecond), (8, 1500 * Millisecond), (9, 2500 * Millisecond),
      (10, 4000 * Millisecond), (11, 6500 * Millisecond), (12, 10000 * Millisecond)]"

text \<open>Indexing a Go map with a missing key yields the zero value.\<close>

definition ackTimeout_at :: "int \<Rightarrow> duration" where
  "ackTimeout_at sf = (case map_of ackTimeouts sf of Some d \<Rightarrow> d | None \<Rightarrow> 0)"

definition AckTimeout :: "int \<Rightarrow> duration" where
  "AckTimeout sf =
     (case map_of ackTimeouts sf of
        Some d \<Rightarrow> d
      | None \<Rightarrow> if sf < MinSpreadingFactor then ackTimeout_at MinSpreadingFactor
                else ackTimeout_at MaxSpreadingFactor)"

text \<open>\<open>Duration.Milliseconds\<close>, the truncated quotient (durations here are not negative).\<close>

definition Milliseconds :: "duration \<Rightarrow> int" where
  "Milliseconds d = d div Millisecond"

definition MaxRangeKm :: "int \<Rightarrow> real" where
  "MaxRangeKm txPowerDbm = 5.0 * 2 powr (real_of_int (txPowerDbm - 14) / 6.0)"

definition ValidateSpreadingFactor :: "int \<Rightarrow> unit res" where
  "ValidateSpreadingFactor sf =
     (if sf < MinSpreadingFactor \<or> sf > MaxSpreadingFactor
      then Inl (ErrValidation (SFOutOfRange sf)) else Inr ())"

definition ValidateTxPower :: "int \<Rightarrow> unit res" where
  "ValidateTxPower dbm =
     (if dbm < MinTxPowerDbm \<or> dbm > MaxTxPowerDbm
      then Inl (ErrValidation (TxOutOfRange dbm)) else Inr ())"

definition ValidateWeatherSeverity :: "real \<Rightarrow> unit res" where
  "ValidateWeatherSeverity ws =
     (if ws < MinWeatherSeverity \<or> ws > MaxWeatherSeverity
      then Inl (ErrValidation (WeatherOutOfRange ws)) else Inr ())"

section \<open>Artificial packet loss (packetloss.go)\<close>

definition BaseLossPercent :: "real \<Rightarrow> real" where
  "BaseLossPercent distanceKm =
     (if distanceKm \<le> 2.0 then 5.0 else if distanceKm \<le> 5.0 then 20.0 else 60.0)"

definition FinalLossPercent :: "real \<Rightarrow> real \<Rightarrow> real \<Rightarrow> real" where
  "FinalLossPercent distanceKm maxRangeKm weatherSeverity =
     (if distanceKm > maxRangeKm then 100.0
      else let p = BaseLossPercent distanceKm * weatherSeverity
           in if p > 100.0 then 100.0 else if p < 0 then 0 else p)"

definition RollDrop :: "real \<Rightarrow> real \<Rightarrow> bool" where
  "RollDrop roll finalLossPercent \<longleftrightarrow> roll < finalLossPercent"

section \<open>The dice (state\_repo.go SessionParams, anomaly.go)\<close>

record SessionParams =
  sp_SpreadingFactor :: int
  sp_TxPowerDbm :: int
  sp_WeatherSeverity :: real

record TraversalVerdict =
  tv_Dropped :: bool
  tv_OutOfRange :: bool
  tv_DistanceKm :: real
  tv_LossPercent :: real

definition Evaluate ::
  "('w \<Rightarrow> real \<times> 'w) \<Rightarrow> real \<Rightarrow> SessionParams \<Rightarrow> 'w \<Rightarrow> TraversalVerdict \<times> 'w" where
  "Evaluate randFloat01 distanceKm params w =
     (let maxRange = MaxRangeKm (sp_TxPowerDbm params);
          loss = FinalLossPercent distanceKm maxRange (sp_WeatherSeverity params);
          (r, w') = randFloat01 w;
          roll = r * 100.0
      in (\<lparr>tv_Dropped = RollDrop roll loss, tv_OutOfRange = distanceKm > maxRange,
           tv_DistanceKm = distanceKm, tv_LossPercent = loss\<rparr>, w'))"

definition uniform01 :: "('w \<Rightarrow> real \<times> 'w) \<Rightarrow> bool" where
  "uniform01 rand \<longleftrightarrow> (\<forall>w. 0 \<le> fst (rand w) \<and> fst (rand w) < 1)"

section \<open>Parameter envelopes\<close>

definition valid_radio :: "SessionParams \<Rightarrow> bool" where
  "valid_radio p \<longleftrightarrow>
     MinSpreadingFactor \<le> sp_SpreadingFactor p \<and> sp_SpreadingFactor p \<le> MaxSpreadingFactor \<and>
     MinTxPowerDbm \<le> sp_TxPowerDbm p \<and> sp_TxPowerDbm p \<le> MaxTxPowerDbm \<and>
     MinWeatherSeverity \<le> sp_WeatherSeverity p \<and> sp_WeatherSeverity p \<le> MaxWeatherSeverity"

lemma Validate_ok_iff [simp]:
  "ValidateSpreadingFactor sf = Inr () \<longleftrightarrow> MinSpreadingFactor \<le> sf \<and> sf \<le> MaxSpreadingFactor"
  "ValidateTxPower dbm = Inr () \<longleftrightarrow> MinTxPowerDbm \<le> dbm \<and> dbm \<le> MaxTxPowerDbm"
  "ValidateWeatherSeverity ws = Inr () \<longleftrightarrow> MinWeatherSeverity \<le> ws \<and> ws \<le> MaxWeatherSeverity"
  by (auto simp: ValidateSpreadingFactor_def ValidateTxPower_def ValidateWeatherSeverity_def)

lemma payload_limit_cases:
  assumes "7 \<le> sf" "sf \<le> 12"
  shows "MaxPayloadBytes sf = (if sf \<le> 8 then 242 else if sf = 9 then 115 else 51)"
    and "51 \<le> MaxPayloadBytes sf" "MaxPayloadBytes sf \<le> 242"
  by (auto simp: MaxPayloadBytes_def)

lemma payload_limit_antimono: "sf \<le> sf' \<Longrightarrow> MaxPayloadBytes sf' \<le> MaxPayloadBytes sf"
  by (auto simp: MaxPayloadBytes_def)

lemma AckTimeout_table:
  "AckTimeout 7 = 1 * Second" "AckTimeout 8 = 1500 * Millisecond"
  "AckTimeout 9 = 2500 * Millisecond" "AckTimeout 10 = 4 * Second"
  "AckTimeout 11 = 6500 * Millisecond" "AckTimeout 12 = 10 * Second"
  by (simp_all add: AckTimeout_def ackTimeouts_def duration_consts)

lemma AckTimeout_outside:
  "sf < 7 \<Longrightarrow> AckTimeout sf = AckTimeout 7" "12 < sf \<Longrightarrow> AckTimeout sf = AckTimeout 12"
  by (auto simp: AckTimeout_def ackTimeouts_def ackTimeout_at_def lora_consts)

lemma sf_window_cases:
  "7 \<le> (sf::int) \<Longrightarrow> sf \<le> 12 \<Longrightarrow> sf = 7 \<or> sf = 8 \<or> sf = 9 \<or> sf = 10 \<or> sf = 11 \<or> sf = 12"
  by arith

lemma AckTimeout_window:
  assumes "7 \<le> sf" "sf < sf'" "sf' \<le> 12"
  shows "AckTimeout sf < AckTimeout sf'"
proof -
  have "sf = 7 \<or> sf = 8 \<or> sf = 9 \<or> sf = 10 \<or> sf = 11"
    and "sf' = 8 \<or> sf' = 9 \<or> sf' = 10 \<or> sf' = 11 \<or> sf' = 12"
    using assms by arith+
  with assms(2) show ?thesis
    by (elim disjE) (simp_all add: AckTimeout_table duration_consts)
qed

lemma AckTimeout_bounds: "1 * Second \<le> AckTimeout sf" "AckTimeout sf \<le> 10 * Second"
proof -
  have *: "sf < 7 \<or> (sf = 7 \<or> sf = 8 \<or> sf = 9 \<or> sf = 10 \<or> sf = 11 \<or> sf = 12) \<or> 12 < sf"
    by arith
  show "1 * Second \<le> AckTimeout sf" "AckTimeout sf \<le> 10 * Second"
    using * by (elim disjE; simp add: AckTimeout_outside AckTimeout_table duration_consts)+
qed

section \<open>Range\<close>

lemma MaxRangeKm_pos: "0 < MaxRangeKm tx"
  by (simp add: MaxRangeKm_def)

lemma MaxRangeKm_strict_mono: "tx < tx' \<Longrightarrow> MaxRangeKm tx < MaxRangeKm tx'"
  by (simp add: MaxRangeKm_def divide_strict_right_mono)

lemma MaxRangeKm_mono: "tx \<le> tx' \<Longrightarrow> MaxRangeKm tx \<le> MaxRangeKm tx'"
  using MaxRangeKm_strict_mono by (cases "tx = tx'") (auto simp: less_le)

lemma MaxRangeKm_plus_6: "MaxRangeKm (tx + 6) = 2 * MaxRangeKm tx"
proof -
  have "real_of_int (tx + 6 - 14) / 6 = real_of_int (tx - 14) / 6 + 1" by (simp add: field_simps)
  then have "2 powr (real_of_int (tx + 6 - 14) / 6) = 2 * 2 powr (real_of_int (tx - 14) / 6)"
    by (simp only: powr_add) simp
  then show ?thesis unfolding MaxRangeKm_def by simp
qed

lemma MaxRangeKm_anchors: "MaxRangeKm 14 = 5" "MaxRangeKm 20 = 10" "MaxRangeKm 8 = 5 / 2" "MaxRangeKm 2 = 5 / 4"
proof -
  show a: "MaxRangeKm 14 = 5" by (simp add: MaxRangeKm_def)
  then show "MaxRangeKm 20 = 10" using MaxRangeKm_plus_6 [of 14] by simp
  show b: "MaxRangeKm 8 = 5 / 2" using a MaxRangeKm_plus_6 [of 8] by simp
  then show "MaxRangeKm 2 = 5 / 4" using MaxRangeKm_plus_6 [of 2] by simp
qed

lemma MaxRangeKm_envelope:
  "MinTxPowerDbm \<le> tx \<Longrightarrow> tx \<le> MaxTxPowerDbm \<Longrightarrow> 5 / 4 \<le> MaxRangeKm tx \<and> MaxRangeKm tx \<le> 10"
  using MaxRangeKm_mono [of 2 tx] MaxRangeKm_mono [of tx 20]
  by (simp add: MaxRangeKm_anchors lora_consts)

section \<open>Loss\<close>

lemma FinalLossPercent_range:
  "0 \<le> FinalLossPercent d r w" "FinalLossPercent d r w \<le> 100"
  by (auto simp: FinalLossPercent_def Let_def)

lemma FinalLossPercent_out_of_range [simp]: "r < d \<Longrightarrow> FinalLossPercent d r w = 100"
  by (simp add: FinalLossPercent_def)

lemma FinalLossPercent_calm [simp]: "d \<le> r \<Longrightarrow> FinalLossPercent d r 0 = 0"
  by (simp add: FinalLossPercent_def Let_def)

lemma FinalLossPercent_in_range:
  "d \<le> r \<Longrightarrow> 0 \<le> w \<Longrightarrow> FinalLossPercent d r w = min 100 (BaseLossPercent d * w)"
  by (auto simp: FinalLossPercent_def BaseLossPercent_def Let_def min_def)

lemma BaseLossPercent_mono: "d \<le> d' \<Longrightarrow> BaseLossPercent d \<le> BaseLossPercent d'"
  by (auto simp: BaseLossPercent_def)

lemma BaseLossPercent_range: "5 \<le> BaseLossPercent d" "BaseLossPercent d \<le> 60"
  by (auto simp: BaseLossPercent_def)

lemma FinalLossPercent_mono_distance:
  assumes "d \<le> d'" "0 \<le> w"
  shows "FinalLossPercent d r w \<le> FinalLossPercent d' r w"
proof (cases "d' \<le> r")
  case True
  then show ?thesis using assms BaseLossPercent_mono [OF assms(1)]
    by (simp add: FinalLossPercent_in_range min.coboundedI2 mult_right_mono min_le_iff_disj)
next
  case False
  then show ?thesis using FinalLossPercent_range(2) [of d r w] by simp
qed

lemma FinalLossPercent_mono_weather:
  assumes "0 \<le> w" "w \<le> w'"
  shows "FinalLossPercent d r w \<le> FinalLossPercent d r w'"
proof (cases "d \<le> r")
  case True
  have "BaseLossPercent d * w \<le> BaseLossPercent d * w'"
    using assms BaseLossPercent_range(1) [of d] by (intro mult_left_mono) auto
  then show ?thesis using True assms by (auto simp: FinalLossPercent_in_range min_def)
qed simp

lemma FinalLossPercent_antimono_range:
  assumes "r \<le> r'"
  shows "FinalLossPercent d r' w \<le> FinalLossPercent d r w"
  using assms FinalLossPercent_range(2) [of d r' w]
  by (cases "d \<le> r") (simp_all add: FinalLossPercent_def)

text \<open>The rolls that drop a frame are exactly an interval whose length is the loss percentage.\<close>

lemma dropping_rolls:
  "{roll. 0 \<le> roll \<and> roll < 100 \<and> RollDrop roll (FinalLossPercent d r w)}
     = {0..<FinalLossPercent d r w}"
  using FinalLossPercent_range(2) [of d r w] by (auto simp: RollDrop_def)

section \<open>Verdicts\<close>

lemma Evaluate_fields:
  assumes "Evaluate rand d p w = (v, w')"
  shows "w' = snd (rand w)" "tv_DistanceKm v = d"
    "tv_OutOfRange v \<longleftrightarrow> MaxRangeKm (sp_TxPowerDbm p) < d"
    "tv_LossPercent v = FinalLossPercent d (MaxRangeKm (sp_TxPowerDbm p)) (sp_WeatherSeverity p)"
    "tv_Dropped v \<longleftrightarrow> RollDrop (fst (rand w) * 100) (tv_LossPercent v)"
  using assms by (auto simp: Evaluate_def Let_def split: prod.splits)

lemma Evaluate_out_of_range:
  assumes "uniform01 rand" "Evaluate rand d p w = (v, w')" "MaxRangeKm (sp_TxPowerDbm p) < d"
  shows "tv_Dropped v \<and> tv_OutOfRange v"
proof -
  have "fst (rand w) * 100 < 100" using assms(1) by (simp add: uniform01_def)
  then show ?thesis using Evaluate_fields [OF assms(2)] assms(3) by (simp add: RollDrop_def)
qed

lemma Evaluate_survives:
  assumes "uniform01 rand" "Evaluate rand d p w = (v, w')" "\<not> tv_Dropped v"
  shows "d \<le> MaxRangeKm (sp_TxPowerDbm p)" "\<not> tv_OutOfRange v"
  using Evaluate_out_of_range [OF assms(1,2)] Evaluate_fields(3) [OF assms(2)] assms(3)
  by (auto simp: not_less)

section \<open>Properties\<close>

text \<open>
  C27. For every distance and every session, the verdict drops a frame exactly when the draw falls
  in an initial segment of [0, 1) whose length is the loss percentage: the configured percentage
  is the probability of loss, always between 0 and 100 percent, and beyond the radio range every
  draw drops the frame.
\<close>

theorem Evaluate_loss_probability:
  "{u. 0 \<le> u \<and> u < 1 \<and> tv_Dropped (fst (Evaluate (\<lambda>_. (u, ())) d p ()))}
     = {0..<tv_LossPercent (fst (Evaluate (\<lambda>_. (u0, ())) d p ())) / 100} \<and>
   0 \<le> tv_LossPercent (fst (Evaluate (\<lambda>_. (u0, ())) d p ())) \<and>
   tv_LossPercent (fst (Evaluate (\<lambda>_. (u0, ())) d p ())) \<le> 100 \<and>
   (tv_OutOfRange (fst (Evaluate (\<lambda>_. (u0, ())) d p ()))
      \<longrightarrow> tv_LossPercent (fst (Evaluate (\<lambda>_. (u0, ())) d p ())) = 100)"
proof -
  let ?l = "FinalLossPercent d (MaxRangeKm (sp_TxPowerDbm p)) (sp_WeatherSeverity p)"
  have "fst (Evaluate (\<lambda>_. (u, ())) d p ()) =
      \<lparr>tv_Dropped = u * 100 < ?l, tv_OutOfRange = MaxRangeKm (sp_TxPowerDbm p) < d,
       tv_DistanceKm = d, tv_LossPercent = ?l\<rparr>" for u
    by (simp add: Evaluate_def RollDrop_def Let_def)
  then show ?thesis
    using FinalLossPercent_range [of d "MaxRangeKm (sp_TxPowerDbm p)" "sp_WeatherSeverity p"] by auto
qed

theorem Evaluate_loss_probability_witness:
  "tv_LossPercent (fst (Evaluate (\<lambda>_. (0, ())) 6
     \<lparr>sp_SpreadingFactor = 7, sp_TxPowerDbm = 14, sp_WeatherSeverity = 0\<rparr> ())) = 100"
  using Evaluate_loss_probability [of 6 "\<lparr>sp_SpreadingFactor = 7, sp_TxPowerDbm = 14, sp_WeatherSeverity = 0\<rparr>" 0]
  by (simp add: Evaluate_def Let_def MaxRangeKm_anchors)

text \<open>
  On the same draw, a frame that is lost stays lost when the receiver is further away, the
  weather is worse or the transmission power is lower.
\<close>

theorem Evaluate_monotone:
  assumes "d \<le> d'" "0 \<le> sp_WeatherSeverity p" "sp_WeatherSeverity p \<le> sp_WeatherSeverity p'"
    and "sp_TxPowerDbm p' \<le> sp_TxPowerDbm p"
    and "tv_Dropped (fst (Evaluate rand d p w))"
  shows "tv_Dropped (fst (Evaluate rand d' p' w))"
proof -
  have "FinalLossPercent d (MaxRangeKm (sp_TxPowerDbm p)) (sp_WeatherSeverity p)
      \<le> FinalLossPercent d' (MaxRangeKm (sp_TxPowerDbm p)) (sp_WeatherSeverity p)"
    by (rule FinalLossPercent_mono_distance [OF assms(1,2)])
  also have "\<dots> \<le> FinalLossPercent d' (MaxRangeKm (sp_TxPowerDbm p)) (sp_WeatherSeverity p')"
    by (rule FinalLossPercent_mono_weather [OF assms(2,3)])
  also have "\<dots> \<le> FinalLossPercent d' (MaxRangeKm (sp_TxPowerDbm p')) (sp_WeatherSeverity p')"
    by (rule FinalLossPercent_antimono_range [OF MaxRangeKm_mono [OF assms(4)]])
  finally show ?thesis
    using assms(5) by (simp add: Evaluate_def Let_def RollDrop_def split: prod.splits)
qed

theorem Evaluate_monotone_witness:
  "tv_Dropped (fst (Evaluate (\<lambda>_. (1 / 100, ())) 3
     \<lparr>sp_SpreadingFactor = 7, sp_TxPowerDbm = 8, sp_WeatherSeverity = 2\<rparr> ()))"
proof (rule Evaluate_monotone [of 1 _ "\<lparr>sp_SpreadingFactor = 7, sp_TxPowerDbm = 14, sp_WeatherSeverity = 1\<rparr>"])
  show "tv_Dropped (fst (Evaluate (\<lambda>_. (1 / 100, ())) 1
     \<lparr>sp_SpreadingFactor = 7, sp_TxPowerDbm = 14, sp_WeatherSeverity = 1\<rparr> ()))"
    by (simp add: Evaluate_def RollDrop_def FinalLossPercent_def BaseLossPercent_def MaxRangeKm_anchors)
qed simp_all

end
