(* ===== verification/Packet.thy ===== *)
theory Packet
  imports Prelude
begin

text \<open>
  The mesh frame envelope, \<^verbatim>\<open>domain/packet.go\<close>, with \<open>MaxHops\<close> of \<^verbatim>\<open>domain/mesh.go\<close>, and
  the \<open>encoding/base64\<close> standard encoding its payload travels in.  \<open>Transmitter\<close> indexes the last
  entry of the routing path; \<open>None\<close> is the index-out-of-range panic on an empty path, which
  \<open>Validate\<close> excludes.
\<close>

section \<open>The envelope\<close>

definition MaxHops :: int where "MaxHops = 5"
definition maxIDLength :: int where "maxIDLength = 100"

record TransmitPacket =
  pk_Event :: string
  pk_PacketID :: string
  pk_OriginNode :: string
  pk_TargetParent :: string
  pk_HopCount :: int
  pk_RoutingPath :: "string list"
  pk_BinaryPayloadB64 :: string

definition bad_id :: "string \<Rightarrow> bool" where
  "bad_id s \<longleftrightarrow> s = [] \<or> int (length s) > maxIDLength"

definition Validate :: "TransmitPacket \<Rightarrow> unit res" where
  "Validate p =
     (if bad_id (pk_PacketID p) then Inl (ErrValidation PacketIDRequired)
      else if bad_id (pk_OriginNode p) then Inl (ErrValidation OriginNodeRequired)
      else if bad_id (pk_TargetParent p) then Inl (ErrValidation TargetParentRequired)
      else if pk_HopCount p < 1 then Inl (ErrValidation HopCountTooSmall)
      else if length (pk_RoutingPath p) = 0 then Inl (ErrValidation RoutingPathEmpty)
      else if int (length (pk_RoutingPath p)) > MaxHops + 1 then Inl (ErrValidation RoutingPathTooLong)
      else if pk_BinaryPayloadB64 p = [] then Inl (ErrValidation PayloadRequired)
      else if list_ex bad_id (pk_RoutingPath p) then Inl (ErrValidation RoutingPathBadNode)
      else Inr ())"

definition Transmitter :: "TransmitPacket \<Rightarrow> string option" where
  "Transmitter p = (if pk_RoutingPath p = [] then None else Some (last (pk_RoutingPath p)))"

definition PathString :: "TransmitPacket \<Rightarrow> string \<Rightarrow> string" where
  "PathString p edgeCode = Join (pk_RoutingPath p @ [edgeCode]) ''->''"

text \<open>What \<open>Validate\<close> promises about an accepted envelope.\<close>

definition valid_packet :: "TransmitPacket \<Rightarrow> bool" where
  "valid_packet p \<longleftrightarrow>
     \<not> bad_id (pk_PacketID p) \<and> \<not> bad_id (pk_OriginNode p) \<and> \<not> bad_id (pk_TargetParent p) \<and>
     1 \<le> pk_HopCount p \<and> pk_RoutingPath p \<noteq> [] \<and> length (pk_RoutingPath p) \<le> 6 \<and>
     pk_BinaryPayloadB64 p \<noteq> [] \<and> (\<forall>n \<in> set (pk_RoutingPath p). \<not> bad_id n)"

lemma Validate_ok_iff_valid [simp]: "Validate p = Inr () \<longleftrightarrow> valid_packet p"
  by (auto simp: Validate_def valid_packet_def list_ex_iff MaxHops_def)

lemma Validate_cases: "Validate p = Inr () \<or> (\<exists>v. Validate p = Inl (ErrValidation v))"
  by (simp add: Validate_def)

lemma valid_packet_transmitter:
  "valid_packet p \<Longrightarrow> Transmitter p = Some (last (pk_RoutingPath p))"
  by (simp add: valid_packet_def Transmitter_def)

lemma Transmitter_in_path: "Transmitter p = Some t \<Longrightarrow> t \<in> set (pk_RoutingPath p)"
  by (auto simp: Transmitter_def split: if_splits)

lemma PathString_relay:
  assumes "pk_RoutingPath p \<noteq> []"
  shows "PathString p edge = Join (pk_RoutingPath p) ''->'' @ ''->'' @ edge"
  using assms by (simp add: PathString_def Join_snoc)

lemma PathString_length:
  "length (PathString p edge)
     = sum_list (map length (pk_RoutingPath p)) + length edge + 2 * length (pk_RoutingPath p)"
  by (simp add: PathString_def length_Join)

section \<open>Base64 (encoding/base64, StdEncoding)\<close>

definition b64_char :: "nat \<Rightarrow> char" where
  "b64_char n =
     (if n < 26 then char_of (n + 65) else if n < 52 then char_of (n + 71)
      else if n < 62 then char_of (n - 4) else if n = 62 then CHR ''+'' else CHR ''/'')"

definition b64_val :: "char \<Rightarrow> nat option" where
  "b64_val c =
     (let n = byte_of c :: nat in
      if 65 \<le> n \<and> n \<le> 90 then Some (n - 65)
      else if 97 \<le> n \<and> n \<le> 122 then Some (n - 71)
      else if 48 \<le> n \<and> n \<le> 57 then Some (n + 4)
      else if n = 43 then Some 62 else if n = 47 then Some 63 else None)"

type_synonym bytes = "8 word list"

fun EncodeToString :: "bytes \<Rightarrow> string" where
  "EncodeToString [] = []"
| "EncodeToString [x] =
     (let a = unat x
      in [b64_char (a div 4), b64_char (a mod 4 * 16), CHR ''='', CHR ''=''])"
| "EncodeToString [x, y] =
     (let a = unat x; b = unat y
      in [b64_char (a div 4), b64_char (a mod 4 * 16 + b div 16), b64_char (b mod 16 * 4), CHR ''=''])"
| "EncodeToString (x # y # z # rest) =
     (let a = unat x; b = unat y; c = unat z
      in b64_char (a div 4) # b64_char (a mod 4 * 16 + b div 16)
         # b64_char (b mod 16 * 4 + c div 64) # b64_char (c mod 64) # EncodeToString rest)"

text \<open>
  The decoder skips carriage returns and newlines, requires full quanta of four characters,
  accepts padding in the last quantum only, and (not being strict) ignores left-over bits.
  \<open>None\<close> is \<open>CorruptInputError\<close>.
\<close>

definition byte_at :: "nat \<Rightarrow> 8 word" where
  "byte_at n = word_of_nat n"

fun b64_quanta :: "string \<Rightarrow> bytes option" where
  "b64_quanta [] = Some []"
| "b64_quanta (p # q # r # s # rest) =
     (case (b64_val p, b64_val q) of
        (Some a, Some b) \<Rightarrow>
          (if r = CHR ''='' then
             (if s = CHR ''='' \<and> rest = [] then Some [byte_at (a * 4 + b div 16)] else None)
           else case b64_val r of
             None \<Rightarrow> None
           | Some c \<Rightarrow>
               (if s = CHR ''='' then
                  (if rest = [] then Some [byte_at (a * 4 + b div 16), byte_at (b mod 16 * 16 + c div 4)]
                   else None)
                else case b64_val s of
                  None \<Rightarrow> None
                | Some d \<Rightarrow>
                    map_option (\<lambda>bs. byte_at (a * 4 + b div 16) # byte_at (b mod 16 * 16 + c div 4)
                                      # byte_at (c mod 4 * 64 + d) # bs) (b64_quanta rest)))
      | _ \<Rightarrow> None)"
| "b64_quanta _ = None"

definition is_newline :: "char \<Rightarrow> bool" where
  "is_newline c \<longleftrightarrow> byte_of c = (10::nat) \<or> byte_of c = (13::nat)"

definition DecodeString :: "string \<Rightarrow> bytes option" where
  "DecodeString s = b64_quanta (filter (\<lambda>c. \<not> is_newline c) s)"

lemma b64_char_byte:
  "n < 64 \<Longrightarrow> byte_of (b64_char n) =
     (if n < 26 then n + 65 else if n < 52 then n + 71 else if n < 62 then n - 4
      else if n = 62 then 43 else 47 :: nat)"
  by (simp add: b64_char_def)

lemma b64_char_facts:
  assumes "n < 64"
  shows "b64_val (b64_char n) = Some n" "b64_char n \<noteq> CHR ''=''" "\<not> is_newline (b64_char n)"
proof -
  show "b64_val (b64_char n) = Some n"
    using assms by (auto simp: b64_val_def Let_def b64_char_byte)
  have "byte_of (b64_char n) \<noteq> (61::nat)" using assms by (auto simp: b64_char_byte)
  then show "b64_char n \<noteq> CHR ''=''" by auto
  show "\<not> is_newline (b64_char n)" using assms by (auto simp: is_newline_def b64_char_byte)
qed

lemma unat_byte_bound: "unat (x :: 8 word) < 256"
  using unsigned_less [of x] by simp

lemma byte_at_unat [simp]: "byte_at (unat x) = x"
  by (simp add: byte_at_def)

text \<open>Splitting bytes into groups of six bits and joining them again.\<close>

lemma mult_add_div_mod:
  assumes "(s::nat) < k"
  shows "(v * k + s) div k = v" "(v * k + s) mod k = s"
  using assms by simp_all

lemma six_bits:
  fixes x y z :: "8 word"
  defines "a \<equiv> unat x" and "b \<equiv> unat y" and "c \<equiv> unat z"
  shows "a div 4 < 64" "a mod 4 * 16 < 64" "a mod 4 * 16 + b div 16 < 64" "b mod 16 * 4 < 64"
    "b mod 16 * 4 + c div 64 < 64" "c mod 64 < 64"
    "a div 4 * 4 + a mod 4 * 16 div 16 = a"
    "a div 4 * 4 + (a mod 4 * 16 + b div 16) div 16 = a"
    "(a mod 4 * 16 + b div 16) mod 16 * 16 + b mod 16 * 4 div 4 = b"
    "(a mod 4 * 16 + b div 16) mod 16 * 16 + (b mod 16 * 4 + c div 64) div 4 = b"
    "(b mod 16 * 4 + c div 64) mod 4 * 64 + c mod 64 = c"
proof -
  have b: "a < 256" "b < 256" "c < 256" by (simp_all add: assms unat_byte_bound)
  have q: "b div 16 < 16" "c div 64 < 4" using b by (simp_all add: less_mult_imp_div_less)
  have r: "a mod 4 < 4" "b mod 16 < 16" by simp_all
  show "a div 4 < 64" using b by (simp add: less_mult_imp_div_less)
  show "a mod 4 * 16 < 64" "b mod 16 * 4 < 64" "c mod 64 < 64" using r by simp_all
  show "a mod 4 * 16 + b div 16 < 64" "b mod 16 * 4 + c div 64 < 64" using q r by linarith+
  show "a div 4 * 4 + a mod 4 * 16 div 16 = a" by simp
  show "a div 4 * 4 + (a mod 4 * 16 + b div 16) div 16 = a"
    by (simp only: mult_add_div_mod [OF q(1)] div_mult_mod_eq)
  show "(a mod 4 * 16 + b div 16) mod 16 * 16 + b mod 16 * 4 div 4 = b"
    by (simp only: mult_add_div_mod [OF q(1)]) simp
  show "(a mod 4 * 16 + b div 16) mod 16 * 16 + (b mod 16 * 4 + c div 64) div 4 = b"
    by (simp only: mult_add_div_mod [OF q(1)] mult_add_div_mod [OF q(2)] div_mult_mod_eq)
  show "(b mod 16 * 4 + c div 64) mod 4 * 64 + c mod 64 = c"
    by (simp only: mult_add_div_mod [OF q(2)] div_mult_mod_eq)
qed

lemma high_bits:
  fixes y :: "8 word"
  shows "unat y div 16 div 16 = 0" "unat y div 16 mod 16 = unat y div 16"
    "unat y div 64 div 4 = 0" "unat y div 64 mod 4 = unat y div 64"
proof -
  have "unat y div 16 < 16" "unat y div 64 < 4"
    using unat_byte_bound [of y] by (simp_all add: less_mult_imp_div_less)
  then show "unat y div 16 div 16 = 0" "unat y div 16 mod 16 = unat y div 16"
    "unat y div 64 div 4 = 0" "unat y div 64 mod 4 = unat y div 64" by simp_all
qed

lemma b64_quanta_encode: "b64_quanta (EncodeToString bs) = Some bs"
proof (induction bs rule: EncodeToString.induct)
  case (2 x)
  then show ?case
    by (simp add: Let_def b64_char_facts six_bits)
next
  case (3 x y)
  then show ?case
    by (simp add: Let_def b64_char_facts six_bits high_bits)
next
  case (4 x y z rest)
  then show ?case
    by (simp add: Let_def b64_char_facts six_bits high_bits)
qed simp

lemma encode_no_newline: "c \<in> set (EncodeToString bs) \<Longrightarrow> \<not> is_newline c"
proof (induction bs rule: EncodeToString.induct)
  case (2 x)
  then show ?case
    by (auto simp: Let_def b64_char_facts six_bits) (simp add: is_newline_def)
next
  case (3 x y)
  then show ?case
    by (auto simp: Let_def b64_char_facts six_bits) (simp add: is_newline_def)
next
  case (4 x y z rest)
  then show ?case
    by (auto simp: Let_def b64_char_facts six_bits)
qed simp

lemma DecodeString_EncodeToString: "DecodeString (EncodeToString bs) = Some bs"
proof -
  have "filter (\<lambda>c. \<not> is_newline c) (EncodeToString bs) = EncodeToString bs"
    by (rule filter_True) (simp add: encode_no_newline)
  then show ?thesis by (simp add: DecodeString_def b64_quanta_encode)
qed

lemma length_EncodeToString: "length (EncodeToString bs) = 4 * ((length bs + 2) div 3)"
proof (induction bs rule: EncodeToString.induct)
  case (4 x y z rest)
  have "(length (x # y # z # rest) + 2) div 3 = Suc ((length rest + 2) div 3)"
    using div_add_self1 [of 3 "length rest + 2"] by (simp add: add.commute)
  with 4 show ?case by (simp add: Let_def)
qed (simp_all add: Let_def)

lemma b64_quanta_length: "b64_quanta s = Some bs \<Longrightarrow> 4 * length bs \<le> 3 * length s"
  by (induction s arbitrary: bs rule: b64_quanta.induct)
    (fastforce split: option.splits if_splits prod.splits)+

lemma DecodeString_length: "DecodeString s = Some bs \<Longrightarrow> 4 * length bs \<le> 3 * length s"
  unfolding DecodeString_def
  by (drule b64_quanta_length, erule order_trans, rule mult_le_mono2, rule length_filter_le)

section \<open>Properties\<close>

lemma bad_id_iff: "\<not> bad_id s \<longleftrightarrow> 1 \<le> length s \<and> length s \<le> 100"
  by (cases s) (auto simp: bad_id_def maxIDLength_def)

text \<open>
  C29. \<open>Validate\<close> accepts exactly the envelopes whose three identifiers and every node on the
  routing path have 1 to 100 bytes, whose hop count is positive, whose path has 1 to
  \<open>MaxHops + 1\<close> entries and whose payload text is not empty; everything else is rejected as a
  validation error (never another error), and on an accepted envelope \<open>Transmitter\<close> does not
  panic and names an entry of the path with a legal identifier.
\<close>

theorem Validate_envelope:
  "(Validate p = Inr () \<longleftrightarrow>
      (\<forall>s \<in> {pk_PacketID p, pk_OriginNode p, pk_TargetParent p} \<union> set (pk_RoutingPath p).
         1 \<le> length s \<and> length s \<le> 100) \<and>
      1 \<le> pk_HopCount p \<and> 1 \<le> length (pk_RoutingPath p) \<and> int (length (pk_RoutingPath p)) \<le> MaxHops + 1 \<and>
      1 \<le> length (pk_BinaryPayloadB64 p)) \<and>
   (Validate p = Inr () \<or> (\<exists>v. Validate p = Inl (ErrValidation v))) \<and>
   (Validate p = Inr () \<longrightarrow> (\<exists>t \<in> set (pk_RoutingPath p). Transmitter p = Some t \<and> length t \<le> 100))"
proof (intro conjI impI)
  have ne: "1 \<le> length xs \<longleftrightarrow> xs \<noteq> []" for xs :: "'a list" by (cases xs) auto
  show "Validate p = Inr () \<longleftrightarrow>
      (\<forall>s \<in> {pk_PacketID p, pk_OriginNode p, pk_TargetParent p} \<union> set (pk_RoutingPath p).
         1 \<le> length s \<and> length s \<le> 100) \<and>
      1 \<le> pk_HopCount p \<and> 1 \<le> length (pk_RoutingPath p) \<and> int (length (pk_RoutingPath p)) \<le> MaxHops + 1 \<and>
      1 \<le> length (pk_BinaryPayloadB64 p)"
    unfolding Validate_ok_iff_valid valid_packet_def bad_id_iff ne MaxHops_def by auto
  assume "Validate p = Inr ()"
  then have v: "valid_packet p" by simp
  then have "Transmitter p = Some (last (pk_RoutingPath p))" by (rule valid_packet_transmitter)
  moreover have "last (pk_RoutingPath p) \<in> set (pk_RoutingPath p)" using v by (simp add: valid_packet_def)
  ultimately show "\<exists>t \<in> set (pk_RoutingPath p). Transmitter p = Some t \<and> length t \<le> 100"
    using v unfolding valid_packet_def bad_id_iff by blast
qed (rule Validate_cases)

theorem Validate_envelope_witness:
  "Validate \<lparr>pk_Event = [], pk_PacketID = ''p1'', pk_OriginNode = ''A'', pk_TargetParent = ''B'', pk_HopCount = 1,
     pk_RoutingPath = [''A''], pk_BinaryPayloadB64 = ''AQ==''\<rparr> = Inr ()"
  unfolding Validate_envelope [THEN conjunct1] by (simp add: MaxHops_def)

end
