(* ===== verification/Schema.thy ===== *)
theory Schema
  imports Packet
begin

text \<open>
  The dynamic payload schema, \<^verbatim>\<open>domain/schema.go\<close>: type sizes, structural validation, the size
  estimate, and the lenient decoding of a MessagePack payload.  The two regular expressions are
  the matchers \<open>fieldName_match\<close> and \<open>stringType_match\<close>.  The MessagePack library is a parameter
  of \<open>DecodePayload\<close> (\<open>unmarshal_map\<close>, \<open>unmarshal_array\<close>).  A decoded value is a \<open>gval\<close>, one
  constructor per Go dynamic type the code switches on, integers at their width.  Go leaves the
  conversion of an out-of-range \<open>float64\<close> to \<open>int64\<close> to the platform: it is the parameter
  \<open>oob\<close>.
\<close>

section \<open>Field types\<close>

record SchemaField =
  sf_Name :: string
  sf_Type :: string

record DynamicSchema =
  ds_ID :: int
  ds_SessionID :: string
  ds_Fields :: "SchemaField list"
  ds_CreatedAt :: int

definition maxSchemaFields :: nat where "maxSchemaFields = 32"
definition maxStringFieldSize :: int where "maxStringFieldSize = 242"

text \<open>\<^verbatim>\<open>^[a-zA-Z][a-zA-Z0-9_]{0,29}$\<close>\<close>

definition is_word_char :: "char \<Rightarrow> bool" where
  "is_word_char c \<longleftrightarrow> is_letter c \<or> is_digit c \<or> c = CHR ''_''"

definition fieldName_match :: "string \<Rightarrow> bool" where
  "fieldName_match s =
     (case s of [] \<Rightarrow> False | c # cs \<Rightarrow> is_letter c \<and> length cs \<le> 29 \<and> list_all is_word_char cs)"

text \<open>\<^verbatim>\<open>^string_([1-9][0-9]{0,2})$\<close>, returning the captured digits.\<close>

definition stringType_match :: "string \<Rightarrow> string option" where
  "stringType_match t =
     (if HasPrefix t ''string_'' then
        (case drop 7 t of
           [] \<Rightarrow> None
         | d # ds \<Rightarrow> if is_digit d \<and> d \<noteq> CHR ''0'' \<and> length ds \<le> 2 \<and> list_all is_digit ds
                     then Some (d # ds) else None)
      else None)"

definition fixedTypeSizes :: "(string \<times> int) list" where
  "fixedTypeSizes =
     [(''float32'', 4), (''float64'', 8),
      (''int8'', 1), (''int16'', 2), (''int32'', 4), (''int64'', 8),
      (''uint8'', 1), (''uint16'', 2), (''uint32'', 4), (''uint64'', 8),
      (''bool'', 1)]"

definition FieldByteSize :: "string \<Rightarrow> int res" where
  "FieldByteSize fieldType =
     (case map_of fixedTypeSizes fieldType of
        Some sz \<Rightarrow> Inr sz
      | None \<Rightarrow>
          (case stringType_match fieldType of
             Some m \<Rightarrow>
               (case Atoi m of
                  None \<Rightarrow> Inl (ErrValidation StringSizeOutOfRange)
                | Some n \<Rightarrow> if n < 1 \<or> n > maxStringFieldSize
                           then Inl (ErrValidation StringSizeOutOfRange) else Inr n)
           | None \<Rightarrow> Inl (ErrValidation (UnknownFieldType fieldType))))"

section \<open>Validation and the size estimate\<close>

fun validate_fields :: "string list \<Rightarrow> SchemaField list \<Rightarrow> unit res" where
  "validate_fields seen [] = Inr ()"
| "validate_fields seen (f # fs) =
     (if \<not> fieldName_match (sf_Name f) then Inl (ErrValidation (BadFieldName (sf_Name f)))
      else if sf_Name f \<in> set seen then Inl (ErrValidation (DuplicateFieldName (sf_Name f)))
      else case FieldByteSize (sf_Type f) of
             Inl err \<Rightarrow> Inl err
           | Inr _ \<Rightarrow> validate_fields (sf_Name f # seen) fs)"

definition ValidateSchemaFields :: "SchemaField list \<Rightarrow> unit res" where
  "ValidateSchemaFields flds =
     (if length flds = 0 then Inl (ErrValidation SchemaEmpty)
      else if length flds > maxSchemaFields then Inl (ErrValidation SchemaTooManyFields)
      else validate_fields [] flds)"

definition field_estimate :: "SchemaField \<Rightarrow> int" where
  "field_estimate f =
     1 + int (length (sf_Name f)) +
     (case FieldByteSize (sf_Type f) of
        Inl _ \<Rightarrow> 0
      | Inr sz \<Rightarrow> if HasPrefix (sf_Type f) ''string_'' then 2 + sz else 1 + sz)"

definition EstimatePackedBytes :: "SchemaField list \<Rightarrow> int" where
  "EstimatePackedBytes flds = fold (\<lambda>f total. total + field_estimate f) flds 3"

section \<open>Decoded values\<close>

datatype gofloat = Fin real | PosInf | NegInf | NotANumber

datatype gval =
    GNil
  | GBool bool
  | GInt "64 word" | GInt8 "8 word" | GInt16 "16 word" | GInt32 "32 word" | GInt64 "64 word"
  | GUint8 "8 word" | GUint16 "16 word" | GUint32 "32 word" | GUint64 "64 word"
  | GFloat32 gofloat | GFloat64 gofloat
  | GStr string
  | GBytes bytes
  | GArr "gval list"
  | GMap "(string \<times> gval) list"

text \<open>
  \<open>float64(n)\<close> for an integer: round to 53 significant bits, ties to even.  \<open>bit_len m\<close> is the
  number of binary digits of \<open>m\<close>.
\<close>

fun bit_len :: "nat \<Rightarrow> nat" where
  "bit_len m = (if m = 0 then 0 else Suc (bit_len (m div 2)))"

declare bit_len.simps [simp del]

definition round53 :: "nat \<Rightarrow> nat" where
  "round53 m =
     (let e = bit_len m - 53; q = m div 2 ^ e; r = m mod 2 ^ e
      in if 2 * r > 2 ^ e \<or> (2 * r = 2 ^ e \<and> odd q) then Suc q * 2 ^ e else q * 2 ^ e)"

definition float64_of_int :: "int \<Rightarrow> real" where
  "float64_of_int i = real_of_int (sgn i * int (round53 (nat \<bar>i\<bar>)))"

text \<open>\<open>int64(n)\<close> for a float: truncation towards zero where the result fits.\<close>

definition trunc_real :: "real \<Rightarrow> int" where
  "trunc_real x = (if x \<ge> 0 then \<lfloor>x\<rfloor> else \<lceil>x\<rceil>)"

fun int64_of_float :: "(gofloat \<Rightarrow> 64 word) \<Rightarrow> gofloat \<Rightarrow> 64 word" where
  "int64_of_float oob (Fin x) =
     (if int64_min \<le> trunc_real x \<and> trunc_real x \<le> int64_max
      then word_of_int (trunc_real x) else oob (Fin x))"
| "int64_of_float oob f = oob f"

text \<open>The test \<open>n == float64(int64(n))\<close>; a not-a-number or an infinity is equal to no such value.\<close>

fun float_is_int64 :: "(gofloat \<Rightarrow> 64 word) \<Rightarrow> gofloat \<Rightarrow> bool" where
  "float_is_int64 oob (Fin x) \<longleftrightarrow> x = float64_of_int (sint (int64_of_float oob (Fin x)))"
| "float_is_int64 oob _ \<longleftrightarrow> False"

fun toFloat64 :: "gval \<Rightarrow> gofloat option" where
  "toFloat64 (GFloat64 n) = Some n"
| "toFloat64 (GFloat32 n) = Some n"
| "toFloat64 (GInt n) = Some (Fin (float64_of_int (sint n)))"
| "toFloat64 (GInt8 n) = Some (Fin (float64_of_int (sint n)))"
| "toFloat64 (GInt16 n) = Some (Fin (float64_of_int (sint n)))"
| "toFloat64 (GInt32 n) = Some (Fin (float64_of_int (sint n)))"
| "toFloat64 (GInt64 n) = Some (Fin (float64_of_int (sint n)))"
| "toFloat64 (GUint8 n) = Some (Fin (float64_of_int (uint n)))"
| "toFloat64 (GUint16 n) = Some (Fin (float64_of_int (uint n)))"
| "toFloat64 (GUint32 n) = Some (Fin (float64_of_int (uint n)))"
| "toFloat64 (GUint64 n) = Some (Fin (float64_of_int (uint n)))"
| "toFloat64 _ = None"

fun toInt64 :: "(gofloat \<Rightarrow> 64 word) \<Rightarrow> gval \<Rightarrow> 64 word option" where
  "toInt64 oob (GInt n) = Some n"
| "toInt64 oob (GInt8 n) = Some (word_of_int (sint n))"
| "toInt64 oob (GInt16 n) = Some (word_of_int (sint n))"
| "toInt64 oob (GInt32 n) = Some (word_of_int (sint n))"
| "toInt64 oob (GInt64 n) = Some n"
| "toInt64 oob (GUint8 n) = Some (word_of_int (uint n))"
| "toInt64 oob (GUint16 n) = Some (word_of_int (uint n))"
| "toInt64 oob (GUint32 n) = Some (word_of_int (uint n))"
| "toInt64 oob (GUint64 n) = Some (word_of_int (uint n))"
| "toInt64 oob (GFloat64 n) = (if float_is_int64 oob n then Some (int64_of_float oob n) else None)"
| "toInt64 oob (GFloat32 n) = (if float_is_int64 oob n then Some (int64_of_float oob n) else None)"
| "toInt64 oob _ = None"

datatype coerce_error =
  ExpectedString | StringTooLong nat int | ExpectedBool | ExpectedNumber | ExpectedInteger

text \<open>Both results of \<open>coerceValue\<close>: the value and the error, if any.\<close>

definition coerceValue ::
  "(gofloat \<Rightarrow> 64 word) \<Rightarrow> gval \<Rightarrow> string \<Rightarrow> gval \<times> coerce_error option" where
  "coerceValue oob v fieldType =
     (case stringType_match fieldType of
        Some m \<Rightarrow>
          (case v of
             GStr s \<Rightarrow>
               (let maxLen = (case Atoi m of Some n \<Rightarrow> n | None \<Rightarrow> 0)
                in if int (length s) > maxLen then (GStr s, Some (StringTooLong (length s) maxLen))
                   else (GStr s, None))
           | _ \<Rightarrow> (GNil, Some ExpectedString))
      | None \<Rightarrow>
          if fieldType = ''bool'' then
            (case v of GBool b \<Rightarrow> (GBool b, None) | _ \<Rightarrow> (GNil, Some ExpectedBool))
          else if fieldType = ''float32'' \<or> fieldType = ''float64'' then
            (case toFloat64 v of Some f \<Rightarrow> (GFloat64 f, None) | None \<Rightarrow> (GNil, Some ExpectedNumber))
          else
            (case toInt64 oob v of Some n \<Rightarrow> (GInt64 n, None) | None \<Rightarrow> (GNil, Some ExpectedInteger)))"

datatype problem =
  DecodeFailed string | MissingField string | FieldProblem string coerce_error

type_synonym gmap = "(string \<times> gval) list"

section \<open>Lenient decoding\<close>

text \<open>One iteration of the loop over the schema fields.\<close>

definition decode_field ::
  "(gofloat \<Rightarrow> 64 word) \<Rightarrow> gmap \<Rightarrow> SchemaField \<Rightarrow> gmap \<times> problem list \<Rightarrow> gmap \<times> problem list" where
  "decode_field oob values f = (\<lambda>(decoded, problems).
     case map_of values (sf_Name f) of
       None \<Rightarrow> (AList.update (sf_Name f) GNil decoded, problems @ [MissingField (sf_Name f)])
     | Some v \<Rightarrow>
         (case coerceValue oob v (sf_Type f) of
            (coerced, None) \<Rightarrow> (AList.update (sf_Name f) coerced decoded, problems)
          | (_, Some err) \<Rightarrow>
              (AList.update (sf_Name f) v decoded, problems @ [FieldProblem (sf_Name f) err])))"

text \<open>The positional fallback: array elements in schema field order.\<close>

definition positional :: "SchemaField list \<Rightarrow> gval list \<Rightarrow> gmap" where
  "positional flds arr = fold (\<lambda>(f, v). AList.update (sf_Name f) v) (zip flds arr) []"

definition keep_extra :: "SchemaField list \<Rightarrow> gmap \<Rightarrow> gmap \<Rightarrow> gmap" where
  "keep_extra flds values decoded =
     fold (\<lambda>(k, v) m. if k \<in> sf_Name ` set flds then m else AList.update k v m) values decoded"

definition decode_values ::
  "(gofloat \<Rightarrow> 64 word) \<Rightarrow> gmap \<Rightarrow> SchemaField list \<Rightarrow> gmap \<times> problem list" where
  "decode_values oob values flds =
     (let (decoded, problems) = fold (decode_field oob values) flds ([], [])
      in (keep_extra flds values decoded, problems))"

definition DecodePayload ::
  "(bytes \<Rightarrow> string + gmap) \<Rightarrow> (bytes \<Rightarrow> string + gval list) \<Rightarrow> (gofloat \<Rightarrow> 64 word) \<Rightarrow>
   bytes \<Rightarrow> SchemaField list \<Rightarrow> gmap option \<times> problem list" where
  "DecodePayload unmarshal_map unmarshal_array oob raw flds =
     (case unmarshal_map raw of
        Inr values \<Rightarrow> (let (d, ps) = decode_values oob values flds in (Some d, ps))
      | Inl err \<Rightarrow>
          (case unmarshal_array raw of
             Inl _ \<Rightarrow> (None, [DecodeFailed err])
           | Inr arr \<Rightarrow>
               (let (d, ps) = decode_values oob (positional flds arr) flds in (Some d, ps))))"


section \<open>Types and sizes\<close>

lemma FieldByteSize_fixed:
  "FieldByteSize ''float32'' = Inr 4" "FieldByteSize ''float64'' = Inr 8"
  "FieldByteSize ''bool'' = Inr 1" "FieldByteSize ''uint16'' = Inr 2"
  "FieldByteSize ''int64'' = Inr 8"
  by (simp_all add: FieldByteSize_def fixedTypeSizes_def)

lemma map_of_fixedTypeSizes: "map_of fixedTypeSizes t = Some n \<Longrightarrow> 1 \<le> n \<and> n \<le> 8"
  by (drule map_of_SomeD) (auto simp: fixedTypeSizes_def)

lemma FieldByteSize_range: "FieldByteSize t = Inr n \<Longrightarrow> 1 \<le> n \<and> n \<le> 242"
  by (auto simp: FieldByteSize_def maxStringFieldSize_def
      dest: map_of_fixedTypeSizes split: option.splits if_splits)

lemma fixed_not_string: "map_of fixedTypeSizes t \<noteq> None \<Longrightarrow> \<not> HasPrefix t ''string_''"
  by (auto simp: fixedTypeSizes_def HasPrefix_def split: if_splits)

lemma string_not_fixed: "map_of fixedTypeSizes (''string_'' @ m) = None"
  using fixed_not_string [of "''string_'' @ m"] HasPrefix_append [of "''string_''" m] by blast

lemma stringType_match_iff:
  "stringType_match t = Some m \<longleftrightarrow>
     t = ''string_'' @ m \<and> m \<noteq> [] \<and> hd m \<noteq> CHR ''0'' \<and> length m \<le> 3 \<and> list_all is_digit m"
proof
  assume l: "stringType_match t = Some m"
  then have "HasPrefix t ''string_''" by (simp add: stringType_match_def split: if_splits)
  then obtain u where t: "t = ''string_'' @ u" by (auto simp: HasPrefix_decomp)
  from l show "t = ''string_'' @ m \<and> m \<noteq> [] \<and> hd m \<noteq> CHR ''0'' \<and> length m \<le> 3 \<and> list_all is_digit m"
    by (cases u) (auto simp: t stringType_match_def split: if_splits)
next
  assume r: "t = ''string_'' @ m \<and> m \<noteq> [] \<and> hd m \<noteq> CHR ''0'' \<and> length m \<le> 3 \<and> list_all is_digit m"
  then have "HasPrefix t ''string_''" using HasPrefix_append by blast
  with r show "stringType_match t = Some m"
    by (cases m) (auto simp: stringType_match_def)
qed

lemma stringType_digits:
  assumes "stringType_match t = Some m"
  shows "\<exists>n. Atoi m = Some n \<and> 0 \<le> n \<and> n < 1000"
proof -
  from assms have m: "m \<noteq> []" "length m \<le> 3" "\<forall>c \<in> set m. is_digit c"
    by (auto simp: stringType_match_iff list_all_iff)
  have h: "hd m \<noteq> CHR ''-''" "hd m \<noteq> CHR ''+''"
    using m(1) m(3) by (cases m; auto simp: is_digit_def)+
  have lo: "0 \<le> digits_val 0 m" using m(3) by (simp add: digits_val_nonneg)
  have "digits_val 0 m < 1 * 10 ^ length m"
    using digits_val_bound [of 0 m] m(3) by simp
  also have "\<dots> \<le> 10 ^ 3" using power_increasing [of "length m" 3 "10::int"] m(2) by simp
  finally have hi: "digits_val 0 m < 1000" by simp
  have "Atoi m = Some (digits_val 0 m)"
    using m h lo hi by (cases m) (auto simp: Atoi_def all_digits_def int64_min_def int64_max_def)
  with lo hi show ?thesis by blast
qed

section \<open>Validation\<close>

definition known_type :: "string \<Rightarrow> bool" where
  "known_type t \<longleftrightarrow> (\<exists>n. FieldByteSize t = Inr n)"

definition valid_schema :: "SchemaField list \<Rightarrow> bool" where
  "valid_schema fs \<longleftrightarrow>
     1 \<le> length fs \<and> length fs \<le> 32 \<and> distinct (map sf_Name fs) \<and>
     (\<forall>f \<in> set fs. fieldName_match (sf_Name f) \<and> known_type (sf_Type f))"

lemma known_type_iff:
  "known_type t \<longleftrightarrow> t \<in> keys_of fixedTypeSizes \<or>
     (\<exists>m n. t = ''string_'' @ m \<and> hd m \<noteq> CHR ''0'' \<and> list_all is_digit m \<and>
            Atoi m = Some n \<and> 1 \<le> n \<and> n \<le> 242 \<and> length m \<le> 3)"
proof (cases "map_of fixedTypeSizes t")
  case None
  then have nf: "t \<notin> keys_of fixedTypeSizes" by (simp only: keys_of_iff not_not)
  show ?thesis
  proof (cases "stringType_match t")
    case (Some m)
    then have m: "t = ''string_'' @ m" "hd m \<noteq> CHR ''0''" "list_all is_digit m" "length m \<le> 3"
      by (simp_all add: stringType_match_iff)
    have "known_type t \<longleftrightarrow> (\<exists>n. Atoi m = Some n \<and> 1 \<le> n \<and> n \<le> 242)"
      using None Some by (auto simp: known_type_def FieldByteSize_def maxStringFieldSize_def split: option.splits)
    with m nf show ?thesis by auto
  next
    case nm: None
    have "Atoi [] = None" by (simp add: Atoi_def all_digits_def)
    then have "\<not> (t = ''string_'' @ m \<and> hd m \<noteq> CHR ''0'' \<and> list_all is_digit m \<and> Atoi m = Some n \<and> length m \<le> 3)" for m n
      using nm stringType_match_iff [of t m] by (cases "m = []") auto
    moreover have "\<not> known_type t" using None nm by (simp add: known_type_def FieldByteSize_def)
    ultimately show ?thesis using nf by blast
  qed
next
  case (Some n)
  then have "t \<in> keys_of fixedTypeSizes" unfolding keys_of_iff by simp
  then show ?thesis using Some by (simp add: known_type_def FieldByteSize_def)
qed

lemma validate_fields_ok:
  "validate_fields seen fs = Inr () \<longleftrightarrow>
     distinct (map sf_Name fs) \<and> sf_Name ` set fs \<inter> set seen = {} \<and>
     (\<forall>f \<in> set fs. fieldName_match (sf_Name f) \<and> known_type (sf_Type f))"
  by (induction fs arbitrary: seen) (auto simp: known_type_def split: sum.splits)

lemma ValidateSchemaFields_ok_iff: "ValidateSchemaFields fs = Inr () \<longleftrightarrow> valid_schema fs"
  by (auto simp: ValidateSchemaFields_def valid_schema_def validate_fields_ok maxSchemaFields_def
      Suc_le_eq)

lemma fieldName_length: "fieldName_match s \<Longrightarrow> 1 \<le> length s \<and> length s \<le> 30"
  by (auto simp: fieldName_match_def split: list.splits)

section \<open>The estimate\<close>

lemma EstimatePackedBytes_sum: "EstimatePackedBytes fs = 3 + sum_list (map field_estimate fs)"
proof -
  have "fold (\<lambda>f total. total + field_estimate f) fs acc = acc + sum_list (map field_estimate fs)" for acc
    by (induction fs arbitrary: acc) simp_all
  then show ?thesis by (simp add: EstimatePackedBytes_def)
qed

lemma field_estimate_range:
  assumes "fieldName_match (sf_Name f)"
  shows "2 \<le> field_estimate f" "field_estimate f \<le> 275"
  using fieldName_length [OF assms] FieldByteSize_range [of "sf_Type f"]
  by (auto simp: field_estimate_def split: sum.splits)

lemma sum_list_bounds:
  assumes "\<And>x. x \<in> set xs \<Longrightarrow> lo \<le> f x \<and> f x \<le> (hi::int)"
  shows "int (length xs) * lo \<le> sum_list (map f xs)" "sum_list (map f xs) \<le> int (length xs) * hi"
  using assms by (induction xs) (fastforce simp: algebra_simps)+

section \<open>Decoding keeps every field\<close>

lemma keys_decode_field:
  "keys_of (fst (decode_field oob values f s)) = insert (sf_Name f) (keys_of (fst s))"
  by (auto simp: decode_field_def split: prod.splits option.splits)

lemma wf_decode_field: "wf_map (fst s) \<Longrightarrow> wf_map (fst (decode_field oob values f s))"
  by (auto simp: decode_field_def split: prod.splits option.splits)

lemma keys_fold_decode:
  "keys_of (fst (fold (decode_field oob values) fs s)) = sf_Name ` set fs \<union> keys_of (fst s)"
  by (induction fs arbitrary: s) (auto simp: keys_decode_field)

lemma wf_fold_decode: "wf_map (fst s) \<Longrightarrow> wf_map (fst (fold (decode_field oob values) fs s))"
  by (induction fs arbitrary: s) (auto simp: wf_decode_field)

lemma decode_field_other:
  "k \<noteq> sf_Name f \<Longrightarrow> map_of (fst (decode_field oob values f s)) k = map_of (fst s) k"
  by (auto simp: decode_field_def split: prod.splits option.splits)

lemma fold_decode_other:
  "k \<notin> sf_Name ` set fs \<Longrightarrow> map_of (fst (fold (decode_field oob values) fs s)) k = map_of (fst s) k"
  by (induction fs arbitrary: s) (auto simp: decode_field_other)

text \<open>What one field becomes, and the problem it reports.\<close>

definition field_value :: "(gofloat \<Rightarrow> 64 word) \<Rightarrow> gmap \<Rightarrow> SchemaField \<Rightarrow> gval" where
  "field_value oob values f =
     (case map_of values (sf_Name f) of
        None \<Rightarrow> GNil
      | Some v \<Rightarrow> (case coerceValue oob v (sf_Type f) of (c, None) \<Rightarrow> c | (_, Some _) \<Rightarrow> v))"

definition field_problem :: "(gofloat \<Rightarrow> 64 word) \<Rightarrow> gmap \<Rightarrow> SchemaField \<Rightarrow> problem list" where
  "field_problem oob values f =
     (case map_of values (sf_Name f) of
        None \<Rightarrow> [MissingField (sf_Name f)]
      | Some v \<Rightarrow> (case coerceValue oob v (sf_Type f) of
                     (_, None) \<Rightarrow> [] | (_, Some e) \<Rightarrow> [FieldProblem (sf_Name f) e]))"

lemma decode_field_alt:
  "decode_field oob values f (d, ps)
     = (AList.update (sf_Name f) (field_value oob values f) d, ps @ field_problem oob values f)"
  by (auto simp: decode_field_def field_value_def field_problem_def split: prod.splits option.splits)

lemma fold_decode_problems:
  "snd (fold (decode_field oob values) fs (d, ps)) = ps @ concat (map (field_problem oob values) fs)"
  by (induction fs arbitrary: d ps) (simp_all add: decode_field_alt)

lemma fold_decode_value:
  "f \<in> set fs \<Longrightarrow> distinct (map sf_Name fs) \<Longrightarrow>
   map_of (fst (fold (decode_field oob values) fs (d, ps))) (sf_Name f) = Some (field_value oob values f)"
proof (induction fs arbitrary: d ps)
  case (Cons g fs)
  show ?case
  proof (cases "f = g")
    case True
    with Cons.prems have "sf_Name f \<notin> sf_Name ` set fs" by auto
    with True show ?thesis by (simp add: decode_field_alt fold_decode_other)
  next
    case False
    with Cons show ?thesis by (simp add: decode_field_alt)
  qed
qed simp

lemma keep_extra_Cons:
  "keep_extra flds ((k, v) # vs) d
     = keep_extra flds vs (if k \<in> sf_Name ` set flds then d else AList.update k v d)"
  by (simp add: keep_extra_def)

lemma map_of_keep_extra:
  "wf_map vals \<Longrightarrow> map_of (keep_extra flds vals decoded) k =
     (if k \<notin> sf_Name ` set flds \<and> map_of vals k \<noteq> None then map_of vals k
      else map_of decoded k)"
proof (induction vals arbitrary: decoded)
  case Nil
  then show ?case by (simp add: keep_extra_def)
next
  case (Cons kv vs)
  obtain k' v' where kv: "kv = (k', v')" by (cases kv)
  with Cons.prems have "map_of vs k' = None" by (simp add: map_of_notin)
  then show ?case
    unfolding kv keep_extra_Cons using Cons by (subst Cons.IH) (auto simp: kv)
qed

lemma decode_values_split:
  "decode_values oob vals flds
     = (keep_extra flds vals (fst (fold (decode_field oob vals) flds ([], []))),
        concat (map (field_problem oob vals) flds))"
  using fold_decode_problems [of oob vals flds "[]" "[]"]
  by (simp add: decode_values_def Let_def case_prod_beta)

section \<open>Integers\<close>

lemma bit_len_0 [simp]: "bit_len 0 = 0"
  by (simp add: bit_len.simps [of 0])

lemma bit_len_pos: "0 < m \<Longrightarrow> bit_len m = Suc (bit_len (m div 2))"
  by (simp add: bit_len.simps [of m])

lemma bit_len_le: "m < 2 ^ k \<Longrightarrow> bit_len m \<le> k"
proof (induction k arbitrary: m)
  case (Suc k)
  show ?case
  proof (cases "m = 0")
    case False
    have "m div 2 < 2 ^ k" using Suc.prems by (simp add: less_mult_imp_div_less)
    then have "bit_len (m div 2) \<le> k" by (rule Suc.IH)
    with False show ?thesis by (simp add: bit_len_pos)
  qed simp
qed simp

lemma round53_exact: "m < 2 ^ 53 \<Longrightarrow> round53 m = m"
  using bit_len_le [of m 53] by (simp add: round53_def Let_def)

lemma float64_of_int_exact: "\<bar>i\<bar> < 2 ^ 53 \<Longrightarrow> float64_of_int i = real_of_int i"
  by (simp add: float64_of_int_def round53_exact nat_less_iff sgn_mult_abs)

lemma word64_of_int_sint: "int64_min \<le> i \<Longrightarrow> i \<le> int64_max \<Longrightarrow> sint (word_of_int i :: 64 word) = i"
  using wrap64_id [of i] by (simp add: wrap64_def)

section \<open>Integers as floats\<close>

lemma bit_len_ge: "0 < m \<Longrightarrow> 2 ^ (bit_len m - 1) \<le> m"
proof (induction m rule: less_induct)
  case (less m)
  show ?case
  proof (cases "m = 1")
    case False
    with less.prems have h: "0 < m div 2" "m div 2 < m" by auto
    then have "2 * 2 ^ (bit_len (m div 2) - 1) \<le> 2 * (m div 2)" using less.IH by simp
    moreover have "bit_len m - 1 = Suc (bit_len (m div 2) - 1)" using h less.prems by (simp add: bit_len_pos)
    ultimately show ?thesis by simp
  qed (simp add: bit_len_pos)
qed

lemma less_bit_len: "m < 2 ^ bit_len m"
proof (induction m rule: less_induct)
  case (less m)
  show ?case
  proof (cases "m = 0")
    case False
    then have "m div 2 < 2 ^ bit_len (m div 2)" using less.IH by simp
    then have "m < 2 * 2 ^ bit_len (m div 2)" by linarith
    with False show ?thesis by (simp add: bit_len_pos)
  qed simp
qed

lemma round53_nearest: "2 * \<bar>int (round53 m) - int m\<bar> \<le> 2 ^ (bit_len m - 53)"
proof -
  let ?b = "2 ^ (bit_len m - 53) :: nat" and ?q = "m div 2 ^ (bit_len m - 53)" and ?r = "m mod 2 ^ (bit_len m - 53)"
  have m: "int m = int (?q * ?b) + int ?r" by (metis div_mult_mod_eq of_nat_add)
  have r: "?r < ?b" by simp
  show ?thesis
  proof (cases "2 * ?r > ?b \<or> (2 * ?r = ?b \<and> odd ?q)")
    case True
    then have "round53 m = ?q * ?b + ?b" by (simp add: round53_def Let_def)
    then have "int (round53 m) - int m = int ?b - int ?r" using m by simp
    moreover have "?b \<le> 2 * ?r" using True by linarith
    moreover have "x = int b - int r \<Longrightarrow> b \<le> 2 * r \<Longrightarrow> r < b \<Longrightarrow> 2 * \<bar>x\<bar> \<le> int b" for x :: int and b r :: nat by linarith
    ultimately have "2 * \<bar>int (round53 m) - int m\<bar> \<le> int ?b" using r by blast
    then show ?thesis by simp
  next
    case False
    then have "round53 m = ?q * ?b" by (auto simp: round53_def Let_def)
    then have "int m - int (round53 m) = int ?r" using m by simp
    moreover have "y - x = int r \<Longrightarrow> \<not> b < 2 * r \<Longrightarrow> 2 * \<bar>x - y\<bar> \<le> int b" for x y :: int and b r :: nat by arith
    ultimately have "2 * \<bar>int (round53 m) - int m\<bar> \<le> int ?b" using False by blast
    then show ?thesis by simp
  qed
qed

lemma round53_error: "\<bar>int (round53 m) - int m\<bar> * 2 ^ 53 \<le> int m"
proof (cases "m < 2 ^ 53")
  case False
  then have m: "0 < m" by (metis gr0I zero_less_numeral zero_less_power)
  have len: "53 < bit_len m"
  proof (rule ccontr)
    assume "\<not> 53 < bit_len m"
    then have "(2 :: nat) ^ bit_len m \<le> 2 ^ 53" by (intro power_increasing) simp_all
    with less_bit_len [of m] have "m < 2 ^ 53" by (rule order_less_le_trans)
    with False show False by simp
  qed
  have "2 * \<bar>int (round53 m) - int m\<bar> * 2 ^ 52 \<le> 2 ^ (bit_len m - 53) * 2 ^ 52"
    by (rule mult_right_mono [OF round53_nearest]) simp
  also have "\<dots> = int (2 ^ (bit_len m - 1))" using len power_add [of "2 :: int" "bit_len m - 53" 52] by simp
  also have "\<dots> \<le> int m" using bit_len_ge [OF m] by (simp only: of_nat_le_iff)
  finally show ?thesis by simp
qed (simp add: round53_exact)

lemma float64_of_int_nearest: "\<exists>j. float64_of_int i = real_of_int j \<and> \<bar>j - i\<bar> * 2 ^ 53 \<le> \<bar>i\<bar>"
proof (intro exI conjI)
  let ?r = "int (round53 (nat \<bar>i\<bar>))"
  show "float64_of_int i = real_of_int (sgn i * ?r)" by (simp add: float64_of_int_def)
  have "\<bar>sgn i * ?r - i\<bar> \<le> \<bar>?r - \<bar>i\<bar>\<bar>" by (cases i "0 :: int" rule: linorder_cases) simp_all
  then have "\<bar>sgn i * ?r - i\<bar> * 2 ^ 53 \<le> \<bar>?r - \<bar>i\<bar>\<bar> * 2 ^ 53" by (rule mult_right_mono) simp
  also have "\<dots> \<le> \<bar>i\<bar>" using round53_error [of "nat \<bar>i\<bar>"] by simp
  finally show "\<bar>sgn i * ?r - i\<bar> * 2 ^ 53 \<le> \<bar>i\<bar>" .
qed

section \<open>What a field stores\<close>

text \<open>The integer that a decoded value stands for.\<close>

fun integer_value :: "gval \<Rightarrow> int option" where
  "integer_value (GInt n) = Some (sint n)"
| "integer_value (GInt8 n) = Some (sint n)"
| "integer_value (GInt16 n) = Some (sint n)"
| "integer_value (GInt32 n) = Some (sint n)"
| "integer_value (GInt64 n) = Some (sint n)"
| "integer_value (GUint8 n) = Some (uint n)"
| "integer_value (GUint16 n) = Some (uint n)"
| "integer_value (GUint32 n) = Some (uint n)"
| "integer_value (GUint64 n) = Some (uint n)"
| "integer_value _ = None"

text \<open>
  A number as a float: itself, or an integer within one part in \<open>2 ^ 53\<close>, hence the same one below that.
  A number as an \<open>int64\<close>: an integer, a \<open>uint64\<close> beyond the range loses \<open>2 ^ 64\<close>; of the floats exactly the
  integers in range that a float can represent; beyond the range the platform's conversion decides.
\<close>

definition as_float :: "gval \<Rightarrow> gofloat \<Rightarrow> bool" where
  "as_float v x \<longleftrightarrow> v = GFloat32 x \<or> v = GFloat64 x \<or>
     (\<exists>i j. integer_value v = Some i \<and> x = Fin (real_of_int j) \<and> \<bar>j - i\<bar> * 2 ^ 53 \<le> \<bar>i\<bar>)"

definition as_int :: "(gofloat \<Rightarrow> 64 word) \<Rightarrow> gval \<Rightarrow> 64 word \<Rightarrow> bool" where
  "as_int oob v w \<longleftrightarrow>
     (\<exists>i. integer_value v = Some i \<and> sint w = (if i < 2 ^ 63 then i else i - 2 ^ 64)) \<or>
     (\<exists>x. (v = GFloat32 (Fin x) \<or> v = GFloat64 (Fin x)) \<and> x = float64_of_int (sint w) \<and>
        (if - (2 ^ 63) \<le> trunc_real x \<and> trunc_real x < 2 ^ 63 then real_of_int (sint w) = x else w = oob (Fin x)))"

text \<open>The value \<open>v\<close> conforms to the type \<open>t\<close>, and \<open>c\<close> is what a field of that type stores for it.\<close>

definition stores :: "(gofloat \<Rightarrow> 64 word) \<Rightarrow> string \<Rightarrow> gval \<Rightarrow> gval \<Rightarrow> bool" where
  "stores oob t v c \<longleftrightarrow>
     (\<exists>m n s. t = ''string_'' @ m \<and> Atoi m = Some n \<and> v = GStr s \<and> int (length s) \<le> n \<and> c = v) \<or>
     t = ''bool'' \<and> (\<exists>b. v = GBool b) \<and> c = v \<or>
     t \<in> {''float32'', ''float64''} \<and> (\<exists>x. as_float v x \<and> c = GFloat64 x) \<or>
     t \<in> {''int8'', ''int16'', ''int32'', ''int64'', ''uint8'', ''uint16'', ''uint32'', ''uint64''} \<and> (\<exists>w. as_int oob v w \<and> c = GInt64 w)"

lemma toFloat64_integer: "integer_value v = Some i \<Longrightarrow> toFloat64 v = Some (Fin (float64_of_int i))"
  by (cases v) auto

lemma toFloat64_as: "case toFloat64 v of Some x \<Rightarrow> as_float v x | None \<Rightarrow> (\<forall>x. \<not> as_float v x)"
proof (cases "integer_value v")
  case None
  then show ?thesis by (cases v) (auto simp: as_float_def)
next
  case (Some i)
  obtain j where "float64_of_int i = real_of_int j" "\<bar>j - i\<bar> * 2 ^ 53 \<le> \<bar>i\<bar>" using float64_of_int_nearest by blast
  then show ?thesis by (auto simp: toFloat64_integer [OF Some] as_float_def Some)
qed

lemma word_value_range:
  fixes w :: "'a::len word"
  assumes "LENGTH('a) \<le> 64"
  shows "- 9223372036854775808 \<le> sint w" "sint w < 18446744073709551616" "uint w < 18446744073709551616"
proof -
  have p: "(2 :: int) ^ (LENGTH('a) - 1) \<le> 2 ^ 63" "(2 :: int) ^ LENGTH('a) \<le> 2 ^ 64"
    by (rule power_increasing; use assms in simp)+
  then show "- 9223372036854775808 \<le> sint w" "sint w < 18446744073709551616"
    using sint_ge [of w] sint_lt [of w] by simp_all
  have "uint w < 2 ^ LENGTH('a)" by (rule unsigned_less)
  also note p(2)
  finally show "uint w < 18446744073709551616" by simp
qed

lemma integer_value_range: "integer_value v = Some i \<Longrightarrow> - (2 ^ 63) \<le> i \<and> i < 2 ^ 64"
  by (cases v) (auto simp: word_value_range intro: order_trans [of _ 0])

lemma toInt64_integer: "integer_value v = Some i \<Longrightarrow> toInt64 oob v = Some (word_of_int i)"
  by (cases v) auto

lemma sint_word_of_int:
  "- (2 ^ 63) \<le> i \<Longrightarrow> i < 2 ^ 64 \<Longrightarrow> sint (word_of_int i :: 64 word) = (if i < 2 ^ 63 then i else i - 2 ^ 64)"
proof -
  assume r: "- (2 ^ 63) \<le> i" "i < 2 ^ 64"
  show ?thesis
  proof (cases "i < 2 ^ 63")
    case True
    then show ?thesis using r word64_of_int_sint [of i] by (simp add: int64_min_def int64_max_def)
  next
    case False
    have "(word_of_int i :: 64 word) = word_of_int (i - 2 ^ 64)" by (simp add: word_of_int_eq_iff take_bit_eq_mod)
    moreover have "sint (word_of_int (i - 2 ^ 64) :: 64 word) = i - 2 ^ 64"
      using False r by (intro word64_of_int_sint) (simp_all add: int64_min_def int64_max_def)
    ultimately show ?thesis using False by presburger
  qed
qed

lemma trunc_real_of_int [simp]: "trunc_real (real_of_int i) = i"
  by (simp add: trunc_real_def)

lemma as_int_float:
  "as_int oob (GFloat64 (Fin x)) w \<longleftrightarrow> x = float64_of_int (sint w) \<and>
     (if - (2 ^ 63) \<le> trunc_real x \<and> trunc_real x < 2 ^ 63 then real_of_int (sint w) = x else w = oob (Fin x))"
  unfolding as_int_def integer_value.simps gval.inject gofloat.inject by blast

lemma float_as_int:
  "if float_is_int64 oob (Fin x) then as_int oob (GFloat64 (Fin x)) (int64_of_float oob (Fin x))
   else \<forall>w. \<not> as_int oob (GFloat64 (Fin x)) w"
proof (cases "int64_min \<le> trunc_real x \<and> trunc_real x \<le> int64_max")
  case True
  then have range: "- (2 ^ 63) \<le> trunc_real x \<and> trunc_real x < 2 ^ 63" by (simp add: int64_min_def int64_max_def)
  have w: "int64_of_float oob (Fin x) = word_of_int (trunc_real x)" "sint (word_of_int (trunc_real x) :: 64 word) = trunc_real x"
    using True word64_of_int_sint by auto
  show ?thesis
  proof (cases "x = float64_of_int (trunc_real x)")
    case exact: True
    obtain j where "x = real_of_int j" using float64_of_int_nearest [of "trunc_real x"] exact by metis
    then have "real_of_int (trunc_real x) = x" by simp
    then have "as_int oob (GFloat64 (Fin x)) (int64_of_float oob (Fin x))"
      unfolding as_int_float if_P [OF range] w using exact by blast
    moreover have "float_is_int64 oob (Fin x)" using exact by (simp only: float_is_int64.simps w)
    ultimately show ?thesis by simp
  next
    case False
    have "\<not> as_int oob (GFloat64 (Fin x)) v" for v
    proof
      assume "as_int oob (GFloat64 (Fin x)) v"
      then have v: "x = float64_of_int (sint v)" "real_of_int (sint v) = x" unfolding as_int_float if_P [OF range] by blast+
      have "trunc_real x = sint v" unfolding v(2) [symmetric] by (rule trunc_real_of_int)
      with False v(1) show "False" by metis
    qed
    moreover have "\<not> float_is_int64 oob (Fin x)" using False by (simp only: float_is_int64.simps w not_False_eq_True)
    ultimately show ?thesis by simp
  qed
next
  case False
  then have range: "\<not> (- (2 ^ 63) \<le> trunc_real x \<and> trunc_real x < 2 ^ 63)" by (auto simp: int64_min_def int64_max_def)
  have w: "int64_of_float oob (Fin x) = oob (Fin x)" using False by auto
  show ?thesis unfolding as_int_float if_not_P [OF range] float_is_int64.simps w by auto
qed

lemma toInt64_as: "case toInt64 oob v of Some w \<Rightarrow> as_int oob v w | None \<Rightarrow> (\<forall>w. \<not> as_int oob v w)"
proof (cases "integer_value v")
  case (Some i)
  then show ?thesis
    using integer_value_range [OF Some] by (simp add: toInt64_integer [OF Some] as_int_def sint_word_of_int)
next
  case None
  have same: "as_int oob (GFloat32 f) w = as_int oob (GFloat64 f) w" for f w by (auto simp: as_int_def)
  have float: "case toInt64 oob (GFloat64 f) of Some w \<Rightarrow> as_int oob (GFloat64 f) w | None \<Rightarrow> (\<forall>w. \<not> as_int oob (GFloat64 f) w)" for f
  proof (cases f)
    case (Fin x)
    then show ?thesis using float_as_int [of oob x] by (auto split: if_splits simp del: float_is_int64.simps int64_of_float.simps)
  qed (auto simp: as_int_def)
  show ?thesis
  proof (cases v)
    case (GFloat32 f)
    then show ?thesis using float [of f] by (simp only: same toInt64.simps)
  next
    case (GFloat64 f)
    then show ?thesis using float [of f] by (simp only:)
  qed (use None in \<open>auto simp: as_int_def\<close>)
qed

lemma coerceValue_stores:
  assumes "known_type t"
  shows "case coerceValue oob v t of (c, None) \<Rightarrow> stores oob t v c | (_, Some _) \<Rightarrow> (\<forall>c. \<not> stores oob t v c)"
proof (cases "stringType_match t")
  case (Some m)
  then have t: "t = ''string_'' @ m" by (simp add: stringType_match_iff)
  obtain n where n: "Atoi m = Some n" using stringType_digits [OF Some] by blast
  then show ?thesis
    using Some by (cases v) (auto simp: coerceValue_def stores_def t Let_def)
next
  case None
  have fixed: "map_of fixedTypeSizes t \<noteq> None"
    using assms None by (auto simp: known_type_def FieldByteSize_def split: option.splits)
  then have no_string: "\<not> (t = ''string_'' @ m \<and> Atoi m = Some n)" for m n
    using string_not_fixed by metis
  have t: "t \<in> {''int8'', ''int16'', ''int32'', ''int64'', ''uint8'', ''uint16'', ''uint32'', ''uint64''} \<or> t \<in> {''float32'', ''float64''} \<or> t = ''bool''"
    using fixed by (auto simp: fixedTypeSizes_def split: if_splits)
  from t show ?thesis
  proof (elim disjE)
    assume "t \<in> {''int8'', ''int16'', ''int32'', ''int64'', ''uint8'', ''uint16'', ''uint32'', ''uint64''}"
    then show ?thesis using toInt64_as [of oob v] None no_string by (auto simp: coerceValue_def stores_def split: option.splits)
  next
    assume "t \<in> {''float32'', ''float64''}"
    then show ?thesis using toFloat64_as [of v] None no_string by (auto simp: coerceValue_def stores_def split: option.splits)
  next
    assume "t = ''bool''"
    then show ?thesis using None no_string by (cases v) (auto simp: coerceValue_def stores_def)
  qed
qed

section \<open>What decoding makes of the values\<close>

definition misfits :: "(gofloat \<Rightarrow> 64 word) \<Rightarrow> gmap \<Rightarrow> SchemaField \<Rightarrow> bool" where
  "misfits oob vals f \<longleftrightarrow> (case map_of vals (sf_Name f) of None \<Rightarrow> True | Some v \<Rightarrow> \<not> (\<exists>c. stores oob (sf_Type f) v c))"

definition reports :: "gmap \<Rightarrow> SchemaField \<Rightarrow> problem \<Rightarrow> bool" where
  "reports vals f p \<longleftrightarrow>
     (if map_of vals (sf_Name f) = None then p = MissingField (sf_Name f) else \<exists>e. p = FieldProblem (sf_Name f) e)"

definition read_as :: "(gofloat \<Rightarrow> 64 word) \<Rightarrow> SchemaField list \<Rightarrow> gmap \<Rightarrow> gmap option \<times> problem list \<Rightarrow> bool" where
  "read_as oob flds vals result \<longleftrightarrow>
     (\<exists>decoded problems. result = (Some decoded, problems) \<and>
        keys_of decoded = sf_Name ` set flds \<union> keys_of vals \<and>
        (\<forall>f \<in> set flds. \<exists>c. map_of decoded (sf_Name f) = Some c \<and>
           (case map_of vals (sf_Name f) of
              None \<Rightarrow> c = GNil
            | Some v \<Rightarrow> if \<exists>c. stores oob (sf_Type f) v c then stores oob (sf_Type f) v c else c = v)) \<and>
        (\<forall>k. k \<notin> sf_Name ` set flds \<longrightarrow> map_of decoded k = map_of vals k) \<and>
        list_all2 (reports vals) (filter (misfits oob vals) flds) problems)"

lemma read_asE:
  assumes "read_as oob flds vals result"
  obtains decoded problems where "result = (Some decoded, problems)"
    "\<And>f. f \<in> set flds \<Longrightarrow> map_of vals (sf_Name f) = None \<Longrightarrow> map_of decoded (sf_Name f) = Some GNil"
    "\<And>f v. f \<in> set flds \<Longrightarrow> map_of vals (sf_Name f) = Some v \<Longrightarrow> \<exists>c. map_of decoded (sf_Name f) = Some c \<and>
       (if \<exists>c. stores oob (sf_Type f) v c then stores oob (sf_Type f) v c else c = v)"
    "\<And>k. k \<notin> sf_Name ` set flds \<Longrightarrow> map_of decoded k = map_of vals k"
    "list_all2 (reports vals) (filter (misfits oob vals) flds) problems"
  using assms unfolding read_as_def by (elim exE conjE) (force split: option.splits)

lemma field_value_stores:
  assumes "known_type (sf_Type f)"
  shows "case map_of vals (sf_Name f) of
      None \<Rightarrow> field_value oob vals f = GNil
    | Some v \<Rightarrow> if \<exists>c. stores oob (sf_Type f) v c then stores oob (sf_Type f) v (field_value oob vals f) else field_value oob vals f = v"
  using coerceValue_stores [OF assms, of oob]
  by (fastforce simp: field_value_def split: option.splits prod.splits)

lemma field_problem_reports:
  assumes "known_type (sf_Type f)"
  shows "if misfits oob vals f then \<exists>p. field_problem oob vals f = [p] \<and> reports vals f p else field_problem oob vals f = []"
  using coerceValue_stores [OF assms, of oob]
  by (fastforce simp: field_problem_def misfits_def reports_def split: option.splits prod.splits)

lemma problems_reported:
  "\<forall>f \<in> set flds. known_type (sf_Type f) \<Longrightarrow>
   list_all2 (reports vals) (filter (misfits oob vals) flds) (concat (map (field_problem oob vals) flds))"
proof (induction flds)
  case (Cons f flds)
  then show ?case using field_problem_reports [of f oob vals] by (auto split: if_splits)
qed simp

lemma decode_values_read:
  assumes "distinct (map fst vals)" "distinct (map sf_Name flds)" "\<forall>f \<in> set flds. known_type (sf_Type f)"
  shows "read_as oob flds vals (map_prod Some (\<lambda>ps. ps) (decode_values oob vals flds))"
proof -
  let ?base = "fst (fold (decode_field oob vals) flds ([], []))"
  let ?d = "keep_extra flds vals ?base"
  have m: "map_of ?d k = (if k \<notin> sf_Name ` set flds \<and> map_of vals k \<noteq> None then map_of vals k else map_of ?base k)" for k
    by (rule map_of_keep_extra [OF assms(1)])
  have out: "map_of ?base k = None" if "k \<notin> sf_Name ` set flds" for k
    using fold_decode_other [OF that, of oob vals "([], [])"] by simp
  have field: "map_of ?d (sf_Name f) = Some (field_value oob vals f)" if "f \<in> set flds" for f
    using fold_decode_value [OF that assms(2), of oob vals "[]" "[]"] that m [of "sf_Name f"] by simp
  have extra: "map_of ?d k = map_of vals k" if "k \<notin> sf_Name ` set flds" for k
    using m [of k] out [OF that] that by auto
  have "k \<in> keys_of ?d \<longleftrightarrow> k \<in> sf_Name ` set flds \<union> keys_of vals" for k
    using field extra [of k] unfolding keys_of_iff by (cases "k \<in> sf_Name ` set flds") (auto simp: keys_of_iff)
  then have keys: "keys_of ?d = sf_Name ` set flds \<union> keys_of vals" by blast
  show ?thesis
    unfolding read_as_def
  proof (intro exI conjI)
    show "map_prod Some (\<lambda>ps. ps) (decode_values oob vals flds) = (Some ?d, concat (map (field_problem oob vals) flds))"
      by (simp add: decode_values_split)
    show "\<forall>f \<in> set flds. \<exists>c. map_of ?d (sf_Name f) = Some c \<and>
        (case map_of vals (sf_Name f) of None \<Rightarrow> c = GNil
         | Some v \<Rightarrow> if \<exists>c. stores oob (sf_Type f) v c then stores oob (sf_Type f) v c else c = v)"
      using field field_value_stores assms(3) by blast
  qed (use keys extra problems_reported [OF assms(3)] in blast)+
qed

text \<open>The positional fallback gives every field the element at its place.\<close>

lemma positional_fold:
  "distinct (map sf_Name flds) \<Longrightarrow> distinct (map fst acc) \<Longrightarrow>
   (let m = fold (\<lambda>(f, v). AList.update (sf_Name f) v) (zip flds arr) acc in
      distinct (map fst m) \<and> keys_of m \<subseteq> sf_Name ` set flds \<union> keys_of acc \<and>
      (\<forall>k. k \<notin> sf_Name ` set flds \<longrightarrow> map_of m k = map_of acc k) \<and>
      (\<forall>j < length flds. map_of m (sf_Name (flds ! j)) = (if j < length arr then Some (arr ! j) else map_of acc (sf_Name (flds ! j)))))"
proof (induction flds arbitrary: arr acc)
  case (Cons f flds)
  show ?case
  proof (cases arr)
    case Nil
    then show ?thesis using Cons.prems by auto
  next
    case arr: (Cons v vs)
    let ?acc = "AList.update (sf_Name f) v acc"
    let ?m = "fold (\<lambda>(f, v). AList.update (sf_Name f) v) (zip flds vs) ?acc"
    have f: "sf_Name f \<notin> sf_Name ` set flds" "distinct (map sf_Name flds)" using Cons.prems(1) by simp_all
    have "distinct (map fst ?acc)" using Cons.prems(2) by (rule distinct_update)
    note ih = Cons.IH [OF f(2) this, of vs, unfolded Let_def]
    have other: "sf_Name (flds ! i) \<noteq> sf_Name f" if "i < length flds" for i using f(1) nth_mem [OF that] by (metis imageI)
    have "(if j < length (v # vs) then Some ((v # vs) ! j) else map_of acc (sf_Name ((f # flds) ! j))) = map_of ?m (sf_Name ((f # flds) ! j))"
      if "j < length (f # flds)" for j
      using that ih f(1) other by (cases j) auto
    moreover have "keys_of ?m \<subseteq> sf_Name ` set (f # flds) \<union> keys_of acc" using ih by auto
    moreover have "map_of ?m k = map_of acc k" if "k \<notin> sf_Name ` set (f # flds)" for k using that ih by simp
    ultimately show ?thesis using ih unfolding arr zip_Cons_Cons fold.simps Let_def comp_apply prod.case by metis
  qed
qed auto

lemma positional_values:
  assumes "distinct (map sf_Name flds)"
  shows "distinct (map fst (positional flds arr))" "keys_of (positional flds arr) \<subseteq> sf_Name ` set flds"
    "j < length flds \<Longrightarrow> map_of (positional flds arr) (sf_Name (flds ! j)) = (if j < length arr then Some (arr ! j) else None)"
  using positional_fold [OF assms, of "[]" arr] by (simp_all add: positional_def Let_def)

section \<open>Properties\<close>

text \<open>
  C30. \<open>ValidateSchemaFields\<close> accepts exactly the schemas of 1 to 32 fields with distinct names,
  names that start with a letter and continue with at most 29 letters, digits or underscores, and
  types that are fixed-size numbers, booleans or \<open>string_N\<close> with N between 1 and 242.  Every
  field of an accepted schema has a size of 1 to 242 bytes and the packed estimate is the header
  plus a sum that lies between 2 and 275 bytes per field.
\<close>

theorem ValidateSchemaFields_accepts:
  "(ValidateSchemaFields fs = Inr () \<longleftrightarrow>
      1 \<le> length fs \<and> length fs \<le> 32 \<and> distinct (map sf_Name fs) \<and>
      (\<forall>f \<in> set fs. (\<exists>c cs. sf_Name f = c # cs \<and> is_letter c \<and> length cs \<le> 29 \<and> list_all is_word_char cs) \<and>
        (sf_Type f \<in> keys_of fixedTypeSizes \<or>
         (\<exists>m n. sf_Type f = ''string_'' @ m \<and> hd m \<noteq> CHR ''0'' \<and> list_all is_digit m \<and>
                Atoi m = Some n \<and> 1 \<le> n \<and> n \<le> 242 \<and> length m \<le> 3)))) \<and>
   (ValidateSchemaFields fs = Inr () \<longrightarrow>
      (\<forall>f \<in> set fs. \<exists>n. FieldByteSize (sf_Type f) = Inr n \<and> 1 \<le> n \<and> n \<le> 242) \<and>
      3 + 2 * int (length fs) \<le> EstimatePackedBytes fs \<and> EstimatePackedBytes fs \<le> 3 + 275 * int (length fs))"
proof
  have name: "fieldName_match s \<longleftrightarrow> (\<exists>c cs. s = c # cs \<and> is_letter c \<and> length cs \<le> 29 \<and> list_all is_word_char cs)" for s
    by (auto simp: fieldName_match_def split: list.splits)
  show "ValidateSchemaFields fs = Inr () \<longleftrightarrow>
      1 \<le> length fs \<and> length fs \<le> 32 \<and> distinct (map sf_Name fs) \<and>
      (\<forall>f \<in> set fs. (\<exists>c cs. sf_Name f = c # cs \<and> is_letter c \<and> length cs \<le> 29 \<and> list_all is_word_char cs) \<and>
        (sf_Type f \<in> keys_of fixedTypeSizes \<or>
         (\<exists>m n. sf_Type f = ''string_'' @ m \<and> hd m \<noteq> CHR ''0'' \<and> list_all is_digit m \<and>
                Atoi m = Some n \<and> 1 \<le> n \<and> n \<le> 242 \<and> length m \<le> 3)))"
    unfolding ValidateSchemaFields_ok_iff valid_schema_def name known_type_iff ..
  show "ValidateSchemaFields fs = Inr () \<longrightarrow>
      (\<forall>f \<in> set fs. \<exists>n. FieldByteSize (sf_Type f) = Inr n \<and> 1 \<le> n \<and> n \<le> 242) \<and>
      3 + 2 * int (length fs) \<le> EstimatePackedBytes fs \<and> EstimatePackedBytes fs \<le> 3 + 275 * int (length fs)"
  proof
    assume "ValidateSchemaFields fs = Inr ()"
    then have v: "valid_schema fs" by (simp add: ValidateSchemaFields_ok_iff)
    then have "2 \<le> field_estimate f \<and> field_estimate f \<le> 275" if "f \<in> set fs" for f
      using field_estimate_range [of f] that by (simp add: valid_schema_def)
    then have "int (length fs) * 2 \<le> sum_list (map field_estimate fs)"
      "sum_list (map field_estimate fs) \<le> int (length fs) * 275"
      by (rule sum_list_bounds; simp)+
    moreover have "\<exists>n. FieldByteSize (sf_Type f) = Inr n \<and> 1 \<le> n \<and> n \<le> 242" if "f \<in> set fs" for f
      using v that FieldByteSize_range unfolding valid_schema_def known_type_def by blast
    ultimately show "(\<forall>f \<in> set fs. \<exists>n. FieldByteSize (sf_Type f) = Inr n \<and> 1 \<le> n \<and> n \<le> 242) \<and>
      3 + 2 * int (length fs) \<le> EstimatePackedBytes fs \<and> EstimatePackedBytes fs \<le> 3 + 275 * int (length fs)"
      by (simp add: EstimatePackedBytes_sum algebra_simps)
  qed
qed

theorem ValidateSchemaFields_accepts_witness:
  "3 + 2 * int (length [\<lparr>sf_Name = ''temp'', sf_Type = ''float32''\<rparr>])
     \<le> EstimatePackedBytes [\<lparr>sf_Name = ''temp'', sf_Type = ''float32''\<rparr>]"
proof -
  have "ValidateSchemaFields [\<lparr>sf_Name = ''temp'', sf_Type = ''float32''\<rparr>] = Inr ()"
    by (simp add: ValidateSchemaFields_def maxSchemaFields_def fieldName_match_def is_letter_def
        is_word_char_def FieldByteSize_fixed)
  then show ?thesis using ValidateSchemaFields_accepts by blast
qed

text \<open>
  C28. Decoding with a valid schema, of a MessagePack map, or of an array taken as the values of the fields in order.
  The result has exactly the schema's fields and the payload's own keys.  A field holds nil when it is missing; the
  string, boolean, float or \<open>int64\<close> that its value is when the value conforms to the type; and the raw value when
  it does not.  Keys outside the schema keep their values.  The problems are one for each missing and for each
  non-conforming field, in schema order.  Neither the declared width of an integer nor its sign is checked, and a
  \<open>uint64\<close> above the range of \<open>int64\<close> is stored with \<open>2 ^ 64\<close> taken off and not reported.  Only bytes that are
  neither a map nor an array decode to nothing.
\<close>

theorem DecodePayload_lenient:
  assumes "ValidateSchemaFields flds = Inr ()" "\<And>vals. unmarshal_map raw = Inr vals \<Longrightarrow> distinct (map fst vals)"
  shows "case unmarshal_map raw of
      Inr vals \<Rightarrow> read_as oob flds vals (DecodePayload unmarshal_map unmarshal_array oob raw flds)
    | Inl err \<Rightarrow>
        (case unmarshal_array raw of
           Inr arr \<Rightarrow> (\<exists>vals. read_as oob flds vals (DecodePayload unmarshal_map unmarshal_array oob raw flds) \<and>
             keys_of vals \<subseteq> sf_Name ` set flds \<and>
             (\<forall>j < length flds. map_of vals (sf_Name (flds ! j)) = (if j < length arr then Some (arr ! j) else None)))
         | Inl _ \<Rightarrow> DecodePayload unmarshal_map unmarshal_array oob raw flds = (None, [DecodeFailed err]))"
proof -
  have v: "distinct (map sf_Name flds)" "\<forall>f \<in> set flds. known_type (sf_Type f)"
    using assms(1) by (simp_all add: ValidateSchemaFields_ok_iff valid_schema_def)
  have read: "read_as oob flds vals (case decode_values oob vals flds of (d, ps) \<Rightarrow> (Some d, ps))" if "distinct (map fst vals)" for vals
    using decode_values_read [OF that v, of oob] by (simp add: map_prod_def)
  show ?thesis
  proof (cases "unmarshal_map raw")
    case (Inr vals)
    then show ?thesis using read [OF assms(2) [OF Inr]] by (simp add: DecodePayload_def)
  next
    case (Inl err)
    show ?thesis
    proof (cases "unmarshal_array raw")
      case (Inr arr)
      note pos = positional_values [OF v(1), where arr = arr]
      from read [OF pos(1)] show ?thesis
        unfolding Inl Inr DecodePayload_def Let_def sum.case using pos(2,3) by blast
    qed (simp add: Inl DecodePayload_def)
  qed
qed

text \<open>A \<open>bool\<close> field that got a number, an integer that came as the float 3, and an array that is too short.\<close>

theorem DecodePayload_lenient_witness:
  "(\<exists>decoded problems. DecodePayload (\<lambda>_. Inr [(''x'', GInt8 5), (''y'', GBool True), (''n'', GFloat64 (Fin 3))]) (\<lambda>_. Inl []) (\<lambda>_. 0) []
       [\<lparr>sf_Name = ''x'', sf_Type = ''bool''\<rparr>, \<lparr>sf_Name = ''n'', sf_Type = ''int64''\<rparr>] = (Some decoded, problems) \<and>
     map_of decoded ''x'' = Some (GInt8 5) \<and> map_of decoded ''y'' = Some (GBool True) \<and> length problems = 1) \<and>
   (\<exists>decoded. DecodePayload (\<lambda>_. Inl []) (\<lambda>_. Inr [GBool True]) (\<lambda>_. 0) []
       [\<lparr>sf_Name = ''x'', sf_Type = ''bool''\<rparr>, \<lparr>sf_Name = ''n'', sf_Type = ''int64''\<rparr>] = (Some decoded, [MissingField ''n'']) \<and>
     map_of decoded ''x'' = Some (GBool True) \<and> map_of decoded ''n'' = Some GNil)"
proof -
  let ?vals = "[(''x'', GInt8 5), (''y'', GBool True), (''n'', GFloat64 (Fin 3))]"
  let ?flds = "[\<lparr>sf_Name = ''x'', sf_Type = ''bool''\<rparr>, \<lparr>sf_Name = ''n'', sf_Type = ''int64''\<rparr>]"
  have valid: "ValidateSchemaFields ?flds = Inr ()"
    by (simp add: ValidateSchemaFields_def maxSchemaFields_def fieldName_match_def is_letter_def FieldByteSize_fixed)
  have no_bool: "\<not> stores oob ''bool'' (GInt8 5) c" for oob c by (simp add: stores_def)
  have three: "\<exists>c. stores oob ''int64'' (GFloat64 (Fin 3)) c" for oob
    by (rule exI [of _ "GInt64 3"]) (simp add: stores_def as_int_def float64_of_int_exact trunc_real_def)
  have true: "stores oob ''bool'' (GBool True) c \<longleftrightarrow> c = GBool True" for oob c by (auto simp: stores_def)
  have "read_as (\<lambda>_. 0) ?flds ?vals (DecodePayload (\<lambda>_. Inr ?vals) (\<lambda>_. Inl []) (\<lambda>_. 0) [] ?flds)"
    using DecodePayload_lenient [OF valid, of "\<lambda>_. Inr ?vals" "[]" "\<lambda>_. Inl []" "\<lambda>_. 0"] by simp
  then obtain d ps where d: "DecodePayload (\<lambda>_. Inr ?vals) (\<lambda>_. Inl []) (\<lambda>_. 0) [] ?flds = (Some d, ps)"
      and x: "\<exists>c. map_of d (sf_Name (hd ?flds)) = Some c \<and> (if \<exists>c. stores (\<lambda>_. 0) (sf_Type (hd ?flds)) (GInt8 5) c
        then stores (\<lambda>_. 0) (sf_Type (hd ?flds)) (GInt8 5) c else c = GInt8 5)"
      and y: "map_of d ''y'' = map_of ?vals ''y''" and ps: "list_all2 (reports ?vals) (filter (misfits (\<lambda>_. 0) ?vals) ?flds) ps"
  proof (rule read_asE, goal_cases)
    case (1 d ps)
    show ?thesis
      by (rule 1(1) [OF 1(2)]) (use 1(4) [of "hd ?flds" "GInt8 5"] 1(5) [of "''y''"] 1(6) in simp_all)
  qed
  have "filter (misfits (\<lambda>_. 0) ?vals) ?flds = [hd ?flds]" using three by (simp add: misfits_def no_bool)
  then have "length ps = 1" using list_all2_lengthD [OF ps] by simp
  then have map: "\<exists>decoded problems. DecodePayload (\<lambda>_. Inr ?vals) (\<lambda>_. Inl []) (\<lambda>_. 0) [] ?flds = (Some decoded, problems) \<and>
     map_of decoded ''x'' = Some (GInt8 5) \<and> map_of decoded ''y'' = Some (GBool True) \<and> length problems = 1"
    using d x y by (simp add: no_bool)
  obtain vals where vals: "read_as (\<lambda>_. 0) ?flds vals (DecodePayload (\<lambda>_. Inl []) (\<lambda>_. Inr [GBool True]) (\<lambda>_. 0) [] ?flds)"
      and at: "\<forall>j < length ?flds. map_of vals (sf_Name (?flds ! j)) = (if j < length [GBool True] then Some ([GBool True] ! j) else None)"
    using DecodePayload_lenient [OF valid, of "\<lambda>_. Inl []" "[]" "\<lambda>_. Inr [GBool True]" "\<lambda>_. 0"] by (auto simp only: sum.case)
  have k: "map_of vals ''x'' = Some (GBool True)" "map_of vals ''n'' = None"
    using at [rule_format, of 0] at [rule_format, of 1] by simp_all
  from vals obtain d' ps' where d': "DecodePayload (\<lambda>_. Inl []) (\<lambda>_. Inr [GBool True]) (\<lambda>_. 0) [] ?flds = (Some d', ps')"
      and n: "map_of d' ''n'' = Some GNil" and ps': "list_all2 (reports vals) (filter (misfits (\<lambda>_. 0) vals) ?flds) ps'"
      and x': "\<exists>c. map_of d' (sf_Name (hd ?flds)) = Some c \<and> (if \<exists>c. stores (\<lambda>_. 0) (sf_Type (hd ?flds)) (GBool True) c
        then stores (\<lambda>_. 0) (sf_Type (hd ?flds)) (GBool True) c else c = GBool True)"
  proof (rule read_asE, goal_cases)
    case (1 d ps)
    show ?thesis
      by (rule 1(1) [OF 1(2)]) (use 1(3) [of "?flds ! 1"] 1(4) [of "hd ?flds" "GBool True"] 1(6) k in simp_all)
  qed
  have "filter (misfits (\<lambda>_. 0) vals) ?flds = [?flds ! 1]" by (simp add: misfits_def k true)
  then have "ps' = [MissingField ''n'']" using ps' by (auto simp: list_all2_Cons1 reports_def k)
  then show ?thesis using map d' n x' by (simp add: true)
qed

end
