(* ===== verification/Mesh.thy ===== *)
theory Mesh
  imports Packet Geo
begin

text \<open>
  Mesh routing, \<^verbatim>\<open>domain/mesh.go\<close>: \<open>BuildTopology\<close> layers the fleet breadth-first from the
  Virtual Edges outward.  The state of its loops is the record \<open>mesh\<close> (the routes computed so
  far, the ids still unrouted, the previous level); \<open>nearest_scan\<close> is the inner loop that keeps
  the nearest candidate with ties broken by id, \<open>level1_step\<close> and \<open>level_step\<close> are the bodies of
  the two outer loops, \<open>run_levels\<close> the loop over the levels 2..MaxHops.

  The abstract specification is the reachability relation \<open>hops\<close> and its minimum: the main
  lemmas say that a node is routed at level \<open>k\<close> exactly when \<open>k\<close> radio hops is the least number
  that reaches an edge, that its parent is the nearest admissible one, and that nothing else
  depends on the order of the inputs.  The locale \<open>routing_dag\<close> is what frame forwarding needs
  from a routing table; its client lemmas (walking the parents ends at an edge, no cycles) hold
  for the tables of \<open>BuildTopology\<close> by interpretation.
\<close>

section \<open>Data (mesh.go, entities.go)\<close>

definition RouteStatusRouted :: string where "RouteStatusRouted = ''routed''"
definition RouteStatusIsolated :: string where "RouteStatusIsolated = ''isolated''"

lemma RouteStatus_distinct [simp]:
  "RouteStatusRouted \<noteq> RouteStatusIsolated" "RouteStatusIsolated \<noteq> RouteStatusRouted"
  by (simp_all add: RouteStatusRouted_def RouteStatusIsolated_def)

record NodePosition =
  np_ID :: string
  np_Lat :: real
  np_Lng :: real

record Edge =
  ed_ID :: int
  ed_EdgeCode :: string
  ed_Name :: string
  ed_Latitude :: real
  ed_Longitude :: real
  ed_CreatedAt :: int
  ed_UpdatedAt :: int

record RouteEntry =
  re_NodeID :: string
  re_Parent :: string
  re_ParentIsEdge :: bool
  re_DistanceKm :: real
  re_HopLevel :: int
  re_Status :: string

type_synonym table = "(string \<times> RouteEntry) list"

record mesh =
  ms_routes :: table
  ms_unrouted :: "string list"
  ms_prev :: "string list"

section \<open>BuildTopology\<close>

text \<open>The variables \<open>found\<close>, \<open>bestDist\<close>, \<open>bestEdge\<close>/\<open>bestParent\<close> over the candidate distances.\<close>

fun nearest_scan :: "real \<Rightarrow> (real \<times> string) list \<Rightarrow> bool \<times> real \<times> string \<Rightarrow> bool \<times> real \<times> string" where
  "nearest_scan maxRangeKm [] best = best"
| "nearest_scan maxRangeKm ((d, name) # cs) (found, bestDist, bestName) =
     (if d > maxRangeKm then nearest_scan maxRangeKm cs (found, bestDist, bestName)
      else if \<not> found \<or> d < bestDist \<or> (d = bestDist \<and> name < bestName)
           then nearest_scan maxRangeKm cs (True, d, name)
           else nearest_scan maxRangeKm cs (found, bestDist, bestName))"

definition edge_cand :: "NodePosition \<Rightarrow> Edge \<Rightarrow> real \<times> string" where
  "edge_cand n e =
     (HaversineKm (np_Lat n) (np_Lng n) (ed_Latitude e) (ed_Longitude e), ed_EdgeCode e)"

definition node_cand :: "NodePosition \<Rightarrow> NodePosition \<Rightarrow> real \<times> string" where
  "node_cand n p = (HaversineKm (np_Lat n) (np_Lng n) (np_Lat p) (np_Lng p), np_ID p)"

definition zero_position :: NodePosition where
  "zero_position = \<lparr>np_ID = [], np_Lat = 0, np_Lng = 0\<rparr>"

definition position_at :: "(string \<times> NodePosition) list \<Rightarrow> string \<Rightarrow> NodePosition" where
  "position_at positions pid =
     (case map_of positions pid of Some p \<Rightarrow> p | None \<Rightarrow> zero_position)"

definition attach_edge :: "real \<Rightarrow> Edge list \<Rightarrow> NodePosition \<Rightarrow> RouteEntry option" where
  "attach_edge maxRangeKm edges n =
     (let (found, bestDist, bestEdge) =
            nearest_scan maxRangeKm (map (edge_cand n) edges) (False, 0.0, [])
      in if found
         then Some \<lparr>re_NodeID = np_ID n, re_Parent = bestEdge, re_ParentIsEdge = True,
                    re_DistanceKm = bestDist, re_HopLevel = 1, re_Status = RouteStatusRouted\<rparr>
         else None)"

definition attach_node ::
  "real \<Rightarrow> (string \<times> NodePosition) list \<Rightarrow> string list \<Rightarrow> int \<Rightarrow> NodePosition \<Rightarrow> RouteEntry option" where
  "attach_node maxRangeKm positions prevLevel level n =
     (let (found, bestDist, bestParent) =
            nearest_scan maxRangeKm
              (map (\<lambda>pid. (fst (node_cand n (position_at positions pid)), pid)) prevLevel)
              (False, maxRangeKm, [])
      in if found
         then Some \<lparr>re_NodeID = np_ID n, re_Parent = bestParent, re_ParentIsEdge = False,
                    re_DistanceKm = bestDist, re_HopLevel = level, re_Status = RouteStatusRouted\<rparr>
         else None)"

definition level1_step :: "real \<Rightarrow> Edge list \<Rightarrow> NodePosition \<Rightarrow> mesh \<Rightarrow> mesh" where
  "level1_step maxRangeKm edges n m =
     (case attach_edge maxRangeKm edges n of
        None \<Rightarrow> m
      | Some r \<Rightarrow> m\<lparr>ms_routes := AList.update (np_ID n) r (ms_routes m),
                    ms_unrouted := filter (\<lambda>i. i \<noteq> np_ID n) (ms_unrouted m),
                    ms_prev := ms_prev m @ [np_ID n]\<rparr>)"

text \<open>The inner loop of one later level: routes and \<open>currLevel\<close>; the rest is read only.\<close>

definition attach_step ::
  "(NodePosition \<Rightarrow> RouteEntry option) \<Rightarrow> string list \<Rightarrow> NodePosition \<Rightarrow> table \<times> string list \<Rightarrow> table \<times> string list" where
  "attach_step attach unrouted n = (\<lambda>(routes, currLevel).
     if np_ID n \<notin> set unrouted then (routes, currLevel)
     else case attach n of
            None \<Rightarrow> (routes, currLevel)
          | Some r \<Rightarrow> (AList.update (np_ID n) r routes, currLevel @ [np_ID n]))"

definition level_step ::
  "real \<Rightarrow> (string \<times> NodePosition) list \<Rightarrow> NodePosition list \<Rightarrow> int \<Rightarrow> mesh \<Rightarrow> mesh" where
  "level_step maxRangeKm positions sorted_nodes level m =
     (let (routes, currLevel) =
            fold (attach_step (attach_node maxRangeKm positions (ms_prev m) level) (ms_unrouted m))
              sorted_nodes (ms_routes m, [])
      in \<lparr>ms_routes = routes,
          ms_unrouted = filter (\<lambda>i. i \<notin> set currLevel) (ms_unrouted m),
          ms_prev = currLevel\<rparr>)"

function run_levels ::
  "real \<Rightarrow> (string \<times> NodePosition) list \<Rightarrow> NodePosition list \<Rightarrow> int \<Rightarrow> mesh \<Rightarrow> mesh" where
  "run_levels maxRangeKm positions sorted_nodes level m =
     (if level \<le> MaxHops \<and> ms_unrouted m \<noteq> [] \<and> ms_prev m \<noteq> []
      then run_levels maxRangeKm positions sorted_nodes (level + 1)
             (level_step maxRangeKm positions sorted_nodes level m)
      else m)"
  by pat_completeness auto
termination
  by (relation "measure (\<lambda>(r, ps, ns, level, m). nat (MaxHops + 1 - level))") (auto simp: MaxHops_def)

declare run_levels.simps [simp del]

definition isolated_entry :: "string \<Rightarrow> RouteEntry" where
  "isolated_entry i =
     \<lparr>re_NodeID = i, re_Parent = [], re_ParentIsEdge = False, re_DistanceKm = 0,
      re_HopLevel = 0, re_Status = RouteStatusIsolated\<rparr>"

definition BuildTopology :: "NodePosition list \<Rightarrow> Edge list \<Rightarrow> real \<Rightarrow> table" where
  "BuildTopology nodes edges maxRangeKm =
     (if nodes = [] then []
      else let sorted_nodes = sort_key np_ID nodes;
               positions = fold (\<lambda>n. AList.update (np_ID n) n) sorted_nodes [];
               start = \<lparr>ms_routes = [], ms_unrouted = remdups (map np_ID sorted_nodes), ms_prev = []\<rparr>;
               m1 = fold (level1_step maxRangeKm edges) sorted_nodes start;
               m = run_levels maxRangeKm positions sorted_nodes 2 m1
           in fold (\<lambda>i. AList.update i (isolated_entry i)) (ms_unrouted m) (ms_routes m))"

section \<open>The nearest candidate\<close>

text \<open>The candidate the scan keeps: in range, least distance, least name among equals.\<close>

definition nearest :: "real \<Rightarrow> (real \<times> string) set \<Rightarrow> real \<Rightarrow> string \<Rightarrow> bool" where
  "nearest r C d x \<longleftrightarrow>
     (d, x) \<in> C \<and> d \<le> r \<and> (\<forall>(d', x') \<in> C. d' \<le> r \<longrightarrow> d < d' \<or> (d = d' \<and> x \<le> x'))"

lemma nearest_unique: "nearest r C d x \<Longrightarrow> nearest r C d' x' \<Longrightarrow> d = d' \<and> x = x'"
  by (fastforce simp: nearest_def)

lemma nearest_scan_found:
  "d \<le> r \<Longrightarrow> \<exists>d' x'. nearest_scan r cs (True, d, x) = (True, d', x') \<and>
     nearest r (insert (d, x) (set cs)) d' x'"
proof (induction cs arbitrary: d x)
  case Nil
  then show ?case by (simp add: nearest_def)
next
  case (Cons c cs)
  obtain e y where c: "c = (e, y)" by (cases c)
  show ?case
  proof (cases "e \<le> r \<and> (e < d \<or> (e = d \<and> y < x))")
    case True
    then obtain d' x' where s: "nearest_scan r cs (True, e, y) = (True, d', x')"
      and n: "nearest r (insert (e, y) (set cs)) d' x'"
      using Cons.IH by blast
    from n True have "nearest r (insert (d, x) (set (c # cs))) d' x'"
      unfolding nearest_def c by fastforce
    then show ?thesis using s True c by auto
  next
    case False
    obtain d' x' where s: "nearest_scan r cs (True, d, x) = (True, d', x')"
      and n: "nearest r (insert (d, x) (set cs)) d' x'"
      using Cons by blast
    from n False have "nearest r (insert (d, x) (set (c # cs))) d' x'"
      unfolding nearest_def c by fastforce
    then show ?thesis using s False c by auto
  qed
qed

lemma nearest_scan_spec:
  "(\<exists>d x. nearest_scan r cs (False, d0, x0) = (True, d, x) \<and> nearest r (set cs) d x)
   \<or> (nearest_scan r cs (False, d0, x0) = (False, d0, x0) \<and> (\<forall>(d, x) \<in> set cs. r < d))"
proof (induction cs)
  case (Cons c cs)
  obtain e y where c: "c = (e, y)" by (cases c)
  show ?case
  proof (cases "e \<le> r")
    case True
    then show ?thesis using nearest_scan_found [of e r cs y] c by auto
  next
    case False
    then have "nearest r (set (c # cs)) d x \<longleftrightarrow> nearest r (set cs) d x" for d x
      by (auto simp: nearest_def c)
    with Cons.IH False c show ?thesis by auto
  qed
qed simp

section \<open>Radio reachability: the specification\<close>

definition edge_link :: "real \<Rightarrow> Edge set \<Rightarrow> NodePosition \<Rightarrow> bool" where
  "edge_link r E n \<longleftrightarrow> (\<exists>e \<in> E. fst (edge_cand n e) \<le> r)"

definition node_link :: "real \<Rightarrow> NodePosition \<Rightarrow> NodePosition \<Rightarrow> bool" where
  "node_link r n m \<longleftrightarrow> fst (node_cand n m) \<le> r"

text \<open>\<open>hops r N E n k\<close>: some chain of \<open>k\<close> transmissions, each within range, takes a frame of \<open>n\<close> to an edge.\<close>

inductive hops :: "real \<Rightarrow> NodePosition set \<Rightarrow> Edge set \<Rightarrow> NodePosition \<Rightarrow> nat \<Rightarrow> bool"
  for r :: real and N :: "NodePosition set" and E :: "Edge set" where
  direct: "n \<in> N \<Longrightarrow> edge_link r E n \<Longrightarrow> hops r N E n 1"
| relay: "n \<in> N \<Longrightarrow> hops r N E m k \<Longrightarrow> node_link r n m \<Longrightarrow> hops r N E n (Suc k)"

inductive_cases hops_0E: "hops r N E n 0"
inductive_cases hops_1E: "hops r N E n (Suc 0)"
inductive_cases hops_SucE: "hops r N E n (Suc k)"

definition min_hops :: "real \<Rightarrow> NodePosition set \<Rightarrow> Edge set \<Rightarrow> NodePosition \<Rightarrow> nat \<Rightarrow> bool" where
  "min_hops r N E n k \<longleftrightarrow> hops r N E n k \<and> (\<forall>j < k. \<not> hops r N E n j)"

lemma hops_pos: "hops r N E n k \<Longrightarrow> 0 < k"
  by (induction rule: hops.induct) auto

lemma hops_node: "hops r N E n k \<Longrightarrow> n \<in> N"
  by (induction rule: hops.induct) auto

lemma min_hops_unique: "min_hops r N E n j \<Longrightarrow> min_hops r N E n k \<Longrightarrow> j = k"
  by (metis min_hops_def linorder_neqE_nat)

lemma hops_min: "hops r N E n k \<Longrightarrow> \<exists>j \<le> k. min_hops r N E n j"
  unfolding min_hops_def using exists_least_iff [of "hops r N E n"] by (metis not_less)

lemma min_hops_1: "min_hops r N E n 1 \<longleftrightarrow> n \<in> N \<and> edge_link r E n"
  by (auto simp: min_hops_def elim: hops_1E intro: hops.direct [simplified] dest: hops_pos hops_node)

text \<open>A minimal route of \<open>k + 1\<close> hops goes through a neighbour whose minimum is \<open>k\<close>.\<close>

lemma min_hops_Suc:
  assumes "0 < k"
  shows "min_hops r N E n (Suc k) \<longleftrightarrow>
    n \<in> N \<and> (\<forall>j \<le> k. \<not> hops r N E n j) \<and> (\<exists>m. min_hops r N E m k \<and> node_link r n m)"
proof
  assume n: "min_hops r N E n (Suc k)"
  then have h: "hops r N E n (Suc k)" and least: "\<forall>j \<le> k. \<not> hops r N E n j"
    by (auto simp: min_hops_def less_Suc_eq_le)
  from h assms obtain m where m: "hops r N E m k" "node_link r n m"
    by (auto elim: hops_SucE)
  then obtain j where j: "j \<le> k" "min_hops r N E m j" using hops_min by blast
  have "hops r N E n (Suc j)" using hops_node [OF h] j m by (auto simp: min_hops_def intro: hops.relay)
  then have "j = k" using least j(1) by (metis Suc_leI le_neq_implies_less)
  then show "n \<in> N \<and> (\<forall>j \<le> k. \<not> hops r N E n j) \<and> (\<exists>m. min_hops r N E m k \<and> node_link r n m)"
    using least j m hops_node [OF h] by blast
next
  assume "n \<in> N \<and> (\<forall>j \<le> k. \<not> hops r N E n j) \<and> (\<exists>m. min_hops r N E m k \<and> node_link r n m)"
  then show "min_hops r N E n (Suc k)"
    by (auto simp: min_hops_def less_Suc_eq_le intro: hops.relay)
qed

text \<open>What a routed entry of level \<open>k\<close> must be.\<close>

definition level_cands :: "real \<Rightarrow> NodePosition set \<Rightarrow> Edge set \<Rightarrow> nat \<Rightarrow> NodePosition \<Rightarrow> (real \<times> string) set" where
  "level_cands r N E k n =
     (if k = 1 then edge_cand n ` E else node_cand n ` {m \<in> N. min_hops r N E m (k - 1)})"

definition entry_ok :: "real \<Rightarrow> (real \<times> string) set \<Rightarrow> nat \<Rightarrow> NodePosition \<Rightarrow> RouteEntry \<Rightarrow> bool" where
  "entry_ok r C k n e \<longleftrightarrow>
     re_NodeID e = np_ID n \<and> re_Status e = RouteStatusRouted \<and> re_HopLevel e = int k \<and>
     re_ParentIsEdge e = (k = 1) \<and> nearest r C (re_DistanceKm e) (re_Parent e)"

lemma entry_ok_unique: "entry_ok r C k n e \<Longrightarrow> entry_ok r C k n e' \<Longrightarrow> e = e'"
  by (auto simp: entry_ok_def dest: nearest_unique)

section \<open>Attaching one node\<close>

lemma nearest_exists_range: "nearest r C d x \<Longrightarrow> \<exists>c \<in> C. fst c \<le> r"
  unfolding nearest_def by (intro bexI [of _ "(d, x)"]) auto

lemma attach_edge_spec:
  "attach_edge r edges n = Some e \<longleftrightarrow> entry_ok r (edge_cand n ` set edges) 1 n e"
  "attach_edge r edges n = None \<longleftrightarrow> \<not> edge_link r (set edges) n"
proof -
  let ?cs = "map (edge_cand n) edges"
  have spec: "(\<exists>d x. nearest_scan r ?cs (False, 0, []) = (True, d, x) \<and> nearest r (edge_cand n ` set edges) d x)
   \<or> (nearest_scan r ?cs (False, 0, []) = (False, 0, []) \<and> (\<forall>c \<in> edge_cand n ` set edges. r < fst c))"
    using nearest_scan_spec [of r ?cs 0 "[]"] by fastforce
  show "attach_edge r edges n = Some e \<longleftrightarrow> entry_ok r (edge_cand n ` set edges) 1 n e"
    "attach_edge r edges n = None \<longleftrightarrow> \<not> edge_link r (set edges) n"
    using spec
    by (auto simp: attach_edge_def entry_ok_def edge_link_def dest: nearest_unique nearest_exists_range
      intro!: RouteEntry.equality) (fastforce dest: nearest_exists_range)+
qed

lemma attach_node_spec:
  assumes "set prev = np_ID ` M" "\<And>m. m \<in> M \<Longrightarrow> position_at positions (np_ID m) = m" "k \<noteq> 1"
  shows "attach_node r positions prev (int k) n = Some e \<longleftrightarrow> entry_ok r (node_cand n ` M) k n e"
    and "attach_node r positions prev (int k) n = None \<longleftrightarrow> \<not> (\<exists>m \<in> M. node_link r n m)"
proof -
  let ?cs = "map (\<lambda>pid. (fst (node_cand n (position_at positions pid)), pid)) prev"
  have "set ?cs = node_cand n ` M"
    using assms(1,2) by (force simp: node_cand_def image_iff)
  then have spec: "(\<exists>d x. nearest_scan r ?cs (False, r, []) = (True, d, x) \<and> nearest r (node_cand n ` M) d x)
   \<or> (nearest_scan r ?cs (False, r, []) = (False, r, []) \<and> (\<forall>c \<in> node_cand n ` M. r < fst c))"
    using nearest_scan_spec [of r ?cs r "[]"] by fastforce
  show "attach_node r positions prev (int k) n = Some e \<longleftrightarrow> entry_ok r (node_cand n ` M) k n e"
    "attach_node r positions prev (int k) n = None \<longleftrightarrow> \<not> (\<exists>m \<in> M. node_link r n m)"
    using spec assms(3)
    by (auto simp: attach_node_def entry_ok_def node_link_def dest: nearest_unique nearest_exists_range
      intro!: RouteEntry.equality) (fastforce dest: nearest_exists_range)+
qed

section \<open>The loops, pointwise\<close>

lemma attach_step_pair:
  "attach_step att U n (R, C) =
     (if np_ID n \<in> set U \<and> att n \<noteq> None then (AList.update (np_ID n) (the (att n)) R, C @ [np_ID n]) else (R, C))"
  by (auto simp: attach_step_def split: option.splits)

lemma fold_attach_step:
  assumes "distinct (map np_ID ns)"
  shows "fold (attach_step att U) ns (R, C) = (R', C') \<Longrightarrow>
    C' = C @ map np_ID (filter (\<lambda>n. np_ID n \<in> set U \<and> att n \<noteq> None) ns) \<and>
    (\<forall>n \<in> set ns. map_of R' (np_ID n) = (if np_ID n \<in> set U \<and> att n \<noteq> None then att n else map_of R (np_ID n))) \<and>
    (\<forall>i. i \<notin> np_ID ` set ns \<longrightarrow> map_of R' i = map_of R i) \<and> (wf_map R \<longrightarrow> wf_map R')"
  using assms
proof (induction ns arbitrary: R C)
  case (Cons n ns)
  show ?case
  proof (cases "np_ID n \<in> set U \<and> att n \<noteq> None")
    case True
    then obtain e where e: "att n = Some e" by auto
    with True Cons.prems have "fold (attach_step att U) ns (AList.update (np_ID n) e R, C @ [np_ID n]) = (R', C')"
      by (simp add: attach_step_pair)
    from Cons.IH [OF this] Cons.prems(2) True e show ?thesis by (auto simp: image_iff)
  next
    case False
    with Cons.prems have "fold (attach_step att U) ns (R, C) = (R', C')"
      by (auto simp: attach_step_pair)
    from Cons.IH [OF this] Cons.prems(2) False show ?thesis by (auto simp: image_iff)
  qed
qed simp

lemma fold_level1_step:
  assumes "distinct (map np_ID ns)"
  shows "fold (level1_step r edges) ns m = m' \<Longrightarrow>
    ms_prev m' = ms_prev m @ map np_ID (filter (\<lambda>n. attach_edge r edges n \<noteq> None) ns) \<and>
    set (ms_unrouted m') = set (ms_unrouted m) - np_ID ` {n \<in> set ns. attach_edge r edges n \<noteq> None} \<and>
    (\<forall>n \<in> set ns. map_of (ms_routes m') (np_ID n) =
       (if attach_edge r edges n \<noteq> None then attach_edge r edges n else map_of (ms_routes m) (np_ID n))) \<and>
    (\<forall>i. i \<notin> np_ID ` set ns \<longrightarrow> map_of (ms_routes m') i = map_of (ms_routes m) i) \<and>
    (wf_map (ms_routes m) \<longrightarrow> wf_map (ms_routes m'))"
  using assms
proof (induction ns arbitrary: m)
  case (Cons n ns)
  have "fold (level1_step r edges) ns (level1_step r edges n m) = m'" using Cons.prems by simp
  from Cons.IH [OF this] Cons.prems(2) show ?case
    by (cases "attach_edge r edges n") (auto simp: level1_step_def image_iff)
qed simp

section \<open>The level invariant\<close>

text \<open>The state after level \<open>k\<close>: who is in the previous level, who is unrouted, what is in the table.\<close>

definition route_ok :: "real \<Rightarrow> NodePosition set \<Rightarrow> Edge set \<Rightarrow> nat \<Rightarrow> NodePosition \<Rightarrow> RouteEntry \<Rightarrow> bool" where
  "route_ok r N E k n e \<longleftrightarrow> (\<exists>j \<le> k. min_hops r N E n j \<and> entry_ok r (level_cands r N E j n) j n e)"

definition reached :: "real \<Rightarrow> NodePosition set \<Rightarrow> Edge set \<Rightarrow> nat \<Rightarrow> NodePosition \<Rightarrow> bool" where
  "reached r N E k n \<longleftrightarrow> (\<exists>j \<le> k. hops r N E n j)"

definition level_inv :: "real \<Rightarrow> NodePosition set \<Rightarrow> Edge set \<Rightarrow> nat \<Rightarrow> mesh \<Rightarrow> bool" where
  "level_inv r N E k m \<longleftrightarrow>
     set (ms_prev m) = np_ID ` {n \<in> N. min_hops r N E n k} \<and>
     set (ms_unrouted m) = np_ID ` {n \<in> N. \<not> reached r N E k n} \<and>
     (\<forall>n \<in> N. \<forall>e. map_of (ms_routes m) (np_ID n) = Some e \<longleftrightarrow> route_ok r N E k n e) \<and>
     (\<forall>i. i \<notin> np_ID ` N \<longrightarrow> map_of (ms_routes m) i = None) \<and> wf_map (ms_routes m)"

lemma reached_iff: "reached r N E k n \<longleftrightarrow> (\<exists>j \<le> k. min_hops r N E n j)"
  unfolding reached_def using hops_min [of r N E n] by (meson le_trans min_hops_def)

lemma reached_0 [simp]: "\<not> reached r N E 0 n"
  by (auto simp: reached_def elim: hops_0E)

lemma reached_Suc: "reached r N E (Suc k) n \<longleftrightarrow> reached r N E k n \<or> min_hops r N E n (Suc k)"
  by (auto simp: reached_iff le_Suc_eq)

lemma reached_not_min: "reached r N E k n \<Longrightarrow> \<not> min_hops r N E n (Suc k)"
  by (auto simp: reached_def min_hops_def less_Suc_eq_le)

lemma route_ok_reached: "route_ok r N E k n e \<Longrightarrow> reached r N E k n"
  by (auto simp: route_ok_def reached_iff)

lemma route_ok_Suc:
  "route_ok r N E (Suc k) n e \<longleftrightarrow> route_ok r N E k n e \<or>
     (min_hops r N E n (Suc k) \<and> entry_ok r (level_cands r N E (Suc k) n) (Suc k) n e)"
  by (auto simp: route_ok_def le_Suc_eq)

lemma min_hops_step:
  "0 < k \<Longrightarrow> n \<in> N \<Longrightarrow>
   min_hops r N E n (Suc k) \<longleftrightarrow> \<not> reached r N E k n \<and> (\<exists>m \<in> {m \<in> N. min_hops r N E m k}. node_link r n m)"
  using min_hops_Suc [of k r N E n] by (auto simp: reached_def min_hops_def dest: hops_node)

text \<open>The set-up of \<open>BuildTopology\<close> for a fleet with distinct ids.\<close>

lemma map_of_positions_other:
  "i \<notin> np_ID ` set ns \<Longrightarrow> map_of (fold (\<lambda>n. AList.update (np_ID n) n) ns ps) i = map_of ps i"
  by (induction ns arbitrary: ps) auto

lemma map_of_positions:
  "distinct (map np_ID ns) \<Longrightarrow> n \<in> set ns \<Longrightarrow>
   map_of (fold (\<lambda>n. AList.update (np_ID n) n) ns ps) (np_ID n) = Some n"
  by (induction ns arbitrary: ps) (auto simp: map_of_positions_other)

lemma level_inv_1:
  assumes "distinct (map np_ID ns)"
  shows "level_inv r (set ns) (set edges) 1
    (fold (level1_step r edges) ns \<lparr>ms_routes = [], ms_unrouted = remdups (map np_ID ns), ms_prev = []\<rparr>)"
    (is "level_inv _ ?N ?E _ ?m")
proof -
  have inj: "inj_on np_ID (set ns)" using assms by (simp add: distinct_map)
  note f = fold_level1_step [OF assms, of r edges, OF refl, of
      "\<lparr>ms_routes = [], ms_unrouted = remdups (map np_ID ns), ms_prev = []\<rparr>"]
  have a: "attach_edge r edges n \<noteq> None \<longleftrightarrow> min_hops r ?N ?E n 1" if "n \<in> set ns" for n
    using attach_edge_spec(2) [of r edges n] that min_hops_1 [of r ?N ?E n] by auto
  have w: "reached r ?N ?E 1 n \<longleftrightarrow> min_hops r ?N ?E n 1" for n
    using reached_Suc [of r ?N ?E 0 n] by simp
  have ro: "route_ok r ?N ?E 1 n e \<longleftrightarrow> attach_edge r edges n = Some e" if "n \<in> set ns" for n e
    using attach_edge_spec(1) [of r edges n e] a [OF that] route_ok_Suc [of r ?N ?E 0 n e]
    by (auto dest: route_ok_reached simp: level_cands_def)
  define m where "m = ?m"
  have prev: "ms_prev m = map np_ID (filter (\<lambda>n. attach_edge r edges n \<noteq> None) ns)"
    and unr: "set (ms_unrouted m) = np_ID ` ?N - np_ID ` {n \<in> ?N. attach_edge r edges n \<noteq> None}"
    and wf: "wf_map (ms_routes m)" and out: "\<forall>i. i \<notin> np_ID ` ?N \<longrightarrow> map_of (ms_routes m) i = None"
    using f by (simp_all add: m_def)
  have entry: "map_of (ms_routes m) (np_ID n) = attach_edge r edges n" if "n \<in> ?N" for n
    using f that unfolding m_def by (cases "attach_edge r edges n") simp_all
  have "set (ms_prev m) = np_ID ` {n \<in> ?N. min_hops r ?N ?E n 1}"
    unfolding prev using a by auto
  moreover have "set (ms_unrouted m) = np_ID ` {n \<in> ?N. \<not> reached r ?N ?E 1 n}"
    unfolding unr w using a inj by (auto simp: inj_on_def)
  ultimately show ?thesis
    using wf out entry ro unfolding level_inv_def m_def [symmetric] by simp
qed

lemma level_inv_Suc:
  assumes d: "distinct (map np_ID ns)" and inv: "level_inv r (set ns) E k m" and k: "0 < k"
    and pos: "\<And>n. n \<in> set ns \<Longrightarrow> position_at positions (np_ID n) = n"
  shows "level_inv r (set ns) E (Suc k) (level_step r positions ns (int (Suc k)) m)"
    (is "level_inv _ ?N _ _ ?m'")
proof -
  have inj: "inj_on np_ID ?N" using d by (simp add: distinct_map)
  let ?M = "{n \<in> ?N. min_hops r ?N E n k}"
  let ?att = "attach_node r positions (ms_prev m) (int (Suc k))"
  have prev: "set (ms_prev m) = np_ID ` ?M" and unr: "set (ms_unrouted m) = np_ID ` {n \<in> ?N. \<not> reached r ?N E k n}"
    using inv by (simp_all add: level_inv_def)
  have posM: "\<And>n. n \<in> ?M \<Longrightarrow> position_at positions (np_ID n) = n" using pos by simp
  obtain R' C' where f: "fold (attach_step ?att (ms_unrouted m)) ns (ms_routes m, []) = (R', C')"
    by force
  then have m': "?m' = \<lparr>ms_routes = R', ms_unrouted = filter (\<lambda>i. i \<notin> set C') (ms_unrouted m), ms_prev = C'\<rparr>"
    by (simp add: level_step_def)
  have unr': "np_ID n \<in> set (ms_unrouted m) \<longleftrightarrow> \<not> reached r ?N E k n" if "n \<in> ?N" for n
    using unr inj that by (auto simp: inj_on_def)
  have att: "?att n \<noteq> None \<longleftrightarrow> (\<exists>m \<in> ?M. node_link r n m)" for n
    using attach_node_spec(2) [OF prev posM, of "Suc k"] k by auto
  have new: "np_ID n \<in> set (ms_unrouted m) \<and> ?att n \<noteq> None \<longleftrightarrow> min_hops r ?N E n (Suc k)" if "n \<in> ?N" for n
    unfolding unr' [OF that] att using min_hops_step [OF k that] by blast
  have new_entry: "?att n = Some e \<longleftrightarrow> entry_ok r (level_cands r ?N E (Suc k) n) (Suc k) n e" for n e
    using attach_node_spec(1) [OF prev posM, of "Suc k"] k by (simp add: level_cands_def)
  note F = fold_attach_step [OF d f]
  have C': "set C' = np_ID ` {n \<in> ?N. min_hops r ?N E n (Suc k)}"
    using F new by auto
  have "set (filter (\<lambda>i. i \<notin> set C') (ms_unrouted m)) = np_ID ` {n \<in> ?N. \<not> reached r ?N E (Suc k) n}"
    using unr C' inj by (auto simp: reached_Suc inj_on_def)
  moreover have "map_of R' (np_ID n) = Some e \<longleftrightarrow> route_ok r ?N E (Suc k) n e" if n: "n \<in> ?N" for n e
  proof (cases "min_hops r ?N E n (Suc k)")
    case True
    then have "map_of R' (np_ID n) = ?att n" using F new [OF n] n by simp
    moreover have "\<not> route_ok r ?N E k n e" using True by (auto dest: route_ok_reached reached_not_min)
    ultimately show ?thesis using True new_entry by (simp add: route_ok_Suc)
  next
    case False
    then have "map_of R' (np_ID n) = map_of (ms_routes m) (np_ID n)" using F new [OF n] n by auto
    moreover have "map_of (ms_routes m) (np_ID n) = Some e \<longleftrightarrow> route_ok r ?N E k n e"
      using inv n unfolding level_inv_def by blast
    ultimately show ?thesis using False by (simp only: route_ok_Suc) blast
  qed
  ultimately show ?thesis
    using F C' inv unfolding m' level_inv_def by simp
qed

text \<open>Once a level is empty, no later level has a member; once all are routed, likewise.\<close>

lemma reached_stable:
  assumes "\<forall>n \<in> N. \<not> min_hops r N E n k" "0 < k" "k \<le> l"
  shows "reached r N E l n \<longleftrightarrow> reached r N E k n"
proof -
  have none: "\<not> min_hops r N E n j" if "k \<le> j" for n j
    using that
  proof (induction j arbitrary: n rule: dec_induct)
    case base
    then show ?case using assms(1) by (auto simp: min_hops_def dest: hops_node)
  next
    case (step j)
    then show ?case using assms(2) min_hops_Suc [of j r N E n] by auto
  qed
  show ?thesis using none assms(3) unfolding reached_iff by (meson le_trans nat_le_linear)
qed

lemma route_ok_stable:
  assumes "reached r N E k n \<longleftrightarrow> reached r N E l n" "k \<le> l"
  shows "route_ok r N E l n e \<longleftrightarrow> route_ok r N E k n e"
proof
  assume "route_ok r N E l n e"
  then obtain j where j: "j \<le> l" "min_hops r N E n j" "entry_ok r (level_cands r N E j n) j n e"
    by (auto simp: route_ok_def)
  then have "reached r N E l n" by (auto simp: reached_iff)
  then obtain i where "i \<le> k" "min_hops r N E n i" using assms(1) by (auto simp: reached_iff)
  then show "route_ok r N E k n e" using j min_hops_unique [of r N E n i j] by (auto simp: route_ok_def)
qed (use assms(2) in \<open>auto simp: route_ok_def intro: le_trans\<close>)

lemma level_inv_mono:
  assumes inv: "level_inv r N E k m" and kl: "k \<le> l" "0 < k"
    and stop: "ms_unrouted m = [] \<or> ms_prev m = []"
  shows "\<forall>n \<in> N. reached r N E k n \<longleftrightarrow> reached r N E l n"
proof (cases "ms_prev m = []")
  case True
  then have "\<forall>n \<in> N. \<not> min_hops r N E n k" using inv by (auto simp: level_inv_def)
  then show ?thesis using reached_stable kl by blast
next
  case False
  then have "\<forall>n \<in> N. reached r N E k n" using inv stop by (auto simp: level_inv_def)
  then show ?thesis using kl by (auto simp: reached_def intro: le_trans)
qed

text \<open>What the loop over the levels leaves behind.\<close>

definition routed_inv :: "real \<Rightarrow> NodePosition set \<Rightarrow> Edge set \<Rightarrow> nat \<Rightarrow> mesh \<Rightarrow> bool" where
  "routed_inv r N E k m \<longleftrightarrow>
     set (ms_unrouted m) = np_ID ` {n \<in> N. \<not> reached r N E k n} \<and>
     (\<forall>n \<in> N. \<forall>e. map_of (ms_routes m) (np_ID n) = Some e \<longleftrightarrow> route_ok r N E k n e) \<and>
     (\<forall>i. i \<notin> np_ID ` N \<longrightarrow> map_of (ms_routes m) i = None) \<and> wf_map (ms_routes m)"

lemma run_levels_routed:
  assumes d: "distinct (map np_ID ns)"
    and pos: "\<And>n. n \<in> set ns \<Longrightarrow> position_at positions (np_ID n) = n"
  shows "level = int (Suc k) \<Longrightarrow> 0 < k \<Longrightarrow> k \<le> 5 \<Longrightarrow> level_inv r (set ns) E k m \<Longrightarrow>
    routed_inv r (set ns) E 5 (run_levels r positions ns level m)"
proof (induction "5 - k" arbitrary: k level m rule: less_induct)
  case less
  show ?case
  proof (cases "level \<le> MaxHops \<and> ms_unrouted m \<noteq> [] \<and> ms_prev m \<noteq> []")
    case True
    then have "k < 5" using less.prems(1) by (simp add: MaxHops_def)
    moreover have "level_inv r (set ns) E (Suc k) (level_step r positions ns level m)"
      using level_inv_Suc [OF d less.prems(4,2) pos] less.prems(1) by simp
    ultimately have "routed_inv r (set ns) E 5 (run_levels r positions ns (level + 1) (level_step r positions ns level m))"
      using less.hyps [of "Suc k" "level + 1"] less.prems(1) by simp
    then show ?thesis using True by (subst run_levels.simps) simp
  next
    case False
    then have run: "run_levels r positions ns level m = m" by (subst run_levels.simps) auto
    have "\<forall>n \<in> set ns. reached r (set ns) E k n \<longleftrightarrow> reached r (set ns) E 5 n"
    proof (cases "k = 5")
      case False
      then have "ms_unrouted m = [] \<or> ms_prev m = []"
        using \<open>\<not> (level \<le> MaxHops \<and> _ \<and> _)\<close> less.prems(1,3) by (auto simp: MaxHops_def)
      then show ?thesis using level_inv_mono less.prems by blast
    qed simp
    moreover from this have "\<forall>n \<in> set ns. \<forall>e. route_ok r (set ns) E 5 n e \<longleftrightarrow> route_ok r (set ns) E k n e"
      using route_ok_stable less.prems(3) by blast
    ultimately show ?thesis
      using less.prems(4) unfolding run by (auto simp: level_inv_def routed_inv_def)
  qed
qed

section \<open>The routing table of a fleet\<close>

abbreviation distinct_ids :: "NodePosition list \<Rightarrow> bool" where
  "distinct_ids nodes \<equiv> distinct (map np_ID nodes)"

lemma map_of_isolate:
  "map_of (fold (\<lambda>i. AList.update i (isolated_entry i)) ids t) i =
     (if i \<in> set ids then Some (isolated_entry i) else map_of t i)"
  by (induction ids arbitrary: t) auto

lemma wf_map_isolate: "wf_map t \<Longrightarrow> wf_map (fold (\<lambda>i. AList.update i (isolated_entry i)) ids t)"
  by (induction ids arbitrary: t) auto

lemma not_route_ok: "\<not> reached r N E k n \<Longrightarrow> \<not> route_ok r N E k n e"
  using route_ok_reached by blast

theorem BuildTopology_table:
  assumes d: "distinct_ids nodes"
  shows "\<forall>n \<in> set nodes. \<forall>e. map_of (BuildTopology nodes edges r) (np_ID n) = Some e \<longleftrightarrow>
      (if reached r (set nodes) (set edges) 5 n then route_ok r (set nodes) (set edges) 5 n e
       else e = isolated_entry (np_ID n))" (is ?A)
    and "\<forall>i. i \<notin> np_ID ` set nodes \<longrightarrow> map_of (BuildTopology nodes edges r) i = None" (is ?B)
    and "wf_map (BuildTopology nodes edges r)" (is ?C)
proof -
  let ?ns = "sort_key np_ID nodes"
  let ?ps = "fold (\<lambda>n. AList.update (np_ID n) n) ?ns []"
  have d': "distinct (map np_ID ?ns)" using d by (simp add: distinct_map)
  have inj: "inj_on np_ID (set nodes)" using d by (simp add: distinct_map)
  let ?m1 = "fold (level1_step r edges) ?ns
    \<lparr>ms_routes = [], ms_unrouted = remdups (map np_ID ?ns), ms_prev = []\<rparr>"
  let ?m = "run_levels r ?ps ?ns 2 ?m1"
  have pos: "position_at ?ps (np_ID n) = n" if "n \<in> set ?ns" for n
    using map_of_positions [OF d' that, of "[]"] by (simp add: position_at_def)
  have "level_inv r (set nodes) (set edges) 1 ?m1"
    using level_inv_1 [OF d'] by simp
  then have R: "routed_inv r (set nodes) (set edges) 5 ?m"
    using run_levels_routed [OF d' pos, of 2 1] by simp
  have eq: "nodes \<noteq> [] \<Longrightarrow>
    BuildTopology nodes edges r = fold (\<lambda>i. AList.update i (isolated_entry i)) (ms_unrouted ?m) (ms_routes ?m)"
    by (simp add: BuildTopology_def Let_def)
  have "np_ID n \<in> set (ms_unrouted ?m) \<longleftrightarrow> \<not> reached r (set nodes) (set edges) 5 n" if "n \<in> set nodes" for n
    using R inj that by (auto simp: routed_inv_def inj_on_def)
  then show ?A
    using R eq not_route_ok unfolding routed_inv_def by (cases "nodes = []") (auto simp: map_of_isolate)
  show ?B
    using R eq by (cases "nodes = []") (auto simp: map_of_isolate routed_inv_def BuildTopology_def)
  show ?C
    using R eq by (cases "nodes = []") (auto simp: wf_map_isolate routed_inv_def BuildTopology_def)
qed

lemma BuildTopology_routed:
  assumes "distinct_ids nodes" "map_of (BuildTopology nodes edges r) i = Some e" "re_Status e = RouteStatusRouted"
  obtains n k where "n \<in> set nodes" "np_ID n = i" "min_hops r (set nodes) (set edges) n k" "k \<le> 5"
    "entry_ok r (level_cands r (set nodes) (set edges) k n) k n e"
proof -
  have "i \<in> np_ID ` set nodes" using BuildTopology_table(2) [OF assms(1)] assms(2) by (metis option.distinct(1))
  then obtain n where n: "n \<in> set nodes" "np_ID n = i" by blast
  then have "if reached r (set nodes) (set edges) 5 n then route_ok r (set nodes) (set edges) 5 n e
      else e = isolated_entry (np_ID n)"
    using BuildTopology_table(1) [OF assms(1)] assms(2) by blast
  moreover have "e \<noteq> isolated_entry (np_ID n)" using assms(3) by (auto simp: isolated_entry_def)
  ultimately show ?thesis using that n by (auto simp: route_ok_def split: if_splits)
qed

lemma BuildTopology_level_entry:
  assumes "distinct_ids nodes" "min_hops r (set nodes) (set edges) n k" "k \<le> 5"
  shows "\<exists>e. map_of (BuildTopology nodes edges r) (np_ID n) = Some e \<and>
    entry_ok r (level_cands r (set nodes) (set edges) k n) k n e"
proof -
  let ?N = "set nodes" and ?E = "set edges"
  have n: "n \<in> ?N" using assms(2) by (auto simp: min_hops_def dest: hops_node)
  have w: "reached r ?N ?E 5 n" using assms(2,3) by (auto simp: reached_iff)
  have cand: "\<exists>c \<in> level_cands r ?N ?E k n. fst c \<le> r"
  proof (cases "k = 1")
    case True
    then show ?thesis using assms(2) min_hops_1 [of r ?N ?E n] by (auto simp: level_cands_def edge_link_def)
  next
    case False
    moreover have "0 < k" using assms(2) by (auto simp: min_hops_def dest: hops_pos)
    ultimately obtain j where j: "k = Suc j" "0 < j" by (cases k) auto
    then obtain m where "min_hops r ?N ?E m j" "node_link r n m"
      using min_hops_Suc assms(2) by blast
    then show ?thesis using j by (auto simp: level_cands_def node_link_def min_hops_def dest: hops_node)
  qed
  have "finite (level_cands r ?N ?E k n)" by (simp add: level_cands_def)
  then obtain cs where cs: "set cs = level_cands r ?N ?E k n" using finite_list by blast
  then obtain d x where "nearest r (level_cands r ?N ?E k n) d x"
    using nearest_scan_spec [of r cs 0 "[]"] cand by fastforce
  then have "entry_ok r (level_cands r ?N ?E k n) k n
      \<lparr>re_NodeID = np_ID n, re_Parent = x, re_ParentIsEdge = (k = 1), re_DistanceKm = d,
       re_HopLevel = int k, re_Status = RouteStatusRouted\<rparr>"
    by (simp add: entry_ok_def)
  then show ?thesis
    using BuildTopology_table(1) [OF assms(1), of edges r] n w assms(2,3) unfolding route_ok_def by metis
qed

section \<open>Routing tables as directed acyclic graphs\<close>

text \<open>The hops a frame takes: from a node to its parent, until a parent that is an edge.\<close>

fun route_walk :: "nat \<Rightarrow> (string \<Rightarrow> RouteEntry option) \<Rightarrow> string \<Rightarrow> (string list \<times> string) option" where
  "route_walk 0 entry i = None"
| "route_walk (Suc fuel) entry i =
     (case entry i of
        None \<Rightarrow> None
      | Some e \<Rightarrow>
          if re_Status e \<noteq> RouteStatusRouted then None
          else if re_ParentIsEdge e then Some ([i], re_Parent e)
          else (case route_walk fuel entry (re_Parent e) of
                  None \<Rightarrow> None
                | Some (path, edge) \<Rightarrow> Some (i # path, edge)))"

locale routing_dag =
  fixes wf :: "'t \<Rightarrow> bool" and entry :: "'t \<Rightarrow> string \<Rightarrow> RouteEntry option"
  assumes level_pos: "wf t \<Longrightarrow> entry t i = Some e \<Longrightarrow> re_Status e = RouteStatusRouted \<Longrightarrow> 1 \<le> re_HopLevel e"
    and edge_level: "wf t \<Longrightarrow> entry t i = Some e \<Longrightarrow> re_Status e = RouteStatusRouted \<Longrightarrow>
      re_ParentIsEdge e \<longleftrightarrow> re_HopLevel e = 1"
    and parent_level: "wf t \<Longrightarrow> entry t i = Some e \<Longrightarrow> re_Status e = RouteStatusRouted \<Longrightarrow> \<not> re_ParentIsEdge e \<Longrightarrow>
      \<exists>e'. entry t (re_Parent e) = Some e' \<and> re_Status e' = RouteStatusRouted \<and> re_HopLevel e' = re_HopLevel e - 1"
begin

definition level :: "'t \<Rightarrow> string \<Rightarrow> int" where
  "level t i = (case entry t i of Some e \<Rightarrow> re_HopLevel e | None \<Rightarrow> 0)"

lemma walk_reaches_edge:
  assumes "wf t" "entry t i = Some e" "re_Status e = RouteStatusRouted" "re_HopLevel e \<le> int fuel"
  shows "\<exists>path edge. route_walk fuel (entry t) i = Some (path, edge) \<and> hd path = i \<and>
    map (level t) path = rev [1..re_HopLevel e]"
  using assms
proof (induction fuel arbitrary: i e)
  case 0
  then show ?case using level_pos by fastforce
next
  case (Suc fuel)
  show ?case
  proof (cases "re_ParentIsEdge e")
    case True
    then show ?thesis using Suc.prems edge_level by (auto simp: level_def)
  next
    case False
    then obtain e' where e': "entry t (re_Parent e) = Some e'" "re_Status e' = RouteStatusRouted"
        "re_HopLevel e' = re_HopLevel e - 1"
      using parent_level Suc.prems by blast
    then obtain path edge where w: "route_walk fuel (entry t) (re_Parent e) = Some (path, edge)"
        "map (level t) path = rev [1..re_HopLevel e - 1]"
      using Suc.IH [OF Suc.prems(1) e'(1,2)] Suc.prems(4) by auto
    moreover have "[1..re_HopLevel e] = [1..re_HopLevel e - 1] @ [re_HopLevel e]"
      using level_pos [OF Suc.prems(1-3)] upto_rec2 by blast
    moreover have "level t i = re_HopLevel e" using Suc.prems(2) by (simp add: level_def)
    ultimately show ?thesis using False Suc.prems by simp
  qed
qed

lemma walk_distinct:
  assumes "map (level t) path = rev [1..k]"
  shows "distinct path" and "length path = nat k"
proof -
  have "distinct (map (level t) path)" using assms by simp
  then show "distinct path" by (simp add: distinct_map)
  show "length path = nat k" using arg_cong [OF assms, of length] by simp
qed

lemma walk_total:
  assumes "wf t" "entry t i = Some e" "re_Status e = RouteStatusRouted" "re_HopLevel e \<le> int fuel"
  shows "\<exists>path edge. route_walk fuel (entry t) i = Some (path, edge) \<and> hd path = i \<and>
    distinct path \<and> int (length path) = re_HopLevel e"
  using walk_reaches_edge [OF assms] walk_distinct level_pos [OF assms(1-3)] by fastforce

end

definition built :: "table \<Rightarrow> bool" where
  "built t \<longleftrightarrow> (\<exists>nodes edges r. distinct_ids nodes \<and> t = BuildTopology nodes edges r)"

interpretation mesh_dag: routing_dag built map_of
proof
  fix t i e
  assume "built t" and e: "map_of t i = Some e" "re_Status e = RouteStatusRouted"
  then obtain nodes edges r where d: "distinct_ids nodes" and t: "t = BuildTopology nodes edges r"
    by (auto simp: built_def)
  let ?N = "set nodes" and ?E = "set edges"
  obtain n k where n: "n \<in> ?N" "np_ID n = i" "min_hops r ?N ?E n k" "k \<le> 5"
    "entry_ok r (level_cands r ?N ?E k n) k n e"
    using BuildTopology_routed [OF d] e t by blast
  have k: "0 < k" using n(3) by (auto simp: min_hops_def dest: hops_pos)
  then show "1 \<le> re_HopLevel e" "re_ParentIsEdge e \<longleftrightarrow> re_HopLevel e = 1"
    using n(5) by (auto simp: entry_ok_def)
  assume "\<not> re_ParentIsEdge e"
  then have "k \<noteq> 1" using n(5) by (simp add: entry_ok_def)
  then obtain m where m: "min_hops r ?N ?E m (k - 1)" "np_ID m = re_Parent e"
    using n(5) by (auto simp: entry_ok_def nearest_def level_cands_def node_cand_def)
  then show "\<exists>e'. map_of t (re_Parent e) = Some e' \<and> re_Status e' = RouteStatusRouted \<and> re_HopLevel e' = re_HopLevel e - 1"
    using BuildTopology_level_entry [OF d m(1)] n(4,5) k t by (fastforce simp: entry_ok_def)
qed

section \<open>A concrete fleet\<close>

text \<open>An edge on the equator and three nodes north of it, with a range of one degree of latitude.\<close>

definition demo_edge :: Edge where
  "demo_edge = \<lparr>ed_ID = 1, ed_EdgeCode = ''E1'', ed_Name = ''E1'', ed_Latitude = 0, ed_Longitude = 0,
     ed_CreatedAt = 0, ed_UpdatedAt = 0\<rparr>"

definition demo_node :: "string \<Rightarrow> real \<Rightarrow> NodePosition" where
  "demo_node i lat = \<lparr>np_ID = i, np_Lat = lat, np_Lng = 0\<rparr>"

definition demo_range :: real where "demo_range = earthRadiusKm * (pi / 180)"

definition demo_nodes :: "NodePosition list" where
  "demo_nodes = [demo_node ''C'' 10, demo_node ''A'' 1, demo_node ''B'' 2]"

lemma demo_distinct: "distinct_ids demo_nodes"
  by (simp add: demo_nodes_def demo_node_def)

lemma demo_cands:
  "edge_cand (demo_node i lat) demo_edge = (HaversineKm lat 0 0 0, ''E1'')"
  "node_cand (demo_node i lat) (demo_node j lat') = (HaversineKm lat 0 lat' 0, j)"
  by (simp_all add: edge_cand_def node_cand_def demo_edge_def demo_node_def)

lemma demo_dist:
  "\<bar>lat2 - lat1\<bar> \<le> 180 \<Longrightarrow> HaversineKm lat1 0 lat2 0 = \<bar>lat2 - lat1\<bar> * demo_range"
  "\<bar>lat2 - lat1\<bar> \<le> 180 \<Longrightarrow> HaversineKm lat1 0 lat2 0 \<le> demo_range \<longleftrightarrow> \<bar>lat2 - lat1\<bar> \<le> 1"
  using haversine_meridian [of lat2 lat1 0] by (simp_all add: demo_range_def earthRadiusKm_def)

lemma demo_range_pos [simp]: "0 < demo_range"
  by (simp add: demo_range_def earthRadiusKm_def)

lemma demo_levels:
  shows "min_hops demo_range (set demo_nodes) {demo_edge} (demo_node ''A'' 1) 1"
    and "min_hops demo_range (set demo_nodes) {demo_edge} (demo_node ''B'' 2) 2"
    and "\<not> hops demo_range (set demo_nodes) {demo_edge} (demo_node ''C'' 10) k"
proof -
  let ?h = "hops demo_range (set demo_nodes) {demo_edge}"
  have A: "?h (demo_node ''A'' 1) 1"
    by (rule hops.direct) (simp_all add: demo_nodes_def edge_link_def demo_cands demo_dist)
  then show "min_hops demo_range (set demo_nodes) {demo_edge} (demo_node ''A'' 1) 1"
    by (auto simp: min_hops_def dest: hops_pos)
  have B: "?h (demo_node ''B'' 2) 2"
    using hops.relay [OF _ A, of "demo_node ''B'' 2"]
    by (simp add: demo_nodes_def node_link_def demo_cands demo_dist numeral_2_eq_2)
  moreover have "\<not> ?h (demo_node ''B'' 2) 1"
    using not_le [of demo_range 0] by (auto elim!: hops_1E hops_0E simp: edge_link_def demo_cands demo_dist)
  ultimately show "min_hops demo_range (set demo_nodes) {demo_edge} (demo_node ''B'' 2) 2"
    by (auto simp: min_hops_def less_2_cases_iff dest: hops_pos)
  show "\<not> ?h (demo_node ''C'' 10) k"
  proof (induction k)
    case (Suc k)
    have "m = demo_node ''C'' 10" if "?h m j" "node_link demo_range (demo_node ''C'' 10) m" for m j
      using hops_node [OF that(1)] that(2)
      by (auto simp: demo_nodes_def node_link_def demo_cands demo_dist)
    then show ?case using Suc by (auto elim!: hops_SucE simp: edge_link_def demo_cands demo_dist)
  qed (auto elim: hops_0E)
qed

lemma demo_entry_B:
  "\<exists>e. map_of (BuildTopology demo_nodes [demo_edge] demo_range) ''B'' = Some e \<and>
     re_Status e = RouteStatusRouted \<and> re_HopLevel e = 2"
proof -
  have "min_hops demo_range (set demo_nodes) (set [demo_edge]) (demo_node ''B'' 2) 2"
    using demo_levels(2) by simp
  from BuildTopology_level_entry [OF demo_distinct this] show ?thesis
    unfolding entry_ok_def by (auto simp: demo_node_def)
qed

section \<open>Properties\<close>

text \<open>
  C19. The routing table has exactly one entry per node of the fleet.  A node is routed exactly
  when at most \<open>MaxHops\<close> transmissions, each within radio range, can take its frame to an edge,
  and its \<open>HopLevel\<close> is then the least such number; every other node is isolated.
\<close>

theorem BuildTopology_levels:
  assumes "distinct (map np_ID nodes)"
  shows "keys_of (BuildTopology nodes edges r) = np_ID ` set nodes \<and>
    length (BuildTopology nodes edges r) = length nodes \<and>
    (\<forall>n \<in> set nodes. \<exists>e. map_of (BuildTopology nodes edges r) (np_ID n) = Some e \<and> re_NodeID e = np_ID n \<and>
      (if \<exists>k. int k \<le> MaxHops \<and> hops r (set nodes) (set edges) n k
       then re_Status e = RouteStatusRouted \<and> min_hops r (set nodes) (set edges) n (nat (re_HopLevel e))
       else e = isolated_entry (np_ID n)))"
proof -
  let ?T = "BuildTopology nodes edges r"
  have le: "int k \<le> MaxHops \<longleftrightarrow> k \<le> 5" for k by (simp add: MaxHops_def)
  have ex: "\<exists>e. map_of ?T (np_ID n) = Some e \<and> re_NodeID e = np_ID n \<and>
      (if \<exists>k. int k \<le> MaxHops \<and> hops r (set nodes) (set edges) n k
       then re_Status e = RouteStatusRouted \<and> min_hops r (set nodes) (set edges) n (nat (re_HopLevel e))
       else e = isolated_entry (np_ID n))" if n: "n \<in> set nodes" for n
  proof (cases "reached r (set nodes) (set edges) 5 n")
    case True
    then obtain k where k: "k \<le> 5" "min_hops r (set nodes) (set edges) n k" by (auto simp: reached_iff)
    then show ?thesis using BuildTopology_level_entry [OF assms k(2,1)] True
      by (auto simp: entry_ok_def reached_def le)
  next
    case False
    then show ?thesis using BuildTopology_table(1) [OF assms, of edges r] n
      by (auto simp: reached_def le isolated_entry_def)
  qed
  have "keys_of ?T = np_ID ` set nodes"
  proof (intro equalityI subsetI)
    fix i assume "i \<in> keys_of ?T"
    then show "i \<in> np_ID ` set nodes" using BuildTopology_table(2) [OF assms, of edges r] by (metis keys_of_iff)
  next
    fix i assume "i \<in> np_ID ` set nodes"
    then obtain n where "n \<in> set nodes" "np_ID n = i" by blast
    then show "i \<in> keys_of ?T" using ex [of n] unfolding keys_of_iff by (metis option.distinct(1))
  qed
  moreover from this have "length ?T = length nodes"
    using length_wf_map [OF BuildTopology_table(3) [OF assms, of edges r]] assms
    by (metis distinct_card length_map set_map)
  ultimately show ?thesis using ex by blast
qed

theorem BuildTopology_levels_witness:
  "distinct (map np_ID demo_nodes) \<and> keys_of (BuildTopology demo_nodes [demo_edge] demo_range) = {''A'', ''B'', ''C''}"
  using BuildTopology_levels [OF demo_distinct, of "[demo_edge]" demo_range] demo_distinct
  by (auto simp: demo_nodes_def demo_node_def)

text \<open>
  C20. A routed node transmits to the nearest candidate in range, ties broken by the smaller name:
  at hop level 1 among the edges, at a later level among the nodes the same table puts one level
  lower; the recorded distance is the distance to that parent.
\<close>

theorem BuildTopology_nearest_parent:
  assumes "distinct (map np_ID nodes)" "n \<in> set nodes"
    and "map_of (BuildTopology nodes edges r) (np_ID n) = Some e" "re_Status e = RouteStatusRouted"
  shows "1 \<le> re_HopLevel e \<and> re_HopLevel e \<le> MaxHops \<and> re_ParentIsEdge e = (re_HopLevel e = 1) \<and>
    nearest r
      (if re_ParentIsEdge e then edge_cand n ` set edges
       else node_cand n ` {m \<in> set nodes. \<exists>e'. map_of (BuildTopology nodes edges r) (np_ID m) = Some e' \<and>
               re_Status e' = RouteStatusRouted \<and> re_HopLevel e' = re_HopLevel e - 1})
      (re_DistanceKm e) (re_Parent e)"
proof -
  let ?N = "set nodes" and ?E = "set edges" and ?T = "BuildTopology nodes edges r"
  have inj: "inj_on np_ID ?N" using assms(1) by (simp add: distinct_map)
  obtain k where k: "min_hops r ?N ?E n k" "k \<le> 5" "entry_ok r (level_cands r ?N ?E k n) k n e"
    using BuildTopology_routed [OF assms(1,3,4)] assms(2) inj by (metis inj_onD)
  have pos: "0 < k" using k(1) by (auto simp: min_hops_def dest: hops_pos)
  have lower: "(\<exists>e'. map_of ?T (np_ID m) = Some e' \<and> re_Status e' = RouteStatusRouted \<and> re_HopLevel e' = int k - 1)
      \<longleftrightarrow> min_hops r ?N ?E m (k - 1)" if m: "m \<in> ?N" for m
  proof
    assume mm: "min_hops r ?N ?E m (k - 1)"
    have le: "k - 1 \<le> 5" and int_k: "int (k - 1) = int k - 1" using k(2) pos by auto
    show "\<exists>e'. map_of ?T (np_ID m) = Some e' \<and> re_Status e' = RouteStatusRouted \<and> re_HopLevel e' = int k - 1"
      using BuildTopology_level_entry [OF assms(1) mm le] unfolding entry_ok_def int_k by blast
  next
    assume "\<exists>e'. map_of ?T (np_ID m) = Some e' \<and> re_Status e' = RouteStatusRouted \<and> re_HopLevel e' = int k - 1"
    then obtain e' where e': "map_of ?T (np_ID m) = Some e'" "re_Status e' = RouteStatusRouted" "re_HopLevel e' = int k - 1"
      by blast
    obtain j where j: "min_hops r ?N ?E m j" "entry_ok r (level_cands r ?N ?E j m) j m e'"
      using BuildTopology_routed [OF assms(1) e'(1,2)] m inj by (metis inj_onD)
    then have "j = k - 1" using e'(3) by (auto simp: entry_ok_def)
    then show "min_hops r ?N ?E m (k - 1)" using j by simp
  qed
  have "{m \<in> ?N. \<exists>e'. map_of ?T (np_ID m) = Some e' \<and> re_Status e' = RouteStatusRouted \<and> re_HopLevel e' = int k - 1}
      = {m \<in> ?N. min_hops r ?N ?E m (k - 1)}"
    using lower by blast
  then show ?thesis
    using k pos by (auto simp: entry_ok_def level_cands_def MaxHops_def)
qed

theorem BuildTopology_nearest_parent_witness:
  "\<exists>e. map_of (BuildTopology demo_nodes [demo_edge] demo_range) ''B'' = Some e \<and>
     re_HopLevel e = 2 \<and> re_HopLevel e \<le> MaxHops \<and> \<not> re_ParentIsEdge e"
proof -
  have B: "demo_node ''B'' 2 \<in> set demo_nodes" by (simp add: demo_nodes_def)
  have i: "np_ID (demo_node ''B'' 2) = ''B''" by (simp add: demo_node_def)
  obtain e where e: "map_of (BuildTopology demo_nodes [demo_edge] demo_range) (np_ID (demo_node ''B'' 2)) = Some e"
    "re_Status e = RouteStatusRouted" "re_HopLevel e = 2"
    using demo_entry_B unfolding i by blast
  note p = BuildTopology_nearest_parent [OF demo_distinct B e(1,2)]
  have "re_HopLevel e \<le> MaxHops" "re_ParentIsEdge e = (re_HopLevel e = 1)"
    by (rule p [THEN conjunct2, THEN conjunct1], rule p [THEN conjunct2, THEN conjunct2, THEN conjunct1])
  then show ?thesis using e unfolding i by auto
qed

text \<open>
  C21. The table is loop free and complete for forwarding: from every routed node, following the
  parents ends at an edge after exactly \<open>HopLevel\<close> transmissions (never more than \<open>MaxHops\<close>),
  and no node transmits twice.
\<close>

theorem BuildTopology_loop_free:
  assumes "distinct (map np_ID nodes)"
    and "map_of (BuildTopology nodes edges r) i = Some e" "re_Status e = RouteStatusRouted"
  shows "\<exists>path edge. route_walk (nat MaxHops) (map_of (BuildTopology nodes edges r)) i = Some (path, edge) \<and>
    hd path = i \<and> distinct path \<and> int (length path) = re_HopLevel e"
proof (rule mesh_dag.walk_total [OF _ assms(2,3)])
  show "built (BuildTopology nodes edges r)" using assms(1) by (auto simp: built_def)
  obtain n k where "k \<le> 5" "entry_ok r (level_cands r (set nodes) (set edges) k n) k n e"
    using BuildTopology_routed [OF assms] by blast
  then show "re_HopLevel e \<le> int (nat MaxHops)" by (simp add: entry_ok_def MaxHops_def)
qed

theorem BuildTopology_loop_free_witness:
  "\<exists>path edge. route_walk (nat MaxHops) (map_of (BuildTopology demo_nodes [demo_edge] demo_range)) ''B'' = Some (path, edge) \<and>
     hd path = ''B'' \<and> length path = 2"
proof -
  obtain e where e: "map_of (BuildTopology demo_nodes [demo_edge] demo_range) ''B'' = Some e"
    "re_Status e = RouteStatusRouted" "re_HopLevel e = 2"
    using demo_entry_B by blast
  show ?thesis using BuildTopology_loop_free [OF demo_distinct e(1,2)] e(3) by fastforce
qed

text \<open>
  C31. The table does not depend on the order in which Redis or PostgreSQL deliver the fleet and
  the edges: two runs over the same nodes and edges give every node the same entry.
\<close>

theorem BuildTopology_deterministic:
  assumes "distinct (map np_ID nodes)" "distinct (map np_ID nodes')"
    and "set nodes' = set nodes" "set edges' = set edges"
  shows "map_of (BuildTopology nodes' edges' r) = map_of (BuildTopology nodes edges r)"
proof
  fix i
  let ?T = "BuildTopology nodes edges r" and ?T' = "BuildTopology nodes' edges' r"
  show "map_of ?T' i = map_of ?T i"
  proof (cases "i \<in> np_ID ` set nodes")
    case True
    then obtain n where "n \<in> set nodes" "np_ID n = i" by blast
    then have "map_of ?T' i = Some e \<longleftrightarrow> map_of ?T i = Some e" for e
      using BuildTopology_table(1) [OF assms(1), of edges r] BuildTopology_table(1) [OF assms(2), of edges' r] assms(3,4)
      by auto
    then show ?thesis by (metis option.exhaust)
  next
    case False
    then show ?thesis
      using BuildTopology_table(2) [OF assms(1), of edges r] BuildTopology_table(2) [OF assms(2), of edges' r] assms(3)
      by auto
  qed
qed

theorem BuildTopology_deterministic_witness:
  "map_of (BuildTopology (rev demo_nodes) [demo_edge, demo_edge] demo_range)
     = map_of (BuildTopology demo_nodes [demo_edge] demo_range)"
  by (rule BuildTopology_deterministic) (auto simp: demo_nodes_def demo_node_def)

end
