(* ===== verification/Protocol.thy ===== *)
theory Protocol
  imports Radio Schema Mesh
begin

text \<open>
  The WebSocket event contract, \<^verbatim>\<open>protocol/events.go\<close>: the event names and one record per
  message, with the struct's fields.  A server-to-client \<open>frame\<close> is one of the messages; it
  stands for its JSON text, so that the hub queues frames.  \<open>EnvParamsFrom\<close>
  (\<^verbatim>\<open>service/session_service.go\<close>), \<open>RoutingUpdate\<close> from a route entry and the statistic names
  (\<^verbatim>\<open>service/stats.go\<close>) complete the vocabulary the services share.
\<close>

section \<open>Event names\<close>

definition EvNodePing :: string where "EvNodePing = ''node:ping''"
definition EvNodeTransmit :: string where "EvNodeTransmit = ''node:transmit''"
definition EvNodeAck :: string where "EvNodeAck = ''node:ack''"
definition EvMeshRoutingUpdate :: string where "EvMeshRoutingUpdate = ''mesh:routing_update''"
definition EvMeshReceiveRF :: string where "EvMeshReceiveRF = ''mesh:receive_rf''"
definition EvMeshAck :: string where "EvMeshAck = ''mesh:ack''"
definition EvEnvSyncParams :: string where "EvEnvSyncParams = ''env:sync_params''"
definition EvSchemaSync :: string where "EvSchemaSync = ''schema:sync''"
definition EvSessionEnded :: string where "EvSessionEnded = ''session:ended''"
definition EvError :: string where "EvError = ''error''"
definition EvPacketEvent :: string where "EvPacketEvent = ''packet:event''"
definition EvNodeStatus :: string where "EvNodeStatus = ''node:status''"

lemmas event_names = EvNodePing_def EvNodeTransmit_def EvNodeAck_def EvMeshRoutingUpdate_def
  EvMeshReceiveRF_def EvMeshAck_def EvEnvSyncParams_def EvSchemaSync_def EvSessionEnded_def
  EvError_def EvPacketEvent_def EvNodeStatus_def

section \<open>Messages\<close>

record NodePing =
  ng_Event :: string
  ng_NodeID :: string
  ng_SessionID :: string
  ng_Lat :: real
  ng_Lng :: real

record NodeAck =
  na_Event :: string
  na_PacketID :: string
  na_ReceiverNode :: string
  na_Status :: string

record RoutingUpdate =
  ru_Event :: string
  ru_ParentTarget :: string
  ru_ParentIsEdge :: bool
  ru_DistanceToParentKm :: real
  ru_HopLevel :: int
  ru_Status :: string

record RoutingTable =
  rt_Event :: string
  rt_Routes :: "RouteEntry list"

record EnvSyncParams =
  es_Event :: string
  es_SpreadingFactor :: int
  es_MaxPayloadBytes :: int
  es_AckTimeoutMs :: int
  es_MaxRetries :: int
  es_TxPowerDbm :: int
  es_MaxRangeKm :: real
  es_WeatherSeverity :: real

record SchemaSync =
  sy_Event :: string
  sy_Fields :: "SchemaField list"
  sy_EstimatedPackedBytes :: int

record MeshAck =
  ma_Event :: string
  ma_PacketID :: string
  ma_ReceiverNode :: string
  ma_Status :: string
  ma_Duplicate :: bool

record PacketEvent =
  pe_Event :: string
  pe_Type :: string
  pe_PacketID :: string
  pe_FromNode :: string
  pe_ToNode :: string
  pe_OriginNode :: string
  pe_HopCount :: int
  pe_DistanceKm :: real
  pe_LossProbability :: real
  pe_Reason :: string
  pe_At :: int

record NodeStatus =
  ns_Event :: string
  ns_NodeID :: string
  ns_Online :: bool

record SessionEnded =
  se_Event :: string
  se_SessionID :: string
  se_Message :: string

record ErrorEvent =
  ee_Event :: string
  ee_Code :: string
  ee_Message :: string

definition PktForward :: string where "PktForward = ''forward''"
definition PktDeliver :: string where "PktDeliver = ''deliver''"
definition PktDrop :: string where "PktDrop = ''drop''"
definition PktDuplicate :: string where "PktDuplicate = ''duplicate''"
definition PktAck :: string where "PktAck = ''ack''"
definition PktAckDrop :: string where "PktAckDrop = ''ack_drop''"

lemmas packet_event_types = PktForward_def PktDeliver_def PktDrop_def PktDuplicate_def PktAck_def PktAckDrop_def

datatype frame =
    FNodePing NodePing
  | FReceiveRF TransmitPacket
  | FRoutingUpdate RoutingUpdate
  | FRoutingTable RoutingTable
  | FEnvSync EnvSyncParams
  | FSchemaSync SchemaSync
  | FMeshAck MeshAck
  | FPacketEvent PacketEvent
  | FNodeStatus NodeStatus
  | FSessionEnded SessionEnded
  | FError ErrorEvent

section \<open>Derived messages\<close>

definition EnvParamsFrom :: "SessionParams \<Rightarrow> EnvSyncParams" where
  "EnvParamsFrom p =
     \<lparr>es_Event = EvEnvSyncParams, es_SpreadingFactor = sp_SpreadingFactor p,
      es_MaxPayloadBytes = MaxPayloadBytes (sp_SpreadingFactor p),
      es_AckTimeoutMs = Milliseconds (AckTimeout (sp_SpreadingFactor p)),
      es_MaxRetries = MaxRetries, es_TxPowerDbm = sp_TxPowerDbm p,
      es_MaxRangeKm = MaxRangeKm (sp_TxPowerDbm p), es_WeatherSeverity = sp_WeatherSeverity p\<rparr>"

definition schema_sync :: "SchemaField list \<Rightarrow> SchemaSync" where
  "schema_sync flds = \<lparr>sy_Event = EvSchemaSync, sy_Fields = flds, sy_EstimatedPackedBytes = EstimatePackedBytes flds\<rparr>"

definition routing_update :: "RouteEntry \<Rightarrow> real \<Rightarrow> RoutingUpdate" where
  "routing_update e distanceKm =
     \<lparr>ru_Event = EvMeshRoutingUpdate, ru_ParentTarget = re_Parent e, ru_ParentIsEdge = re_ParentIsEdge e,
      ru_DistanceToParentKm = distanceKm, ru_HopLevel = re_HopLevel e, ru_Status = re_Status e\<rparr>"

section \<open>Statistic counters (stats.go)\<close>

definition StatTransmitTotal :: string where "StatTransmitTotal = ''transmit_total''"
definition StatDroppedInvalid :: string where "StatDroppedInvalid = ''dropped_invalid''"
definition StatDroppedSFLimit :: string where "StatDroppedSFLimit = ''dropped_sf_limit''"
definition StatDroppedMaxHops :: string where "StatDroppedMaxHops = ''dropped_max_hops''"
definition StatDroppedAirLoss :: string where "StatDroppedAirLoss = ''dropped_air_loss''"
definition StatDroppedOutOfRange :: string where "StatDroppedOutOfRange = ''dropped_out_of_range''"
definition StatDroppedNoPosition :: string where "StatDroppedNoPosition = ''dropped_no_position''"
definition StatDroppedTargetOffline :: string where "StatDroppedTargetOffline = ''dropped_target_offline''"
definition StatDuplicatesFiltered :: string where "StatDuplicatesFiltered = ''duplicates_filtered''"
definition StatForwardedToNode :: string where "StatForwardedToNode = ''forwarded_to_node''"
definition StatDeliveredToEdge :: string where "StatDeliveredToEdge = ''delivered_to_edge''"
definition StatAcksRelayed :: string where "StatAcksRelayed = ''acks_relayed''"
definition StatAcksDropped :: string where "StatAcksDropped = ''acks_dropped''"
definition StatAcksStale :: string where "StatAcksStale = ''acks_stale''"
definition StatPingsAccepted :: string where "StatPingsAccepted = ''pings_accepted''"
definition StatPingsRateLimited :: string where "StatPingsRateLimited = ''pings_rate_limited''"

lemmas stat_names = StatTransmitTotal_def StatDroppedInvalid_def StatDroppedSFLimit_def
  StatDroppedMaxHops_def StatDroppedAirLoss_def StatDroppedOutOfRange_def StatDroppedNoPosition_def
  StatDroppedTargetOffline_def StatDuplicatesFiltered_def StatForwardedToNode_def
  StatDeliveredToEdge_def StatAcksRelayed_def StatAcksDropped_def StatAcksStale_def
  StatPingsAccepted_def StatPingsRateLimited_def

text \<open>The counters one accepted transmission can end in.\<close>

definition transmit_outcomes :: "string list" where
  "transmit_outcomes =
     [StatDroppedSFLimit, StatDroppedMaxHops, StatDroppedAirLoss, StatDroppedOutOfRange,
      StatDroppedNoPosition, StatDroppedTargetOffline, StatDuplicatesFiltered,
      StatForwardedToNode, StatDeliveredToEdge]"

lemma transmit_outcomes_distinct: "distinct (StatTransmitTotal # transmit_outcomes)"
  by (simp add: transmit_outcomes_def stat_names)

end
