(* ===== verification/Json.thy ===== *)
theory Json
  imports Protocol
begin

text \<open>
  \<open>encoding/json\<close> as the program uses it: decoding a JSON value into a struct, for the WebSocket
  gateway (\<^verbatim>\<open>ws/gateway.go\<close>), the REST handlers (\<^verbatim>\<open>api/handlers.go\<close>) and the ship simulator.
  A received text is a \<open>jtext\<close>: the value it spells, or the scanner's syntax error.  A struct is
  its list of tagged fields.  Keys match a tag exactly or by case folding, unknown keys are
  ignored unless \<open>DisallowUnknownFields\<close> was called, \<open>null\<close> leaves a value as it is and empties a
  pointer or a slice, and any mismatch makes the whole decoding fail after the last key.
\<close>

section \<open>Values\<close>

text \<open>A number literal without fraction and exponent is a \<open>JInt\<close>.\<close>

datatype json = JNull | JBool bool | JInt int | JReal real | JStr string | JArr "json list" | JObj "(string \<times> json) list"

type_synonym jtext = "string + json"

definition max_float64 :: real where "max_float64 = (2 - 1 / 2 ^ 52) * 2 ^ 1023"

section \<open>Key folding\<close>

text \<open>The fold of ASCII letters, and of the long s and the Kelvin sign (in UTF-8) to theirs.\<close>

definition lower_char :: "char \<Rightarrow> char" where
  "lower_char c = (if 65 \<le> byte_of c \<and> byte_of c \<le> 90 then char_of (byte_of c + 32) else c)"

fun fold_name :: "string \<Rightarrow> string" where
  "fold_name [] = []"
| "fold_name (c # cs) =
     (if byte_of c = 197 \<and> take 1 cs = [char_of (191 :: nat)] then CHR ''s'' # fold_name (drop 1 cs)
      else if byte_of c = 226 \<and> take 2 cs = [char_of (132 :: nat), char_of (170 :: nat)] then CHR ''k'' # fold_name (drop 2 cs)
      else lower_char c # fold_name cs)"

section \<open>Decoding into a struct\<close>

text \<open>A field is its tag and the decoding of a value into it: the new struct, or the mismatch.\<close>

type_synonym 'r field = "string \<times> (json \<Rightarrow> 'r \<Rightarrow> 'r option)"

definition find_field :: "'r field list \<Rightarrow> string \<Rightarrow> (json \<Rightarrow> 'r \<Rightarrow> 'r option) option" where
  "find_field fs key =
     (case map_of fs key of
        Some f \<Rightarrow> Some f
      | None \<Rightarrow> map_option snd (find (\<lambda>(tag, _). fold_name tag = fold_name key) fs))"

text \<open>One key: the struct so far, and whether an error was saved.\<close>

definition decode_key :: "bool \<Rightarrow> 'r field list \<Rightarrow> string \<times> json \<Rightarrow> bool \<times> 'r \<Rightarrow> bool \<times> 'r" where
  "decode_key strict fs kv st =
     (case find_field fs (fst kv) of
        None \<Rightarrow> (fst st \<or> strict, snd st)
      | Some f \<Rightarrow> (case f (snd kv) (snd st) of None \<Rightarrow> (True, snd st) | Some r \<Rightarrow> (fst st, r)))"

definition decode_struct :: "bool \<Rightarrow> 'r field list \<Rightarrow> json \<Rightarrow> 'r \<Rightarrow> 'r option" where
  "decode_struct strict fs j r =
     (case j of
        JNull \<Rightarrow> Some r
      | JObj kvs \<Rightarrow>
          (case fold (decode_key strict fs) kvs (False, r) of (failed, r') \<Rightarrow> if failed then None else Some r')
      | _ \<Rightarrow> None)"

text \<open>\<open>json.Unmarshal(raw, &v)\<close> with \<open>v\<close> the zero struct.\<close>

definition Unmarshal :: "bool \<Rightarrow> 'r field list \<Rightarrow> 'r \<Rightarrow> jtext \<Rightarrow> string + 'r" where
  "Unmarshal strict fs zero raw =
     (case raw of
        Inl e \<Rightarrow> Inl e
      | Inr j \<Rightarrow> (case decode_struct strict fs j zero of None \<Rightarrow> Inl ''json: cannot unmarshal'' | Some r \<Rightarrow> Inr r))"

section \<open>Decoding basic types\<close>

definition as_string :: "(string \<Rightarrow> 'r \<Rightarrow> 'r) \<Rightarrow> json \<Rightarrow> 'r \<Rightarrow> 'r option" where
  "as_string put j r = (case j of JNull \<Rightarrow> Some r | JStr s \<Rightarrow> Some (put s r) | _ \<Rightarrow> None)"

definition as_bool :: "(bool \<Rightarrow> 'r \<Rightarrow> 'r) \<Rightarrow> json \<Rightarrow> 'r \<Rightarrow> 'r option" where
  "as_bool put j r = (case j of JNull \<Rightarrow> Some r | JBool b \<Rightarrow> Some (put b r) | _ \<Rightarrow> None)"

definition as_int :: "(int \<Rightarrow> 'r \<Rightarrow> 'r) \<Rightarrow> json \<Rightarrow> 'r \<Rightarrow> 'r option" where
  "as_int put j r =
     (case j of
        JNull \<Rightarrow> Some r
      | JInt n \<Rightarrow> if int64_min \<le> n \<and> n \<le> int64_max then Some (put n r) else None
      | _ \<Rightarrow> None)"

definition as_float :: "(real \<Rightarrow> 'r \<Rightarrow> 'r) \<Rightarrow> json \<Rightarrow> 'r \<Rightarrow> 'r option" where
  "as_float put j r =
     (case j of
        JNull \<Rightarrow> Some r
      | JInt n \<Rightarrow> if \<bar>real_of_int n\<bar> \<le> max_float64 then Some (put (real_of_int n) r) else None
      | JReal x \<Rightarrow> if \<bar>x\<bar> \<le> max_float64 then Some (put x r) else None
      | _ \<Rightarrow> None)"

text \<open>A pointer field: \<open>null\<close> empties it, a value is decoded into a fresh one.\<close>

definition as_ptr ::
  "('a \<Rightarrow> (('a \<Rightarrow> 'a \<Rightarrow> 'a) \<Rightarrow> json \<Rightarrow> 'a \<Rightarrow> 'a option) \<Rightarrow> ('a option \<Rightarrow> 'r \<Rightarrow> 'r) \<Rightarrow> json \<Rightarrow> 'r \<Rightarrow> 'r option)" where
  "as_ptr zero dec put j r =
     (case j of
        JNull \<Rightarrow> Some (put None r)
      | _ \<Rightarrow> map_option (\<lambda>v. put (Some v) r) (dec (\<lambda>v _. v) j zero))"

text \<open>A slice: the elements one by one; a \<open>null\<close> element leaves what the slice held there.\<close>

fun decode_elems :: "(json \<Rightarrow> 'a \<Rightarrow> 'a option) \<Rightarrow> 'a \<Rightarrow> 'a list \<Rightarrow> json list \<Rightarrow> 'a list option" where
  "decode_elems dec zero old [] = Some []"
| "decode_elems dec zero old (j # js) =
     (case (dec j (case old of [] \<Rightarrow> zero | x # _ \<Rightarrow> x), decode_elems dec zero (drop 1 old) js) of
        (Some v, Some vs) \<Rightarrow> Some (v # vs)
      | _ \<Rightarrow> None)"

definition as_slice ::
  "(json \<Rightarrow> 'a \<Rightarrow> 'a option) \<Rightarrow> 'a \<Rightarrow> ('r \<Rightarrow> 'a list) \<Rightarrow> ('a list \<Rightarrow> 'r \<Rightarrow> 'r) \<Rightarrow> json \<Rightarrow> 'r \<Rightarrow> 'r option" where
  "as_slice dec zero get put j r =
     (case j of
        JNull \<Rightarrow> Some (put [] r)
      | JArr js \<Rightarrow> map_option (\<lambda>vs. put vs r) (decode_elems dec zero (get r) js)
      | _ \<Rightarrow> None)"

definition text_elem :: "json \<Rightarrow> string \<Rightarrow> string option" where
  "text_elem = as_string (\<lambda>s _. s)"

lemmas decoders = as_string_def as_bool_def as_int_def as_float_def as_ptr_def as_slice_def text_elem_def

section \<open>Encoding back\<close>

text \<open>What \<open>json.Marshal\<close> writes is read back by a struct with the same tags.\<close>

lemma decode_elems_map:
  "(\<And>x y. x \<in> set xs \<Longrightarrow> dec (enc x) y = Some x) \<Longrightarrow> decode_elems dec zero old (map enc xs) = Some xs"
  by (induction xs arbitrary: old) auto

lemma text_elem_str [simp]: "text_elem (JStr s) y = Some s"
  by (simp add: decoders)

lemma decode_texts [simp]: "decode_elems text_elem zero old (map JStr xs) = Some xs"
  by (rule decode_elems_map) simp

end
