(* ===== verification/World.thy ===== *)
theory World
  imports Protocol
begin

text \<open>
  The services the backend talks to.  Redis (through go-redis), PostgreSQL (through pgx), the clock
  and the random source are not part of the repository: they are the record \<open>'w ext\<close>, one typed
  function per command or SQL statement the code issues, over an abstract world \<open>'w\<close>.  Every
  command returns the driver's error (left) or its result (right) and the world after it.

  What the code relies on is stated separately: \<open>store\<close> is the documented content of the two
  databases, \<open>ref_\<dots>\<close> the documented effect of each command on it (for SQL, the statement in the
  repository files over the tables of \<^verbatim>\<open>migrations/*.sql\<close>), and \<open>ext_ok\<close> says that the world
  implements them: a command that succeeds has the documented result and effect, a command that
  fails had it or had no effect, and time may pass before any command.  \<open>mem_ext\<close> is an
  in-memory instance, which shows that the laws can hold.

  Two idealisations: the text of a number or of a JSON document is kept as the value it was written
  from (\<open>rtext\<close>, \<open>jmap\<close>), because \<open>strconv\<close> and \<open>encoding/json\<close> read back what they wrote; and
  go-redis's own retries after a network failure are part of "had it or had no effect".
\<close>

section \<open>Entities (entities.go)\<close>

datatype jval = JVal gval | JText string | JProblems "problem list"

type_synonym jmap = "(string \<times> jval) list"

record Session =
  ss_ID :: string
  ss_SessionName :: string
  ss_SpreadingFactor :: int
  ss_TxPowerDbm :: int
  ss_WeatherSeverity :: real
  ss_IsActive :: bool
  ss_StatsSnapshot :: "(string \<times> int) list option"
  ss_CreatedAt :: int
  ss_EndedAt :: "int option"

record TelemetryLog =
  tl_ID :: int
  tl_SessionID :: string
  tl_OriginNodeID :: string
  tl_EdgeID :: "int option"
  tl_EdgeCode :: string
  tl_EdgeActive :: bool
  tl_HopCount :: int
  tl_RoutingPath :: string
  tl_DecodedPayload :: jmap
  tl_ArrivedAt :: int

section \<open>Commands\<close>

type_synonym ('w, 'a) cmd = "'w \<Rightarrow> (string + 'a) \<times> 'w"

text \<open>The text of a Redis value: plain, a formatted \<open>float64\<close>, or the JSON of a route entry.\<close>

datatype rtext = Txt string | FloatTxt real | RouteTxt RouteEntry

datatype pgerr = PgError string string | DriverError string

datatype rcmd = CDel "string list" | CHSet string "(string \<times> rtext) list"

record 'w redis =
  rHSet :: "string \<Rightarrow> (string \<times> rtext) list \<Rightarrow> ('w, unit) cmd"
  rHGetAll :: "string \<Rightarrow> ('w, (string \<times> rtext) list) cmd"
  rHGet :: "string \<Rightarrow> string \<Rightarrow> ('w, rtext option) cmd"
  rSetNX :: "string \<Rightarrow> string \<Rightarrow> duration \<Rightarrow> ('w, bool) cmd"
  rSet :: "string \<Rightarrow> string \<Rightarrow> duration \<Rightarrow> ('w, unit) cmd"
  rGetDel :: "string \<Rightarrow> ('w, string option) cmd"
  rHIncrBy :: "string \<Rightarrow> string \<Rightarrow> int \<Rightarrow> ('w, int) cmd"
  rDel :: "string list \<Rightarrow> ('w, int) cmd"
  rGeoAdd :: "string \<Rightarrow> string \<Rightarrow> real \<Rightarrow> real \<Rightarrow> ('w, int) cmd"
  rZRem :: "string \<Rightarrow> string \<Rightarrow> ('w, int) cmd"
  rZRange :: "string \<Rightarrow> ('w, string list) cmd"
  rGeoPos :: "string \<Rightarrow> string list \<Rightarrow> ('w, (real \<times> real) option list) cmd"
  rTxExec :: "rcmd list \<Rightarrow> ('w, unit) cmd"

record 'w sql = "'w redis" +
  qInsertSession :: "string \<Rightarrow> int \<Rightarrow> int \<Rightarrow> real \<Rightarrow> ('w, string \<times> bool \<times> int) cmd"
  qGetSession :: "string \<Rightarrow> ('w, Session option) cmd"
  qListSessions :: "int \<Rightarrow> ('w, Session list) cmd"
  qListActive :: "('w, Session list) cmd"
  qUpdateWeather :: "string \<Rightarrow> real \<Rightarrow> ('w, int) cmd"
  qUpdateRadio :: "string \<Rightarrow> int \<Rightarrow> int \<Rightarrow> ('w, int) cmd"
  qStopSession :: "string \<Rightarrow> (string \<times> int) list \<Rightarrow> ('w, int) cmd"
  qDeleteSession :: "string \<Rightarrow> ('w, int) cmd"
  qInsertEdge :: "string \<Rightarrow> string \<Rightarrow> real \<Rightarrow> real \<Rightarrow> 'w \<Rightarrow> (pgerr + int \<times> int \<times> int) \<times> 'w"
  qListEdges :: "('w, Edge list) cmd"
  qUpdateEdge :: "string \<Rightarrow> string \<Rightarrow> real \<Rightarrow> real \<Rightarrow> ('w, Edge option) cmd"
  qDeleteEdge :: "string \<Rightarrow> ('w, int) cmd"
  qGetEdge :: "string \<Rightarrow> ('w, Edge option) cmd"
  qInsertSchema :: "string \<Rightarrow> SchemaField list \<Rightarrow> ('w, int \<times> int) cmd"
  qLatestSchema :: "string \<Rightarrow> ('w, DynamicSchema option) cmd"
  qInsertTelemetry :: "TelemetryLog \<Rightarrow> ('w, int \<times> int) cmd"
  qListTelemetry :: "string \<Rightarrow> int \<Rightarrow> int \<Rightarrow> ('w, TelemetryLog list) cmd"
  qCountTelemetry :: "string \<Rightarrow> ('w, int) cmd"

record 'w ext = "'w sql" +
  xClock :: "'w \<Rightarrow> int \<times> 'w"
  xRand :: "'w \<Rightarrow> real \<times> 'w"
  xUnmarshalMap :: "bytes \<Rightarrow> string + gmap"
  xUnmarshalArray :: "bytes \<Rightarrow> string + gval list"
  xFloatToInt :: "gofloat \<Rightarrow> 64 word"

section \<open>What the databases hold\<close>

text \<open>A Redis key is a string with an optional expiry time, a hash, or a geospatial sorted set.\<close>

datatype rentry = RStr string "int option" | RHash "(string \<times> rtext) list" | RGeo "(string \<times> real \<times> real) list"

record store =
  st_now :: int
  st_keys :: "string \<Rightarrow> rentry option"
  st_sessions :: "Session list"
  st_schemas :: "DynamicSchema list"
  st_edges :: "Edge list"
  st_telemetry :: "TelemetryLog list"
  st_erased :: "string list"  \<comment> \<open>the identifiers of the sessions deleted so far\<close>
  st_serial :: int

text \<open>
  What the services leave to themselves: the grid \<open>GEOADD\<close> rounds coordinates to, the order of
  \<open>ZRANGE\<close>, the UUIDs PostgreSQL generates, the canonical spelling of a UUID, and the number of
  characters of a string.
\<close>

record formats =
  fm_quant :: "real \<times> real \<Rightarrow> real \<times> real"
  fm_order :: "(string \<times> real \<times> real) list \<Rightarrow> string list"
  fm_uuid :: "store \<Rightarrow> string"
  fm_canon :: "string \<Rightarrow> string"
  fm_chars :: "string \<Rightarrow> nat"

definition live_entry :: "store \<Rightarrow> string \<Rightarrow> rentry option" where
  "live_entry st k =
     (case st_keys st k of
        Some (RStr s (Some t)) \<Rightarrow> if t \<le> st_now st then None else Some (RStr s (Some t))
      | e \<Rightarrow> e)"

definition put_key :: "string \<Rightarrow> rentry \<Rightarrow> store \<Rightarrow> store" where
  "put_key k e st = st\<lparr>st_keys := (st_keys st)(k \<mapsto> e)\<rparr>"

definition del_key :: "string \<Rightarrow> store \<Rightarrow> store" where
  "del_key k st = st\<lparr>st_keys := (st_keys st)(k := None)\<rparr>"

definition hash_at :: "store \<Rightarrow> string \<Rightarrow> (string \<times> rtext) list" where
  "hash_at st k = (case live_entry st k of Some (RHash h) \<Rightarrow> h | _ \<Rightarrow> [])"

definition geo_at :: "store \<Rightarrow> string \<Rightarrow> (string \<times> real \<times> real) list" where
  "geo_at st k = (case live_entry st k of Some (RGeo g) \<Rightarrow> g | _ \<Rightarrow> [])"

text \<open>An expiry of zero means that the key does not expire.\<close>

definition expiry :: "store \<Rightarrow> duration \<Rightarrow> int option" where
  "expiry st ttl = (if ttl = 0 then None else Some (st_now st + ttl))"

section \<open>Redis commands\<close>

type_synonym 'a effect = "store \<Rightarrow> (string + 'a) \<times> store"

definition wrongtype :: string where "wrongtype = ''WRONGTYPE''"

definition is_hash :: "store \<Rightarrow> string \<Rightarrow> bool" where
  "is_hash st k = (case live_entry st k of Some (RHash _) \<Rightarrow> True | None \<Rightarrow> True | _ \<Rightarrow> False)"

definition is_geo :: "store \<Rightarrow> string \<Rightarrow> bool" where
  "is_geo st k = (case live_entry st k of Some (RGeo _) \<Rightarrow> True | None \<Rightarrow> True | _ \<Rightarrow> False)"

definition hset :: "string \<Rightarrow> (string \<times> rtext) list \<Rightarrow> store \<Rightarrow> store" where
  "hset k fvs st = put_key k (RHash (fold (\<lambda>(f, v). AList.update f v) fvs (hash_at st k))) st"

definition ref_HSet :: "string \<Rightarrow> (string \<times> rtext) list \<Rightarrow> unit effect" where
  "ref_HSet k fvs st = (if is_hash st k then (Inr (), hset k fvs st) else (Inl wrongtype, st))"

definition ref_HGetAll :: "string \<Rightarrow> (string \<times> rtext) list effect" where
  "ref_HGetAll k st = (if is_hash st k then (Inr (hash_at st k), st) else (Inl wrongtype, st))"

definition ref_HGet :: "string \<Rightarrow> string \<Rightarrow> rtext option effect" where
  "ref_HGet k f st = (if is_hash st k then (Inr (map_of (hash_at st k) f), st) else (Inl wrongtype, st))"

definition ref_SetNX :: "string \<Rightarrow> string \<Rightarrow> duration \<Rightarrow> bool effect" where
  "ref_SetNX k v ttl st =
     (if live_entry st k \<noteq> None then (Inr False, st)
      else (Inr True, put_key k (RStr v (expiry st ttl)) st))"

definition ref_Set :: "string \<Rightarrow> string \<Rightarrow> duration \<Rightarrow> unit effect" where
  "ref_Set k v ttl st = (Inr (), put_key k (RStr v (expiry st ttl)) st)"

definition ref_GetDel :: "string \<Rightarrow> string option effect" where
  "ref_GetDel k st =
     (case live_entry st k of
        None \<Rightarrow> (Inr None, st)
      | Some (RStr v _) \<Rightarrow> (Inr (Some v), del_key k st)
      | Some _ \<Rightarrow> (Inl wrongtype, st))"

text \<open>The integer a hash field holds; a missing field counts as zero.\<close>

definition field_int :: "(string \<times> rtext) list \<Rightarrow> string \<Rightarrow> int option" where
  "field_int h f = (case map_of h f of None \<Rightarrow> Some 0 | Some (Txt s) \<Rightarrow> Atoi s | Some _ \<Rightarrow> None)"

definition ref_HIncrBy :: "string \<Rightarrow> string \<Rightarrow> int \<Rightarrow> int effect" where
  "ref_HIncrBy k f n st =
     (if \<not> is_hash st k then (Inl wrongtype, st)
      else case field_int (hash_at st k) f of
             None \<Rightarrow> (Inl ''ERR hash value is not an integer'', st)
           | Some i \<Rightarrow>
               if i + n < int64_min \<or> i + n > int64_max
               then (Inl ''ERR increment or decrement would overflow'', st)
               else (Inr (i + n), hset k [(f, Txt (Itoa (i + n)))] st))"

definition ref_Del :: "string list \<Rightarrow> int effect" where
  "ref_Del ks st = (Inr (int (card {k \<in> set ks. live_entry st k \<noteq> None})), fold del_key ks st)"

text \<open>\<open>GEOADD\<close> accepts latitudes up to the limit of the Web Mercator projection.\<close>

definition geo_lat_max :: real where "geo_lat_max = 85.05112878"

definition ref_GeoAdd :: "formats \<Rightarrow> string \<Rightarrow> string \<Rightarrow> real \<Rightarrow> real \<Rightarrow> int effect" where
  "ref_GeoAdd F k name lat lng st =
     (if \<not> is_geo st k then (Inl wrongtype, st)
      else if \<bar>lat\<bar> > geo_lat_max \<or> \<bar>lng\<bar> > 180 then (Inl ''ERR invalid longitude,latitude pair'', st)
      else (Inr (if name \<in> keys_of (geo_at st k) then 0 else 1),
            put_key k (RGeo (AList.update name (fm_quant F (lat, lng)) (geo_at st k))) st))"

definition ref_ZRem :: "string \<Rightarrow> string \<Rightarrow> int effect" where
  "ref_ZRem k name st =
     (if \<not> is_geo st k then (Inl wrongtype, st)
      else let g = AList.delete name (geo_at st k)
           in (Inr (if name \<in> keys_of (geo_at st k) then 1 else 0),
               if g = [] then del_key k st else put_key k (RGeo g) st))"

definition ref_ZRange :: "formats \<Rightarrow> string \<Rightarrow> string list effect" where
  "ref_ZRange F k st = (if is_geo st k then (Inr (fm_order F (geo_at st k)), st) else (Inl wrongtype, st))"

definition ref_GeoPos :: "string \<Rightarrow> string list \<Rightarrow> (real \<times> real) option list effect" where
  "ref_GeoPos k names st =
     (if is_geo st k then (Inr (map (map_of (geo_at st k)) names), st) else (Inl wrongtype, st))"

fun exec_rcmd :: "rcmd \<Rightarrow> store \<Rightarrow> store" where
  "exec_rcmd (CDel ks) st = fold del_key ks st"
| "exec_rcmd (CHSet k fvs) st = (if is_hash st k then hset k fvs st else st)"

definition ref_TxExec :: "rcmd list \<Rightarrow> unit effect" where
  "ref_TxExec cs st = (Inr (), fold exec_rcmd cs st)"

section \<open>SQL statements (repository/*.go over the tables of migrations/*.sql)\<close>

text \<open>A value stored in a \<open>DECIMAL(p, n)\<close> column: rounded half away from zero.\<close>

definition sql_round :: "nat \<Rightarrow> real \<Rightarrow> real" where
  "sql_round n x = sgn x * (of_int \<lfloor>\<bar>x\<bar> * 10 ^ n + 1 / 2\<rfloor> / 10 ^ n)"

definition has_session :: "formats \<Rightarrow> string \<Rightarrow> store \<Rightarrow> bool" where
  "has_session F i st \<longleftrightarrow> (\<exists>s \<in> set (st_sessions st). ss_ID s = fm_canon F i)"

definition update_sessions :: "(Session \<Rightarrow> bool) \<Rightarrow> (Session \<Rightarrow> Session) \<Rightarrow> int effect" where
  "update_sessions P f st =
     (Inr (int (length (filter P (st_sessions st)))),
      st\<lparr>st_sessions := map (\<lambda>s. if P s then f s else s) (st_sessions st)\<rparr>)"

definition active_with_id :: "formats \<Rightarrow> string \<Rightarrow> Session \<Rightarrow> bool" where
  "active_with_id F i s \<longleftrightarrow> ss_ID s = fm_canon F i \<and> ss_IsActive s"

definition ref_InsertSession :: "formats \<Rightarrow> string \<Rightarrow> int \<Rightarrow> int \<Rightarrow> real \<Rightarrow> (string \<times> bool \<times> int) effect" where
  "ref_InsertSession F name sf tx w st =
     (if fm_chars F name > 150 then (Inl ''value too long for type character varying(150)'', st)
      else (Inr (fm_uuid F st, True, st_now st),
            st\<lparr>st_sessions := st_sessions st @
                 [\<lparr>ss_ID = fm_uuid F st, ss_SessionName = name, ss_SpreadingFactor = sf, ss_TxPowerDbm = tx,
                   ss_WeatherSeverity = sql_round 2 w, ss_IsActive = True, ss_StatsSnapshot = None,
                   ss_CreatedAt = st_now st, ss_EndedAt = None\<rparr>]\<rparr>))"

definition ref_GetSession :: "formats \<Rightarrow> string \<Rightarrow> Session option effect" where
  "ref_GetSession F i st = (Inr (find (\<lambda>s. ss_ID s = fm_canon F i) (st_sessions st)), st)"

definition ref_ListSessions :: "int \<Rightarrow> Session list effect" where
  "ref_ListSessions lmt st = (Inr (take (nat lmt) (sort_key (\<lambda>s. - ss_CreatedAt s) (st_sessions st))), st)"

definition ref_ListActive :: "Session list effect" where
  "ref_ListActive st = (Inr (sort_key ss_CreatedAt (filter ss_IsActive (st_sessions st))), st)"

definition ref_UpdateWeather :: "formats \<Rightarrow> string \<Rightarrow> real \<Rightarrow> int effect" where
  "ref_UpdateWeather F i w = update_sessions (active_with_id F i) (\<lambda>s. s\<lparr>ss_WeatherSeverity := sql_round 2 w\<rparr>)"

definition ref_UpdateRadio :: "formats \<Rightarrow> string \<Rightarrow> int \<Rightarrow> int \<Rightarrow> int effect" where
  "ref_UpdateRadio F i sf tx =
     update_sessions (active_with_id F i) (\<lambda>s. s\<lparr>ss_SpreadingFactor := sf, ss_TxPowerDbm := tx\<rparr>)"

definition ref_StopSession :: "formats \<Rightarrow> string \<Rightarrow> (string \<times> int) list \<Rightarrow> int effect" where
  "ref_StopSession F i stats st =
     update_sessions (active_with_id F i)
       (\<lambda>s. s\<lparr>ss_IsActive := False, ss_EndedAt := Some (st_now st), ss_StatsSnapshot := Some stats\<rparr>) st"

text \<open>Deleting a session cascades to its schemas and telemetry.\<close>

definition ref_DeleteSession :: "formats \<Rightarrow> string \<Rightarrow> int effect" where
  "ref_DeleteSession F i st =
     (Inr (int (length (filter (\<lambda>s. ss_ID s = fm_canon F i) (st_sessions st)))),
      st\<lparr>st_sessions := filter (\<lambda>s. ss_ID s \<noteq> fm_canon F i) (st_sessions st),
         st_schemas := filter (\<lambda>d. ds_SessionID d \<noteq> fm_canon F i) (st_schemas st),
         st_telemetry := filter (\<lambda>t. tl_SessionID t \<noteq> fm_canon F i) (st_telemetry st),
         st_erased := map ss_ID (filter (\<lambda>s. ss_ID s = fm_canon F i) (st_sessions st)) @ st_erased st\<rparr>)"

definition ref_InsertEdge :: "string \<Rightarrow> string \<Rightarrow> real \<Rightarrow> real \<Rightarrow> store \<Rightarrow> (pgerr + int \<times> int \<times> int) \<times> store" where
  "ref_InsertEdge code name lat lng st =
     (if \<exists>e \<in> set (st_edges st). ed_EdgeCode e = code
      then (Inl (PgError ''23505'' ''duplicate key value violates unique constraint''), st)
      else (Inr (st_serial st, st_now st, st_now st),
            st\<lparr>st_edges := st_edges st @
                 [\<lparr>ed_ID = st_serial st, ed_EdgeCode = code, ed_Name = name, ed_Latitude = sql_round 8 lat,
                   ed_Longitude = sql_round 8 lng, ed_CreatedAt = st_now st, ed_UpdatedAt = st_now st\<rparr>],
               st_serial := st_serial st + 1\<rparr>))"

definition ref_ListEdges :: "Edge list effect" where
  "ref_ListEdges st = (Inr (sort_key ed_ID (st_edges st)), st)"

definition ref_GetEdge :: "string \<Rightarrow> Edge option effect" where
  "ref_GetEdge code st = (Inr (find (\<lambda>e. ed_EdgeCode e = code) (st_edges st)), st)"

definition ref_UpdateEdge :: "string \<Rightarrow> string \<Rightarrow> real \<Rightarrow> real \<Rightarrow> Edge option effect" where
  "ref_UpdateEdge code name lat lng st =
     (let upd = (\<lambda>e. if ed_EdgeCode e = code
                     then e\<lparr>ed_Name := name, ed_Latitude := sql_round 8 lat, ed_Longitude := sql_round 8 lng,
                            ed_UpdatedAt := st_now st\<rparr> else e);
          edges = map upd (st_edges st)
      in (Inr (find (\<lambda>e. ed_EdgeCode e = code) edges), st\<lparr>st_edges := edges\<rparr>))"

text \<open>Deleting an edge keeps the telemetry it received and clears the reference to it.\<close>

definition ref_DeleteEdge :: "string \<Rightarrow> int effect" where
  "ref_DeleteEdge code st =
     (let gone = ed_ID ` {e \<in> set (st_edges st). ed_EdgeCode e = code}
      in (Inr (int (length (filter (\<lambda>e. ed_EdgeCode e = code) (st_edges st)))),
          st\<lparr>st_edges := filter (\<lambda>e. ed_EdgeCode e \<noteq> code) (st_edges st),
             st_telemetry := map (\<lambda>t. if tl_EdgeID t \<in> Some ` gone then t\<lparr>tl_EdgeID := None\<rparr> else t) (st_telemetry st)\<rparr>))"

definition ref_InsertSchema :: "formats \<Rightarrow> string \<Rightarrow> SchemaField list \<Rightarrow> (int \<times> int) effect" where
  "ref_InsertSchema F sid flds st =
     (if \<not> has_session F sid st then (Inl ''violates foreign key constraint'', st)
      else (Inr (st_serial st, st_now st),
            st\<lparr>st_schemas := st_schemas st @
                 [\<lparr>ds_ID = st_serial st, ds_SessionID = fm_canon F sid, ds_Fields = flds, ds_CreatedAt = st_now st\<rparr>],
               st_serial := st_serial st + 1\<rparr>))"

definition ref_LatestSchema :: "formats \<Rightarrow> string \<Rightarrow> DynamicSchema option effect" where
  "ref_LatestSchema F sid st =
     (let mine = filter (\<lambda>d. ds_SessionID d = fm_canon F sid) (st_schemas st)
      in (Inr (case sort_key (\<lambda>d. - ds_CreatedAt d) (sort_key (\<lambda>d. - ds_ID d) mine) of
                 [] \<Rightarrow> None | d # _ \<Rightarrow> Some d), st))"

definition ref_InsertTelemetry :: "formats \<Rightarrow> TelemetryLog \<Rightarrow> (int \<times> int) effect" where
  "ref_InsertTelemetry F row st =
     (if \<not> has_session F (tl_SessionID row) st \<or>
         (\<exists>i. tl_EdgeID row = Some i \<and> i \<notin> ed_ID ` set (st_edges st))
      then (Inl ''violates foreign key constraint'', st)
      else if fm_chars F (tl_RoutingPath row) > 255 \<or> fm_chars F (tl_OriginNodeID row) > 100
      then (Inl ''value too long for type character varying'', st)
      else (Inr (st_serial st, st_now st),
            st\<lparr>st_telemetry := st_telemetry st @
                 [row\<lparr>tl_ID := st_serial st, tl_SessionID := fm_canon F (tl_SessionID row), tl_EdgeActive := False,
                      tl_ArrivedAt := st_now st\<rparr>],
               st_serial := st_serial st + 1\<rparr>))"

text \<open>The two left joins of the report: the stored code, else the live edge's, and whether it still exists.\<close>

definition report_row :: "store \<Rightarrow> TelemetryLog \<Rightarrow> TelemetryLog" where
  "report_row st t =
     (let live = find (\<lambda>e. tl_EdgeID t = Some (ed_ID e)) (st_edges st);
          code = (if tl_EdgeCode t \<noteq> [] then Some (tl_EdgeCode t) else map_option ed_EdgeCode live)
      in t\<lparr>tl_EdgeCode := (case code of Some c \<Rightarrow> c | None \<Rightarrow> []),
           tl_EdgeActive := (\<exists>e \<in> set (st_edges st). code = Some (ed_EdgeCode e))\<rparr>)"

definition ref_ListTelemetry :: "formats \<Rightarrow> string \<Rightarrow> int \<Rightarrow> int \<Rightarrow> TelemetryLog list effect" where
  "ref_ListTelemetry F sid lmt off st =
     (let mine = filter (\<lambda>t. tl_SessionID t = fm_canon F sid) (st_telemetry st);
          newest = sort_key (\<lambda>t. - tl_ArrivedAt t) (sort_key (\<lambda>t. - tl_ID t) mine)
      in (Inr (map (report_row st) (take (nat lmt) (drop (nat off) newest))), st))"

definition ref_CountTelemetry :: "formats \<Rightarrow> string \<Rightarrow> int effect" where
  "ref_CountTelemetry F sid st =
     (Inr (int (length (filter (\<lambda>t. tl_SessionID t = fm_canon F sid) (st_telemetry st)))), st)"

section \<open>The laws\<close>

definition at_time :: "int \<Rightarrow> store \<Rightarrow> store" where
  "at_time t st = st\<lparr>st_now := t\<rparr>"

text \<open>
  Time may pass, then the command has its documented result and effect, or it reports an error and
  has had its effect or none.
\<close>

definition implements :: "('w \<Rightarrow> store) \<Rightarrow> ('w \<Rightarrow> ('e + 'a) \<times> 'w) \<Rightarrow> (store \<Rightarrow> ('e + 'a) \<times> store) \<Rightarrow> bool" where
  "implements view f g \<longleftrightarrow>
     (\<forall>w. \<exists>t \<ge> st_now (view w).
        (fst (f w), view (snd (f w))) = g (at_time t (view w)) \<or>
        (\<exists>e. fst (f w) = Inl e) \<and> view (snd (f w)) \<in> {at_time t (view w), snd (g (at_time t (view w)))})"

definition redis_ok :: "formats \<Rightarrow> ('w \<Rightarrow> store) \<Rightarrow> 'w ext \<Rightarrow> bool" where
  "redis_ok F view X \<longleftrightarrow>
     (\<forall>k fvs. implements view (rHSet X k fvs) (ref_HSet k fvs)) \<and>
     (\<forall>k. implements view (rHGetAll X k) (ref_HGetAll k)) \<and>
     (\<forall>k f. implements view (rHGet X k f) (ref_HGet k f)) \<and>
     (\<forall>k v ttl. implements view (rSetNX X k v ttl) (ref_SetNX k v ttl)) \<and>
     (\<forall>k v ttl. implements view (rSet X k v ttl) (ref_Set k v ttl)) \<and>
     (\<forall>k. implements view (rGetDel X k) (ref_GetDel k)) \<and>
     (\<forall>k f n. implements view (rHIncrBy X k f n) (ref_HIncrBy k f n)) \<and>
     (\<forall>ks. implements view (rDel X ks) (ref_Del ks)) \<and>
     (\<forall>k n la lo. implements view (rGeoAdd X k n la lo) (ref_GeoAdd F k n la lo)) \<and>
     (\<forall>k n. implements view (rZRem X k n) (ref_ZRem k n)) \<and>
     (\<forall>k. implements view (rZRange X k) (ref_ZRange F k)) \<and>
     (\<forall>k ns. implements view (rGeoPos X k ns) (ref_GeoPos k ns)) \<and>
     (\<forall>cs. implements view (rTxExec X cs) (ref_TxExec cs)) \<and>
     (\<forall>g. set (fm_order F g) = keys_of g \<and> distinct (fm_order F g))"

definition sql_ok :: "formats \<Rightarrow> ('w \<Rightarrow> store) \<Rightarrow> 'w ext \<Rightarrow> bool" where
  "sql_ok F view X \<longleftrightarrow>
     (\<forall>n sf tx ws. implements view (qInsertSession X n sf tx ws) (ref_InsertSession F n sf tx ws)) \<and>
     (\<forall>i. implements view (qGetSession X i) (ref_GetSession F i)) \<and>
     (\<forall>n. implements view (qListSessions X n) (ref_ListSessions n)) \<and>
     implements view (qListActive X) ref_ListActive \<and>
     (\<forall>i ws. implements view (qUpdateWeather X i ws) (ref_UpdateWeather F i ws)) \<and>
     (\<forall>i sf tx. implements view (qUpdateRadio X i sf tx) (ref_UpdateRadio F i sf tx)) \<and>
     (\<forall>i js. implements view (qStopSession X i js) (ref_StopSession F i js)) \<and>
     (\<forall>i. implements view (qDeleteSession X i) (ref_DeleteSession F i)) \<and>
     (\<forall>c n la lo. implements view (qInsertEdge X c n la lo) (ref_InsertEdge c n la lo)) \<and>
     implements view (qListEdges X) ref_ListEdges \<and>
     (\<forall>c n la lo. implements view (qUpdateEdge X c n la lo) (ref_UpdateEdge c n la lo)) \<and>
     (\<forall>c. implements view (qDeleteEdge X c) (ref_DeleteEdge c)) \<and>
     (\<forall>c. implements view (qGetEdge X c) (ref_GetEdge c)) \<and>
     (\<forall>i fs. implements view (qInsertSchema X i fs) (ref_InsertSchema F i fs)) \<and>
     (\<forall>i. implements view (qLatestSchema X i) (ref_LatestSchema F i)) \<and>
     (\<forall>r. implements view (qInsertTelemetry X r) (ref_InsertTelemetry F r)) \<and>
     (\<forall>i l off. implements view (qListTelemetry X i l off) (ref_ListTelemetry F i l off)) \<and>
     (\<forall>i. implements view (qCountTelemetry X i) (ref_CountTelemetry F i))"

text \<open>The clock shows the time of the world; the random source draws from [0, 1) and changes nothing else.\<close>

definition env_ok :: "('w \<Rightarrow> store) \<Rightarrow> 'w ext \<Rightarrow> bool" where
  "env_ok view X \<longleftrightarrow> uniform01 (xRand X) \<and>
     (\<forall>w. view (snd (xRand X w)) = view w) \<and>
     (\<forall>w. \<exists>t \<ge> st_now (view w). xClock X w = (t, snd (xClock X w)) \<and> view (snd (xClock X w)) = at_time t (view w))"

text \<open>
  A column of type UUID reads as hexadecimal digits and hyphens, and a statement whose argument is
  no UUID fails; what matters below is that no session id contains a colon.
\<close>

abbreviation colon_free :: "string \<Rightarrow> bool" where
  "colon_free s \<equiv> CHR '':'' \<notin> set s"

definition uuid_column :: "'w ext \<Rightarrow> bool" where
  "uuid_column X \<longleftrightarrow>
     (\<forall>n sf tx ws w i a c w'. qInsertSession X n sf tx ws w = (Inr (i, a, c), w') \<longrightarrow> colon_free i) \<and>
     (\<forall>i w r w'. qGetSession X i w = (Inr (Some r), w') \<longrightarrow> colon_free (ss_ID r)) \<and>
     (\<forall>w rs w'. qListActive X w = (Inr rs, w') \<longrightarrow> list_all (\<lambda>r. colon_free (ss_ID r)) rs) \<and>
     (\<forall>i js w n w'. qStopSession X i js w = (Inr n, w') \<longrightarrow> colon_free i)"

definition ext_ok :: "formats \<Rightarrow> ('w \<Rightarrow> store) \<Rightarrow> 'w ext \<Rightarrow> bool" where
  "ext_ok F view X \<longleftrightarrow> redis_ok F view X \<and> sql_ok F view X \<and> env_ok view X \<and> uuid_column X"

lemma redis_okD:
  assumes "redis_ok F view X"
  shows "implements view (rHSet X k fvs) (ref_HSet k fvs)"
    "implements view (rHGetAll X k) (ref_HGetAll k)"
    "implements view (rHGet X k f) (ref_HGet k f)"
    "implements view (rSetNX X k v ttl) (ref_SetNX k v ttl)"
    "implements view (rSet X k v ttl) (ref_Set k v ttl)"
    "implements view (rGetDel X k) (ref_GetDel k)"
    "implements view (rHIncrBy X k f n) (ref_HIncrBy k f n)"
    "implements view (rDel X ks) (ref_Del ks)"
    "implements view (rGeoAdd X k nm la lo) (ref_GeoAdd F k nm la lo)"
    "implements view (rZRem X k nm) (ref_ZRem k nm)"
    "implements view (rZRange X k) (ref_ZRange F k)"
    "implements view (rGeoPos X k ns) (ref_GeoPos k ns)"
    "implements view (rTxExec X cs) (ref_TxExec cs)"
  using assms by (simp_all add: redis_ok_def)

lemma redis_order:
  assumes "redis_ok F view X"
  shows "set (fm_order F g) = keys_of g" "distinct (fm_order F g)"
  using assms by (simp_all add: redis_ok_def)

lemma sql_okD:
  assumes "sql_ok F view X"
  shows "implements view (qInsertSession X nm sf tx ws) (ref_InsertSession F nm sf tx ws)"
    "implements view (qGetSession X i) (ref_GetSession F i)"
    "implements view (qListSessions X n) (ref_ListSessions n)"
    "implements view (qListActive X) ref_ListActive"
    "implements view (qUpdateWeather X i ws) (ref_UpdateWeather F i ws)"
    "implements view (qUpdateRadio X i sf tx) (ref_UpdateRadio F i sf tx)"
    "implements view (qStopSession X i js) (ref_StopSession F i js)"
    "implements view (qDeleteSession X i) (ref_DeleteSession F i)"
    "implements view (qInsertEdge X c nm la lo) (ref_InsertEdge c nm la lo)"
    "implements view (qListEdges X) ref_ListEdges"
    "implements view (qUpdateEdge X c nm la lo) (ref_UpdateEdge c nm la lo)"
    "implements view (qDeleteEdge X c) (ref_DeleteEdge c)"
    "implements view (qGetEdge X c) (ref_GetEdge c)"
    "implements view (qInsertSchema X i fs) (ref_InsertSchema F i fs)"
    "implements view (qLatestSchema X i) (ref_LatestSchema F i)"
    "implements view (qInsertTelemetry X r) (ref_InsertTelemetry F r)"
    "implements view (qListTelemetry X i l off) (ref_ListTelemetry F i l off)"
    "implements view (qCountTelemetry X i) (ref_CountTelemetry F i)"
  using assms by (simp_all add: sql_ok_def)

section \<open>An in-memory instance\<close>

text \<open>A result that would break the UUID format is an error of the driver.\<close>

definition uuid_result :: "('a \<Rightarrow> bool) \<Rightarrow> (string + 'a) \<times> 'w \<Rightarrow> (string + 'a) \<times> 'w" where
  "uuid_result p rw = (case fst rw of Inl _ \<Rightarrow> rw | Inr a \<Rightarrow> if p a then rw else (Inl ''invalid uuid'', snd rw))"

definition mem_ext :: "formats \<Rightarrow> real \<Rightarrow> (bytes \<Rightarrow> string + gmap) \<Rightarrow> (bytes \<Rightarrow> string + gval list) \<Rightarrow> store ext" where
  "mem_ext F roll um ua =
     \<lparr>rHSet = ref_HSet, rHGetAll = ref_HGetAll, rHGet = ref_HGet, rSetNX = ref_SetNX, rSet = ref_Set,
      rGetDel = ref_GetDel, rHIncrBy = ref_HIncrBy, rDel = ref_Del, rGeoAdd = ref_GeoAdd F, rZRem = ref_ZRem,
      rZRange = ref_ZRange F, rGeoPos = ref_GeoPos, rTxExec = ref_TxExec,
      qInsertSession = (\<lambda>n sf tx ws w. uuid_result (\<lambda>(i, _). colon_free i) (ref_InsertSession F n sf tx ws w)),
      qGetSession = (\<lambda>i w. uuid_result (\<lambda>r. case r of None \<Rightarrow> True | Some s \<Rightarrow> colon_free (ss_ID s)) (ref_GetSession F i w)), qListSessions = ref_ListSessions,
      qListActive = (\<lambda>w. uuid_result (list_all (\<lambda>r. colon_free (ss_ID r))) (ref_ListActive w)), qUpdateWeather = ref_UpdateWeather F, qUpdateRadio = ref_UpdateRadio F,
      qStopSession = (\<lambda>i js w. uuid_result (\<lambda>_. colon_free i) (ref_StopSession F i js w)), qDeleteSession = ref_DeleteSession F,
      qInsertEdge = ref_InsertEdge, qListEdges = ref_ListEdges, qUpdateEdge = ref_UpdateEdge,
      qDeleteEdge = ref_DeleteEdge, qGetEdge = ref_GetEdge, qInsertSchema = ref_InsertSchema F,
      qLatestSchema = ref_LatestSchema F, qInsertTelemetry = ref_InsertTelemetry F,
      qListTelemetry = ref_ListTelemetry F, qCountTelemetry = ref_CountTelemetry F,
      xClock = (\<lambda>w. (st_now w, w)), xRand = (\<lambda>w. (roll, w)), xUnmarshalMap = um, xUnmarshalArray = ua,
      xFloatToInt = (\<lambda>_. 0)\<rparr>"

definition plain_formats :: formats where
  "plain_formats = \<lparr>fm_quant = (\<lambda>p. p), fm_order = (\<lambda>g. remdups (map fst g)), fm_uuid = (\<lambda>st. ''u'' @ concat (st_erased st @ map ss_ID (st_sessions st))),
     fm_canon = (\<lambda>i. i), fm_chars = length\<rparr>"

definition empty_store :: store where
  "empty_store = \<lparr>st_now = 0, st_keys = (\<lambda>_. None), st_sessions = [], st_schemas = [], st_edges = [],
     st_telemetry = [], st_erased = [], st_serial = 1\<rparr>"

lemma implements_refl: "implements (\<lambda>w. w) g g"
  unfolding implements_def by (intro allI, rule exI) (auto simp: at_time_def)

lemma implements_uuid: "implements (\<lambda>w. w) (\<lambda>w. uuid_result p (g w)) g"
  unfolding implements_def uuid_result_def
  by (intro allI exI [of _ "st_now w" for w]) (auto simp: at_time_def split: sum.splits)

lemma uuid_result_Inr: "uuid_result p rw = (Inr a, w') \<Longrightarrow> p a"
  by (cases rw) (auto simp: uuid_result_def split: sum.splits if_splits)

lemma mem_ext_ok:
  assumes "0 \<le> roll" "roll < 1"
  shows "ext_ok plain_formats (\<lambda>w. w) (mem_ext plain_formats roll um ua)"
proof -
  have "redis_ok plain_formats (\<lambda>w. w) (mem_ext plain_formats roll um ua)"
    unfolding redis_ok_def mem_ext_def by (simp add: implements_refl) (simp add: plain_formats_def)
  moreover have "sql_ok plain_formats (\<lambda>w. w) (mem_ext plain_formats roll um ua)"
    unfolding sql_ok_def mem_ext_def by (simp add: implements_refl implements_uuid)
  moreover have "env_ok (\<lambda>w. w) (mem_ext plain_formats roll um ua)"
    unfolding env_ok_def mem_ext_def uniform01_def using assms by (auto simp: at_time_def)
  moreover have "uuid_column (mem_ext plain_formats roll um ua)"
    unfolding uuid_column_def mem_ext_def by (auto dest: uuid_result_Inr)
  ultimately show ?thesis by (simp add: ext_ok_def)
qed

section \<open>Frames: which keys and tables a command can change\<close>

text \<open>\<open>keeps K st st'\<close>: time does not run backwards, and every key outside \<open>K\<close> is as it was.\<close>

definition keeps :: "string set \<Rightarrow> store \<Rightarrow> store \<Rightarrow> bool" where
  "keeps K st st' \<longleftrightarrow> st_now st \<le> st_now st' \<and> (\<forall>k. k \<notin> K \<longrightarrow> st_keys st' k = st_keys st k)"

lemma keeps_refl [simp]: "keeps K st st"
  by (simp add: keeps_def)

lemma keeps_trans: "keeps K st st' \<Longrightarrow> keeps K st' st'' \<Longrightarrow> keeps K st st''"
  by (auto simp: keeps_def)

lemma keeps_mono: "keeps K st st' \<Longrightarrow> K \<subseteq> L \<Longrightarrow> keeps L st st'"
  by (auto simp: keeps_def)

lemma keeps_at_time: "st_now st \<le> t \<Longrightarrow> keeps K st (at_time t st)"
  by (simp add: keeps_def at_time_def)

text \<open>An effect that touches only the keys \<open>K\<close> and leaves the clock alone.\<close>

definition touches :: "string set \<Rightarrow> (store \<Rightarrow> 'r \<times> store) \<Rightarrow> bool" where
  "touches K g \<longleftrightarrow> (\<forall>st. st_now (snd (g st)) = st_now st \<and> (\<forall>k. k \<notin> K \<longrightarrow> st_keys (snd (g st)) k = st_keys st k))"

lemma keeps_implements:
  assumes "implements view f g" "touches K g"
  shows "keeps K (view w) (view (snd (f w)))"
proof -
  obtain t where t: "st_now (view w) \<le> t"
    and c: "view (snd (f w)) = snd (g (at_time t (view w))) \<or> view (snd (f w)) = at_time t (view w)"
    using assms(1) unfolding implements_def by (metis insert_iff singletonD snd_conv)
  have "keeps K (at_time t (view w)) (snd (g (at_time t (view w))))"
    using assms(2) by (simp add: touches_def keeps_def)
  then show ?thesis using keeps_at_time [OF t, of K] c keeps_trans by metis
qed

lemma del_key_st [simp]:
  "st_keys (del_key a st) k = (if k = a then None else st_keys st k)" "st_now (del_key a st) = st_now st"
  by (simp_all add: del_key_def)

lemma put_key_st [simp]:
  "st_keys (put_key a e st) k = (if k = a then Some e else st_keys st k)" "st_now (put_key a e st) = st_now st"
  by (simp_all add: put_key_def)

lemma fold_del_key_st:
  "st_now (fold del_key ks st) = st_now st"
  "st_keys (fold del_key ks st) k = (if k \<in> set ks then None else st_keys st k)"
  by (induction ks arbitrary: st) auto

lemmas redis_effects = ref_HSet_def ref_HGetAll_def ref_HGet_def ref_SetNX_def ref_Set_def ref_GetDel_def
  ref_HIncrBy_def ref_Del_def ref_GeoAdd_def ref_ZRem_def ref_ZRange_def ref_GeoPos_def ref_TxExec_def

lemmas sql_effects = ref_InsertSession_def ref_GetSession_def ref_ListSessions_def ref_ListActive_def
  ref_UpdateWeather_def ref_UpdateRadio_def ref_StopSession_def ref_DeleteSession_def ref_InsertEdge_def
  ref_ListEdges_def ref_UpdateEdge_def ref_DeleteEdge_def ref_GetEdge_def ref_InsertSchema_def
  ref_LatestSchema_def ref_InsertTelemetry_def ref_ListTelemetry_def ref_CountTelemetry_def update_sessions_def

lemma touches_redis:
  "touches {k} (ref_HSet k fvs)" "touches {} (ref_HGetAll k)" "touches {} (ref_HGet k f)"
  "touches {k} (ref_SetNX k v ttl)" "touches {k} (ref_Set k v ttl)" "touches {k} (ref_GetDel k)"
  "touches {k} (ref_HIncrBy k f n)" "touches (set ks) (ref_Del ks)" "touches {k} (ref_GeoAdd F k name la lo)"
  "touches {k} (ref_ZRem k name)" "touches {} (ref_ZRange F k)" "touches {} (ref_GeoPos k names)"
  by (auto simp: touches_def redis_effects hset_def put_key_def del_key_def Let_def fold_del_key_st
      split: option.splits rentry.splits)

fun rcmd_keys :: "rcmd \<Rightarrow> string set" where
  "rcmd_keys (CDel ks) = set ks"
| "rcmd_keys (CHSet k fvs) = {k}"

lemma exec_rcmd_frame:
  "st_now (exec_rcmd c st) = st_now st" "k \<notin> rcmd_keys c \<Longrightarrow> st_keys (exec_rcmd c st) k = st_keys st k"
  by (cases c; simp add: fold_del_key_st hset_def put_key_def)+

lemma touches_TxExec: "touches (\<Union> (rcmd_keys ` set cs)) (ref_TxExec cs)"
proof -
  have "st_now (fold exec_rcmd cs st) = st_now st \<and>
      (\<forall>k. k \<notin> \<Union> (rcmd_keys ` set cs) \<longrightarrow> st_keys (fold exec_rcmd cs st) k = st_keys st k)" for st
    by (induction cs arbitrary: st) (simp_all add: exec_rcmd_frame)
  then show ?thesis by (simp add: touches_def ref_TxExec_def)
qed

lemma touches_sql:
  "touches {} (ref_InsertSession F n sf tx ws)" "touches {} (ref_GetSession F i)" "touches {} (ref_ListSessions lmt)"
  "touches {} ref_ListActive" "touches {} (ref_UpdateWeather F i ws)" "touches {} (ref_UpdateRadio F i sf tx)"
  "touches {} (ref_StopSession F i js)" "touches {} (ref_DeleteSession F i)" "touches {} (ref_InsertEdge c n la lo)"
  "touches {} ref_ListEdges" "touches {} (ref_UpdateEdge c n la lo)" "touches {} (ref_DeleteEdge c)"
  "touches {} (ref_GetEdge c)" "touches {} (ref_InsertSchema F i fs)" "touches {} (ref_LatestSchema F i)"
  "touches {} (ref_InsertTelemetry F r)" "touches {} (ref_ListTelemetry F i lmt off)" "touches {} (ref_CountTelemetry F i)"
  by (simp_all add: touches_def sql_effects Let_def)

section \<open>Commands that leave the tables alone\<close>

definition tables :: "store \<Rightarrow> Session list \<times> DynamicSchema list \<times> Edge list \<times> TelemetryLog list \<times> string list" where
  "tables st = (st_sessions st, st_schemas st, st_edges st, st_telemetry st, st_erased st)"

text \<open>\<open>calm K st st'\<close>: only keys in \<open>K\<close> may differ, and no table does.\<close>

definition calm :: "string set \<Rightarrow> store \<Rightarrow> store \<Rightarrow> bool" where
  "calm K st st' \<longleftrightarrow> keeps K st st' \<and> tables st' = tables st"

lemma calm_refl [simp]: "calm K st st"
  by (simp add: calm_def)

lemma calm_trans: "calm K st st' \<Longrightarrow> calm K st' st'' \<Longrightarrow> calm K st st''"
  by (auto simp: calm_def intro: keeps_trans)

lemma calm_mono: "calm K st st' \<Longrightarrow> K \<subseteq> L \<Longrightarrow> calm L st st'"
  by (auto simp: calm_def intro: keeps_mono)

lemma calm_keeps: "calm K st st' \<Longrightarrow> keeps K st st'"
  by (simp add: calm_def)

lemma calm_at_time: "st_now st \<le> t \<Longrightarrow> calm K st (at_time t st)"
  by (simp add: calm_def keeps_at_time) (simp add: tables_def at_time_def)

definition no_tables :: "(store \<Rightarrow> 'r \<times> store) \<Rightarrow> bool" where
  "no_tables g \<longleftrightarrow> (\<forall>st. tables (snd (g st)) = tables st)"

lemma calm_implements:
  assumes "implements view f g" "touches K g" "no_tables g"
  shows "calm K (view w) (view (snd (f w)))"
proof -
  have k: "keeps K (view w) (view (snd (f w)))" by (rule keeps_implements [OF assms(1,2)])
  obtain t where c: "view (snd (f w)) = snd (g (at_time t (view w))) \<or> view (snd (f w)) = at_time t (view w)"
    using assms(1) unfolding implements_def by (metis insert_iff singletonD snd_conv)
  have "tables (at_time t (view w)) = tables (view w)" by (simp add: tables_def at_time_def)
  then have "tables (view (snd (f w))) = tables (view w)" using c assms(3) unfolding no_tables_def by metis
  with k show ?thesis by (simp add: calm_def)
qed

lemma tables_keys [simp]:
  "tables (put_key k e st) = tables st" "tables (del_key k st) = tables st" "tables (hset k fvs st) = tables st"
  by (simp_all add: tables_def put_key_def del_key_def hset_def)

lemma tables_fold_del [simp]: "tables (fold del_key ks st) = tables st"
  by (rule fold_unchanged) simp

lemma no_tables_redis:
  "no_tables (ref_HSet k fvs)" "no_tables (ref_HGetAll k)" "no_tables (ref_HGet k f)"
  "no_tables (ref_SetNX k v ttl)" "no_tables (ref_Set k v ttl)" "no_tables (ref_GetDel k)"
  "no_tables (ref_HIncrBy k f n)" "no_tables (ref_Del ks)" "no_tables (ref_GeoAdd F k name la lo)"
  "no_tables (ref_ZRem k name)" "no_tables (ref_ZRange F k)" "no_tables (ref_GeoPos k names)"
  by (auto simp: no_tables_def redis_effects Let_def split: option.splits rentry.splits)

lemma no_tables_TxExec: "no_tables (ref_TxExec cs)"
proof -
  have "tables (exec_rcmd c st) = tables st" for c st by (cases c) simp_all
  then have "tables (fold exec_rcmd cs st) = tables st" for st by (rule fold_unchanged)
  then show ?thesis by (simp add: no_tables_def ref_TxExec_def)
qed

lemma no_tables_queries:
  "no_tables (ref_GetSession F i)" "no_tables (ref_ListSessions n)" "no_tables ref_ListActive"
  "no_tables ref_ListEdges" "no_tables (ref_GetEdge c)" "no_tables (ref_LatestSchema F i)"
  "no_tables (ref_ListTelemetry F i n off)" "no_tables (ref_CountTelemetry F i)"
  by (simp_all add: no_tables_def sql_effects Let_def)

end
