(* ===== verification/Repos.thy ===== *)
theory Repos
  imports World
begin

text \<open>
  The data-access layer, \<^verbatim>\<open>internal/repository\<close>: the Redis key scheme (keys.go) and the state,
  geo, route, session, edge, schema and telemetry repositories, each method one function on the
  world.  The lemmas give, per method, the keys it can change, the effect on the documented store
  when it succeeds, and the round trips (parameters, routing table) the services rely on.  The
  locale \<open>once_guard\<close> is the contract of the two \<open>SETNX\<close> guards: a second claim within the time to
  live fails.
\<close>

section \<open>Keys (keys.go)\<close>

definition sim_key :: "string \<Rightarrow> string \<Rightarrow> string" where
  "sim_key sessionID rest = ''sim:'' @ sessionID @ '':'' @ rest"

definition keyGeo :: "string \<Rightarrow> string" where "keyGeo sessionID = sim_key sessionID ''geo''"
definition keyRoutes :: "string \<Rightarrow> string" where "keyRoutes sessionID = sim_key sessionID ''routes''"
definition keyRoutesFull :: "string \<Rightarrow> string" where "keyRoutesFull sessionID = sim_key sessionID ''routes_full''"
definition keyDedup :: "string \<Rightarrow> string \<Rightarrow> string \<Rightarrow> string" where
  "keyDedup sessionID packetID receiver = sim_key sessionID (''dedup:'' @ packetID @ '':'' @ receiver)"
definition keyParams :: "string \<Rightarrow> string" where "keyParams sessionID = sim_key sessionID ''params''"
definition keyStats :: "string \<Rightarrow> string" where "keyStats sessionID = sim_key sessionID ''stats''"
definition keyPingLimit :: "string \<Rightarrow> string \<Rightarrow> string" where
  "keyPingLimit sessionID nodeID = sim_key sessionID (''pinglimit:'' @ nodeID)"
definition keyAckSender :: "string \<Rightarrow> string \<Rightarrow> string \<Rightarrow> string" where
  "keyAckSender sessionID packetID receiver = sim_key sessionID (''acksender:'' @ packetID @ '':'' @ receiver)"

lemmas key_defs = keyGeo_def keyRoutes_def keyRoutesFull_def keyDedup_def keyParams_def keyStats_def
  keyPingLimit_def keyAckSender_def

section \<open>State (state\_repo.go)\<close>

definition dedupTTL :: duration where "dedupTTL = 30 * Second"
definition ackSenderTTL :: duration where "ackSenderTTL = 2 * Minute"

text \<open>\<open>fmt.Errorf("\<dots>: %w", err)\<close> around the error of a command.\<close>

definition wrap_err :: "string \<Rightarrow> (string + 'a) \<times> 'w \<Rightarrow> 'a res \<times> 'w" where
  "wrap_err msg rw = (map_sum (ErrOther msg) id (fst rw), snd rw)"

text \<open>\<open>Atoi\<close> and \<open>ParseFloat\<close> on the text of a hash field; a missing field is the empty string.\<close>

fun atoi_text :: "rtext option \<Rightarrow> int option" where
  "atoi_text None = None"
| "atoi_text (Some (Txt s)) = Atoi s"
| "atoi_text (Some (FloatTxt x)) = (if x = of_int \<lfloor>x\<rfloor> then Some \<lfloor>x\<rfloor> else None)"
| "atoi_text (Some (RouteTxt _)) = None"

fun float_text :: "rtext option \<Rightarrow> real option" where
  "float_text None = None"
| "float_text (Some (Txt s)) = ParseFloat s"
| "float_text (Some (FloatTxt x)) = Some x"
| "float_text (Some (RouteTxt _)) = None"

definition SaveParams :: "'w ext \<Rightarrow> string \<Rightarrow> SessionParams \<Rightarrow> 'w \<Rightarrow> unit res \<times> 'w" where
  "SaveParams X sessionID p w =
     wrap_err (''save params '' @ sessionID)
       (rHSet X (keyParams sessionID)
          [(''spreading_factor'', Txt (Itoa (sp_SpreadingFactor p))),
           (''tx_power_dbm'', Txt (Itoa (sp_TxPowerDbm p))),
           (''weather_severity'', FloatTxt (sp_WeatherSeverity p))] w)"

definition GetParams :: "'w ext \<Rightarrow> string \<Rightarrow> 'w \<Rightarrow> SessionParams res \<times> 'w" where
  "GetParams X sessionID w =
     (case rHGetAll X (keyParams sessionID) w of
        (Inl e, w') \<Rightarrow> (Inl (ErrOther (''get params '' @ sessionID) e), w')
      | (Inr vals, w') \<Rightarrow>
          (if vals = [] then Inl ErrNotFound
           else case atoi_text (map_of vals ''spreading_factor'') of
             None \<Rightarrow> Inl (ErrOther (''corrupt spreading_factor for '' @ sessionID) ''strconv'')
           | Some sf \<Rightarrow>
               case atoi_text (map_of vals ''tx_power_dbm'') of
                 None \<Rightarrow> Inl (ErrOther (''corrupt tx_power_dbm for '' @ sessionID) ''strconv'')
               | Some tx \<Rightarrow>
                   case float_text (map_of vals ''weather_severity'') of
                     None \<Rightarrow> Inl (ErrOther (''corrupt weather_severity for '' @ sessionID) ''strconv'')
                   | Some ws \<Rightarrow> Inr \<lparr>sp_SpreadingFactor = sf, sp_TxPowerDbm = tx, sp_WeatherSeverity = ws\<rparr>,
           w'))"

definition MarkPacketSeen :: "'w ext \<Rightarrow> string \<Rightarrow> string \<Rightarrow> string \<Rightarrow> 'w \<Rightarrow> bool res \<times> 'w" where
  "MarkPacketSeen X sessionID packetID receiver w =
     wrap_err (''dedup setnx '' @ sessionID @ ''/'' @ packetID)
       (rSetNX X (keyDedup sessionID packetID receiver) ''1'' dedupTTL w)"

definition RememberAckSender :: "'w ext \<Rightarrow> string \<Rightarrow> string \<Rightarrow> string \<Rightarrow> string \<Rightarrow> 'w \<Rightarrow> unit res \<times> 'w" where
  "RememberAckSender X sessionID packetID receiver sender w =
     wrap_err (''remember ack sender '' @ sessionID @ ''/'' @ packetID)
       (rSet X (keyAckSender sessionID packetID receiver) sender ackSenderTTL w)"

definition TakeAckSender :: "'w ext \<Rightarrow> string \<Rightarrow> string \<Rightarrow> string \<Rightarrow> 'w \<Rightarrow> string res \<times> 'w" where
  "TakeAckSender X sessionID packetID receiver w =
     (case rGetDel X (keyAckSender sessionID packetID receiver) w of
        (Inr None, w') \<Rightarrow> (Inl ErrNotFound, w')
      | (Inl e, w') \<Rightarrow> (Inl (ErrOther (''take ack sender '' @ sessionID @ ''/'' @ packetID) e), w')
      | (Inr (Some sender), w') \<Rightarrow> (Inr sender, w'))"

definition AllowPing :: "'w ext \<Rightarrow> string \<Rightarrow> string \<Rightarrow> duration \<Rightarrow> 'w \<Rightarrow> bool res \<times> 'w" where
  "AllowPing X sessionID nodeID interval w =
     wrap_err (''ping limit '' @ sessionID @ ''/'' @ nodeID)
       (rSetNX X (keyPingLimit sessionID nodeID) ''1'' interval w)"

definition IncrStat :: "'w ext \<Rightarrow> string \<Rightarrow> string \<Rightarrow> 'w \<Rightarrow> unit res \<times> 'w" where
  "IncrStat X sessionID field w =
     (case rHIncrBy X (keyStats sessionID) field 1 w of
        (Inl e, w') \<Rightarrow> (Inl (ErrOther (''incr stat '' @ sessionID @ ''/'' @ field) e), w')
      | (Inr _, w') \<Rightarrow> (Inr (), w'))"

definition parse_stats :: "(string \<times> rtext) list \<Rightarrow> (string \<times> int) list" where
  "parse_stats vals = List.map_filter (\<lambda>(k, v). map_option (Pair k) (atoi_text (Some v))) vals"

definition GetStats :: "'w ext \<Rightarrow> string \<Rightarrow> 'w \<Rightarrow> (string \<times> int) list res \<times> 'w" where
  "GetStats X sessionID w =
     (case rHGetAll X (keyStats sessionID) w of
        (Inl e, w') \<Rightarrow> (Inl (ErrOther (''get stats '' @ sessionID) e), w')
      | (Inr vals, w') \<Rightarrow> (Inr (parse_stats vals), w'))"

text \<open>\<open>.Err()\<close> returned as it is.\<close>

definition bare_err :: "(string + 'a) \<times> 'w \<Rightarrow> unit res \<times> 'w" where
  "bare_err rw = (map_sum (ErrOther []) (\<lambda>_. ()) (fst rw), snd rw)"

definition ClearSession :: "'w ext \<Rightarrow> string \<Rightarrow> 'w \<Rightarrow> unit res \<times> 'w" where
  "ClearSession X sessionID w = bare_err (rDel X [keyParams sessionID, keyStats sessionID] w)"

section \<open>Positions (geo\_repo.go)\<close>

definition UpsertPosition :: "'w ext \<Rightarrow> string \<Rightarrow> string \<Rightarrow> real \<Rightarrow> real \<Rightarrow> 'w \<Rightarrow> unit res \<times> 'w" where
  "UpsertPosition X sessionID nodeID lat lng w =
     (case rGeoAdd X (keyGeo sessionID) nodeID lat lng w of
        (Inl e, w') \<Rightarrow> (Inl (ErrOther (''geoadd '' @ sessionID @ ''/'' @ nodeID) e), w')
      | (Inr _, w') \<Rightarrow> (Inr (), w'))"

definition RemoveNode :: "'w ext \<Rightarrow> string \<Rightarrow> string \<Rightarrow> 'w \<Rightarrow> unit res \<times> 'w" where
  "RemoveNode X sessionID nodeID w =
     (case rZRem X (keyGeo sessionID) nodeID w of
        (Inl e, w') \<Rightarrow> (Inl (ErrOther (''zrem geo '' @ sessionID @ ''/'' @ nodeID) e), w')
      | (Inr _, w') \<Rightarrow> (Inr (), w'))"

definition Position :: "'w ext \<Rightarrow> string \<Rightarrow> string \<Rightarrow> 'w \<Rightarrow> NodePosition res \<times> 'w" where
  "Position X sessionID nodeID w =
     (case rGeoPos X (keyGeo sessionID) [nodeID] w of
        (Inl e, w') \<Rightarrow> (Inl (ErrOther (''geopos '' @ sessionID @ ''/'' @ nodeID) e), w')
      | (Inr pos, w') \<Rightarrow>
          (case pos of
             Some (lat, lng) # _ \<Rightarrow> Inr \<lparr>np_ID = nodeID, np_Lat = lat, np_Lng = lng\<rparr>
           | _ \<Rightarrow> Inl ErrNotFound, w'))"

definition AllPositions :: "'w ext \<Rightarrow> string \<Rightarrow> 'w \<Rightarrow> NodePosition list res \<times> 'w" where
  "AllPositions X sessionID w =
     (case rZRange X (keyGeo sessionID) w of
        (Inl e, w1) \<Rightarrow> (Inl (ErrOther (''zrange geo '' @ sessionID) e), w1)
      | (Inr members, w1) \<Rightarrow>
          (if members = [] then (Inr [], w1)
           else case rGeoPos X (keyGeo sessionID) members w1 of
                  (Inl e, w2) \<Rightarrow> (Inl (ErrOther (''geopos batch '' @ sessionID) e), w2)
                | (Inr coords, w2) \<Rightarrow>
                    (Inr (List.map_filter
                            (\<lambda>(m, c). map_option (\<lambda>(lat, lng). \<lparr>np_ID = m, np_Lat = lat, np_Lng = lng\<rparr>) c)
                            (zip members coords)), w2)))"

definition GeoClear :: "'w ext \<Rightarrow> string \<Rightarrow> 'w \<Rightarrow> unit res \<times> 'w" where
  "GeoClear X sessionID w = bare_err (rDel X [keyGeo sessionID] w)"

section \<open>Routes (route\_repo.go)\<close>

definition SaveTable :: "'w ext \<Rightarrow> string \<Rightarrow> table \<Rightarrow> 'w \<Rightarrow> unit res \<times> 'w" where
  "SaveTable X sessionID tbl w =
     (let plain = map (\<lambda>(nodeID, entry). (nodeID, Txt (re_Parent entry))) tbl;
          full = map (\<lambda>(nodeID, entry). (nodeID, RouteTxt entry)) tbl
      in wrap_err (''save routes '' @ sessionID)
           (rTxExec X (CDel [keyRoutes sessionID, keyRoutesFull sessionID] #
              (if plain \<noteq> [] then [CHSet (keyRoutes sessionID) plain, CHSet (keyRoutesFull sessionID) full] else [])) w))"

fun unmarshal_route :: "rtext \<Rightarrow> RouteEntry option" where
  "unmarshal_route (RouteTxt e) = Some e"
| "unmarshal_route _ = None"

definition GetTable :: "'w ext \<Rightarrow> string \<Rightarrow> 'w \<Rightarrow> table res \<times> 'w" where
  "GetTable X sessionID w =
     (case rHGetAll X (keyRoutesFull sessionID) w of
        (Inl e, w') \<Rightarrow> (Inl (ErrOther (''get routes '' @ sessionID) e), w')
      | (Inr vals, w') \<Rightarrow>
          (case find (\<lambda>(_, raw). unmarshal_route raw = None) vals of
             Some (nodeID, _) \<Rightarrow> Inl (ErrOther (''corrupt route entry '' @ sessionID @ ''/'' @ nodeID) ''json'')
           | None \<Rightarrow> Inr (map (\<lambda>(nodeID, raw). (nodeID, the (unmarshal_route raw))) vals), w'))"

definition GetRoute :: "'w ext \<Rightarrow> string \<Rightarrow> string \<Rightarrow> 'w \<Rightarrow> RouteEntry res \<times> 'w" where
  "GetRoute X sessionID nodeID w =
     (case rHGet X (keyRoutesFull sessionID) nodeID w of
        (Inr None, w') \<Rightarrow> (Inl ErrNotFound, w')
      | (Inl e, w') \<Rightarrow> (Inl (ErrOther (''get route '' @ sessionID @ ''/'' @ nodeID) e), w')
      | (Inr (Some raw), w') \<Rightarrow>
          (case unmarshal_route raw of
             None \<Rightarrow> Inl (ErrOther (''corrupt route entry '' @ sessionID @ ''/'' @ nodeID) ''json'')
           | Some entry \<Rightarrow> Inr entry, w'))"

definition RoutesClear :: "'w ext \<Rightarrow> string \<Rightarrow> 'w \<Rightarrow> unit res \<times> 'w" where
  "RoutesClear X sessionID w = bare_err (rDel X [keyRoutes sessionID, keyRoutesFull sessionID] w)"

section \<open>Sessions (session\_repo.go)\<close>

definition SessionCreate :: "'w ext \<Rightarrow> Session \<Rightarrow> 'w \<Rightarrow> Session res \<times> 'w" where
  "SessionCreate X s w =
     (case qInsertSession X (ss_SessionName s) (ss_SpreadingFactor s) (ss_TxPowerDbm s) (ss_WeatherSeverity s) w of
        (Inl e, w') \<Rightarrow> (Inl (ErrOther ''insert session'' e), w')
      | (Inr (i, active, created), w') \<Rightarrow>
          (Inr (s\<lparr>ss_ID := i, ss_IsActive := active, ss_CreatedAt := created\<rparr>), w'))"

definition GetByID :: "'w ext \<Rightarrow> string \<Rightarrow> 'w \<Rightarrow> Session res \<times> 'w" where
  "GetByID X i w =
     (case qGetSession X i w of
        (Inl e, w') \<Rightarrow> (Inl (ErrOther ''scan session'' e), w')
      | (Inr None, w') \<Rightarrow> (Inl ErrNotFound, w')
      | (Inr (Some s), w') \<Rightarrow> (Inr s, w'))"

definition SessionList :: "'w ext \<Rightarrow> int \<Rightarrow> 'w \<Rightarrow> Session list res \<times> 'w" where
  "SessionList X limit w = wrap_err ''list sessions'' (qListSessions X limit w)"

definition ListActive :: "'w ext \<Rightarrow> 'w \<Rightarrow> Session list res \<times> 'w" where
  "ListActive X w = wrap_err ''list active sessions'' (qListActive X w)"

text \<open>\<open>RowsAffected() == 0\<close> after an \<open>UPDATE\<close> or \<open>DELETE\<close>.\<close>

definition rows_or :: "gerr \<Rightarrow> string \<Rightarrow> (string + int) \<times> 'w \<Rightarrow> unit res \<times> 'w" where
  "rows_or none msg rw =
     (case rw of
        (Inl e, w') \<Rightarrow> (Inl (ErrOther msg e), w')
      | (Inr n, w') \<Rightarrow> (if n = 0 then Inl none else Inr (), w'))"

definition RepoUpdateWeather :: "'w ext \<Rightarrow> string \<Rightarrow> real \<Rightarrow> 'w \<Rightarrow> unit res \<times> 'w" where
  "RepoUpdateWeather X i severity w =
     rows_or ErrSessionInactive (''update session '' @ i) (qUpdateWeather X i severity w)"

definition RepoUpdateRadioParams :: "'w ext \<Rightarrow> string \<Rightarrow> int \<Rightarrow> int \<Rightarrow> 'w \<Rightarrow> unit res \<times> 'w" where
  "RepoUpdateRadioParams X i sf txPowerDbm w =
     rows_or ErrSessionInactive (''update radio params '' @ i) (qUpdateRadio X i sf txPowerDbm w)"

definition RepoStop :: "'w ext \<Rightarrow> string \<Rightarrow> (string \<times> int) list \<Rightarrow> 'w \<Rightarrow> unit res \<times> 'w" where
  "RepoStop X i stats w = rows_or ErrSessionInactive (''stop session '' @ i) (qStopSession X i stats w)"

definition RepoDelete :: "'w ext \<Rightarrow> string \<Rightarrow> 'w \<Rightarrow> unit res \<times> 'w" where
  "RepoDelete X i w = rows_or ErrNotFound (''delete session '' @ i) (qDeleteSession X i w)"

section \<open>Edges (edge\_repo.go)\<close>

definition EdgeCreate :: "'w ext \<Rightarrow> Edge \<Rightarrow> 'w \<Rightarrow> Edge res \<times> 'w" where
  "EdgeCreate X e w =
     (case qInsertEdge X (ed_EdgeCode e) (ed_Name e) (ed_Latitude e) (ed_Longitude e) w of
        (Inl (PgError code msg), w') \<Rightarrow>
          (Inl (if code = ''23505'' then ErrValidation (EdgeCodeExists (ed_EdgeCode e))
                else ErrOther ''insert edge'' msg), w')
      | (Inl (DriverError msg), w') \<Rightarrow> (Inl (ErrOther ''insert edge'' msg), w')
      | (Inr (i, created, updated), w') \<Rightarrow>
          (Inr (e\<lparr>ed_ID := i, ed_CreatedAt := created, ed_UpdatedAt := updated\<rparr>), w'))"

definition EdgeList :: "'w ext \<Rightarrow> 'w \<Rightarrow> Edge list res \<times> 'w" where
  "EdgeList X w = wrap_err ''list edges'' (qListEdges X w)"

text \<open>\<open>pgx.ErrNoRows\<close> of a one-row query.\<close>

definition row_or :: "string \<Rightarrow> (string + 'a option) \<times> 'w \<Rightarrow> 'a res \<times> 'w" where
  "row_or msg rw =
     (case rw of
        (Inl e, w') \<Rightarrow> (Inl (ErrOther msg e), w')
      | (Inr None, w') \<Rightarrow> (Inl ErrNotFound, w')
      | (Inr (Some x), w') \<Rightarrow> (Inr x, w'))"

definition EdgeUpdate :: "'w ext \<Rightarrow> string \<Rightarrow> string \<Rightarrow> real \<Rightarrow> real \<Rightarrow> 'w \<Rightarrow> Edge res \<times> 'w" where
  "EdgeUpdate X code name lat lng w = row_or (''update edge '' @ code) (qUpdateEdge X code name lat lng w)"

definition EdgeDelete :: "'w ext \<Rightarrow> string \<Rightarrow> 'w \<Rightarrow> unit res \<times> 'w" where
  "EdgeDelete X code w = rows_or ErrNotFound (''delete edge '' @ code) (qDeleteEdge X code w)"

definition GetByCode :: "'w ext \<Rightarrow> string \<Rightarrow> 'w \<Rightarrow> Edge res \<times> 'w" where
  "GetByCode X code w = row_or (''get edge '' @ code) (qGetEdge X code w)"

section \<open>Schemas and telemetry (schema\_repo.go, telemetry\_repo.go)\<close>

definition SchemaCreate :: "'w ext \<Rightarrow> string \<Rightarrow> SchemaField list \<Rightarrow> 'w \<Rightarrow> DynamicSchema res \<times> 'w" where
  "SchemaCreate X sessionID flds w =
     (case qInsertSchema X sessionID flds w of
        (Inl e, w') \<Rightarrow> (Inl (ErrOther ''insert schema'' e), w')
      | (Inr (i, created), w') \<Rightarrow>
          (Inr \<lparr>ds_ID = i, ds_SessionID = sessionID, ds_Fields = flds, ds_CreatedAt = created\<rparr>, w'))"

definition GetLatest :: "'w ext \<Rightarrow> string \<Rightarrow> 'w \<Rightarrow> DynamicSchema res \<times> 'w" where
  "GetLatest X sessionID w = row_or (''get latest schema '' @ sessionID) (qLatestSchema X sessionID w)"

text \<open>\<open>json.Marshal\<close> fails on a value that holds an infinity or not-a-number.\<close>

fun json_float :: "gofloat \<Rightarrow> bool" where
  "json_float (Fin _) = True"
| "json_float _ = False"

fun json_safe :: "gval \<Rightarrow> bool" where
  "json_safe (GFloat32 x) = json_float x"
| "json_safe (GFloat64 x) = json_float x"
| "json_safe (GArr vs) = list_all json_safe vs"
| "json_safe (GMap kvs) = list_all (\<lambda>kv. json_safe (snd kv)) kvs"
| "json_safe _ = True"

fun jval_safe :: "jval \<Rightarrow> bool" where
  "jval_safe (JVal v) = json_safe v"
| "jval_safe _ = True"

definition TelemetryInsert :: "'w ext \<Rightarrow> TelemetryLog \<Rightarrow> 'w \<Rightarrow> TelemetryLog res \<times> 'w" where
  "TelemetryInsert X row w =
     (if \<not> list_all (\<lambda>(_, v). jval_safe v) (tl_DecodedPayload row)
      then (Inl (ErrOther ''marshal decoded payload'' ''json: unsupported value''), w)
      else case qInsertTelemetry X row w of
             (Inl e, w') \<Rightarrow> (Inl (ErrOther ''insert telemetry'' e), w')
           | (Inr (i, arrived), w') \<Rightarrow> (Inr (row\<lparr>tl_ID := i, tl_ArrivedAt := arrived\<rparr>), w'))"

definition ListBySession :: "'w ext \<Rightarrow> string \<Rightarrow> int \<Rightarrow> int \<Rightarrow> 'w \<Rightarrow> TelemetryLog list res \<times> 'w" where
  "ListBySession X sessionID limit offset w =
     wrap_err (''list telemetry '' @ sessionID) (qListTelemetry X sessionID limit offset w)"

definition CountBySession :: "'w ext \<Rightarrow> string \<Rightarrow> 'w \<Rightarrow> int res \<times> 'w" where
  "CountBySession X sessionID w = wrap_err (''count telemetry '' @ sessionID) (qCountTelemetry X sessionID w)"

section \<open>Keys never collide\<close>

text \<open>Session ids are UUIDs and node ids match the gateway's pattern, so neither contains a colon.\<close>

lemma split_at_colon:
  assumes "a @ CHR '':'' # b = a' @ CHR '':'' # b'" "colon_free a" "colon_free a'"
  shows "a = a' \<and> b = b'"
proof -
  have "takeWhile (\<lambda>c. c \<noteq> CHR '':'') (x @ CHR '':'' # y) = x" if "colon_free x" for x y
    using that by (induction x) auto
  then show ?thesis using assms by (metis same_append_eq list.inject)
qed

lemma split_at_last_colon:
  assumes "a @ CHR '':'' # b = a' @ CHR '':'' # b'" "colon_free b" "colon_free b'"
  shows "a = a' \<and> b = b'"
proof -
  have "rev b @ CHR '':'' # rev a = rev b' @ CHR '':'' # rev a'"
    using arg_cong [OF assms(1), of rev] by simp
  then show ?thesis using split_at_colon [of "rev b" "rev a" "rev b'" "rev a'"] assms(2,3) by simp
qed

lemma sim_key_inj [simp]:
  "colon_free s \<Longrightarrow> colon_free s' \<Longrightarrow> sim_key s r = sim_key s' r' \<longleftrightarrow> s = s' \<and> r = r'"
  using split_at_colon [of s r s' r'] by (auto simp: sim_key_def)

lemma keyDedup_inj:
  assumes "colon_free s" "colon_free s'" "colon_free r" "colon_free r'"
  shows "keyDedup s p r = keyDedup s' p' r' \<longleftrightarrow> s = s' \<and> p = p' \<and> r = r'"
  using assms split_at_last_colon [of p r p' r'] by (auto simp: keyDedup_def)

lemma keyAckSender_inj:
  assumes "colon_free s" "colon_free s'" "colon_free r" "colon_free r'"
  shows "keyAckSender s p r = keyAckSender s' p' r' \<longleftrightarrow> s = s' \<and> p = p' \<and> r = r'"
  using assms split_at_last_colon [of p r p' r'] by (auto simp: keyAckSender_def)

text \<open>A dedup key is never a key of another kind, for any two sessions.\<close>

lemma keys_distinct:
  assumes "colon_free s" "colon_free s'"
  shows "keyDedup s p r \<noteq> keyGeo s'" "keyDedup s p r \<noteq> keyRoutes s'" "keyDedup s p r \<noteq> keyRoutesFull s'"
    "keyDedup s p r \<noteq> keyParams s'" "keyDedup s p r \<noteq> keyStats s'" "keyDedup s p r \<noteq> keyPingLimit s' n"
    "keyDedup s p r \<noteq> keyAckSender s' p' r'" "keyPingLimit s n \<noteq> keyGeo s'" "keyPingLimit s n \<noteq> keyRoutes s'"
    "keyPingLimit s n \<noteq> keyRoutesFull s'" "keyPingLimit s n \<noteq> keyParams s'" "keyPingLimit s n \<noteq> keyStats s'"
    "keyPingLimit s n \<noteq> keyAckSender s' p' r'" "keyAckSender s p r \<noteq> keyGeo s'" "keyAckSender s p r \<noteq> keyRoutes s'"
    "keyAckSender s p r \<noteq> keyRoutesFull s'" "keyAckSender s p r \<noteq> keyParams s'" "keyAckSender s p r \<noteq> keyStats s'"
    "keyStats s \<noteq> keyGeo s'" "keyStats s \<noteq> keyRoutes s'" "keyStats s \<noteq> keyRoutesFull s'" "keyStats s \<noteq> keyParams s'"
    "keyParams s \<noteq> keyGeo s'" "keyParams s \<noteq> keyRoutes s'" "keyParams s \<noteq> keyRoutesFull s'"
    "keyGeo s \<noteq> keyRoutes s'" "keyGeo s \<noteq> keyRoutesFull s'" "keyRoutes s \<noteq> keyRoutesFull s'"
  using assms by (simp_all add: key_defs)

section \<open>Frames\<close>

text \<open>The world after a method, and the keys it can change.\<close>

lemma snd_wrap_err [simp]: "snd (wrap_err m rw) = snd rw"
  by (simp add: wrap_err_def)

lemma snd_bare_err [simp]: "snd (bare_err rw) = snd rw"
  by (simp add: bare_err_def)

lemma snd_rows_or [simp]: "snd (rows_or n m rw) = snd rw"
  by (simp add: rows_or_def split: prod.splits sum.splits)

lemma snd_row_or [simp]: "snd (row_or m rw) = snd rw"
  by (simp add: row_or_def split: prod.splits sum.splits option.splits)

lemma redis_calm:
  assumes "redis_ok F view X"
  shows "calm {k} (view w) (view (snd (rHSet X k fvs w)))" "calm {} (view w) (view (snd (rHGetAll X k w)))"
    "calm {} (view w) (view (snd (rHGet X k f w)))" "calm {k} (view w) (view (snd (rSetNX X k v ttl w)))"
    "calm {k} (view w) (view (snd (rSet X k v ttl w)))" "calm {k} (view w) (view (snd (rGetDel X k w)))"
    "calm {k} (view w) (view (snd (rHIncrBy X k f n w)))" "calm (set ks) (view w) (view (snd (rDel X ks w)))"
    "calm {k} (view w) (view (snd (rGeoAdd X k nm la lo w)))" "calm {k} (view w) (view (snd (rZRem X k nm w)))"
    "calm {} (view w) (view (snd (rZRange X k w)))" "calm {} (view w) (view (snd (rGeoPos X k nms w)))"
    "calm (\<Union> (rcmd_keys ` set cs)) (view w) (view (snd (rTxExec X cs w)))"
  by (rule calm_implements [OF redis_okD(1) [OF assms] touches_redis(1) no_tables_redis(1)]
      calm_implements [OF redis_okD(2) [OF assms] touches_redis(2) no_tables_redis(2)]
      calm_implements [OF redis_okD(3) [OF assms] touches_redis(3) no_tables_redis(3)]
      calm_implements [OF redis_okD(4) [OF assms] touches_redis(4) no_tables_redis(4)]
      calm_implements [OF redis_okD(5) [OF assms] touches_redis(5) no_tables_redis(5)]
      calm_implements [OF redis_okD(6) [OF assms] touches_redis(6) no_tables_redis(6)]
      calm_implements [OF redis_okD(7) [OF assms] touches_redis(7) no_tables_redis(7)]
      calm_implements [OF redis_okD(8) [OF assms] touches_redis(8) no_tables_redis(8)]
      calm_implements [OF redis_okD(9) [OF assms] touches_redis(9) no_tables_redis(9)]
      calm_implements [OF redis_okD(10) [OF assms] touches_redis(10) no_tables_redis(10)]
      calm_implements [OF redis_okD(11) [OF assms] touches_redis(11) no_tables_redis(11)]
      calm_implements [OF redis_okD(12) [OF assms] touches_redis(12) no_tables_redis(12)]
      calm_implements [OF redis_okD(13) [OF assms] touches_TxExec no_tables_TxExec])+

lemma query_calm:
  assumes "sql_ok F view X"
  shows "calm {} (view w) (view (snd (qGetSession X i w)))"
    "calm {} (view w) (view (snd (qListSessions X n w)))"
    "calm {} (view w) (view (snd (qListActive X w)))"
    "calm {} (view w) (view (snd (qListEdges X w)))"
    "calm {} (view w) (view (snd (qGetEdge X c w)))"
    "calm {} (view w) (view (snd (qLatestSchema X i w)))"
    "calm {} (view w) (view (snd (qListTelemetry X i n off w)))"
    "calm {} (view w) (view (snd (qCountTelemetry X i w)))"
  by (rule calm_implements [OF sql_okD(2) [OF assms] touches_sql(2) no_tables_queries(1)]
      calm_implements [OF sql_okD(3) [OF assms] touches_sql(3) no_tables_queries(2)]
      calm_implements [OF sql_okD(4) [OF assms] touches_sql(4) no_tables_queries(3)]
      calm_implements [OF sql_okD(10) [OF assms] touches_sql(10) no_tables_queries(4)]
      calm_implements [OF sql_okD(13) [OF assms] touches_sql(13) no_tables_queries(5)]
      calm_implements [OF sql_okD(15) [OF assms] touches_sql(15) no_tables_queries(6)]
      calm_implements [OF sql_okD(17) [OF assms] touches_sql(17) no_tables_queries(7)]
      calm_implements [OF sql_okD(18) [OF assms] touches_sql(18) no_tables_queries(8)])+

lemma sql_keeps:
  assumes "sql_ok F view X"
  shows "keeps {} (view w) (view (snd (qInsertSession X nm sf tx ws w)))" "keeps {} (view w) (view (snd (qGetSession X i w)))"
    "keeps {} (view w) (view (snd (qListSessions X n w)))" "keeps {} (view w) (view (snd (qListActive X w)))"
    "keeps {} (view w) (view (snd (qUpdateWeather X i ws w)))" "keeps {} (view w) (view (snd (qUpdateRadio X i sf tx w)))"
    "keeps {} (view w) (view (snd (qStopSession X i js w)))" "keeps {} (view w) (view (snd (qDeleteSession X i w)))"
    "keeps {} (view w) (view (snd (qInsertEdge X c nm la lo w)))" "keeps {} (view w) (view (snd (qListEdges X w)))"
    "keeps {} (view w) (view (snd (qUpdateEdge X c nm la lo w)))" "keeps {} (view w) (view (snd (qDeleteEdge X c w)))"
    "keeps {} (view w) (view (snd (qGetEdge X c w)))" "keeps {} (view w) (view (snd (qInsertSchema X i fs w)))"
    "keeps {} (view w) (view (snd (qLatestSchema X i w)))" "keeps {} (view w) (view (snd (qInsertTelemetry X r w)))"
    "keeps {} (view w) (view (snd (qListTelemetry X i n off w)))" "keeps {} (view w) (view (snd (qCountTelemetry X i w)))"
  by (rule keeps_implements [OF sql_okD(1) [OF assms] touches_sql(1)]
      keeps_implements [OF sql_okD(2) [OF assms] touches_sql(2)]
      keeps_implements [OF sql_okD(3) [OF assms] touches_sql(3)]
      keeps_implements [OF sql_okD(4) [OF assms] touches_sql(4)]
      keeps_implements [OF sql_okD(5) [OF assms] touches_sql(5)]
      keeps_implements [OF sql_okD(6) [OF assms] touches_sql(6)]
      keeps_implements [OF sql_okD(7) [OF assms] touches_sql(7)]
      keeps_implements [OF sql_okD(8) [OF assms] touches_sql(8)]
      keeps_implements [OF sql_okD(9) [OF assms] touches_sql(9)]
      keeps_implements [OF sql_okD(10) [OF assms] touches_sql(10)]
      keeps_implements [OF sql_okD(11) [OF assms] touches_sql(11)]
      keeps_implements [OF sql_okD(12) [OF assms] touches_sql(12)]
      keeps_implements [OF sql_okD(13) [OF assms] touches_sql(13)]
      keeps_implements [OF sql_okD(14) [OF assms] touches_sql(14)]
      keeps_implements [OF sql_okD(15) [OF assms] touches_sql(15)]
      keeps_implements [OF sql_okD(16) [OF assms] touches_sql(16)]
      keeps_implements [OF sql_okD(17) [OF assms] touches_sql(17)]
      keeps_implements [OF sql_okD(18) [OF assms] touches_sql(18)])+

lemma env_calm:
  assumes "env_ok view X"
  shows "calm {} (view w) (view (snd (xClock X w)))" "calm {} (view w) (view (snd (xRand X w)))"
  using assms calm_at_time unfolding env_ok_def by (metis, simp)

lemma snd_case_result [simp]:
  "snd (case rw of (Inl e, w') \<Rightarrow> (f e, w') | (Inr x, w') \<Rightarrow> (g x, w')) = snd rw"
  by (simp split: prod.splits sum.splits)

text \<open>Every state, geo and route method, with the keys it may touch.\<close>

lemma repo_calm:
  assumes "redis_ok F view X"
  shows "calm {keyParams s} (view w) (view (snd (SaveParams X s p w)))"
    "calm {} (view w) (view (snd (GetParams X s w)))"
    "calm {keyDedup s pid r} (view w) (view (snd (MarkPacketSeen X s pid r w)))"
    "calm {keyAckSender s pid r} (view w) (view (snd (RememberAckSender X s pid r snr w)))"
    "calm {keyAckSender s pid r} (view w) (view (snd (TakeAckSender X s pid r w)))"
    "calm {keyPingLimit s n} (view w) (view (snd (AllowPing X s n i w)))"
    "calm {keyStats s} (view w) (view (snd (IncrStat X s f w)))"
    "calm {} (view w) (view (snd (GetStats X s w)))"
    "calm {keyParams s, keyStats s} (view w) (view (snd (ClearSession X s w)))"
    "calm {keyGeo s} (view w) (view (snd (UpsertPosition X s n la lo w)))"
    "calm {keyGeo s} (view w) (view (snd (RemoveNode X s n w)))"
    "calm {} (view w) (view (snd (Position X s n w)))"
    "calm {keyGeo s} (view w) (view (snd (GeoClear X s w)))"
    "calm {keyRoutes s, keyRoutesFull s} (view w) (view (snd (SaveTable X s t w)))"
    "calm {} (view w) (view (snd (GetTable X s w)))"
    "calm {} (view w) (view (snd (GetRoute X s n w)))"
    "calm {keyRoutes s, keyRoutesFull s} (view w) (view (snd (RoutesClear X s w)))"
    "calm {} (view w) (view (snd (AllPositions X s w)))"
proof -
  note r = redis_calm [OF assms]
  have take_snd: "snd (TakeAckSender X s pid r w) = snd (rGetDel X (keyAckSender s pid r) w)"
    by (auto simp: TakeAckSender_def split: prod.splits sum.splits option.splits)
  have route_snd: "snd (GetRoute X s n w) = snd (rHGet X (keyRoutesFull s) n w)"
    by (auto simp: GetRoute_def split: prod.splits sum.splits option.splits)
  show "calm {keyParams s} (view w) (view (snd (SaveParams X s p w)))"
    "calm {} (view w) (view (snd (GetParams X s w)))"
    "calm {keyDedup s pid r} (view w) (view (snd (MarkPacketSeen X s pid r w)))"
    "calm {keyAckSender s pid r} (view w) (view (snd (RememberAckSender X s pid r snr w)))"
    "calm {keyAckSender s pid r} (view w) (view (snd (TakeAckSender X s pid r w)))"
    "calm {keyPingLimit s n} (view w) (view (snd (AllowPing X s n i w)))"
    "calm {keyStats s} (view w) (view (snd (IncrStat X s f w)))"
    "calm {} (view w) (view (snd (GetStats X s w)))"
    "calm {keyGeo s} (view w) (view (snd (UpsertPosition X s n la lo w)))"
    "calm {keyGeo s} (view w) (view (snd (RemoveNode X s n w)))"
    "calm {} (view w) (view (snd (Position X s n w)))"
    "calm {} (view w) (view (snd (GetTable X s w)))"
    "calm {} (view w) (view (snd (GetRoute X s n w)))"
    by (simp_all add: SaveParams_def GetParams_def MarkPacketSeen_def RememberAckSender_def AllowPing_def
        IncrStat_def GetStats_def UpsertPosition_def RemoveNode_def Position_def GetTable_def take_snd route_snd r)
  show "calm {keyParams s, keyStats s} (view w) (view (snd (ClearSession X s w)))"
    "calm {keyGeo s} (view w) (view (snd (GeoClear X s w)))"
    "calm {keyRoutes s, keyRoutesFull s} (view w) (view (snd (RoutesClear X s w)))"
    using r(8) by (simp_all add: ClearSession_def GeoClear_def RoutesClear_def) (metis list.set(1,2))+
  show "calm {keyRoutes s, keyRoutesFull s} (view w) (view (snd (SaveTable X s t w)))"
    unfolding SaveTable_def Let_def snd_wrap_err by (rule calm_mono [OF r(13)]) auto
  show "calm {} (view w) (view (snd (AllPositions X s w)))"
    using r(11) [of w "keyGeo s"] r(12) [of _ "keyGeo s"] calm_trans
    by (fastforce simp: AllPositions_def split: prod.splits sum.splits)
qed

section \<open>Effects of successful commands\<close>

lemma implements_Inr:
  assumes "implements view f g" "f w = (Inr a, w')"
  obtains u where "st_now (view w) \<le> u" "g (at_time u (view w)) = (Inr a, view w')"
  using assms unfolding implements_def by (metis Inl_Inr_False fst_conv snd_conv)

lemma at_time_st [simp]:
  "st_keys (at_time u st) = st_keys st" "st_now (at_time u st) = u" "tables (at_time u st) = tables st"
  "st_sessions (at_time u st) = st_sessions st" "st_edges (at_time u st) = st_edges st"
  "st_telemetry (at_time u st) = st_telemetry st" "st_schemas (at_time u st) = st_schemas st"
  by (simp_all add: at_time_def tables_def)

lemma hash_at_time [simp]: "hash_at (at_time u st) k = hash_at st k"
  by (auto simp: hash_at_def live_entry_def split: option.splits rentry.splits)

lemma geo_at_time [simp]: "geo_at (at_time u st) k = geo_at st k"
  by (auto simp: geo_at_def live_entry_def split: option.splits rentry.splits)

lemma hash_at_keeps: "keeps K st st' \<Longrightarrow> k \<notin> K \<Longrightarrow> hash_at st' k = hash_at st k"
  by (auto simp: hash_at_def live_entry_def keeps_def split: option.splits rentry.splits)

lemma geo_at_keeps: "keeps K st st' \<Longrightarrow> k \<notin> K \<Longrightarrow> geo_at st' k = geo_at st k"
  by (auto simp: geo_at_def live_entry_def keeps_def split: option.splits rentry.splits)

lemma hash_at_hset [simp]:
  "hash_at (hset k fvs st) k' = (if k' = k then fold (\<lambda>(f, v). AList.update f v) fvs (hash_at st k) else hash_at st k')"
  by (auto simp: hset_def hash_at_def live_entry_def split: option.splits rentry.splits)

lemma live_entry_hset:
  "live_entry (hset k fvs st) k' =
     (if k' = k then Some (RHash (fold (\<lambda>(f, v). AList.update f v) fvs (hash_at st k))) else live_entry st k')"
  by (auto simp: hset_def live_entry_def split: option.splits rentry.splits)

text \<open>The time until which a string key is held; \<open>None\<close> when it is not, or never expires.\<close>

definition held_until :: "store \<Rightarrow> string \<Rightarrow> int option" where
  "held_until st k = (case st_keys st k of Some (RStr v e) \<Rightarrow> e | _ \<Rightarrow> None)"

lemma held_until_keeps: "keeps K st st' \<Longrightarrow> k \<notin> K \<Longrightarrow> held_until st' k = held_until st k"
  by (simp add: held_until_def keeps_def)

lemma ref_SetNX_cases:
  assumes "ref_SetNX k v ttl st = (Inr b, st')"
  shows "if live_entry st k = None then b \<and> st' = put_key k (RStr v (expiry st ttl)) st else \<not> b \<and> st' = st"
  using assms by (auto simp: ref_SetNX_def split: if_splits)

lemma live_held: "held_until st k = Some u \<Longrightarrow> st_now st < u \<Longrightarrow> live_entry st k \<noteq> None"
  by (auto simp: held_until_def live_entry_def split: option.splits rentry.splits)

lemma held_at_time [simp]: "held_until (at_time t st) k = held_until st k"
  by (simp add: held_until_def)

lemma SetNX_won:
  assumes "redis_ok F view X" "rSetNX X k v ttl w = (Inr True, w')" "ttl \<noteq> 0"
  shows "\<exists>u. held_until (view w') k = Some u \<and> st_now (view w) + ttl \<le> u"
proof -
  obtain t where t: "st_now (view w) \<le> t" "ref_SetNX k v ttl (at_time t (view w)) = (Inr True, view w')"
    using implements_Inr [OF redis_okD(4) [OF assms(1)] assms(2)] .
  then have "view w' = put_key k (RStr v (expiry (at_time t (view w)) ttl)) (at_time t (view w))"
    using ref_SetNX_cases by (metis (full_types))
  then show ?thesis using t(1) assms(3) by (simp add: held_until_def expiry_def)
qed

lemma SetNX_held:
  assumes "redis_ok F view X" "rSetNX X k v ttl w = (Inr b, w')" "held_until (view w) k = Some u" "st_now (view w') < u"
  shows "\<not> b"
proof
  assume b: "b"
  obtain t where t: "ref_SetNX k v ttl (at_time t (view w)) = (Inr b, view w')"
    using implements_Inr [OF redis_okD(4) [OF assms(1)] assms(2)] .
  then have "live_entry (at_time t (view w)) k = None"
      "view w' = put_key k (RStr v (expiry (at_time t (view w)) ttl)) (at_time t (view w))"
    using ref_SetNX_cases [OF t] b by (auto split: if_splits)
  then show False using live_held [of "at_time t (view w)" k u] assms(3,4) by simp
qed

text \<open>A held key stays held through a failing or succeeding claim, until it expires.\<close>

lemma SetNX_stays:
  assumes "redis_ok F view X" "held_until (view w) k = Some u" "st_now (view (snd (rSetNX X k v ttl w))) < u"
  shows "held_until (view (snd (rSetNX X k v ttl w))) k = Some u"
proof -
  let ?w' = "snd (rSetNX X k v ttl w)"
  obtain t where t: "view ?w' = snd (ref_SetNX k v ttl (at_time t (view w))) \<or> view ?w' = at_time t (view w)"
    using redis_okD(4) [OF assms(1), of k v ttl] unfolding implements_def by (metis insert_iff singletonD snd_conv)
  moreover have "st_now (snd (ref_SetNX k v ttl st)) = st_now st" for st by (simp add: ref_SetNX_def)
  ultimately have "t < u" using assms(3) by fastforce
  then have "snd (ref_SetNX k v ttl (at_time t (view w))) = at_time t (view w)"
    using live_held [of "at_time t (view w)" k u] assms(2) by (simp add: ref_SetNX_def)
  then show ?thesis using t assms(2) by auto
qed

section \<open>Claiming once per time to live\<close>

text \<open>
  The contract of a guard: a successful claim holds at least for its time to live, a held claim
  cannot be won again, and time does not run backwards.
\<close>

locale once_guard =
  fixes ok :: "'x \<Rightarrow> bool" and now :: "'x \<Rightarrow> 'w \<Rightarrow> int" and held :: "'x \<Rightarrow> 'k \<Rightarrow> 'w \<Rightarrow> int option"
    and ttl :: "'k \<Rightarrow> int" and claim :: "'x \<Rightarrow> 'k \<Rightarrow> 'w \<Rightarrow> bool res \<times> 'w"
  assumes won: "ok x \<Longrightarrow> 0 < ttl k \<Longrightarrow> claim x k w = (Inr True, w') \<Longrightarrow> \<exists>u. held x k w' = Some u \<and> now x w + ttl k \<le> u"
    and lost: "ok x \<Longrightarrow> held x k w = Some u \<Longrightarrow> claim x k w = (Inr b, w') \<Longrightarrow> now x w' < u \<Longrightarrow> \<not> b"
    and stays: "ok x \<Longrightarrow> held x k w = Some u \<Longrightarrow> claim x k w = (r, w') \<Longrightarrow> now x w' < u \<Longrightarrow> held x k w' = Some u"
    and forward: "ok x \<Longrightarrow> claim x k w = (r, w') \<Longrightarrow> now x w \<le> now x w'"
begin

text \<open>Any number of further claims, interleaved with anything that leaves the claim alone.\<close>

inductive runs :: "'x \<Rightarrow> 'k \<Rightarrow> 'w \<Rightarrow> 'w \<Rightarrow> bool" for x :: 'x and k :: 'k and w :: 'w where
  runs_refl: "runs x k w w"
| runs_claim: "runs x k w w1 \<Longrightarrow> claim x k w1 = (r, w2) \<Longrightarrow> runs x k w w2"
| runs_other: "runs x k w w1 \<Longrightarrow> held x k w2 = held x k w1 \<Longrightarrow> now x w1 \<le> now x w2 \<Longrightarrow> runs x k w w2"

lemma runs_held:
  assumes "ok x" "runs x k w w'" "held x k w = Some u"
  shows "now x w' < u \<Longrightarrow> held x k w' = Some u"
  using assms(2)
proof (induction rule: runs.induct)
  case (runs_claim w1 r' w2)
  have "now x w1 < u" using forward [OF assms(1) runs_claim.hyps(2)] runs_claim.prems by simp
  then show ?case using stays [OF assms(1) runs_claim.IH runs_claim.hyps(2) runs_claim.prems] by blast
next
  case (runs_other w1 w2)
  then show ?case by (metis le_less_trans)
qed (rule assms(3))

theorem claimed_once:
  assumes "ok x" "0 < ttl k" "claim x k w = (Inr True, w1)" "runs x k w1 w2" "claim x k w2 = (Inr b, w3)"
    and "now x w3 < now x w + ttl k"
  shows "\<not> b"
proof -
  obtain u where u: "held x k w1 = Some u" "now x w + ttl k \<le> u" using won [OF assms(1-3)] by blast
  have "now x w2 < u" using forward [OF assms(1,5)] assms(6) u(2) by simp
  then have "held x k w2 = Some u" by (rule runs_held [OF assms(1,4) u(1)])
  then show ?thesis using lost [OF assms(1) _ assms(5)] assms(6) u(2) by simp
qed

text \<open>Two claims that both succeed are at least a time to live apart, if the first one lasted in between.\<close>

lemma won_apart:
  assumes "ok x" "0 < ttl k" "claim x k w = (Inr True, w1)" "claim x k w2 = (Inr True, w3)"
    and "\<And>u. held x k w1 = Some u \<Longrightarrow> now x w2 < u \<Longrightarrow> held x k w2 = Some u"
  shows "now x w + ttl k \<le> now x w3"
proof (rule ccontr)
  assume early: "\<not> now x w + ttl k \<le> now x w3"
  obtain u where u: "held x k w1 = Some u" "now x w + ttl k \<le> u" using won [OF assms(1-3)] by blast
  have "now x w2 < u" using forward [OF assms(1,4)] early u(2) by simp
  then have "held x k w2 = Some u" by (rule assms(5) [OF u(1)])
  then show False using lost [OF assms(1) _ assms(4)] early u(2) by simp
qed

end

text \<open>Both \<open>SETNX\<close> guards of the state repository satisfy it.\<close>

definition redis_env :: "('w \<Rightarrow> store) \<times> 'w ext \<Rightarrow> bool" where
  "redis_env x \<longleftrightarrow> (\<exists>F. redis_ok F (fst x) (snd x))"

lemma wrap_err_eq: "wrap_err m rw = (Inr a, w') \<longleftrightarrow> rw = (Inr a, w')"
  by (cases rw; cases "fst rw") (auto simp: wrap_err_def)

lemma dedupTTL_pos [simp]: "0 < dedupTTL" "dedupTTL \<noteq> 0"
  by (simp_all add: dedupTTL_def duration_consts)

interpretation dedup: once_guard redis_env "\<lambda>x w. st_now (fst x w)"
  "\<lambda>x (s, p, r) w. held_until (fst x w) (keyDedup s p r)" "\<lambda>_. dedupTTL"
  "\<lambda>x (s, p, r) w. MarkPacketSeen (snd x) s p r w"
proof
  fix x :: "('w \<Rightarrow> store) \<times> 'w ext" and k :: "string \<times> string \<times> string" and w w' r b u
  obtain s p rc where k: "k = (s, p, rc)" by (cases k)
  assume "redis_env x"
  then obtain F where ok: "redis_ok F (fst x) (snd x)" by (auto simp: redis_env_def)
  show "0 < dedupTTL \<Longrightarrow> (case k of (s, p, r) \<Rightarrow> \<lambda>w. MarkPacketSeen (snd x) s p r w) w = (Inr True, w') \<Longrightarrow>
      \<exists>u. (case k of (s, p, r) \<Rightarrow> \<lambda>w. held_until (fst x w) (keyDedup s p r)) w' = Some u \<and> st_now (fst x w) + dedupTTL \<le> u"
    using SetNX_won [OF ok] by (simp add: k MarkPacketSeen_def wrap_err_eq)
  show "(case k of (s, p, r) \<Rightarrow> \<lambda>w. held_until (fst x w) (keyDedup s p r)) w = Some u \<Longrightarrow>
      (case k of (s, p, r) \<Rightarrow> \<lambda>w. MarkPacketSeen (snd x) s p r w) w = (Inr b, w') \<Longrightarrow> st_now (fst x w') < u \<Longrightarrow> \<not> b"
    using SetNX_held [OF ok] by (simp add: k MarkPacketSeen_def wrap_err_eq) blast
  show "(case k of (s, p, r) \<Rightarrow> \<lambda>w. held_until (fst x w) (keyDedup s p r)) w = Some u \<Longrightarrow>
      (case k of (s, p, r) \<Rightarrow> \<lambda>w. MarkPacketSeen (snd x) s p r w) w = (r, w') \<Longrightarrow> st_now (fst x w') < u \<Longrightarrow>
      (case k of (s, p, r) \<Rightarrow> \<lambda>w. held_until (fst x w) (keyDedup s p r)) w' = Some u"
    using SetNX_stays [OF ok] by (simp add: k MarkPacketSeen_def) (metis snd_conv snd_wrap_err)
  show "(case k of (s, p, r) \<Rightarrow> \<lambda>w. MarkPacketSeen (snd x) s p r w) w = (r, w') \<Longrightarrow> st_now (fst x w) \<le> st_now (fst x w')"
    unfolding k prod.case using repo_calm(3) [OF ok] by (metis calm_keeps keeps_def snd_conv)
qed

interpretation ping_limit: once_guard redis_env "\<lambda>x w. st_now (fst x w)"
  "\<lambda>x (s, n, i) w. held_until (fst x w) (keyPingLimit s n)" "\<lambda>(s, n, i). i"
  "\<lambda>x (s, n, i) w. AllowPing (snd x) s n i w"
proof
  fix x :: "('w \<Rightarrow> store) \<times> 'w ext" and k :: "string \<times> string \<times> duration" and w w' r b u
  obtain s n i where k: "k = (s, n, i)" by (cases k)
  assume "redis_env x"
  then obtain F where ok: "redis_ok F (fst x) (snd x)" by (auto simp: redis_env_def)
  show "0 < (case k of (s, n, i) \<Rightarrow> i) \<Longrightarrow> (case k of (s, n, i) \<Rightarrow> \<lambda>w. AllowPing (snd x) s n i w) w = (Inr True, w') \<Longrightarrow>
      \<exists>u. (case k of (s, n, i) \<Rightarrow> \<lambda>w. held_until (fst x w) (keyPingLimit s n)) w' = Some u \<and>
        st_now (fst x w) + (case k of (s, n, i) \<Rightarrow> i) \<le> u"
    using SetNX_won [OF ok] by (simp add: k AllowPing_def wrap_err_eq)
  show "(case k of (s, n, i) \<Rightarrow> \<lambda>w. held_until (fst x w) (keyPingLimit s n)) w = Some u \<Longrightarrow>
      (case k of (s, n, i) \<Rightarrow> \<lambda>w. AllowPing (snd x) s n i w) w = (Inr b, w') \<Longrightarrow> st_now (fst x w') < u \<Longrightarrow> \<not> b"
    using SetNX_held [OF ok] by (simp add: k AllowPing_def wrap_err_eq) blast
  show "(case k of (s, n, i) \<Rightarrow> \<lambda>w. held_until (fst x w) (keyPingLimit s n)) w = Some u \<Longrightarrow>
      (case k of (s, n, i) \<Rightarrow> \<lambda>w. AllowPing (snd x) s n i w) w = (r, w') \<Longrightarrow> st_now (fst x w') < u \<Longrightarrow>
      (case k of (s, n, i) \<Rightarrow> \<lambda>w. held_until (fst x w) (keyPingLimit s n)) w' = Some u"
    using SetNX_stays [OF ok] by (simp add: k AllowPing_def) (metis snd_conv snd_wrap_err)
  show "(case k of (s, n, i) \<Rightarrow> \<lambda>w. AllowPing (snd x) s n i w) w = (r, w') \<Longrightarrow> st_now (fst x w) \<le> st_now (fst x w')"
    unfolding k prod.case using repo_calm(6) [OF ok] by (metis calm_keeps keeps_def snd_conv)
qed

section \<open>What the hashes hold\<close>

text \<open>The parameters a session's hash spells, the routes it stores and its counters.\<close>

definition stored_params :: "store \<Rightarrow> string \<Rightarrow> SessionParams option" where
  "stored_params st s =
     (let h = hash_at st (keyParams s) in
      if h = [] then None
      else case (atoi_text (map_of h ''spreading_factor''), atoi_text (map_of h ''tx_power_dbm''),
                 float_text (map_of h ''weather_severity'')) of
             (Some sf, Some tx, Some ws) \<Rightarrow>
               Some \<lparr>sp_SpreadingFactor = sf, sp_TxPowerDbm = tx, sp_WeatherSeverity = ws\<rparr>
           | _ \<Rightarrow> None)"

definition stored_routes :: "store \<Rightarrow> string \<Rightarrow> (string \<times> rtext) list" where
  "stored_routes st s = hash_at st (keyRoutesFull s)"

lemma GetParams_Inr:
  assumes "redis_ok F view X" "GetParams X s w = (Inr p, w')"
  shows "stored_params (view w) s = Some p" "stored_params (view w') s = Some p"
proof -
  obtain vals where v: "rHGetAll X (keyParams s) w = (Inr vals, w')"
    using assms(2) by (auto simp: GetParams_def split: prod.splits sum.splits)
  obtain t where "ref_HGetAll (keyParams s) (at_time t (view w)) = (Inr vals, view w')"
    using implements_Inr [OF redis_okD(2) [OF assms(1)] v] .
  then have vals: "vals = hash_at (view w) (keyParams s)" and w': "view w' = at_time t (view w)"
    by (auto simp: ref_HGetAll_def split: if_splits)
  show "stored_params (view w) s = Some p"
    using assms(2) v vals by (auto simp: GetParams_def stored_params_def Let_def split: option.splits if_splits)
  then show "stored_params (view w') s = Some p" by (simp add: stored_params_def w')
qed

lemma fold_update_distinct:
  "distinct (map fst kvs) \<Longrightarrow> map_of (fold (\<lambda>(f, v). AList.update f v) kvs h) = map_of h ++ map_of kvs"
proof (induction kvs arbitrary: h)
  case (Cons kv kvs)
  obtain k v where kv: "kv = (k, v)" by (cases kv)
  then have "map_of kvs k = None" using Cons.prems by (simp add: map_of_notin)
  then show ?case using Cons kv by (auto simp: map_add_def fun_eq_iff split: option.splits)
qed simp

lemma fold_update_ne: "kvs \<noteq> [] \<Longrightarrow> fold (\<lambda>(f, v). AList.update f v) kvs h \<noteq> []"
proof (induction kvs arbitrary: h)
  case (Cons kv kvs)
  obtain k v where kv: "kv = (k, v)" by (cases kv)
  show ?case
  proof (cases kvs)
    case Nil
    then show ?thesis by (cases h) (auto simp: kv)
  next
    case (Cons _ _)
    then show ?thesis using Cons.IH [of "AList.update k v h"] by (simp add: kv)
  qed
qed simp

text \<open>Round trip of the parameter cache: what is saved is what the packet pipeline reads.\<close>

lemma SaveParams_stored:
  assumes "redis_ok F view X" "SaveParams X s p w = (Inr (), w')"
    and "int64_min \<le> sp_SpreadingFactor p" "sp_SpreadingFactor p \<le> int64_max"
    and "int64_min \<le> sp_TxPowerDbm p" "sp_TxPowerDbm p \<le> int64_max"
  shows "stored_params (view w') s = Some p"
proof -
  let ?kvs = "[(''spreading_factor'', Txt (Itoa (sp_SpreadingFactor p))),
    (''tx_power_dbm'', Txt (Itoa (sp_TxPowerDbm p))), (''weather_severity'', FloatTxt (sp_WeatherSeverity p))]"
  have r: "rHSet X (keyParams s) ?kvs w = (Inr (), w')"
    using assms(2) by (simp add: SaveParams_def wrap_err_eq)
  obtain t where "ref_HSet (keyParams s) ?kvs (at_time t (view w)) = (Inr (), view w')"
    using implements_Inr [OF redis_okD(1) [OF assms(1)] r] .
  then have w': "view w' = hset (keyParams s) ?kvs (at_time t (view w))"
    unfolding ref_HSet_def by (metis Inl_Inr_False fst_conv snd_conv)
  let ?h = "hash_at (view w') (keyParams s)"
  have h: "?h = fold (\<lambda>(f, v). AList.update f v) ?kvs (hash_at (view w) (keyParams s))"
    by (simp only: w' hash_at_hset simp_thms if_True hash_at_time)
  have "map_of ?h = map_of (hash_at (view w) (keyParams s)) ++ map_of ?kvs"
    unfolding h by (rule fold_update_distinct) simp
  then have "map_of ?h ''spreading_factor'' = Some (Txt (Itoa (sp_SpreadingFactor p)))"
    "map_of ?h ''tx_power_dbm'' = Some (Txt (Itoa (sp_TxPowerDbm p)))"
    "map_of ?h ''weather_severity'' = Some (FloatTxt (sp_WeatherSeverity p))"
    by simp_all
  moreover have "?h \<noteq> []" unfolding h by (rule fold_update_ne) simp
  ultimately show ?thesis using assms(3-6) by (simp add: stored_params_def Let_def Atoi_Itoa)
qed

lemma stored_params_keeps: "keeps K st st' \<Longrightarrow> keyParams s \<notin> K \<Longrightarrow> stored_params st' s = stored_params st s"
  by (simp add: stored_params_def hash_at_keeps)

text \<open>Round trip of the routing table.\<close>

lemma SaveTable_stored:
  assumes "redis_ok F view X" "SaveTable X s tbl w = (Inr (), w')" "wf_map tbl"
  shows "map_of (stored_routes (view w') s) = map_option RouteTxt \<circ> map_of tbl"
    "length (stored_routes (view w') s) = length tbl" "wf_map (stored_routes (view w') s)"
proof -
  let ?plain = "map (\<lambda>(nodeID, entry). (nodeID, Txt (re_Parent entry))) tbl"
  let ?full = "map (\<lambda>(nodeID, entry). (nodeID, RouteTxt entry)) tbl"
  let ?cs = "CDel [keyRoutes s, keyRoutesFull s] #
     (if ?plain \<noteq> [] then [CHSet (keyRoutes s) ?plain, CHSet (keyRoutesFull s) ?full] else [])"
  have r: "rTxExec X ?cs w = (Inr (), w')" using assms(2) by (simp add: SaveTable_def Let_def wrap_err_eq)
  obtain t where "ref_TxExec ?cs (at_time t (view w)) = (Inr (), view w')"
    using implements_Inr [OF redis_okD(13) [OF assms(1)] r] .
  then have w': "view w' = fold exec_rcmd ?cs (at_time t (view w))" by (simp add: ref_TxExec_def)
  have ne: "keyRoutesFull s \<noteq> keyRoutes s" by (simp add: key_defs sim_key_def)
  have del: "st_keys (fold del_key [keyRoutes s, keyRoutesFull s] st) k = None"
    if "k \<in> {keyRoutes s, keyRoutesFull s}" for st k
    using that by (simp only: fold_del_key_st) auto
  then have empty: "hash_at (fold del_key [keyRoutes s, keyRoutesFull s] st) k = []"
    "is_hash (fold del_key [keyRoutes s, keyRoutesFull s] st) k" if "k \<in> {keyRoutes s, keyRoutesFull s}" for st k
    using that by (simp_all add: hash_at_def is_hash_def live_entry_def)
  have hash_other: "is_hash (hset (keyRoutes s) v st) (keyRoutesFull s) = is_hash st (keyRoutesFull s)" for v st
    using ne by (simp add: is_hash_def live_entry_hset)
  have stored: "stored_routes (view w') s = fold (\<lambda>(f, v). AList.update f v) ?full []"
  proof (cases "tbl = []")
    case True
    then show ?thesis using empty(1) [of "keyRoutesFull s"] by (simp add: w' stored_routes_def)
  next
    case False
    then have "view w' = hset (keyRoutesFull s) ?full (hset (keyRoutes s) ?plain
        (fold del_key [keyRoutes s, keyRoutesFull s] (at_time t (view w))))"
      using empty(2) [of "keyRoutes s"] empty(2) [of "keyRoutesFull s"] by (simp add: w' hash_other)
    then show ?thesis
      using empty(1) [of "keyRoutesFull s"] ne by (simp only: stored_routes_def hash_at_hset simp_thms if_True if_False) simp
  qed
  have keys: "map fst ?full = map fst tbl" by (induction tbl) auto
  have upd: "fold (\<lambda>(f, v). AList.update f v) kvs h = h @ kvs" if "distinct (map fst (h @ kvs))" for kvs and h :: "(string \<times> rtext) list"
    using that
  proof (induction kvs arbitrary: h)
    case (Cons kv kvs)
    obtain k v where kv: "kv = (k, v)" by (cases kv)
    have "k \<notin> keys_of h" using Cons.prems by (auto simp: kv)
    then have "AList.update k v h = h @ [(k, v)]" by (induction h) auto
    then show ?case using Cons.IH [of "h @ [(k, v)]"] Cons.prems by (simp add: kv)
  qed simp
  have "distinct (map fst ([] @ ?full))" unfolding append_Nil keys by (rule assms(3))
  from upd [OF this] have full: "stored_routes (view w') s = ?full" unfolding stored append_Nil .
  show "wf_map (stored_routes (view w') s)" unfolding full keys by (rule assms(3))
  show "length (stored_routes (view w') s) = length tbl" by (simp add: full)
  show "map_of (stored_routes (view w') s) = map_option RouteTxt \<circ> map_of tbl"
    unfolding full by (rule ext) (induction tbl; auto)
qed

lemma GetTable_Inr:
  assumes "redis_ok F view X" "GetTable X s w = (Inr tbl, w')"
  shows "stored_routes (view w) s = map (\<lambda>(n, e). (n, RouteTxt e)) tbl"
proof -
  obtain vals where v: "rHGetAll X (keyRoutesFull s) w = (Inr vals, w')"
    using assms(2) by (auto simp: GetTable_def split: prod.splits sum.splits)
  obtain t where "ref_HGetAll (keyRoutesFull s) (at_time t (view w)) = (Inr vals, view w')"
    using implements_Inr [OF redis_okD(2) [OF assms(1)] v] .
  then have vals: "vals = stored_routes (view w) s" by (auto simp: ref_HGetAll_def stored_routes_def split: if_splits)
  have f: "find (\<lambda>(_, raw). unmarshal_route raw = None) vals = None"
    and tbl: "tbl = map (\<lambda>(nodeID, raw). (nodeID, the (unmarshal_route raw))) vals"
    using assms(2) v by (auto simp: GetTable_def split: option.splits prod.splits)
  have "map (\<lambda>(n, e). (n, RouteTxt e)) (map (\<lambda>(nodeID, raw). (nodeID, the (unmarshal_route raw))) vals) = vals"
    using f
  proof (induction vals)
    case (Cons kv vals)
    obtain k r where kv: "kv = (k, r)" by (cases kv)
    with Cons.prems have "unmarshal_route r \<noteq> None" by (auto split: if_splits)
    then have "RouteTxt (the (unmarshal_route r)) = r" by (cases r) auto
    then show ?case using Cons by (auto simp: kv split: if_splits)
  qed simp
  then show ?thesis by (simp only: tbl vals)
qed

section \<open>Positions\<close>

lemma AllPositions_Inr:
  assumes "redis_ok F view X" "AllPositions X s w = (Inr ps, w')"
  shows "distinct (map np_ID ps)"
    "set ps \<subseteq> {p. map_of (geo_at (view w) (keyGeo s)) (np_ID p) = Some (np_Lat p, np_Lng p)}"
    "np_ID ` set ps = keys_of (geo_at (view w) (keyGeo s))"
proof -
  let ?g = "geo_at (view w) (keyGeo s)"
  obtain ms w1 where z: "rZRange X (keyGeo s) w = (Inr ms, w1)"
    using assms(2) by (auto simp: AllPositions_def split: prod.splits sum.splits)
  obtain t where "ref_ZRange F (keyGeo s) (at_time t (view w)) = (Inr ms, view w1)"
    using implements_Inr [OF redis_okD(11) [OF assms(1)] z] .
  then have ms: "ms = fm_order F ?g" and w1: "view w1 = at_time t (view w)"
    by (auto simp: ref_ZRange_def split: if_splits)
  have set_ms: "set ms = keys_of ?g" "distinct ms" using redis_order [OF assms(1)] by (simp_all add: ms)
  let ?f = "\<lambda>(m, c). map_option (\<lambda>(lat, lng). \<lparr>np_ID = m, np_Lat = lat, np_Lng = lng\<rparr>) c"
  have ps: "ps = List.map_filter ?f (zip ms (map (map_of ?g) ms))"
  proof (cases "ms = []")
    case True
    then show ?thesis using assms(2) z by (simp add: AllPositions_def map_filter_def)
  next
    case False
    then obtain cs where c: "rGeoPos X (keyGeo s) ms w1 = (Inr cs, w')" and ps: "ps = List.map_filter ?f (zip ms cs)"
      using assms(2) z by (auto simp: AllPositions_def split: prod.splits sum.splits)
    obtain t' where "ref_GeoPos (keyGeo s) ms (at_time t' (view w1)) = (Inr cs, view w')"
      using implements_Inr [OF redis_okD(12) [OF assms(1)] c] .
    then have "cs = map (map_of ?g) ms" by (auto simp: ref_GeoPos_def w1 split: if_splits)
    then show ?thesis using ps by simp
  qed
  define pos where "pos m = (case map_of ?g m of Some (lat, lng) \<Rightarrow> \<lparr>np_ID = m, np_Lat = lat, np_Lng = lng\<rparr> | None \<Rightarrow> zero_position)" for m
  have in_g: "map_of ?g m \<noteq> None" if "m \<in> set ms" for m using that set_ms(1) keys_of_iff by metis
  have "List.map_filter ?f (zip xs (map (map_of ?g) xs)) = map pos xs" if "set xs \<subseteq> set ms" for xs
    using that
  proof (induction xs)
    case (Cons m xs)
    then obtain la lo where "map_of ?g m = Some (la, lo)" using in_g [of m] by auto
    then show ?case using Cons by (simp add: map_filter_simps pos_def)
  qed (simp add: map_filter_simps)
  then have ps': "ps = map pos ms" using ps by simp
  have id: "np_ID (pos m) = m" "map_of ?g m = Some (np_Lat (pos m), np_Lng (pos m))" if "m \<in> set ms" for m
    using in_g [OF that] by (auto simp: pos_def)
  have "map np_ID ps = ms" unfolding ps' using id(1) by (simp add: map_idI)
  then show "distinct (map np_ID ps)" "np_ID ` set ps = keys_of ?g"
    using set_ms by (metis, metis list.set_map)
  show "set ps \<subseteq> {p. map_of ?g (np_ID p) = Some (np_Lat p, np_Lng p)}" unfolding ps' using id by auto
qed

end
