(* ===== verification/Hub.thy ===== *)
theory Hub
  imports Protocol
begin

text \<open>
  The WebSocket hub, \<^verbatim>\<open>ws/hub.go\<close> and the client of \<^verbatim>\<open>ws/client.go\<close>: the live sockets, split by
  session and by kind, and their bounded send queues.  Clients are shared mutable objects in the
  code, so they live in a heap (\<open>hb_heap\<close>) and the registries hold references.  \<open>hb_nodes\<close> and
  \<open>hb_monitors\<close> are the two Go maps; \<open>cl_send\<close> is the contents of the buffered channel and
  \<open>cl_done\<close> whether the \<open>done\<close> channel is closed.  A mutex makes every registry operation atomic,
  so each is one function on the hub.  Logging and the network connection itself are left out; the
  pumps appear as the steps \<open>writePump_frame\<close> and the close of a socket; Socket has them in full.

  The step relation \<open>hub_step\<close> collects everything that happens to a hub; the registry invariant
  \<open>hub_inv\<close> holds in every reachable state.  The locale \<open>broadcaster\<close> is the interface
  \<open>Broadcaster\<close> of \<^verbatim>\<open>service/broadcaster.go\<close> with the promises its comments make.
\<close>

section \<open>Clients (client.go)\<close>

datatype clientKind = kindNode | kindMonitor

record Client =
  cl_kind :: clientKind
  cl_sessionID :: string
  cl_nodeID :: string
  cl_send :: "frame list"
  cl_done :: bool

type_synonym cref = nat

record Hub =
  hb_sendBuffer :: int
  hb_heap :: "cref \<Rightarrow> Client option"
  hb_next :: cref
  hb_nodes :: "(string \<times> (string \<times> cref) list) list"
  hb_monitors :: "(string \<times> cref list) list"

definition NewHub :: "int \<Rightarrow> Hub" where
  "NewHub sendBuffer =
     \<lparr>hb_sendBuffer = (if sendBuffer \<le> 0 then 256 else sendBuffer), hb_heap = (\<lambda>_. None), hb_next = 0,
      hb_nodes = [], hb_monitors = []\<rparr>"

definition newClient :: "clientKind \<Rightarrow> string \<Rightarrow> string \<Rightarrow> Hub \<Rightarrow> cref \<times> Hub" where
  "newClient kind sessionID nodeID h =
     (hb_next h,
      h\<lparr>hb_heap := (hb_heap h)(hb_next h \<mapsto>
            \<lparr>cl_kind = kind, cl_sessionID = sessionID, cl_nodeID = nodeID, cl_send = [], cl_done = False\<rparr>),
        hb_next := Suc (hb_next h)\<rparr>)"

definition trySend :: "cref \<Rightarrow> frame \<Rightarrow> Hub \<Rightarrow> bool \<times> Hub" where
  "trySend c raw h =
     (case hb_heap h c of
        None \<Rightarrow> (False, h)
      | Some cl \<Rightarrow>
          if cl_done cl then (False, h)
          else if int (length (cl_send cl)) < hb_sendBuffer h
               then (True, h\<lparr>hb_heap := (hb_heap h)(c \<mapsto> cl\<lparr>cl_send := cl_send cl @ [raw]\<rparr>)\<rparr>)
               else (False, h))"

definition Close :: "cref \<Rightarrow> Hub \<Rightarrow> Hub" where
  "Close c h =
     (case hb_heap h c of
        None \<Rightarrow> h
      | Some cl \<Rightarrow> h\<lparr>hb_heap := (hb_heap h)(c \<mapsto> cl\<lparr>cl_done := True\<rparr>)\<rparr>)"

text \<open>One iteration of \<open>writePump\<close> that takes a frame from the channel and writes it out.\<close>

definition writePump_frame :: "cref \<Rightarrow> Hub \<Rightarrow> frame option \<times> Hub" where
  "writePump_frame c h =
     (case hb_heap h c of
        None \<Rightarrow> (None, h)
      | Some cl \<Rightarrow>
          (case cl_send cl of
             [] \<Rightarrow> (None, h)
           | raw # rest \<Rightarrow> (Some raw, h\<lparr>hb_heap := (hb_heap h)(c \<mapsto> cl\<lparr>cl_send := rest\<rparr>)\<rparr>)))"

section \<open>The registries (hub.go)\<close>

text \<open>Indexing a Go map of maps: a missing inner map reads as empty.\<close>

definition session_nodes :: "Hub \<Rightarrow> string \<Rightarrow> (string \<times> cref) list" where
  "session_nodes h sessionID = (case map_of (hb_nodes h) sessionID of Some m \<Rightarrow> m | None \<Rightarrow> [])"

definition session_monitors :: "Hub \<Rightarrow> string \<Rightarrow> cref list" where
  "session_monitors h sessionID = (case map_of (hb_monitors h) sessionID of Some m \<Rightarrow> m | None \<Rightarrow> [])"

definition node_ref :: "Hub \<Rightarrow> string \<Rightarrow> string \<Rightarrow> cref option" where
  "node_ref h sessionID nodeID = map_of (session_nodes h sessionID) nodeID"

definition snapshotNodes :: "string \<Rightarrow> Hub \<Rightarrow> cref list" where
  "snapshotNodes sessionID h = map snd (session_nodes h sessionID)"

definition snapshotMonitors :: "string \<Rightarrow> Hub \<Rightarrow> cref list" where
  "snapshotMonitors sessionID h = session_monitors h sessionID"

definition send_all :: "cref list \<Rightarrow> frame \<Rightarrow> Hub \<Rightarrow> Hub" where
  "send_all cs raw h = fold (\<lambda>c h. snd (trySend c raw h)) cs h"

definition SendToNode :: "string \<Rightarrow> string \<Rightarrow> frame \<Rightarrow> Hub \<Rightarrow> bool \<times> Hub" where
  "SendToNode sessionID nodeID payload h =
     (case node_ref h sessionID nodeID of None \<Rightarrow> (False, h) | Some c \<Rightarrow> trySend c payload h)"

definition BroadcastToNodes :: "string \<Rightarrow> frame \<Rightarrow> Hub \<Rightarrow> Hub" where
  "BroadcastToNodes sessionID payload h = send_all (snapshotNodes sessionID h) payload h"

definition BroadcastToMonitors :: "string \<Rightarrow> frame \<Rightarrow> Hub \<Rightarrow> Hub" where
  "BroadcastToMonitors sessionID payload h =
     (if session_monitors h sessionID = [] then h
      else send_all (snapshotMonitors sessionID h) payload h)"

definition NodeOnline :: "string \<Rightarrow> string \<Rightarrow> Hub \<Rightarrow> bool" where
  "NodeOnline sessionID nodeID h \<longleftrightarrow> node_ref h sessionID nodeID \<noteq> None"

definition OnlineNodes :: "string \<Rightarrow> Hub \<Rightarrow> string list" where
  "OnlineNodes sessionID h = sort (map fst (session_nodes h sessionID))"

definition KickSession :: "string \<Rightarrow> Hub \<Rightarrow> Hub" where
  "KickSession sessionID h = fold Close (snapshotNodes sessionID h @ snapshotMonitors sessionID h) h"

text \<open>
  The registry operations read the session and node of their client through the reference; a
  reference that is not on the heap does not occur (\<open>hub_inv\<close>).
\<close>

definition registerNode :: "cref \<Rightarrow> Hub \<Rightarrow> Hub" where
  "registerNode c h =
     (case hb_heap h c of
        None \<Rightarrow> h
      | Some cl \<Rightarrow>
          (let m = session_nodes h (cl_sessionID cl);
               h1 = h\<lparr>hb_nodes := AList.update (cl_sessionID cl) (AList.update (cl_nodeID cl) c m) (hb_nodes h)\<rparr>
           in case map_of m (cl_nodeID cl) of None \<Rightarrow> h1 | Some old_client \<Rightarrow> Close old_client h1))"

definition unregisterNode :: "cref \<Rightarrow> Hub \<Rightarrow> bool \<times> Hub" where
  "unregisterNode c h =
     (case hb_heap h c of
        None \<Rightarrow> (False, h)
      | Some cl \<Rightarrow>
          (let m = session_nodes h (cl_sessionID cl) in
           if map_of m (cl_nodeID cl) \<noteq> Some c then (False, h)
           else let m' = AList.delete (cl_nodeID cl) m
                in (True, h\<lparr>hb_nodes := (if m' = [] then AList.delete (cl_sessionID cl) (hb_nodes h)
                                         else AList.update (cl_sessionID cl) m' (hb_nodes h))\<rparr>)))"

definition registerMonitor :: "cref \<Rightarrow> Hub \<Rightarrow> Hub" where
  "registerMonitor c h =
     (case hb_heap h c of
        None \<Rightarrow> h
      | Some cl \<Rightarrow>
          h\<lparr>hb_monitors := AList.update (cl_sessionID cl)
              (List.insert c (session_monitors h (cl_sessionID cl))) (hb_monitors h)\<rparr>)"

definition unregisterMonitor :: "cref \<Rightarrow> Hub \<Rightarrow> Hub" where
  "unregisterMonitor c h =
     (case hb_heap h c of
        None \<Rightarrow> h
      | Some cl \<Rightarrow>
          (let m = removeAll c (session_monitors h (cl_sessionID cl))
           in h\<lparr>hb_monitors := (if m = [] then AList.delete (cl_sessionID cl) (hb_monitors h)
                               else AList.update (cl_sessionID cl) m (hb_monitors h))\<rparr>))"

definition all_refs :: "Hub \<Rightarrow> cref list" where
  "all_refs h = concat (map (map snd \<circ> snd) (hb_nodes h)) @ concat (map snd (hb_monitors h))"

definition Shutdown :: "Hub \<Rightarrow> Hub" where
  "Shutdown h = fold Close (all_refs h) h"

definition Counts :: "Hub \<Rightarrow> int \<times> int" where
  "Counts h = (int (sum_list (map (length \<circ> snd) (hb_nodes h))), int (sum_list (map (length \<circ> snd) (hb_monitors h))))"

section \<open>Lookups after updates\<close>

lemma session_nodes_update [simp]:
  "session_nodes (h\<lparr>hb_nodes := AList.update s m (hb_nodes h)\<rparr>) s' = (if s' = s then m else session_nodes h s')"
  by (simp add: session_nodes_def)

lemma session_nodes_delete [simp]:
  "session_nodes (h\<lparr>hb_nodes := AList.delete s (hb_nodes h)\<rparr>) s' = (if s' = s then [] else session_nodes h s')"
  by (simp add: session_nodes_def)

lemma session_nodes_frame [simp]:
  "session_nodes (h\<lparr>hb_heap := x\<rparr>) s = session_nodes h s"
  "session_nodes (h\<lparr>hb_heap := x, hb_next := n\<rparr>) s = session_nodes h s"
  "session_nodes (h\<lparr>hb_monitors := y\<rparr>) s = session_nodes h s"
  by (simp_all add: session_nodes_def)

lemma session_monitors_update [simp]:
  "session_monitors (h\<lparr>hb_monitors := AList.update s m (hb_monitors h)\<rparr>) s' = (if s' = s then m else session_monitors h s')"
  "session_monitors (h\<lparr>hb_monitors := AList.delete s (hb_monitors h)\<rparr>) s' = (if s' = s then [] else session_monitors h s')"
  by (simp_all add: session_monitors_def)

lemma session_monitors_frame [simp]:
  "session_monitors (h\<lparr>hb_heap := x\<rparr>) s = session_monitors h s"
  "session_monitors (h\<lparr>hb_heap := x, hb_next := n\<rparr>) s = session_monitors h s"
  "session_monitors (h\<lparr>hb_nodes := y\<rparr>) s = session_monitors h s"
  by (simp_all add: session_monitors_def)

text \<open>Operations that only touch clients: the registries stay, and so does who each client is.\<close>

definition client_id :: "Client \<Rightarrow> clientKind \<times> string \<times> string" where
  "client_id cl = (cl_kind cl, cl_sessionID cl, cl_nodeID cl)"

definition same_registry :: "Hub \<Rightarrow> Hub \<Rightarrow> bool" where
  "same_registry h h' \<longleftrightarrow>
     hb_nodes h' = hb_nodes h \<and> hb_monitors h' = hb_monitors h \<and> hb_next h' = hb_next h \<and>
     hb_sendBuffer h' = hb_sendBuffer h \<and>
     (\<forall>c. map_option client_id (hb_heap h' c) = map_option client_id (hb_heap h c))"

lemma same_registry_refl [simp]: "same_registry h h"
  by (simp add: same_registry_def)

lemma same_registry_trans: "same_registry h h' \<Longrightarrow> same_registry h' h'' \<Longrightarrow> same_registry h h''"
  by (simp add: same_registry_def)

lemma trySend_registry: "same_registry h (snd (trySend c f h))"
  by (auto simp: trySend_def same_registry_def client_id_def split: option.splits)

lemma Close_registry: "same_registry h (Close c h)"
  by (auto simp: Close_def same_registry_def client_id_def split: option.splits)

lemma writePump_registry: "same_registry h (snd (writePump_frame c h))"
  by (auto simp: writePump_frame_def same_registry_def client_id_def split: option.splits list.splits)

lemma fold_registry:
  "(\<And>c h. same_registry h (f c h)) \<Longrightarrow> same_registry h (fold f cs h)"
  by (induction cs arbitrary: h) (auto intro: same_registry_trans)

lemma broadcast_registry:
  "same_registry h (send_all cs f h)" "same_registry h (BroadcastToNodes s f h)"
  "same_registry h (BroadcastToMonitors s f h)" "same_registry h (snd (SendToNode s n f h))"
  "same_registry h (KickSession s h)" "same_registry h (Shutdown h)"
  unfolding send_all_def BroadcastToNodes_def BroadcastToMonitors_def SendToNode_def KickSession_def Shutdown_def
  by (simp_all only: fold_registry trySend_registry Close_registry same_registry_refl snd_conv
      split: option.splits if_splits) simp_all

lemma same_registry_lookup:
  assumes "same_registry h h'"
  shows "session_nodes h' s = session_nodes h s" "session_monitors h' s = session_monitors h s"
    "node_ref h' s n = node_ref h s n" "NodeOnline s n h' = NodeOnline s n h" "OnlineNodes s h' = OnlineNodes s h"
  using assms by (simp_all add: same_registry_def session_nodes_def session_monitors_def node_ref_def
      NodeOnline_def OnlineNodes_def)

section \<open>The registry invariant\<close>

definition is_client :: "Hub \<Rightarrow> cref \<Rightarrow> clientKind \<times> string \<times> string \<Rightarrow> bool" where
  "is_client h c i \<longleftrightarrow> map_option client_id (hb_heap h c) = Some i"

definition hub_inv :: "Hub \<Rightarrow> bool" where
  "hub_inv h \<longleftrightarrow>
     wf_map (hb_nodes h) \<and> wf_map (hb_monitors h) \<and>
     (\<forall>s. map_of (hb_nodes h) s \<noteq> Some []) \<and> (\<forall>s. map_of (hb_monitors h) s \<noteq> Some []) \<and>
     (\<forall>s. wf_map (session_nodes h s)) \<and> (\<forall>s. distinct (session_monitors h s)) \<and>
     (\<forall>s n c. map_of (session_nodes h s) n = Some c \<longrightarrow> is_client h c (kindNode, s, n)) \<and>
     (\<forall>s c. c \<in> set (session_monitors h s) \<longrightarrow> is_client h c (kindMonitor, s, [])) \<and>
     (\<forall>c. c \<ge> hb_next h \<longrightarrow> hb_heap h c = None) \<and> 0 < hb_sendBuffer h"

lemma is_client_same: "same_registry h h' \<Longrightarrow> is_client h' c i = is_client h c i"
  by (simp add: same_registry_def is_client_def)

lemma hub_inv_same:
  assumes "same_registry h h'" "hub_inv h"
  shows "hub_inv h'"
proof -
  have "hb_heap h' c = None \<longleftrightarrow> hb_heap h c = None" for c
    using assms(1) by (auto simp: same_registry_def dest: spec [of _ c])
  then show ?thesis
    using assms(2) same_registry_lookup(1,2) [OF assms(1)] is_client_same [OF assms(1)] assms(1)
    unfolding hub_inv_def by (simp add: same_registry_def)
qed

lemma hub_inv_NewHub: "hub_inv (NewHub n)"
  by (simp add: hub_inv_def NewHub_def session_nodes_def session_monitors_def)

lemma hub_inv_fresh: "hub_inv h \<Longrightarrow> is_client h c i \<Longrightarrow> c \<noteq> hb_next h"
  by (auto simp: hub_inv_def is_client_def)

lemma hub_inv_newClient:
  assumes "hub_inv h" "newClient k s n h = (c, h')"
  shows "hub_inv h'" "is_client h' c (k, s, n)" "c = hb_next h"
    "hb_nodes h' = hb_nodes h" "hb_monitors h' = hb_monitors h"
proof -
  have c: "c = hb_next h" and h': "h' = h\<lparr>hb_heap := (hb_heap h)(hb_next h \<mapsto>
      \<lparr>cl_kind = k, cl_sessionID = s, cl_nodeID = n, cl_send = [], cl_done = False\<rparr>), hb_next := Suc (hb_next h)\<rparr>"
    using assms(2) by (auto simp: newClient_def)
  have "is_client h c i \<Longrightarrow> is_client h' c i" for c i
    using hub_inv_fresh [OF assms(1)] by (simp add: is_client_def h')
  then show "hub_inv h'" using assms(1) unfolding hub_inv_def by (simp add: h' Suc_le_eq)
  show "is_client h' c (k, s, n)" by (simp add: c h' client_id_def is_client_def)
  show "c = hb_next h" "hb_nodes h' = hb_nodes h" "hb_monitors h' = hb_monitors h" by (simp_all add: c h')
qed

lemma is_client_registry [simp]:
  "is_client (h\<lparr>hb_nodes := x\<rparr>) c i = is_client h c i" "is_client (h\<lparr>hb_monitors := y\<rparr>) c i = is_client h c i"
  by (simp_all add: is_client_def)

lemma is_clientE:
  assumes "is_client h c (k, s, n)"
  obtains cl where "hb_heap h c = Some cl" "cl_kind cl = k" "cl_sessionID cl = s" "cl_nodeID cl = n"
  using assms by (auto simp: is_client_def client_id_def)

text \<open>What registering a client does, in one equation.\<close>

lemma registerNode_eq:
  assumes "is_client h c (kindNode, s, n)"
  shows "registerNode c h =
    (case node_ref h s n of None \<Rightarrow> \<lambda>h. h | Some old_client \<Rightarrow> Close old_client)
      (h\<lparr>hb_nodes := AList.update s (AList.update n c (session_nodes h s)) (hb_nodes h)\<rparr>)"
  using assms by (elim is_clientE) (simp add: registerNode_def node_ref_def Let_def split: option.splits)

lemma unregisterNode_eq:
  assumes "is_client h c (kindNode, s, n)"
  shows "unregisterNode c h =
    (if node_ref h s n = Some c
     then (True, h\<lparr>hb_nodes := (if AList.delete n (session_nodes h s) = [] then AList.delete s (hb_nodes h)
                               else AList.update s (AList.delete n (session_nodes h s)) (hb_nodes h))\<rparr>)
     else (False, h))"
  using assms by (elim is_clientE) (simp add: unregisterNode_def node_ref_def Let_def)

lemma AList_update_ne [simp]: "AList.update k v m \<noteq> []"
  by (cases m) (auto split: prod.splits)

lemma hub_inv_registerNode:
  assumes "hub_inv h" "is_client h c (kindNode, s, n)"
  shows "hub_inv (registerNode c h)"
proof -
  let ?h = "h\<lparr>hb_nodes := AList.update s (AList.update n c (session_nodes h s)) (hb_nodes h)\<rparr>"
  have "hub_inv ?h" using assms unfolding hub_inv_def by auto
  then show ?thesis
    unfolding registerNode_eq [OF assms(2)] by (auto split: option.splits intro: hub_inv_same [OF Close_registry])
qed

lemma hub_inv_unregisterNode:
  assumes "hub_inv h" "is_client h c (kindNode, s, n)"
  shows "hub_inv (snd (unregisterNode c h))"
  using assms(1) unfolding unregisterNode_eq [OF assms(2)] hub_inv_def by auto

lemma hub_inv_registerMonitor:
  assumes "hub_inv h" "is_client h c (kindMonitor, s, [])"
  shows "hub_inv (registerMonitor c h)"
  using assms(2)
proof (rule is_clientE)
  fix cl assume "hb_heap h c = Some cl" "cl_sessionID cl = s"
  then have "registerMonitor c h =
      h\<lparr>hb_monitors := AList.update s (List.insert c (session_monitors h s)) (hb_monitors h)\<rparr>"
    by (simp add: registerMonitor_def)
  moreover have "List.insert c xs \<noteq> []" for xs by (cases xs) (auto simp: List.insert_def)
  ultimately show ?thesis using assms unfolding hub_inv_def by auto
qed

lemma hub_inv_unregisterMonitor:
  assumes "hub_inv h" "is_client h c (kindMonitor, s, [])"
  shows "hub_inv (unregisterMonitor c h)"
  using assms(2)
proof (rule is_clientE)
  fix cl assume "hb_heap h c = Some cl" "cl_sessionID cl = s"
  then have "unregisterMonitor c h =
      h\<lparr>hb_monitors := (if removeAll c (session_monitors h s) = [] then AList.delete s (hb_monitors h)
        else AList.update s (removeAll c (session_monitors h s)) (hb_monitors h))\<rparr>"
    by (simp add: unregisterMonitor_def Let_def)
  then show ?thesis using assms(1) unfolding hub_inv_def by (auto simp: distinct_removeAll)
qed

section \<open>Everything that can happen to a hub\<close>

text \<open>
  The composite steps of the gateway: opening a socket creates and registers its client, closing
  one runs the \<open>onClose\<close> of its read pump.
\<close>

definition open_node :: "string \<Rightarrow> string \<Rightarrow> Hub \<Rightarrow> cref \<times> Hub" where
  "open_node sessionID nodeID h =
     (let (c, h1) = newClient kindNode sessionID nodeID h in (c, registerNode c h1))"

definition open_monitor :: "string \<Rightarrow> Hub \<Rightarrow> cref \<times> Hub" where
  "open_monitor sessionID h =
     (let (c, h1) = newClient kindMonitor sessionID [] h in (c, registerMonitor c h1))"

inductive hub_step :: "Hub \<Rightarrow> Hub \<Rightarrow> bool" where
  step_open_node: "hub_step h (snd (open_node s n h))"
| step_open_monitor: "hub_step h (snd (open_monitor s h))"
| step_close_node: "is_client h c (kindNode, s, n) \<Longrightarrow> hub_step h (snd (unregisterNode c (Close c h)))"
| step_close_monitor: "is_client h c (kindMonitor, s, []) \<Longrightarrow> hub_step h (unregisterMonitor c (Close c h))"
| step_send: "hub_step h (snd (SendToNode s n f h))"
| step_try_send: "hub_step h (snd (trySend c f h))"
| step_nodes: "hub_step h (BroadcastToNodes s f h)"
| step_monitors: "hub_step h (BroadcastToMonitors s f h)"
| step_kick: "hub_step h (KickSession s h)"
| step_close: "hub_step h (Close c h)"
| step_write: "hub_step h (snd (writePump_frame c h))"
| step_shutdown: "hub_step h (Shutdown h)"

inductive hub_reachable :: "int \<Rightarrow> Hub \<Rightarrow> bool" for n :: int where
  reach_new: "hub_reachable n (NewHub n)"
| reach_step: "hub_reachable n h \<Longrightarrow> hub_step h h' \<Longrightarrow> hub_reachable n h'"

lemma hub_inv_open_node:
  assumes "hub_inv h" "open_node s n h = (c, h')"
  shows "hub_inv h'"
proof -
  obtain h1 where h1: "newClient kindNode s n h = (c, h1)" "h' = registerNode c h1"
    using assms(2) by (auto simp: open_node_def split: prod.splits)
  show ?thesis using hub_inv_registerNode hub_inv_newClient(1,2) [OF assms(1) h1(1)] h1(2) by blast
qed

lemma hub_inv_open_monitor:
  assumes "hub_inv h" "open_monitor s h = (c, h')"
  shows "hub_inv h'"
proof -
  obtain h1 where h1: "newClient kindMonitor s [] h = (c, h1)" "h' = registerMonitor c h1"
    using assms(2) by (auto simp: open_monitor_def split: prod.splits)
  show ?thesis using hub_inv_registerMonitor hub_inv_newClient(1,2) [OF assms(1) h1(1)] h1(2) by blast
qed

lemma hub_inv_step: "hub_step h h' \<Longrightarrow> hub_inv h \<Longrightarrow> hub_inv h'"
proof (induction rule: hub_step.induct)
  case (step_close_node h c s n)
  then show ?case
    using hub_inv_unregisterNode hub_inv_same [OF Close_registry] is_client_same [OF Close_registry] by blast
next
  case (step_close_monitor h c s)
  then show ?case
    using hub_inv_unregisterMonitor hub_inv_same [OF Close_registry] is_client_same [OF Close_registry] by blast
next
  case (step_open_node h s n)
  then show ?case by (metis hub_inv_open_node prod.collapse)
next
  case (step_open_monitor h s)
  then show ?case by (metis hub_inv_open_monitor prod.collapse)
qed (erule hub_inv_same [rotated], rule broadcast_registry trySend_registry Close_registry writePump_registry)+

lemma hub_reachable_inv: "hub_reachable n h \<Longrightarrow> hub_inv h"
  by (induction rule: hub_reachable.induct) (auto intro: hub_inv_NewHub hub_inv_step)

section \<open>Queues: bounded, and never written after a close\<close>

definition queues_ok :: "Hub \<Rightarrow> bool" where
  "queues_ok h \<longleftrightarrow> (\<forall>c cl. hb_heap h c = Some cl \<longrightarrow> int (length (cl_send cl)) \<le> hb_sendBuffer h)"

lemma queues_ok_trySend: "queues_ok h \<Longrightarrow> queues_ok (snd (trySend c f h))"
  by (auto simp: queues_ok_def trySend_def split: option.splits)

lemma queues_ok_Close: "queues_ok h \<Longrightarrow> queues_ok (Close c h)"
  by (auto simp: queues_ok_def Close_def split: option.splits)

lemma queues_ok_writePump: "queues_ok h \<Longrightarrow> queues_ok (snd (writePump_frame c h))"
  unfolding queues_ok_def writePump_frame_def by (fastforce split: option.splits list.splits if_splits)

lemma queues_ok_fold:
  "(\<And>c h. queues_ok h \<Longrightarrow> queues_ok (f c h)) \<Longrightarrow> queues_ok h \<Longrightarrow> queues_ok (fold f cs h)"
  by (rule fold_invariant_simple)

lemma queues_ok_registry:
  "queues_ok (h\<lparr>hb_nodes := x\<rparr>) = queues_ok h" "queues_ok (h\<lparr>hb_monitors := y\<rparr>) = queues_ok h"
  by (simp_all add: queues_ok_def)

lemma queues_ok_send:
  assumes "queues_ok h"
  shows "queues_ok (snd (SendToNode s n f h))" "queues_ok (BroadcastToNodes s f h)"
    "queues_ok (BroadcastToMonitors s f h)" "queues_ok (KickSession s h)" "queues_ok (Shutdown h)"
  unfolding SendToNode_def BroadcastToNodes_def BroadcastToMonitors_def KickSession_def Shutdown_def send_all_def
  using assms by (auto intro!: queues_ok_fold queues_ok_trySend queues_ok_Close split: option.splits simp del: fold_append)

lemma queues_ok_newClient: "queues_ok h \<Longrightarrow> 0 < hb_sendBuffer h \<Longrightarrow> queues_ok (snd (newClient k s n h))"
  by (auto simp: queues_ok_def newClient_def)

lemma queues_ok_register:
  assumes "queues_ok h"
  shows "queues_ok (registerNode c h)" "queues_ok (snd (unregisterNode c h))"
    "queues_ok (registerMonitor c h)" "queues_ok (unregisterMonitor c h)"
  using assms by (auto simp: registerNode_def unregisterNode_def registerMonitor_def unregisterMonitor_def Let_def
      queues_ok_registry intro!: queues_ok_Close split: option.splits)

lemma queues_ok_step:
  assumes "hub_step h h'" "hub_inv h" "queues_ok h"
  shows "queues_ok h'"
  using assms
proof (induction rule: hub_step.induct)
  case (step_open_node h s n)
  then show ?case
    by (auto simp: open_node_def hub_inv_def case_prod_beta intro!: queues_ok_register queues_ok_newClient)
next
  case (step_open_monitor h s)
  then show ?case
    by (auto simp: open_monitor_def hub_inv_def case_prod_beta intro!: queues_ok_register queues_ok_newClient)
qed (auto intro!: queues_ok_send queues_ok_trySend queues_ok_Close queues_ok_writePump queues_ok_register)

lemma hub_reachable_queues: "hub_reachable n h \<Longrightarrow> queues_ok h"
proof (induction rule: hub_reachable.induct)
  case reach_new
  then show ?case by (simp add: queues_ok_def NewHub_def)
next
  case (reach_step h h')
  then show ?case using queues_ok_step hub_reachable_inv by blast
qed

lemma trySend_closed: "hb_heap h c = Some cl \<Longrightarrow> cl_done cl \<Longrightarrow> trySend c f h = (False, h)"
  by (simp add: trySend_def)

section \<open>The Broadcaster contract (broadcaster.go)\<close>

text \<open>The frames queued for a ship: \<open>None\<close> when it holds no connection.\<close>

definition inbox :: "Hub \<Rightarrow> string \<Rightarrow> string \<Rightarrow> frame list option" where
  "inbox h s n = (case node_ref h s n of None \<Rightarrow> None | Some c \<Rightarrow> map_option cl_send (hb_heap h c))"

locale broadcaster =
  fixes wf :: "'h \<Rightarrow> bool" and sendTo :: "string \<Rightarrow> string \<Rightarrow> 'f \<Rightarrow> 'h \<Rightarrow> bool \<times> 'h"
    and toNodes :: "string \<Rightarrow> 'f \<Rightarrow> 'h \<Rightarrow> 'h" and toMonitors :: "string \<Rightarrow> 'f \<Rightarrow> 'h \<Rightarrow> 'h"
    and online :: "string \<Rightarrow> string \<Rightarrow> 'h \<Rightarrow> bool" and box :: "'h \<Rightarrow> string \<Rightarrow> string \<Rightarrow> 'f list option"
  assumes wf_ops: "wf h \<Longrightarrow> wf (snd (sendTo s n f h))" "wf h \<Longrightarrow> wf (toNodes s f h)" "wf h \<Longrightarrow> wf (toMonitors s f h)"
    and sendTo_box: "wf h \<Longrightarrow> box (snd (sendTo s n f h)) s' n' =
      (if fst (sendTo s n f h) \<and> s' = s \<and> n' = n then map_option (\<lambda>q. q @ [f]) (box h s n) else box h s' n')"
    and toMonitors_box: "wf h \<Longrightarrow> box (toMonitors s f h) s' n' = box h s' n'"
    and toNodes_box: "wf h \<Longrightarrow> box (toNodes s f h) s' n' = box h s' n' \<or>
      s' = s \<and> box (toNodes s f h) s' n' = map_option (\<lambda>q. q @ [f]) (box h s' n')"
    and online_box: "wf h \<Longrightarrow> online s n h \<longleftrightarrow> box h s n \<noteq> None"
    and sendTo_online: "wf h \<Longrightarrow> fst (sendTo s n f h) \<Longrightarrow> online s n h"
begin

lemma online_stable:
  assumes "wf h"
  shows "online s' n' (snd (sendTo s n f h)) = online s' n' h" "online s' n' (toMonitors s f h) = online s' n' h"
    "online s' n' (toNodes s f h) = online s' n' h"
proof -
  note box_iff = online_box [OF assms, of s' n'] online_box [OF wf_ops(1) [OF assms], of s' n' s n f]
    online_box [OF wf_ops(2) [OF assms], of s' n' s f] online_box [OF wf_ops(3) [OF assms], of s' n' s f]
  show "online s' n' (snd (sendTo s n f h)) = online s' n' h"
    unfolding box_iff using sendTo_box [OF assms, of s n f s' n'] by (cases "s' = s \<and> n' = n") auto
  show "online s' n' (toMonitors s f h) = online s' n' h"
    unfolding box_iff toMonitors_box [OF assms] ..
  show "online s' n' (toNodes s f h) = online s' n' h"
    unfolding box_iff using toNodes_box [OF assms, of s f s' n'] by (elim disjE conjE) simp_all
qed

lemma monitors_fold:
  assumes "wf h"
  shows "wf (fold (toMonitors s) fs h)" "box (fold (toMonitors s) fs h) s' n' = box h s' n'"
  using assms by (induction fs arbitrary: h) (simp_all add: wf_ops toMonitors_box)

lemma failed_send: "wf h \<Longrightarrow> \<not> fst (sendTo s n f h) \<Longrightarrow> box (snd (sendTo s n f h)) s' n' = box h s' n'"
  by (simp add: sendTo_box)

end

lemma node_ref_client: "hub_inv h \<Longrightarrow> node_ref h s n = Some c \<Longrightarrow> is_client h c (kindNode, s, n)"
  by (simp add: hub_inv_def node_ref_def)

lemma is_client_unique: "is_client h c i \<Longrightarrow> is_client h c j \<Longrightarrow> i = j"
  by (auto simp: is_client_def)

lemma node_ref_inj:
  "hub_inv h \<Longrightarrow> node_ref h s n = Some c \<Longrightarrow> node_ref h s' n' = Some c \<Longrightarrow> s' = s \<and> n' = n"
  using is_client_unique [OF node_ref_client node_ref_client] by blast

lemma monitor_client: "hub_inv h \<Longrightarrow> c \<in> set (session_monitors h s) \<Longrightarrow> is_client h c (kindMonitor, s, [])"
  by (simp add: hub_inv_def)

lemma monitor_not_node:
  "hub_inv h \<Longrightarrow> c \<in> set (session_monitors h s) \<Longrightarrow> node_ref h s' n' \<noteq> Some c"
  using is_client_unique [OF node_ref_client monitor_client] by blast

lemma trySend_heap:
  "hb_heap (snd (trySend c f h)) c' =
     (if c' = c \<and> fst (trySend c f h) then map_option (\<lambda>cl. cl\<lparr>cl_send := cl_send cl @ [f]\<rparr>) (hb_heap h c)
      else hb_heap h c')"
  by (auto simp: trySend_def split: option.splits)

lemma trySend_inbox:
  assumes "hub_inv h" "node_ref h s n = Some c"
  shows "inbox (snd (trySend c f h)) s' n' =
    (if fst (trySend c f h) \<and> s' = s \<and> n' = n then map_option (\<lambda>q. q @ [f]) (inbox h s n) else inbox h s' n')"
  using assms node_ref_inj [OF assms(1)] same_registry_lookup(3) [OF trySend_registry, of c f h]
  by (auto simp: inbox_def trySend_heap option.map_comp comp_def split: option.splits)

lemma trySend_inbox_other:
  assumes "\<forall>s n. node_ref h s n \<noteq> Some c"
  shows "inbox (snd (trySend c f h)) s n = inbox h s n"
  using assms same_registry_lookup(3) [OF trySend_registry, of c f h]
  by (auto simp: inbox_def trySend_heap split: option.splits)

lemma SendToNode_inbox:
  assumes "hub_inv h"
  shows "inbox (snd (SendToNode s n f h)) s' n' =
    (if fst (SendToNode s n f h) \<and> s' = s \<and> n' = n then map_option (\<lambda>q. q @ [f]) (inbox h s n) else inbox h s' n')"
  using trySend_inbox [OF assms] by (auto simp: SendToNode_def split: option.splits)

lemma send_all_monitors:
  assumes "hub_inv h" "\<forall>c \<in> set cs. \<forall>s n. node_ref h s n \<noteq> Some c"
  shows "inbox (send_all cs f h) s n = inbox h s n"
  using assms
proof (induction cs arbitrary: h)
  case (Cons c cs)
  have "hub_inv (snd (trySend c f h))" by (rule hub_inv_same [OF trySend_registry Cons.prems(1)])
  moreover have "\<forall>c' \<in> set cs. \<forall>s n. node_ref (snd (trySend c f h)) s n \<noteq> Some c'"
    using Cons.prems(2) by (simp add: same_registry_lookup(3) [OF trySend_registry])
  ultimately show ?case
    using Cons.IH Cons.prems(2) trySend_inbox_other [of h c f s n] by (simp add: send_all_def)
qed (simp add: send_all_def)

lemma send_all_nodes:
  assumes "hub_inv h" "distinct cs"
  shows "inbox (send_all cs f h) s n = inbox h s n \<or>
    ((\<exists>c \<in> set cs. node_ref h s n = Some c) \<and> inbox (send_all cs f h) s n = map_option (\<lambda>q. q @ [f]) (inbox h s n))"
  using assms
proof (induction cs arbitrary: h)
  case (Cons c cs)
  let ?h = "snd (trySend c f h)"
  have inv: "hub_inv ?h" by (rule hub_inv_same [OF trySend_registry Cons.prems(1)])
  have ref: "node_ref ?h s n = node_ref h s n" by (rule same_registry_lookup(3) [OF trySend_registry])
  have step: "send_all (c # cs) f h = send_all cs f ?h" by (simp add: send_all_def)
  have "distinct cs" using Cons.prems by simp
  note IH = Cons.IH [OF inv this]
  show ?case
  proof (cases "node_ref h s n = Some c")
    case True
    then have "\<not> (\<exists>c' \<in> set cs. node_ref ?h s n = Some c')" using Cons.prems(2) ref by auto
    then have "inbox (send_all cs f ?h) s n = inbox ?h s n" using IH by blast
    then show ?thesis using True trySend_inbox [OF Cons.prems(1) True, of f s n] step by auto
  next
    case False
    then have "inbox ?h s n = inbox h s n"
      using same_registry_lookup(3) [OF trySend_registry, of c f h] by (auto simp: inbox_def trySend_heap split: option.splits)
    then show ?thesis using IH ref step by auto
  qed
qed (simp add: send_all_def)

lemma snapshotNodes_distinct:
  assumes "hub_inv h"
  shows "distinct (snapshotNodes s h)"
proof -
  have wf: "wf_map (session_nodes h s)" using assms by (simp add: hub_inv_def)
  have "inj_on snd (set (session_nodes h s))"
  proof (rule inj_onI)
    fix p q assume mem: "p \<in> set (session_nodes h s)" "q \<in> set (session_nodes h s)" and eq: "snd p = snd q"
    have "node_ref h s (fst p) = Some (snd p)" "node_ref h s (fst q) = Some (snd q)"
      using mem map_of_is_SomeI [OF wf] by (simp_all add: node_ref_def)
    then show "p = q" using node_ref_inj [OF assms] eq by (metis prod_eqI)
  qed
  then show ?thesis using wf by (simp add: snapshotNodes_def distinct_map)
qed

lemma snapshotNodes_session:
  assumes "hub_inv h" "c \<in> set (snapshotNodes s h)" "node_ref h s' n = Some c"
  shows "s' = s"
proof -
  have "wf_map (session_nodes h s)" using assms(1) by (simp add: hub_inv_def)
  moreover obtain n' where "(n', c) \<in> set (session_nodes h s)" using assms(2) by (auto simp: snapshotNodes_def)
  ultimately have "node_ref h s n' = Some c" by (simp add: node_ref_def map_of_is_SomeI)
  then show ?thesis using node_ref_inj [OF assms(1) _ assms(3)] by blast
qed

interpretation hub: broadcaster hub_inv SendToNode BroadcastToNodes BroadcastToMonitors NodeOnline inbox
proof
  fix h s n f s' n'
  assume inv: "hub_inv h"
  show "hub_inv (snd (SendToNode s n f h))" "hub_inv (BroadcastToNodes s f h)" "hub_inv (BroadcastToMonitors s f h)"
    using hub_inv_same broadcast_registry inv by blast+
  show "inbox (snd (SendToNode s n f h)) s' n' =
      (if fst (SendToNode s n f h) \<and> s' = s \<and> n' = n then map_option (\<lambda>q. q @ [f]) (inbox h s n) else inbox h s' n')"
    by (rule SendToNode_inbox [OF inv])
  show "inbox (BroadcastToMonitors s f h) s' n' = inbox h s' n'"
    using send_all_monitors [OF inv] monitor_not_node [OF inv]
    by (auto simp: BroadcastToMonitors_def snapshotMonitors_def)
  show "inbox (BroadcastToNodes s f h) s' n' = inbox h s' n' \<or>
      s' = s \<and> inbox (BroadcastToNodes s f h) s' n' = map_option (\<lambda>q. q @ [f]) (inbox h s' n')"
    using send_all_nodes [OF inv snapshotNodes_distinct [OF inv], of s f s' n'] snapshotNodes_session [OF inv]
    by (auto simp: BroadcastToNodes_def)
  show "NodeOnline s n h \<longleftrightarrow> inbox h s n \<noteq> None"
    using node_ref_client [OF inv, of s n] by (auto simp: NodeOnline_def inbox_def is_client_def split: option.splits)
  show "fst (SendToNode s n f h) \<Longrightarrow> NodeOnline s n h"
    by (auto simp: SendToNode_def NodeOnline_def split: option.splits)
qed

section \<open>Properties\<close>

text \<open>
  In every reachable hub the registries are consistent: a registered ship socket is a node
  client of exactly that session and node id, a registered observer is a monitor of that session,
  no socket is registered twice, and no send queue exceeds the configured buffer.
\<close>

theorem hub_registry_consistent:
  assumes "hub_reachable n h"
  shows "(\<forall>s i c. node_ref h s i = Some c \<longrightarrow> is_client h c (kindNode, s, i)) \<and>
    (\<forall>s c. c \<in> set (session_monitors h s) \<longrightarrow> is_client h c (kindMonitor, s, [])) \<and>
    (\<forall>s i s' i' c. node_ref h s i = Some c \<longrightarrow> node_ref h s' i' = Some c \<longrightarrow> s' = s \<and> i' = i) \<and>
    (\<forall>c cl. hb_heap h c = Some cl \<longrightarrow> int (length (cl_send cl)) \<le> hb_sendBuffer h)"
proof -
  have inv: "hub_inv h" by (rule hub_reachable_inv [OF assms])
  have "queues_ok h" by (rule hub_reachable_queues [OF assms])
  then show ?thesis
    using node_ref_client [OF inv] node_ref_inj [OF inv] inv by (auto simp: queues_ok_def hub_inv_def)
qed

theorem hub_registry_consistent_witness:
  "is_client (snd (open_node ''S'' ''A'' (NewHub 4))) 0 (kindNode, ''S'', ''A'')"
proof -
  have r: "hub_reachable 4 (snd (open_node ''S'' ''A'' (NewHub 4)))"
    by (rule reach_step [OF reach_new step_open_node])
  have "node_ref (snd (open_node ''S'' ''A'' (NewHub 4))) ''S'' ''A'' = Some 0"
    by (simp add: open_node_def newClient_def NewHub_def registerNode_def node_ref_def session_nodes_def Let_def)
  then show ?thesis using hub_registry_consistent [OF r] by blast
qed

text \<open>
  C22. A reconnect takes the ship over completely: the new socket replaces the old one in the
  registry, the old socket is closed, every other ship keeps its socket, and when the old socket's
  read pump finally runs its close handler it finds itself replaced and leaves the registry as it is
  (so the ship is not reported offline).
\<close>

theorem hub_reconnect:
  assumes "hub_inv h" "node_ref h s n = Some old_client" "open_node s n h = (c, h')"
  shows "node_ref h' s n = Some c \<and> c \<noteq> old_client \<and> (\<exists>cl. hb_heap h' old_client = Some cl \<and> cl_done cl) \<and>
    (\<forall>s' n'. (s', n') \<noteq> (s, n) \<longrightarrow> node_ref h' s' n' = node_ref h s' n') \<and>
    unregisterNode old_client h' = (False, h') \<and> fst (unregisterNode c h')"
proof -
  obtain h1 where h1: "newClient kindNode s n h = (c, h1)" and h': "h' = registerNode c h1"
    using assms(3) by (auto simp: open_node_def split: prod.splits)
  note nc = hub_inv_newClient [OF assms(1) h1]
  have old: "is_client h old_client (kindNode, s, n)" by (rule node_ref_client [OF assms(1,2)])
  have ne: "c \<noteq> old_client" using hub_inv_fresh [OF assms(1) old] nc(3) by simp
  have sn: "session_nodes h1 s' = session_nodes h s'" for s' using nc(4) by (simp add: session_nodes_def)
  then have ref1: "node_ref h1 s' n' = node_ref h s' n'" for s' n' by (simp add: node_ref_def)
  let ?h2 = "h1\<lparr>hb_nodes := AList.update s (AList.update n c (session_nodes h1 s)) (hb_nodes h1)\<rparr>"
  have eq: "h' = Close old_client ?h2"
    unfolding h' registerNode_eq [OF nc(2)] ref1 assms(2) by simp
  have ref2: "node_ref h' s' n' = (if (s', n') = (s, n) then Some c else node_ref h s' n')" for s' n'
    unfolding eq same_registry_lookup(3) [OF Close_registry] by (auto simp: node_ref_def sn)
  have oldc: "is_client h' old_client (kindNode, s, n)"
    using old h1 ne unfolding eq is_client_same [OF Close_registry]
    by (auto simp: is_client_def newClient_def)
  then obtain cl where cl: "hb_heap ?h2 old_client = Some cl"
    unfolding eq is_client_same [OF Close_registry] by (rule is_clientE)
  then have done_: "\<exists>cl. hb_heap h' old_client = Some cl \<and> cl_done cl"
    unfolding eq by (simp add: Close_def)
  have cc: "is_client h' c (kindNode, s, n)"
    using nc(2) unfolding eq is_client_same [OF Close_registry] by simp
  show ?thesis
    using ref2 ne done_ unregisterNode_eq [OF oldc] unregisterNode_eq [OF cc] by auto
qed

theorem hub_reconnect_witness:
  "let h = snd (open_node ''S'' ''A'' (NewHub 4)) in unregisterNode 0 (snd (open_node ''S'' ''A'' h)) = (False, snd (open_node ''S'' ''A'' h))"
proof -
  let ?h = "snd (open_node ''S'' ''A'' (NewHub 4))"
  have inv: "hub_inv ?h" by (metis hub_inv_open_node hub_inv_NewHub prod.collapse)
  have ref: "node_ref ?h ''S'' ''A'' = Some 0"
    by (simp add: open_node_def newClient_def NewHub_def registerNode_def node_ref_def session_nodes_def Let_def)
  show ?thesis using hub_reconnect [OF inv ref] by (metis prod.collapse)
qed

text \<open>
  \<open>SendToNode\<close> never blocks and reports the truth: it returns true exactly when the ship's
  registered socket is open and its queue has room, and then exactly that ship's queue grows by
  exactly that frame; otherwise no queue of any ship changes.  A broadcast to the observers never
  reaches a ship, and ships of another session never receive a broadcast.
\<close>

theorem hub_send:
  assumes "hub_inv h"
  shows "(fst (SendToNode s n f h) \<longleftrightarrow>
      (\<exists>c cl. node_ref h s n = Some c \<and> hb_heap h c = Some cl \<and> \<not> cl_done cl \<and> int (length (cl_send cl)) < hb_sendBuffer h)) \<and>
    (\<forall>s' n'. inbox (snd (SendToNode s n f h)) s' n' =
      (if fst (SendToNode s n f h) \<and> s' = s \<and> n' = n then map_option (\<lambda>q. q @ [f]) (inbox h s n) else inbox h s' n')) \<and>
    (\<forall>s' n'. inbox (BroadcastToMonitors s f h) s' n' = inbox h s' n') \<and>
    (\<forall>s' n'. s' \<noteq> s \<longrightarrow> inbox (BroadcastToNodes s f h) s' n' = inbox h s' n')"
proof (intro conjI allI)
  show "fst (SendToNode s n f h) \<longleftrightarrow>
      (\<exists>c cl. node_ref h s n = Some c \<and> hb_heap h c = Some cl \<and> \<not> cl_done cl \<and> int (length (cl_send cl)) < hb_sendBuffer h)"
    by (auto simp: SendToNode_def trySend_def split: option.splits)
next
  fix s' n'
  show "inbox (snd (SendToNode s n f h)) s' n' =
      (if fst (SendToNode s n f h) \<and> s' = s \<and> n' = n then map_option (\<lambda>q. q @ [f]) (inbox h s n) else inbox h s' n')"
    by (rule hub.sendTo_box [OF assms])
  show "inbox (BroadcastToMonitors s f h) s' n' = inbox h s' n'" by (rule hub.toMonitors_box [OF assms])
  show "s' \<noteq> s \<longrightarrow> inbox (BroadcastToNodes s f h) s' n' = inbox h s' n'"
    using hub.toNodes_box [OF assms, of s f s' n'] by blast
qed

theorem hub_send_witness:
  "inbox (snd (SendToNode ''S'' ''A'' (FNodeStatus \<lparr>ns_Event = [], ns_NodeID = [], ns_Online = True\<rparr>) (NewHub 0))) ''S'' ''A'' = None"
  using hub_send [OF hub_inv_NewHub, of "''S''" "''A''" _ 0] by (simp add: SendToNode_def inbox_def node_ref_def session_nodes_def NewHub_def)

end
