(* ===== verification/System.thy ===== *)
theory System
  imports Repos Hub
begin

text \<open>
  The state of the running backend: the world of external services, the hub, the set of sessions
  the topology scheduler serves and the edge cache of the engine.  The services are functions on
  this record; the small operations below lift the methods of a repository and of the hub to it.
  \<open>edgeCache_get\<close> is the cache of \<^verbatim>\<open>service/simulation_engine.go\<close>.  Here an HTTP request or a job of
  the worker pool runs one service call to its end; Programs cuts the calls into the actions that interleave.
\<close>

record 'w sys =
  sy_world :: 'w
  sy_hub :: Hub
  sy_active :: "string set"
  sy_byCode :: "(string \<times> Edge) list option"
  sy_loadedAt :: int

definition on_world :: "('w \<Rightarrow> 'a \<times> 'w) \<Rightarrow> 'w sys \<Rightarrow> 'a \<times> 'w sys" where
  "on_world f s = (fst (f (sy_world s)), s\<lparr>sy_world := snd (f (sy_world s))\<rparr>)"

definition send_node :: "string \<Rightarrow> string \<Rightarrow> frame \<Rightarrow> 'w sys \<Rightarrow> 'w sys" where
  "send_node sessionID nodeID f s = s\<lparr>sy_hub := snd (SendToNode sessionID nodeID f (sy_hub s))\<rparr>"

definition to_nodes :: "string \<Rightarrow> frame \<Rightarrow> 'w sys \<Rightarrow> 'w sys" where
  "to_nodes sessionID f s = s\<lparr>sy_hub := BroadcastToNodes sessionID f (sy_hub s)\<rparr>"

definition to_monitors :: "string \<Rightarrow> frame \<Rightarrow> 'w sys \<Rightarrow> 'w sys" where
  "to_monitors sessionID f s = s\<lparr>sy_hub := BroadcastToMonitors sessionID f (sy_hub s)\<rparr>"

text \<open>\<open>_ = s.state.IncrStat(\<dots>)\<close>\<close>

definition incr :: "'w ext \<Rightarrow> string \<Rightarrow> string \<Rightarrow> 'w sys \<Rightarrow> 'w sys" where
  "incr X sessionID field s = snd (on_world (IncrStat X sessionID field) s)"

definition errorEvent :: "string \<Rightarrow> string \<Rightarrow> frame" where
  "errorEvent code msg = FError \<lparr>ee_Event = EvError, ee_Code = code, ee_Message = msg\<rparr>"

section \<open>The edge cache\<close>

definition edgeCacheTTL :: duration where "edgeCacheTTL = 30 * Second"

definition edgeCache_lookup :: "string \<Rightarrow> 'w sys \<Rightarrow> Edge option" where
  "edgeCache_lookup code s = (case sy_byCode s of None \<Rightarrow> None | Some m \<Rightarrow> map_of m code)"

definition edgeCache_fresh :: "'w ext \<Rightarrow> 'w sys \<Rightarrow> bool \<times> 'w sys" where
  "edgeCache_fresh X s =
     (if sy_byCode s = None then (False, s)
      else let (now, s1) = on_world (xClock X) s in (now - sy_loadedAt s < edgeCacheTTL, s1))"

definition edgeCache_get :: "'w ext \<Rightarrow> string \<Rightarrow> 'w sys \<Rightarrow> Edge option res \<times> 'w sys" where
  "edgeCache_get X code s =
     (case edgeCache_fresh X s of
        (True, s1) \<Rightarrow> (Inr (edgeCache_lookup code s), s1)
      | (False, s1) \<Rightarrow>
          (case on_world (EdgeList X) s1 of
             (Inl err, s2) \<Rightarrow>
               (if sy_byCode s2 \<noteq> None then (Inr (edgeCache_lookup code s), s2) else (Inl err, s2))
           | (Inr edges, s2) \<Rightarrow>
               (let byCode = fold (\<lambda>e. AList.update (ed_EdgeCode e) e) edges [];
                    (now, s3) = on_world (xClock X) s2
                in (Inr (map_of byCode code), s3\<lparr>sy_byCode := Some byCode, sy_loadedAt := now\<rparr>))))"

section \<open>What the lifted operations leave alone\<close>

lemma on_world_simps [simp]:
  "fst (on_world f s) = fst (f (sy_world s))" "sy_world (snd (on_world f s)) = snd (f (sy_world s))"
  "sy_hub (snd (on_world f s)) = sy_hub s" "sy_active (snd (on_world f s)) = sy_active s"
  "sy_byCode (snd (on_world f s)) = sy_byCode s" "sy_loadedAt (snd (on_world f s)) = sy_loadedAt s"
  by (simp_all add: on_world_def)

lemma send_simps [simp]:
  "sy_world (send_node i n f s) = sy_world s" "sy_world (to_nodes i f s) = sy_world s"
  "sy_world (to_monitors i f s) = sy_world s" "sy_active (send_node i n f s) = sy_active s"
  "sy_active (to_nodes i f s) = sy_active s" "sy_active (to_monitors i f s) = sy_active s"
  "sy_byCode (send_node i n f s) = sy_byCode s" "sy_byCode (to_nodes i f s) = sy_byCode s"
  "sy_byCode (to_monitors i f s) = sy_byCode s"
  "sy_hub (send_node i n f s) = snd (SendToNode i n f (sy_hub s))"
  "sy_hub (to_nodes i f s) = BroadcastToNodes i f (sy_hub s)"
  "sy_hub (to_monitors i f s) = BroadcastToMonitors i f (sy_hub s)"
  by (simp_all add: send_node_def to_nodes_def to_monitors_def)

lemma incr_simps [simp]:
  "sy_hub (incr X i f s) = sy_hub s" "sy_active (incr X i f s) = sy_active s" "sy_byCode (incr X i f s) = sy_byCode s"
  "sy_world (incr X i f s) = snd (IncrStat X i f (sy_world s))"
  by (simp_all add: incr_def)

lemma on_worldE:
  assumes "on_world f s = (r, s')"
  obtains w' where "f (sy_world s) = (r, w')" "s' = s\<lparr>sy_world := w'\<rparr>"
  using assms by (metis on_world_def fst_conv prod.collapse snd_conv)

text \<open>The frames a ship has queued, read off the whole state.\<close>

abbreviation shipbox :: "'w sys \<Rightarrow> string \<Rightarrow> string \<Rightarrow> frame list option" where
  "shipbox s \<equiv> inbox (sy_hub s)"

abbreviation sys_inv :: "'w sys \<Rightarrow> bool" where
  "sys_inv s \<equiv> hub_inv (sy_hub s)"

lemma sys_inv_sends:
  assumes "sys_inv s"
  shows "sys_inv (send_node i n f s)" "sys_inv (to_nodes i f s)" "sys_inv (to_monitors i f s)"
    "sys_inv (incr X i g s)" "sys_inv (snd (on_world h s))"
  using assms hub.wf_ops by simp_all

lemma shipbox_to_monitors [simp]:
  "sys_inv s \<Longrightarrow> inbox (BroadcastToMonitors i f (sy_hub s)) i' n' = shipbox s i' n'"
  by (rule hub.toMonitors_box)

lemma edgeCache_get_hub: "sy_hub (snd (edgeCache_get X code s)) = sy_hub s"
  by (auto simp: edgeCache_get_def edgeCache_fresh_def Let_def on_world_def split: prod.splits sum.splits bool.splits)

lemma edgeCache_get_active: "sy_active (snd (edgeCache_get X code s)) = sy_active s"
  by (auto simp: edgeCache_get_def edgeCache_fresh_def Let_def on_world_def split: prod.splits sum.splits bool.splits)

lemma edgeCache_fresh_calm:
  "env_ok view X \<Longrightarrow> calm {} (view (sy_world s)) (view (sy_world (snd (edgeCache_fresh X s))))"
  using env_calm(1) by (auto simp: edgeCache_fresh_def case_prod_beta)

lemma EdgeList_snd: "snd (EdgeList X w) = snd (qListEdges X w)"
  by (simp add: EdgeList_def)

lemma edgeCache_get_calm:
  assumes "ext_ok F view X"
  shows "calm {} (view (sy_world s)) (view (sy_world (snd (edgeCache_get X code s))))"
proof -
  have e: "env_ok view X" and q: "sql_ok F view X" using assms by (simp_all add: ext_ok_def)
  obtain b s1 where 1: "edgeCache_fresh X s = (b, s1)" by force
  have k1: "calm {} (view (sy_world s)) (view (sy_world s1))" using edgeCache_fresh_calm [OF e, of s] 1 by simp
  obtain r s2 where 2: "on_world (EdgeList X) s1 = (r, s2)" by force
  have k2: "calm {} (view (sy_world s1)) (view (sy_world s2))"
    using query_calm(4) [OF q, of "sy_world s1"] 2 by (metis EdgeList_snd on_world_simps(2) snd_conv)
  obtain t s3 where 3: "on_world (xClock X) s2 = (t, s3)" by force
  have k3: "calm {} (view (sy_world s2)) (view (sy_world s3))"
    using env_calm(1) [OF e, of "sy_world s2"] 3 by (metis on_world_simps(2) snd_conv)
  note k12 = calm_trans [OF k1 k2]
  note k13 = calm_trans [OF k12 k3]
  show ?thesis
    by (cases b; cases r) (simp_all add: edgeCache_get_def 1 2 3 k1 k12 k13 Let_def)
qed

text \<open>What the engine takes for the edge of a code: an entry of the cache, or a row of the table.\<close>

definition known_edge :: "('w \<Rightarrow> store) \<Rightarrow> string \<Rightarrow> Edge \<Rightarrow> 'w sys \<Rightarrow> bool" where
  "known_edge view code e s \<longleftrightarrow>
     edgeCache_lookup code s = Some e \<or> e \<in> set (st_edges (view (sy_world s))) \<and> ed_EdgeCode e = code"

lemma fold_by_code:
  assumes "map_of (fold (\<lambda>e. AList.update (ed_EdgeCode e) e) es m) c = Some e"
  shows "map_of m c = Some e \<or> e \<in> set es \<and> ed_EdgeCode e = c"
  using assms
proof (induction es arbitrary: m)
  case (Cons a es)
  from Cons.IH [of "AList.update (ed_EdgeCode a) a m"] Cons.prems show ?case
    by (auto simp: update_conv' split: if_splits)
qed simp

lemma edgeCache_get_Inr:
  assumes "ext_ok F view X" "edgeCache_get X code s = (Inr (Some e), s')"
  shows "known_edge view code e s"
proof -
  have ok: "env_ok view X" "sql_ok F view X" using assms(1) by (simp_all add: ext_ok_def)
  obtain b s1 where f: "edgeCache_fresh X s = (b, s1)" by force
  have same: "sy_byCode s1 = sy_byCode s" using f by (auto simp: edgeCache_fresh_def Let_def on_world_def split: if_splits prod.splits)
  have "calm {} (view (sy_world s)) (view (sy_world s1))" using edgeCache_fresh_calm [OF ok(1), of s] f by simp
  then have edges: "st_edges (view (sy_world s1)) = st_edges (view (sy_world s))" by (simp add: calm_def tables_def)
  obtain r s2 where l: "on_world (EdgeList X) s1 = (r, s2)" by force
  have same2: "sy_byCode s2 = sy_byCode s" using same l by (auto simp: on_world_def)
  show ?thesis
  proof (cases "\<not> b \<and> is_ok r")
    case False
    then show ?thesis
      using assms(2) f l same2 by (cases b; cases r) (auto simp: edgeCache_get_def known_edge_def split: if_splits)
  next
    case True
    then obtain es where r: "r = Inr es" by (cases r) auto
    obtain w' where "EdgeList X (sy_world s1) = (Inr es, w')" using l r by (metis on_worldE)
    then have "qListEdges X (sy_world s1) = (Inr es, w')" by (simp add: EdgeList_def wrap_err_eq)
    then obtain u where "ref_ListEdges (at_time u (view (sy_world s1))) = (Inr es, view w')"
      using implements_Inr [OF sql_okD(10) [OF ok(2)]] by metis
    then have "set es = set (st_edges (view (sy_world s)))" using edges by (auto simp: ref_ListEdges_def at_time_def)
    moreover have "map_of (fold (\<lambda>e. AList.update (ed_EdgeCode e) e) es []) code = Some e"
      using assms(2) True by (simp add: edgeCache_get_def f l r Let_def split: prod.splits)
    ultimately show ?thesis using fold_by_code [of es "[]" code e] by (auto simp: known_edge_def)
  qed
qed

end
