(* ===== verification/Topology.thy ===== *)
theory Topology
  imports System
begin

text \<open>
  \<^verbatim>\<open>service/mesh_topology.go\<close>: the scheduler that recomputes the routing table of every active
  session.  \<open>recompute\<close> is the whole method: parameters, positions, the filter on live
  connections, edges, \<open>BuildTopology\<close>, the comparison with the stored table, the save, the
  notifications.  \<open>safeRecompute\<close> and \<open>tick\<close> are the scheduler around it (its panic recovery has
  nothing to recover in the model).
\<close>

section \<open>Definitions\<close>

definition distanceJitterKm :: real where "distanceJitterKm = 0.05"

definition AddSession :: "string \<Rightarrow> 'w sys \<Rightarrow> 'w sys" where
  "AddSession sessionID s = s\<lparr>sy_active := insert sessionID (sy_active s)\<rparr>"

definition RemoveSession :: "string \<Rightarrow> 'w sys \<Rightarrow> 'w sys" where
  "RemoveSession sessionID s = s\<lparr>sy_active := sy_active s - {sessionID}\<rparr>"

definition activeSessions :: "'w sys \<Rightarrow> string list" where
  "activeSessions s = sorted_list_of_set (sy_active s)"

text \<open>\<open>math.Round\<close> rounds half away from zero.\<close>

definition go_round :: "real \<Rightarrow> real" where
  "go_round x = sgn x * of_int \<lfloor>\<bar>x\<bar> + 1 / 2\<rfloor>"

definition round3 :: "real \<Rightarrow> real" where
  "round3 v = go_round (v * 1000) / 1000"

definition routeUnchanged :: "table \<Rightarrow> string \<Rightarrow> RouteEntry \<Rightarrow> bool" where
  "routeUnchanged old nodeID entry =
     (case map_of old nodeID of
        None \<Rightarrow> False
      | Some prev \<Rightarrow> re_Parent prev = re_Parent entry \<and> re_Status prev = re_Status entry \<and>
          re_HopLevel prev = re_HopLevel entry \<and> \<bar>re_DistanceKm prev - re_DistanceKm entry\<bar> \<le> distanceJitterKm)"

definition tableEvent :: "table \<Rightarrow> RoutingTable" where
  "tableEvent tbl =
     \<lparr>rt_Event = EvMeshRoutingUpdate,
      rt_Routes = sort_key re_NodeID (map (\<lambda>(_, e). e\<lparr>re_DistanceKm := round3 (re_DistanceKm e)\<rparr>) tbl)\<rparr>"

text \<open>One iteration of the notification loop: the count of changed routes and the state.\<close>

definition notify_step :: "string \<Rightarrow> table \<Rightarrow> string \<times> RouteEntry \<Rightarrow> int \<times> 'w sys \<Rightarrow> int \<times> 'w sys" where
  "notify_step sessionID oldTable ne cs =
     (if routeUnchanged oldTable (fst ne) (snd ne) then cs
      else (fst cs + 1,
            send_node sessionID (fst ne)
              (FRoutingUpdate (routing_update (snd ne) (round3 (re_DistanceKm (snd ne))))) (snd cs)))"

definition notify_all :: "string \<Rightarrow> table \<Rightarrow> table \<Rightarrow> 'w sys \<Rightarrow> 'w sys" where
  "notify_all sessionID oldTable newTable s =
     (let (changed, s1) = fold (notify_step sessionID oldTable) newTable (0, s)
      in if changed > 0 \<or> length newTable \<noteq> length oldTable
         then to_monitors sessionID (FRoutingTable (tableEvent newTable)) s1 else s1)"

definition live_nodes :: "string list \<Rightarrow> NodePosition list \<Rightarrow> NodePosition list" where
  "live_nodes online positions = filter (\<lambda>p. np_ID p \<in> set online) positions"

definition recompute :: "'w ext \<Rightarrow> string \<Rightarrow> 'w sys \<Rightarrow> unit res \<times> 'w sys" where
  "recompute X sessionID s =
     (let (started, s0) = on_world (xClock X) s in
      case on_world (GetParams X sessionID) s0 of
        (Inl e, s1) \<Rightarrow> (Inl e, s1)
      | (Inr params, s1) \<Rightarrow>
      case on_world (AllPositions X sessionID) s1 of
        (Inl e, s2) \<Rightarrow> (Inl e, s2)
      | (Inr positions, s2) \<Rightarrow>
          let liveNodes = live_nodes (OnlineNodes sessionID (sy_hub s2)) positions in
      case on_world (EdgeList X) s2 of
        (Inl e, s3) \<Rightarrow> (Inl e, s3)
      | (Inr edges, s3) \<Rightarrow>
          let newTable = BuildTopology liveNodes edges (MaxRangeKm (sp_TxPowerDbm params)) in
      case on_world (GetTable X sessionID) s3 of
        (Inl e, s4) \<Rightarrow> (Inl e, s4)
      | (Inr oldTable, s4) \<Rightarrow>
      case on_world (SaveTable X sessionID newTable) s4 of
        (Inl e, s5) \<Rightarrow> (Inl e, s5)
      | (Inr _, s5) \<Rightarrow> (Inr (), notify_all sessionID oldTable newTable s5))"

definition safeRecompute :: "'w ext \<Rightarrow> string \<Rightarrow> 'w sys \<Rightarrow> 'w sys" where
  "safeRecompute X sessionID s = snd (recompute X sessionID s)"

text \<open>One tick of \<open>Run\<close>.\<close>

definition tick :: "'w ext \<Rightarrow> 'w sys \<Rightarrow> 'w sys" where
  "tick X s = fold (safeRecompute X) (activeSessions s) s"

definition CurrentRoute :: "'w ext \<Rightarrow> string \<Rightarrow> string \<Rightarrow> 'w sys \<Rightarrow> RouteEntry res \<times> 'w sys" where
  "CurrentRoute X sessionID nodeID s = on_world (GetRoute X sessionID nodeID) s"

record TopologyNode =
  tn_NodeID :: string
  tn_Lat :: real
  tn_Lng :: real
  tn_Online :: bool

record TopologySnapshot =
  ts_Nodes :: "TopologyNode list"
  ts_Routes :: "RouteEntry list"
  ts_Edges :: "Edge list"

definition Snapshot :: "'w ext \<Rightarrow> string \<Rightarrow> 'w sys \<Rightarrow> TopologySnapshot res \<times> 'w sys" where
  "Snapshot X sessionID s =
     (case on_world (AllPositions X sessionID) s of
        (Inl e, s1) \<Rightarrow> (Inl e, s1)
      | (Inr positions, s1) \<Rightarrow>
      case on_world (GetTable X sessionID) s1 of
        (Inl e, s2) \<Rightarrow> (Inl e, s2)
      | (Inr tbl, s2) \<Rightarrow>
      case on_world (EdgeList X) s2 of
        (Inl e, s3) \<Rightarrow> (Inl e, s3)
      | (Inr edges, s3) \<Rightarrow>
          (let online = OnlineNodes sessionID (sy_hub s3)
           in (Inr \<lparr>ts_Nodes = sort_key tn_NodeID
                      (map (\<lambda>p. \<lparr>tn_NodeID = np_ID p, tn_Lat = np_Lat p, tn_Lng = np_Lng p,
                                 tn_Online = (np_ID p \<in> set online)\<rparr>) positions),
                    ts_Routes = rt_Routes (tableEvent tbl), ts_Edges = edges\<rparr>, s3)))"

end
