(* ===== verification/Sessions.thy ===== *)
theory Sessions
  imports Topology
begin

text \<open>
  \<^verbatim>\<open>service/session_service.go\<close> and \<^verbatim>\<open>service/schema_service.go\<close>: the life cycle of a simulation
  session (create, change of weather and radio parameters, stop, delete, resume after a restart)
  and the distribution of the payload schema.  Each service method is one function on the system;
  log lines are left out.
\<close>

section \<open>SessionService\<close>

definition session_params :: "Session \<Rightarrow> SessionParams" where
  "session_params sess =
     \<lparr>sp_SpreadingFactor = ss_SpreadingFactor sess, sp_TxPowerDbm = ss_TxPowerDbm sess,
      sp_WeatherSeverity = ss_WeatherSeverity sess\<rparr>"

definition cacheParams :: "'w ext \<Rightarrow> Session \<Rightarrow> 'w sys \<Rightarrow> unit res \<times> 'w sys" where
  "cacheParams X sess s = on_world (SaveParams X (ss_ID sess) (session_params sess)) s"

definition new_session :: "string \<Rightarrow> int \<Rightarrow> int \<Rightarrow> real \<Rightarrow> Session" where
  "new_session name sf txPowerDbm weather =
     \<lparr>ss_ID = [], ss_SessionName = name, ss_SpreadingFactor = sf, ss_TxPowerDbm = txPowerDbm,
      ss_WeatherSeverity = weather, ss_IsActive = False, ss_StatsSnapshot = None, ss_CreatedAt = 0, ss_EndedAt = None\<rparr>"

definition Create :: "'w ext \<Rightarrow> string \<Rightarrow> int \<Rightarrow> int \<Rightarrow> real \<Rightarrow> 'w sys \<Rightarrow> Session res \<times> 'w sys" where
  "Create X name sf txPowerDbm weather s =
     (case ValidateSpreadingFactor sf of Inl e \<Rightarrow> (Inl e, s) | Inr _ \<Rightarrow>
      case ValidateTxPower txPowerDbm of Inl e \<Rightarrow> (Inl e, s) | Inr _ \<Rightarrow>
      case ValidateWeatherSeverity weather of Inl e \<Rightarrow> (Inl e, s) | Inr _ \<Rightarrow>
      case on_world (SessionCreate X (new_session name sf txPowerDbm weather)) s of
        (Inl e, s1) \<Rightarrow> (Inl e, s1)
      | (Inr sess, s1) \<Rightarrow>
          (case cacheParams X sess s1 of
             (Inl e, s2) \<Rightarrow> (Inl e, s2)
           | (Inr _, s2) \<Rightarrow> (Inr sess, AddSession (ss_ID sess) s2)))"

definition refreshAndBroadcast :: "'w ext \<Rightarrow> string \<Rightarrow> 'w sys \<Rightarrow> Session res \<times> 'w sys" where
  "refreshAndBroadcast X i s =
     (case on_world (GetByID X i) s of
        (Inl e, s1) \<Rightarrow> (Inl e, s1)
      | (Inr sess, s1) \<Rightarrow>
          (case cacheParams X sess s1 of
             (Inl e, s2) \<Rightarrow> (Inl e, s2)
           | (Inr _, s2) \<Rightarrow>
               (let env = FEnvSync (EnvParamsFrom (session_params sess))
                in (Inr sess, to_monitors i env (to_nodes i env s2)))))"

definition UpdateWeather :: "'w ext \<Rightarrow> string \<Rightarrow> real \<Rightarrow> 'w sys \<Rightarrow> Session res \<times> 'w sys" where
  "UpdateWeather X i severity s =
     (case ValidateWeatherSeverity severity of Inl e \<Rightarrow> (Inl e, s) | Inr _ \<Rightarrow>
      case on_world (RepoUpdateWeather X i severity) s of
        (Inl e, s1) \<Rightarrow> (Inl e, s1)
      | (Inr _, s1) \<Rightarrow> refreshAndBroadcast X i s1)"

text \<open>The optional arguments are Go pointers: \<open>None\<close> keeps the current value.\<close>

definition UpdateRadioParams :: "'w ext \<Rightarrow> string \<Rightarrow> int option \<Rightarrow> int option \<Rightarrow> 'w sys \<Rightarrow> Session res \<times> 'w sys" where
  "UpdateRadioParams X i sf txPowerDbm s =
     (case on_world (GetByID X i) s of
        (Inl e, s1) \<Rightarrow> (Inl e, s1)
      | (Inr current, s1) \<Rightarrow>
          (if \<not> ss_IsActive current then (Inl ErrSessionInactive, s1)
           else let newSF = (case sf of Some v \<Rightarrow> v | None \<Rightarrow> ss_SpreadingFactor current);
                    newTx = (case txPowerDbm of Some v \<Rightarrow> v | None \<Rightarrow> ss_TxPowerDbm current)
                in case ValidateSpreadingFactor newSF of Inl e \<Rightarrow> (Inl e, s1) | Inr _ \<Rightarrow>
                   case ValidateTxPower newTx of Inl e \<Rightarrow> (Inl e, s1) | Inr _ \<Rightarrow>
                   case on_world (RepoUpdateRadioParams X i newSF newTx) s1 of
                     (Inl e, s2) \<Rightarrow> (Inl e, s2)
                   | (Inr _, s2) \<Rightarrow> refreshAndBroadcast X i s2))"

definition session_ended :: "string \<Rightarrow> frame" where
  "session_ended i =
     FSessionEnded \<lparr>se_Event = EvSessionEnded, se_SessionID = i,
       se_Message = ''simulation session stopped by dashboard''\<rparr>"

definition kick_session :: "string \<Rightarrow> 'w sys \<Rightarrow> 'w sys" where
  "kick_session i s = s\<lparr>sy_hub := KickSession i (sy_hub s)\<rparr>"

definition Stop :: "'w ext \<Rightarrow> string \<Rightarrow> 'w sys \<Rightarrow> Session res \<times> 'w sys" where
  "Stop X i s =
     (case on_world (GetStats X i) s of
        (Inl e, s1) \<Rightarrow> (Inl e, s1)
      | (Inr stats, s1) \<Rightarrow>
      case on_world (RepoStop X i stats) s1 of
        (Inl e, s2) \<Rightarrow> (Inl e, s2)
      | (Inr _, s2) \<Rightarrow>
          (let s3 = to_monitors i (session_ended i) (to_nodes i (session_ended i) s2);
               s4 = RemoveSession i (kick_session i s3);
               s5 = snd (on_world (GeoClear X i) s4);
               s6 = snd (on_world (RoutesClear X i) s5);
               s7 = snd (on_world (ClearSession X i) s6)
           in on_world (GetByID X i) s7))"

definition Get :: "'w ext \<Rightarrow> string \<Rightarrow> 'w sys \<Rightarrow> (Session \<times> (string \<times> int) list option) res \<times> 'w sys" where
  "Get X i s =
     (case on_world (GetByID X i) s of
        (Inl e, s1) \<Rightarrow> (Inl e, s1)
      | (Inr sess, s1) \<Rightarrow>
          (if ss_IsActive sess
           then case on_world (GetStats X i) s1 of
                  (Inl e, s2) \<Rightarrow> (Inl e, s2)
                | (Inr live, s2) \<Rightarrow> (Inr (sess, Some live), s2)
           else (Inr (sess, None), s1)))"

definition ListSessions :: "'w ext \<Rightarrow> int \<Rightarrow> 'w sys \<Rightarrow> Session list res \<times> 'w sys" where
  "ListSessions X limit s = on_world (SessionList X limit) s"

definition DeleteSession :: "'w ext \<Rightarrow> string \<Rightarrow> 'w sys \<Rightarrow> unit res \<times> 'w sys" where
  "DeleteSession X i s =
     (case on_world (GetByID X i) s of
        (Inl e, s1) \<Rightarrow> (Inl e, s1)
      | (Inr sess, s1) \<Rightarrow>
          (if ss_IsActive sess then (Inl ErrSessionStillActive, s1) else on_world (RepoDelete X i) s1))"

definition LiveStats :: "'w ext \<Rightarrow> string \<Rightarrow> 'w sys \<Rightarrow> (string \<times> int) list res \<times> 'w sys" where
  "LiveStats X i s =
     (case on_world (GetByID X i) s of
        (Inl e, s1) \<Rightarrow> (Inl e, s1)
      | (Inr _, s1) \<Rightarrow> on_world (GetStats X i) s1)"

fun resume_all :: "'w ext \<Rightarrow> Session list \<Rightarrow> 'w sys \<Rightarrow> unit res \<times> 'w sys" where
  "resume_all X [] s = (Inr (), s)"
| "resume_all X (sess # rest) s =
     (case cacheParams X sess s of
        (Inl e, s1) \<Rightarrow> (Inl e, s1)
      | (Inr _, s1) \<Rightarrow> resume_all X rest (AddSession (ss_ID sess) s1))"

definition ResumeActive :: "'w ext \<Rightarrow> 'w sys \<Rightarrow> unit res \<times> 'w sys" where
  "ResumeActive X s =
     (case on_world (ListActive X) s of
        (Inl e, s1) \<Rightarrow> (Inl e, s1)
      | (Inr active, s1) \<Rightarrow> resume_all X active s1)"

section \<open>DynamicSchemaService\<close>

text \<open>The non-fatal warning carries the estimate and the limit it exceeds.\<close>

definition SetSchema ::
  "'w ext \<Rightarrow> string \<Rightarrow> SchemaField list \<Rightarrow> 'w sys \<Rightarrow> (DynamicSchema \<times> int \<times> (int \<times> int) option) res \<times> 'w sys" where
  "SetSchema X sessionID flds s =
     (case ValidateSchemaFields flds of Inl e \<Rightarrow> (Inl e, s) | Inr _ \<Rightarrow>
      case on_world (GetByID X sessionID) s of
        (Inl e, s1) \<Rightarrow> (Inl e, s1)
      | (Inr sess, s1) \<Rightarrow>
          (if \<not> ss_IsActive sess then (Inl ErrSessionInactive, s1)
           else case on_world (SchemaCreate X sessionID flds) s1 of
                  (Inl e, s2) \<Rightarrow> (Inl e, s2)
                | (Inr schema, s2) \<Rightarrow>
                    (let estimate = EstimatePackedBytes flds;
                         limit = MaxPayloadBytes (ss_SpreadingFactor sess);
                         warning = (if estimate > limit then Some (estimate, limit) else None);
                         sync = FSchemaSync (schema_sync flds)
                     in (Inr (schema, estimate, warning), to_monitors sessionID sync (to_nodes sessionID sync s2)))))"

definition GetActive :: "'w ext \<Rightarrow> string \<Rightarrow> 'w sys \<Rightarrow> DynamicSchema res \<times> 'w sys" where
  "GetActive X sessionID s = on_world (GetLatest X sessionID) s"

end
