(* ===== verification/Engine.thy ===== *)
theory Engine
  imports Sessions
begin

text \<open>
  The virtual ether, \<^verbatim>\<open>service/simulation_engine.go\<close>: every frame a ship transmits goes through
  \<open>HandleTransmit\<close>, every acknowledgement through \<open>HandleAck\<close>, every position through
  \<open>HandlePing\<close>.  \<open>HandleTransmit\<close> is written as its stages: \<open>transmit_checked\<close> from the byte limit
  to the positions, \<open>resolve_target\<close>, and \<open>propagate\<close> from the dice to the delivery.  Error texts
  with formatted numbers are given without them; log lines are left out.
\<close>

definition SessionActive :: "'w ext \<Rightarrow> string \<Rightarrow> 'w sys \<Rightarrow> bool \<times> 'w sys" where
  "SessionActive X sessionID s =
     (case on_world (GetParams X sessionID) s of (r, s1) \<Rightarrow> (is_ok r, s1))"

section \<open>Events, drops and rejections\<close>

definition blank_event :: PacketEvent where
  "blank_event =
     \<lparr>pe_Event = [], pe_Type = [], pe_PacketID = [], pe_FromNode = [], pe_ToNode = [], pe_OriginNode = [],
      pe_HopCount = 0, pe_DistanceKm = 0, pe_LossProbability = 0, pe_Reason = [], pe_At = 0\<rparr>"

definition emitPacketEvent :: "'w ext \<Rightarrow> string \<Rightarrow> PacketEvent \<Rightarrow> 'w sys \<Rightarrow> 'w sys" where
  "emitPacketEvent X sessionID ev s =
     (let (now, s1) = on_world (xClock X) s
      in to_monitors sessionID (FPacketEvent (ev\<lparr>pe_Event := EvPacketEvent, pe_At := now\<rparr>)) s1)"

definition reject :: "'w ext \<Rightarrow> string \<Rightarrow> string \<Rightarrow> string \<Rightarrow> string \<Rightarrow> 'w sys \<Rightarrow> 'w sys" where
  "reject X sessionID senderNodeID code msg s =
     send_node sessionID senderNodeID (errorEvent code msg) (incr X sessionID StatDroppedInvalid s)"

text \<open>\<open>pkt.Transmitter()\<close> does not panic here: \<open>drop\<close> runs on validated packets only.\<close>

definition from_node :: "TransmitPacket \<Rightarrow> string" where
  "from_node pkt = (case Transmitter pkt of Some t \<Rightarrow> t | None \<Rightarrow> [])"

definition packet_event :: "string \<Rightarrow> TransmitPacket \<Rightarrow> TraversalVerdict option \<Rightarrow> string \<Rightarrow> PacketEvent" where
  "packet_event typ pkt verdict reason =
     blank_event\<lparr>pe_Type := typ, pe_PacketID := pk_PacketID pkt, pe_FromNode := from_node pkt,
       pe_ToNode := pk_TargetParent pkt, pe_OriginNode := pk_OriginNode pkt, pe_HopCount := pk_HopCount pkt,
       pe_DistanceKm := (case verdict of Some v \<Rightarrow> tv_DistanceKm v | None \<Rightarrow> 0),
       pe_LossProbability := (case verdict of Some v \<Rightarrow> tv_LossPercent v | None \<Rightarrow> 0), pe_Reason := reason\<rparr>"

definition drop_frame ::
  "'w ext \<Rightarrow> string \<Rightarrow> TransmitPacket \<Rightarrow> string \<Rightarrow> string \<Rightarrow> TraversalVerdict option \<Rightarrow> 'w sys \<Rightarrow> 'w sys" where
  "drop_frame X sessionID pkt reason statField verdict s =
     emitPacketEvent X sessionID (packet_event PktDrop pkt verdict reason) (incr X sessionID statField s)"

section \<open>node:ping\<close>

definition HandlePing :: "'w ext \<Rightarrow> duration \<Rightarrow> string \<Rightarrow> string \<Rightarrow> real \<Rightarrow> real \<Rightarrow> 'w sys \<Rightarrow> 'w sys" where
  "HandlePing X pingMinInterval sessionID nodeID lat lng s =
     (if lat < -90 \<or> lat > 90 \<or> lng < -180 \<or> lng > 180
      then send_node sessionID nodeID (errorEvent ''invalid_coordinates'' ''out of range'') s
      else case on_world (AllowPing X sessionID nodeID pingMinInterval) s of
             (Inl _, s1) \<Rightarrow> s1
           | (Inr allowed, s1) \<Rightarrow>
               (if \<not> allowed then incr X sessionID StatPingsRateLimited s1
                else case on_world (UpsertPosition X sessionID nodeID lat lng) s1 of
                       (Inl _, s2) \<Rightarrow> s2
                     | (Inr _, s2) \<Rightarrow>
                         to_monitors sessionID
                           (FNodePing \<lparr>ng_Event = EvNodePing, ng_NodeID = nodeID, ng_SessionID = sessionID,
                                       ng_Lat = lat, ng_Lng = lng\<rparr>)
                           (incr X sessionID StatPingsAccepted s2)))"

section \<open>Delivery\<close>

definition mesh_ack :: "string \<Rightarrow> string \<Rightarrow> string \<Rightarrow> bool \<Rightarrow> frame" where
  "mesh_ack packetID receiver status duplicate =
     FMeshAck \<lparr>ma_Event = EvMeshAck, ma_PacketID = packetID, ma_ReceiverNode = receiver, ma_Status = status,
               ma_Duplicate = duplicate\<rparr>"

definition roll :: "'w ext \<Rightarrow> real \<Rightarrow> SessionParams \<Rightarrow> 'w sys \<Rightarrow> TraversalVerdict \<times> 'w sys" where
  "roll X distKm params s = on_world (Evaluate (xRand X) distKm params) s"

definition handleDuplicate ::
  "'w ext \<Rightarrow> string \<Rightarrow> TransmitPacket \<Rightarrow> string \<Rightarrow> real \<Rightarrow> SessionParams \<Rightarrow> TraversalVerdict \<Rightarrow> 'w sys \<Rightarrow> 'w sys" where
  "handleDuplicate X sessionID pkt transmitter distKm params verdict s =
     (let s1 = incr X sessionID StatDuplicatesFiltered s;
          s2 = emitPacketEvent X sessionID
                 ((packet_event PktDuplicate pkt (Some verdict) ''duplicate retry filtered'')\<lparr>pe_FromNode := transmitter\<rparr>) s1;
          (back, s3) = roll X distKm params s2
      in if tv_Dropped back then incr X sessionID StatAcksDropped s3
         else send_node sessionID transmitter
                (mesh_ack (pk_PacketID pkt) (pk_TargetParent pkt) ''received'' True) s3)"

definition forwardToNode ::
  "'w ext \<Rightarrow> string \<Rightarrow> TransmitPacket \<Rightarrow> string \<Rightarrow> TraversalVerdict \<Rightarrow> 'w sys \<Rightarrow> 'w sys" where
  "forwardToNode X sessionID pkt transmitter verdict s =
     (let s1 = snd (on_world (RememberAckSender X sessionID (pk_PacketID pkt) (pk_TargetParent pkt) transmitter) s);
          s2 = send_node sessionID (pk_TargetParent pkt) (FReceiveRF (pkt\<lparr>pk_Event := EvMeshReceiveRF\<rparr>)) s1;
          s3 = incr X sessionID StatForwardedToNode s2
      in emitPacketEvent X sessionID
           ((packet_event PktForward pkt (Some verdict) [])\<lparr>pe_FromNode := transmitter\<rparr>) s3)"

definition raw_payload :: "TransmitPacket \<Rightarrow> jmap" where
  "raw_payload pkt = [(''_raw_b64'', JText (pk_BinaryPayloadB64 pkt))]"

definition unpack :: "'w ext \<Rightarrow> string \<Rightarrow> TransmitPacket \<Rightarrow> bytes \<Rightarrow> 'w sys \<Rightarrow> jmap \<times> 'w sys" where
  "unpack X sessionID pkt payload s =
     (case GetActive X sessionID s of
        (Inl _, s1) \<Rightarrow> (raw_payload pkt, s1)
      | (Inr schema, s1) \<Rightarrow>
          (let (dec, problems) =
                 DecodePayload (xUnmarshalMap X) (xUnmarshalArray X) (xFloatToInt X) payload (ds_Fields schema);
               decoded = (case dec of Some d \<Rightarrow> map (\<lambda>(k, v). (k, JVal v)) d | None \<Rightarrow> raw_payload pkt)
           in (if problems \<noteq> [] then AList.update ''_schema_problems'' (JProblems problems) decoded else decoded, s1)))"

definition telemetry_row :: "string \<Rightarrow> TransmitPacket \<Rightarrow> Edge \<Rightarrow> jmap \<Rightarrow> TelemetryLog" where
  "telemetry_row sessionID pkt edge decoded =
     \<lparr>tl_ID = 0, tl_SessionID = sessionID, tl_OriginNodeID = pk_OriginNode pkt, tl_EdgeID = Some (ed_ID edge),
      tl_EdgeCode = ed_EdgeCode edge, tl_EdgeActive = False, tl_HopCount = pk_HopCount pkt,
      tl_RoutingPath = PathString pkt (ed_EdgeCode edge), tl_DecodedPayload = decoded, tl_ArrivedAt = 0\<rparr>"

definition ack_event :: "string \<Rightarrow> string \<Rightarrow> string \<Rightarrow> string \<Rightarrow> PacketEvent" where
  "ack_event typ packetID fromNode toNode =
     blank_event\<lparr>pe_Type := typ, pe_PacketID := packetID, pe_FromNode := fromNode, pe_ToNode := toNode\<rparr>"

text \<open>The acknowledgement on its way back through the air, shared by \<open>deliverToEdge\<close> and \<open>HandleAck\<close>.\<close>

definition return_ack ::
  "'w ext \<Rightarrow> string \<Rightarrow> string \<Rightarrow> string \<Rightarrow> string \<Rightarrow> string \<Rightarrow> TraversalVerdict \<Rightarrow> 'w sys \<Rightarrow> 'w sys" where
  "return_ack X sessionID packetID receiver transmitter status back s =
     (if tv_Dropped back then
        emitPacketEvent X sessionID
          ((ack_event PktAckDrop packetID receiver transmitter)
             \<lparr>pe_DistanceKm := tv_DistanceKm back, pe_LossProbability := tv_LossPercent back,
              pe_Reason := ''ack lost in the air''\<rparr>)
          (incr X sessionID StatAcksDropped s)
      else
        emitPacketEvent X sessionID (ack_event PktAck packetID receiver transmitter)
          (incr X sessionID StatAcksRelayed
             (send_node sessionID transmitter (mesh_ack packetID receiver status False) s)))"

definition deliverToEdge ::
  "'w ext \<Rightarrow> string \<Rightarrow> TransmitPacket \<Rightarrow> bytes \<Rightarrow> Edge \<Rightarrow> string \<Rightarrow> real \<Rightarrow> SessionParams \<Rightarrow> TraversalVerdict \<Rightarrow>
   'w sys \<Rightarrow> 'w sys" where
  "deliverToEdge X sessionID pkt payload edge transmitter distKm params verdict s =
     (let (decoded, s1) = unpack X sessionID pkt payload s;
          s2 = snd (on_world (TelemetryInsert X (telemetry_row sessionID pkt edge decoded)) s1);
          s3 = incr X sessionID StatDeliveredToEdge s2;
          s4 = emitPacketEvent X sessionID
                 ((packet_event PktDeliver pkt (Some verdict) [])
                    \<lparr>pe_FromNode := transmitter, pe_ToNode := ed_EdgeCode edge\<rparr>) s3;
          (back, s5) = roll X distKm params s4
      in return_ack X sessionID (pk_PacketID pkt) (ed_EdgeCode edge) transmitter ''received'' back s5)"

section \<open>node:transmit\<close>

definition propagate ::
  "'w ext \<Rightarrow> string \<Rightarrow> TransmitPacket \<Rightarrow> bytes \<Rightarrow> Edge option \<Rightarrow> string \<Rightarrow> real \<Rightarrow> SessionParams \<Rightarrow> 'w sys \<Rightarrow> 'w sys" where
  "propagate X sessionID pkt payload edge transmitter distKm params s =
     (let (verdict, s1) = roll X distKm params s in
      if tv_Dropped verdict then
        (if tv_OutOfRange verdict
         then drop_frame X sessionID pkt ''out_of_range'' StatDroppedOutOfRange (Some verdict) s1
         else drop_frame X sessionID pkt ''air_loss'' StatDroppedAirLoss (Some verdict) s1)
      else case on_world (MarkPacketSeen X sessionID (pk_PacketID pkt) (pk_TargetParent pkt)) s1 of
             (Inl _, s2) \<Rightarrow> s2
           | (Inr firstTime, s2) \<Rightarrow>
               (if \<not> firstTime then handleDuplicate X sessionID pkt transmitter distKm params verdict s2
                else case edge of
                       Some e \<Rightarrow> deliverToEdge X sessionID pkt payload e transmitter distKm params verdict s2
                     | None \<Rightarrow> forwardToNode X sessionID pkt transmitter verdict s2))"

text \<open>The coordinates of the target, or \<open>None\<close> when the handler has returned.\<close>

definition resolve_target ::
  "'w ext \<Rightarrow> string \<Rightarrow> TransmitPacket \<Rightarrow> Edge option \<Rightarrow> 'w sys \<Rightarrow> (real \<times> real) option \<times> 'w sys" where
  "resolve_target X sessionID pkt edge s =
     (case edge of
        Some e \<Rightarrow> (Some (ed_Latitude e, ed_Longitude e), s)
      | None \<Rightarrow>
          (if \<not> NodeOnline sessionID (pk_TargetParent pkt) (sy_hub s)
           then (None, drop_frame X sessionID pkt ''target_offline'' StatDroppedTargetOffline None s)
           else case on_world (Position X sessionID (pk_TargetParent pkt)) s of
                  (Inl ErrNotFound, s1) \<Rightarrow>
                    (None, drop_frame X sessionID pkt ''target_no_position'' StatDroppedNoPosition None s1)
                | (Inl _, s1) \<Rightarrow> (None, s1)
                | (Inr tPos, s1) \<Rightarrow> (Some (np_Lat tPos, np_Lng tPos), s1)))"

definition transmit_checked ::
  "'w ext \<Rightarrow> string \<Rightarrow> TransmitPacket \<Rightarrow> string \<Rightarrow> bytes \<Rightarrow> SessionParams \<Rightarrow> 'w sys \<Rightarrow> 'w sys" where
  "transmit_checked X sessionID pkt transmitter payload params s =
     (if int (length payload) > MaxPayloadBytes (sp_SpreadingFactor params)
      then drop_frame X sessionID pkt ''sf_limit_exceeded'' StatDroppedSFLimit None s
      else if pk_HopCount pkt > MaxHops
      then drop_frame X sessionID pkt ''max_hops_exceeded'' StatDroppedMaxHops None s
      else case edgeCache_get X (pk_TargetParent pkt) s of
             (Inl _, s1) \<Rightarrow> s1
           | (Inr edge, s1) \<Rightarrow>
               (case on_world (Position X sessionID transmitter) s1 of
                  (Inl ErrNotFound, s2) \<Rightarrow>
                    drop_frame X sessionID pkt ''transmitter_no_position'' StatDroppedNoPosition None s2
                | (Inl _, s2) \<Rightarrow> s2
                | (Inr txPos, s2) \<Rightarrow>
                    (case resolve_target X sessionID pkt edge s2 of
                       (None, s3) \<Rightarrow> s3
                     | (Some (lat, lng), s3) \<Rightarrow>
                         propagate X sessionID pkt payload edge transmitter
                           (HaversineKm (np_Lat txPos) (np_Lng txPos) lat lng) params s3)))"

definition HandleTransmit :: "'w ext \<Rightarrow> string \<Rightarrow> string \<Rightarrow> TransmitPacket \<Rightarrow> 'w sys \<Rightarrow> 'w sys" where
  "HandleTransmit X sessionID senderNodeID pkt s =
     (case (Validate pkt, Transmitter pkt) of
        (Inr _, Some transmitter) \<Rightarrow>
          (if transmitter \<noteq> senderNodeID
           then reject X sessionID senderNodeID ''transmitter_mismatch'' ''routing_path ends with another node'' s
           else case DecodeString (pk_BinaryPayloadB64 pkt) of
             None \<Rightarrow> reject X sessionID senderNodeID ''invalid_base64'' ''illegal base64 data'' s
           | Some payload \<Rightarrow>
               (case on_world (GetParams X sessionID) s of
                  (Inl _, s1) \<Rightarrow>
                    send_node sessionID senderNodeID
                      (errorEvent ''session_unavailable'' ''session parameters missing; was the session stopped?'') s1
                | (Inr params, s1) \<Rightarrow>
                    transmit_checked X sessionID pkt transmitter payload params (incr X sessionID StatTransmitTotal s1)))
      | (Inr _, None) \<Rightarrow> s  \<comment> \<open>the panic of \<open>Transmitter\<close>, excluded by \<open>Validate\<close>\<close>
      | (Inl _, _) \<Rightarrow> reject X sessionID senderNodeID ''invalid_envelope'' ''validation error'' s)"

section \<open>node:ack\<close>

definition HandleAck :: "'w ext \<Rightarrow> string \<Rightarrow> string \<Rightarrow> NodeAck \<Rightarrow> 'w sys \<Rightarrow> 'w sys" where
  "HandleAck X sessionID receiverNodeID ack s =
     (if na_PacketID ack = [] then s
      else case on_world (TakeAckSender X sessionID (na_PacketID ack) receiverNodeID) s of
             (Inl ErrNotFound, s1) \<Rightarrow> incr X sessionID StatAcksStale s1
           | (Inl _, s1) \<Rightarrow> s1
           | (Inr sender, s1) \<Rightarrow>
               (case on_world (GetParams X sessionID) s1 of
                  (Inl _, s2) \<Rightarrow> s2
                | (Inr params, s2) \<Rightarrow>
                    (let (rx, s3) = on_world (Position X sessionID receiverNodeID) s2;
                         (tx, s4) = on_world (Position X sessionID sender) s3
                     in case (rx, tx) of
                          (Inr rxPos, Inr txPos) \<Rightarrow>
                            (let distKm = HaversineKm (np_Lat rxPos) (np_Lng rxPos) (np_Lat txPos) (np_Lng txPos);
                                 (verdict, s5) = roll X distKm params s4;
                                 status = (if na_Status ack = [] then ''received'' else na_Status ack)
                             in return_ack X sessionID (na_PacketID ack) receiverNodeID sender status verdict s5)
                        | _ \<Rightarrow> incr X sessionID StatAcksDropped s4)))"

section \<open>Connections\<close>

definition node_status :: "string \<Rightarrow> bool \<Rightarrow> frame" where
  "node_status nodeID online = FNodeStatus \<lparr>ns_Event = EvNodeStatus, ns_NodeID = nodeID, ns_Online = online\<rparr>"

definition push_params :: "'w ext \<Rightarrow> string \<Rightarrow> (frame \<Rightarrow> 'w sys \<Rightarrow> 'w sys) \<Rightarrow> 'w sys \<Rightarrow> 'w sys" where
  "push_params X sessionID send s =
     (case on_world (GetParams X sessionID) s of
        (Inr params, s1) \<Rightarrow> send (FEnvSync (EnvParamsFrom params)) s1
      | (Inl _, s1) \<Rightarrow> s1)"

definition NodeConnected :: "'w ext \<Rightarrow> string \<Rightarrow> string \<Rightarrow> 'w sys \<Rightarrow> 'w sys" where
  "NodeConnected X sessionID nodeID s =
     (let s1 = push_params X sessionID (send_node sessionID nodeID)
                 (to_monitors sessionID (node_status nodeID True) s);
          s2 = (case GetActive X sessionID s1 of
                  (Inr schema, s2) \<Rightarrow> send_node sessionID nodeID (FSchemaSync (schema_sync (ds_Fields schema))) s2
                | (Inl _, s2) \<Rightarrow> s2)
      in case CurrentRoute X sessionID nodeID s2 of
           (Inr route, s3) \<Rightarrow> send_node sessionID nodeID (FRoutingUpdate (routing_update route (re_DistanceKm route))) s3
         | (Inl _, s3) \<Rightarrow> s3)"

definition NodeDisconnected :: "'w ext \<Rightarrow> string \<Rightarrow> string \<Rightarrow> 'w sys \<Rightarrow> 'w sys" where
  "NodeDisconnected X sessionID nodeID s =
     to_monitors sessionID (node_status nodeID False) (snd (on_world (RemoveNode X sessionID nodeID) s))"

definition MonitorConnected :: "'w ext \<Rightarrow> string \<Rightarrow> (frame \<Rightarrow> 'w sys \<Rightarrow> 'w sys) \<Rightarrow> 'w sys \<Rightarrow> 'w sys" where
  "MonitorConnected X sessionID send s =
     (case Snapshot X sessionID (push_params X sessionID send s) of
        (Inr snap, s2) \<Rightarrow> send (FRoutingTable \<lparr>rt_Event = EvMeshRoutingUpdate, rt_Routes = ts_Routes snap\<rparr>) s2
      | (Inl _, s2) \<Rightarrow> s2)"

section \<open>Quiet steps\<close>

text \<open>
  Most of what a handler does delivers nothing: it counts, reports to the observers, sends control
  frames.  \<open>quiet view K s s'\<close>: no connection changed, no ship received a data frame
  (\<open>mesh:receive_rf\<close>), no table changed, and no Redis key outside \<open>K\<close>.
\<close>

fun is_rf :: "frame \<Rightarrow> bool" where
  "is_rf (FReceiveRF _) = True"
| "is_rf _ = False"

definition rfbox :: "'w sys \<Rightarrow> string \<Rightarrow> string \<Rightarrow> frame list option" where
  "rfbox s i n = map_option (filter is_rf) (shipbox s i n)"

definition quiet :: "('w \<Rightarrow> store) \<Rightarrow> string set \<Rightarrow> 'w sys \<Rightarrow> 'w sys \<Rightarrow> bool" where
  "quiet view K s s' \<longleftrightarrow>
     (sys_inv s \<longrightarrow> same_registry (sy_hub s) (sy_hub s') \<and> (\<forall>i n. rfbox s' i n = rfbox s i n)) \<and>
     calm K (view (sy_world s)) (view (sy_world s'))"

lemma quiet_refl [simp]: "quiet view K s s"
  by (simp add: quiet_def)

lemma quiet_trans: "quiet view K s s' \<Longrightarrow> quiet view K s' s'' \<Longrightarrow> quiet view K s s''"
  unfolding quiet_def by (metis calm_trans hub_inv_same same_registry_trans)

lemma quiet_mono: "quiet view K s s' \<Longrightarrow> K \<subseteq> L \<Longrightarrow> quiet view L s s'"
  unfolding quiet_def using calm_mono by blast

lemma quiet_calm: "quiet view K s s' \<Longrightarrow> calm K (view (sy_world s)) (view (sy_world s'))"
  by (simp add: quiet_def)

lemma quiet_inv: "quiet view K s s' \<Longrightarrow> sys_inv s \<Longrightarrow> sys_inv s'"
  unfolding quiet_def by (blast intro: hub_inv_same)

lemma quiet_same_hub: "sy_hub s' = sy_hub s \<Longrightarrow> calm K (view (sy_world s)) (view (sy_world s')) \<Longrightarrow> quiet view K s s'"
  by (simp add: quiet_def rfbox_def)

lemma quiet_world:
  "(\<And>w. calm K (view w) (view (snd (f w)))) \<Longrightarrow> quiet view K s (snd (on_world f s))"
  by (rule quiet_same_hub) simp_all

lemma quiet_send: "\<not> is_rf f \<Longrightarrow> quiet view K s (send_node i n f s)"
  by (auto simp: quiet_def rfbox_def SendToNode_inbox broadcast_registry option.map_comp comp_def)

lemma quiet_monitors: "quiet view K s (to_monitors i f s)"
  by (simp add: quiet_def rfbox_def broadcast_registry)

lemma repo_calm_any:
  assumes "redis_ok F view X"
  shows "keyStats i \<in> K \<Longrightarrow> calm K (view w) (view (snd (IncrStat X i g w)))"
    "calm K (view w) (view (snd (GetParams X i w)))" "calm K (view w) (view (snd (Position X i n w)))"
    "calm K (view w) (view (snd (GetRoute X i n w)))" "calm K (view w) (view (snd (GetTable X i w)))"
    "calm K (view w) (view (snd (AllPositions X i w)))"
    "keyDedup i p r \<in> K \<Longrightarrow> calm K (view w) (view (snd (MarkPacketSeen X i p r w)))"
    "keyAckSender i p r \<in> K \<Longrightarrow> calm K (view w) (view (snd (RememberAckSender X i p r snr w)))"
    "keyAckSender i p r \<in> K \<Longrightarrow> calm K (view w) (view (snd (TakeAckSender X i p r w)))"
    "keyPingLimit i n \<in> K \<Longrightarrow> calm K (view w) (view (snd (AllowPing X i n d w)))"
    "keyGeo i \<in> K \<Longrightarrow> calm K (view w) (view (snd (UpsertPosition X i n la lo w)))"
    "keyGeo i \<in> K \<Longrightarrow> calm K (view w) (view (snd (RemoveNode X i n w)))"
  by (rule calm_mono, rule repo_calm [OF assms], simp)+

lemma quiet_incr: "redis_ok F view X \<Longrightarrow> keyStats i \<in> K \<Longrightarrow> quiet view K s (incr X i g s)"
  unfolding incr_def by (rule quiet_world) (rule repo_calm_any)

lemma calm_empty: "calm {} st st' \<Longrightarrow> calm K st st'"
  by (rule calm_mono [OF _ empty_subsetI])

lemma quiet_emit:
  assumes "env_ok view X"
  shows "quiet view K s (emitPacketEvent X i ev s)"
proof -
  have "quiet view K s (snd (on_world (xClock X) s))"
    by (rule quiet_world, rule calm_empty, rule env_calm [OF assms])
  then show ?thesis
    unfolding emitPacketEvent_def case_prod_beta Let_def by (rule quiet_trans) (rule quiet_monitors)
qed

lemma Evaluate_world: "snd (Evaluate rnd d p w) = snd (rnd w)"
  by (simp add: Evaluate_def Let_def case_prod_beta)

lemma quiet_roll: "env_ok view X \<Longrightarrow> quiet view K s (snd (roll X d p s))"
  unfolding roll_def by (rule quiet_world) (simp add: Evaluate_world calm_empty env_calm)

lemma ext_parts: "ext_ok F view X \<Longrightarrow> redis_ok F view X" "ext_ok F view X \<Longrightarrow> sql_ok F view X" "ext_ok F view X \<Longrightarrow> env_ok view X"
  "ext_ok F view X \<Longrightarrow> uuid_column X"
  by (simp_all add: ext_ok_def)

lemma quiet_drop:
  "ext_ok F view X \<Longrightarrow> keyStats i \<in> K \<Longrightarrow> quiet view K s (drop_frame X i pkt reason g v s)"
  unfolding drop_frame_def by (blast intro: quiet_trans quiet_incr quiet_emit ext_parts)

lemma quiet_reject:
  "ext_ok F view X \<Longrightarrow> keyStats i \<in> K \<Longrightarrow> quiet view K s (reject X i n code msg s)"
  unfolding reject_def
  by (rule quiet_trans [OF quiet_incr [OF ext_parts(1)] quiet_send]) (simp_all add: errorEvent_def)

lemma quiet_return_ack:
  assumes "ext_ok F view X" "keyStats i \<in> K"
  shows "quiet view K s (return_ack X i p r t status v s)"
proof -
  have "\<not> is_rf (mesh_ack p r status False)" by (simp add: mesh_ack_def)
  then show ?thesis
    unfolding return_ack_def using assms ext_parts
    by (auto intro!: quiet_trans [OF _ quiet_emit] quiet_trans [OF quiet_send quiet_incr] quiet_incr)
qed

lemma quiet_duplicate:
  assumes "ext_ok F view X" "keyStats i \<in> K"
  shows "quiet view K s (handleDuplicate X i pkt t d p v s)"
proof -
  note e = ext_parts [OF assms(1)]
  define s2 where "s2 = emitPacketEvent X i
    ((packet_event PktDuplicate pkt (Some v) ''duplicate retry filtered'')\<lparr>pe_FromNode := t\<rparr>) (incr X i StatDuplicatesFiltered s)"
  have "quiet view K s s2"
    unfolding s2_def by (rule quiet_trans [OF quiet_incr [OF e(1) assms(2)] quiet_emit [OF e(3)]])
  then have "quiet view K s (snd (roll X d p s2))" by (rule quiet_trans) (rule quiet_roll [OF e(3)])
  moreover have "\<not> is_rf (mesh_ack (pk_PacketID pkt) (pk_TargetParent pkt) ''received'' True)" by (simp add: mesh_ack_def)
  ultimately show ?thesis
    unfolding handleDuplicate_def Let_def s2_def [symmetric] case_prod_beta
    by (auto intro: quiet_trans quiet_incr [OF e(1) assms(2)] quiet_send)
qed

lemma quiet_edgeCache: "ext_ok F view X \<Longrightarrow> quiet view K s (snd (edgeCache_get X code s))"
  by (rule quiet_same_hub) (simp_all add: edgeCache_get_hub calm_empty edgeCache_get_calm)

lemma quiet_Position: "ext_ok F view X \<Longrightarrow> quiet view K s (snd (on_world (Position X i n) s))"
  by (rule quiet_world) (rule repo_calm_any [OF ext_parts(1)])

lemma quiet_GetParams: "ext_ok F view X \<Longrightarrow> quiet view K s (snd (on_world (GetParams X i) s))"
  by (rule quiet_world) (rule repo_calm_any [OF ext_parts(1)])

lemma quiet_resolve:
  assumes "ext_ok F view X" "keyStats i \<in> K"
  shows "quiet view K s (snd (resolve_target X i pkt edge s))"
proof (cases edge)
  case None
  obtain r s1 where p: "on_world (Position X i (pk_TargetParent pkt)) s = (r, s1)" by force
  have q: "quiet view K s s1" using quiet_Position [OF assms(1), of K s i "pk_TargetParent pkt"] p by simp
  note q2 = quiet_trans [OF q quiet_drop [OF assms]]
  show ?thesis
    using q q2 quiet_drop [OF assms] by (auto simp: resolve_target_def None p split: sum.splits gerr.splits)
qed (simp add: resolve_target_def)

lemma Position_Inr:
  assumes "redis_ok F view X" "Position X i n w = (Inr p, w')"
  shows "map_of (geo_at (view w) (keyGeo i)) n = Some (np_Lat p, np_Lng p)"
proof -
  obtain ps where v: "rGeoPos X (keyGeo i) [n] w = (Inr ps, w')"
    using assms(2) by (auto simp: Position_def split: prod.splits sum.splits)
  obtain t where "ref_GeoPos (keyGeo i) [n] (at_time t (view w)) = (Inr ps, view w')"
    using implements_Inr [OF redis_okD(12) [OF assms(1)] v] .
  then have "ps = [map_of (geo_at (view w) (keyGeo i)) n]" by (auto simp: ref_GeoPos_def split: if_splits)
  then show ?thesis using assms(2) v by (auto simp: Position_def split: option.splits)
qed

section \<open>The two ways a transmission can end\<close>

text \<open>Everything that has to hold before a frame reaches a receiver.\<close>

definition target_reached ::
  "('w \<Rightarrow> store) \<Rightarrow> string \<Rightarrow> string \<Rightarrow> Edge option \<Rightarrow> real \<Rightarrow> real \<Rightarrow> real \<Rightarrow> 'w sys \<Rightarrow> bool" where
  "target_reached view i target edge la lo distKm s \<longleftrightarrow>
     (case edge of
        Some e \<Rightarrow> known_edge view target e s \<and> distKm = HaversineKm la lo (ed_Latitude e) (ed_Longitude e)
      | None \<Rightarrow> NodeOnline i target (sy_hub s) \<and>
                (\<exists>la' lo'. map_of (geo_at (view (sy_world s)) (keyGeo i)) target = Some (la', lo') \<and>
                   distKm = HaversineKm la lo la' lo'))"

definition on_air ::
  "('w \<Rightarrow> store) \<Rightarrow> string \<Rightarrow> string \<Rightarrow> TransmitPacket \<Rightarrow> bytes \<Rightarrow> SessionParams \<Rightarrow> Edge option \<Rightarrow> real \<Rightarrow>
   'w sys \<Rightarrow> bool" where
  "on_air view i sender pkt payload params edge distKm s \<longleftrightarrow>
     Validate pkt = Inr () \<and> Transmitter pkt = Some sender \<and> DecodeString (pk_BinaryPayloadB64 pkt) = Some payload \<and>
     stored_params (view (sy_world s)) i = Some params \<and>
     int (length payload) \<le> MaxPayloadBytes (sp_SpreadingFactor params) \<and> pk_HopCount pkt \<le> MaxHops \<and>
     (\<exists>la lo. map_of (geo_at (view (sy_world s)) (keyGeo i)) sender = Some (la, lo) \<and>
        target_reached view i (pk_TargetParent pkt) edge la lo distKm s) \<and>
     distKm \<le> MaxRangeKm (sp_TxPowerDbm params)"

lemma geo_at_calm: "calm K st st' \<Longrightarrow> k \<notin> K \<Longrightarrow> geo_at st' k = geo_at st k"
  by (rule geo_at_keeps [OF calm_keeps])

lemma NodeOnline_quiet: "quiet view K s s' \<Longrightarrow> sys_inv s \<Longrightarrow> NodeOnline i n (sy_hub s') = NodeOnline i n (sy_hub s)"
  by (simp add: quiet_def same_registry_lookup)

text \<open>Where the target is, when the handler goes on.\<close>

lemma resolved_target:
  assumes X: "ext_ok F view X" and q: "quiet view K s s2" and inv: "sys_inv s" and K: "keyGeo i \<notin> K"
    and t: "resolve_target X i pkt edge s2 = (Some (lat, lng), s3)"
    and known: "\<And>ed. edge = Some ed \<Longrightarrow> known_edge view (pk_TargetParent pkt) ed s"
  shows "target_reached view i (pk_TargetParent pkt) edge x y (HaversineKm x y lat lng) s"
proof (cases edge)
  case (Some ed)
  then show ?thesis using t known by (auto simp: resolve_target_def target_reached_def)
next
  case None
  have on: "NodeOnline i (pk_TargetParent pkt) (sy_hub s2)"
    using t None by (auto simp: resolve_target_def split: if_splits)
  then obtain tPos w' where tp: "Position X i (pk_TargetParent pkt) (sy_world s2) = (Inr tPos, w')" "lat = np_Lat tPos" "lng = np_Lng tPos"
    using t None by (auto simp: resolve_target_def on_world_def split: sum.splits gerr.splits if_splits prod.splits) (metis prod.collapse)
  then have "map_of (geo_at (view (sy_world s)) (keyGeo i)) (pk_TargetParent pkt) = Some (lat, lng)"
    using Position_Inr [OF ext_parts(1) [OF X] tp(1)] geo_at_calm [OF quiet_calm [OF q] K] by simp
  then show ?thesis using on None NodeOnline_quiet [OF q inv] by (simp add: target_reached_def)
qed

lemma transmit_checked_cases:
  assumes X: "ext_ok F view X" and K: "keyStats i \<in> K" "keyGeo i \<notin> K" and inv: "sys_inv s"
  obtains (silent) "quiet view K s (transmit_checked X i pkt t payload params s)"
  | (air) edge la lo distKm s' where
      "transmit_checked X i pkt t payload params s = propagate X i pkt payload edge t distKm params s'"
      "quiet view K s s'" "int (length payload) \<le> MaxPayloadBytes (sp_SpreadingFactor params)" "pk_HopCount pkt \<le> MaxHops"
      "map_of (geo_at (view (sy_world s)) (keyGeo i)) t = Some (la, lo)"
      "target_reached view i (pk_TargetParent pkt) edge la lo distKm s"
proof (cases "int (length payload) > MaxPayloadBytes (sp_SpreadingFactor params) \<or> pk_HopCount pkt > MaxHops")
  case True
  then have "quiet view K s (transmit_checked X i pkt t payload params s)"
    using quiet_drop [OF X K(1)] by (auto simp: transmit_checked_def)
  then show ?thesis by (rule silent)
next
  case small: False
  obtain r1 s1 where e: "edgeCache_get X (pk_TargetParent pkt) s = (r1, s1)" by force
  obtain r2 s2 where p: "on_world (Position X i t) s1 = (r2, s2)" by force
  have q1: "quiet view K s s1" using quiet_edgeCache [OF X, of K s "pk_TargetParent pkt"] e by simp
  have q12: "quiet view K s1 s2" using quiet_Position [OF X, of K s1 i t] p by simp
  note q2 = quiet_trans [OF q1 q12]
  have eq: "transmit_checked X i pkt t payload params s =
      (case r1 of Inl _ \<Rightarrow> s1
       | Inr edge \<Rightarrow>
           (case r2 of
              Inl ErrNotFound \<Rightarrow> drop_frame X i pkt ''transmitter_no_position'' StatDroppedNoPosition None s2
            | Inl _ \<Rightarrow> s2
            | Inr txPos \<Rightarrow>
                (case resolve_target X i pkt edge s2 of
                   (None, s3) \<Rightarrow> s3
                 | (Some (lat, lng), s3) \<Rightarrow>
                     propagate X i pkt payload edge t (HaversineKm (np_Lat txPos) (np_Lng txPos) lat lng) params s3)))"
    using small by (auto simp: transmit_checked_def e p split: sum.splits gerr.splits)
  show ?thesis
  proof (cases "\<exists>edge txPos. r1 = Inr edge \<and> r2 = Inr txPos")
    case False
    then have "quiet view K s (transmit_checked X i pkt t payload params s)"
      using q1 q2 quiet_trans [OF q2 quiet_drop [OF X K(1)]] by (auto simp: eq split: sum.splits gerr.splits)
    then show ?thesis by (rule silent)
  next
    case True
    then obtain edge txPos where r: "r1 = Inr edge" "r2 = Inr txPos" by blast
    obtain tgt s3 where t: "resolve_target X i pkt edge s2 = (tgt, s3)" by force
    have q3: "quiet view K s s3"
      using quiet_trans [OF q2 quiet_resolve [OF X K(1), of s2 pkt edge]] t by simp
    show ?thesis
    proof (cases tgt)
      case None
      then show ?thesis using silent q3 by (simp add: eq r t)
    next
      case (Some c)
      obtain lat lng where c: "c = (lat, lng)" by (cases c)
      have pos: "map_of (geo_at (view (sy_world s)) (keyGeo i)) t = Some (np_Lat txPos, np_Lng txPos)"
      proof -
        obtain w' where "Position X i t (sy_world s1) = (Inr txPos, w')"
          using p r by (metis on_worldE)
        from Position_Inr [OF ext_parts(1) [OF X] this]
        show ?thesis using geo_at_calm [OF quiet_calm [OF q1] K(2)] by simp
      qed
      have "target_reached view i (pk_TargetParent pkt) edge (np_Lat txPos) (np_Lng txPos)
          (HaversineKm (np_Lat txPos) (np_Lng txPos) lat lng) s"
        by (rule resolved_target [OF X q2 inv K(2)]) (use t c \<open>tgt = Some c\<close> edgeCache_get_Inr [OF X] e r in auto)
      then show ?thesis
        using air [of edge _ s3] q3 pos small by (simp add: eq r t \<open>tgt = Some c\<close> c)
    qed
  qed
qed

lemma propagate_cases:
  assumes X: "ext_ok F view X" and K: "keyStats i \<in> K" "keyDedup i (pk_PacketID pkt) (pk_TargetParent pkt) \<in> K"
  obtains (silent) "quiet view K s (propagate X i pkt payload edge t distKm params s)"
  | (accepted) v s1 s2 where
      "propagate X i pkt payload edge t distKm params s =
         (case edge of Some e \<Rightarrow> deliverToEdge X i pkt payload e t distKm params v s2 | None \<Rightarrow> forwardToNode X i pkt t v s2)"
      "quiet view {} s s1" "quiet view K s1 s2" "distKm \<le> MaxRangeKm (sp_TxPowerDbm params)"
      "MarkPacketSeen X i (pk_PacketID pkt) (pk_TargetParent pkt) (sy_world s1) = (Inr True, sy_world s2)"
proof -
  note ok = ext_parts [OF X]
  obtain v s1 where r: "roll X distKm params s = (v, s1)" by force
  have q0: "quiet view {} s s1" using quiet_roll [OF ok(3), of "{}" s distKm params] r by simp
  then have q1: "quiet view K s s1" by (rule quiet_mono) simp
  obtain m s2 where m: "on_world (MarkPacketSeen X i (pk_PacketID pkt) (pk_TargetParent pkt)) s1 = (m, s2)" by force
  have q12: "quiet view K s1 s2"
  proof -
    have "quiet view K s1 (snd (on_world (MarkPacketSeen X i (pk_PacketID pkt) (pk_TargetParent pkt)) s1))"
      by (rule quiet_world) (rule repo_calm_any(7) [OF ok(1) K(2)])
    then show ?thesis using m by simp
  qed
  note q2 = quiet_trans [OF q1 q12]
  show ?thesis
  proof (cases "\<not> tv_Dropped v \<and> m = Inr True")
    case True
    have u: "uniform01 (xRand X)" using ok(3) by (simp add: env_ok_def)
    have "Evaluate (xRand X) distKm params (sy_world s) = (v, sy_world s1)"
      using r by (auto simp: roll_def on_world_def)
    then have "distKm \<le> MaxRangeKm (sp_TxPowerDbm params)" using Evaluate_survives(1) [OF u] True by blast
    moreover have "MarkPacketSeen X i (pk_PacketID pkt) (pk_TargetParent pkt) (sy_world s1) = (Inr True, sy_world s2)"
      using m True by (metis (no_types) on_worldE on_world_simps(2) snd_conv fst_conv on_world_simps(1) prod.collapse)
    ultimately show ?thesis
      using accepted [of v s2 s1] q0 q12 True by (simp add: propagate_def r m)
  next
    case False
    have "quiet view K s (propagate X i pkt payload edge t distKm params s)"
      using False q2 quiet_trans [OF q1 quiet_drop [OF X K(1)]] quiet_trans [OF q2 quiet_duplicate [OF X K(1)]]
      by (auto simp: propagate_def r m split: sum.splits)
    then show ?thesis by (rule silent)
  qed
qed

lemma stored_params_quiet:
  "quiet view K s s' \<Longrightarrow> keyParams i \<notin> K \<Longrightarrow> stored_params (view (sy_world s')) i = stored_params (view (sy_world s)) i"
  by (rule stored_params_keeps [OF calm_keeps [OF quiet_calm]])

text \<open>The whole handler: silent, or accepted with every guard satisfied.\<close>

lemma target_reached_quiet:
  assumes "quiet view K s s'" "sys_inv s" "keyGeo i \<notin> K" "sy_byCode s' = sy_byCode s"
  shows "target_reached view i n edge la lo d s' = target_reached view i n edge la lo d s"
  using NodeOnline_quiet [OF assms(1,2)] geo_at_calm [OF quiet_calm [OF assms(1)] assms(3)]
    quiet_calm [OF assms(1)] assms(4)
  by (simp add: target_reached_def known_edge_def edgeCache_lookup_def calm_def tables_def split: option.splits)

lemma HandleTransmit_checked:
  assumes X: "ext_ok F view X" and S: "keyStats i \<in> S"
  obtains (silent) "quiet view S s (HandleTransmit X i sender pkt s)"
  | (checked) payload params s' where
      "HandleTransmit X i sender pkt s = transmit_checked X i pkt sender payload params s'" "quiet view S s s'"
      "sy_byCode s' = sy_byCode s" "Validate pkt = Inr ()" "Transmitter pkt = Some sender"
      "DecodeString (pk_BinaryPayloadB64 pkt) = Some payload" "stored_params (view (sy_world s)) i = Some params"
proof -
  have rej: thesis if "HandleTransmit X i sender pkt s = reject X i sender c msg s" for c msg
    using silent quiet_reject [OF X S] that by simp
  show ?thesis
  proof (cases "Validate pkt = Inr () \<and> Transmitter pkt = Some sender \<and> DecodeString (pk_BinaryPayloadB64 pkt) \<noteq> None")
    case False
    show ?thesis
    proof (cases "Validate pkt = Inr ()")
      case True
      then obtain t where "Transmitter pkt = Some t" using valid_packet_transmitter by auto
      then show ?thesis
        using rej False True by (cases "t = sender") (auto simp: HandleTransmit_def simp del: Validate_ok_iff_valid)
    qed (use rej Validate_cases [of pkt] in \<open>auto simp: HandleTransmit_def\<close>)
  next
    case True
    then obtain payload where v: "Validate pkt = Inr ()" "Transmitter pkt = Some sender" "DecodeString (pk_BinaryPayloadB64 pkt) = Some payload"
      by blast
    obtain r s1 where g: "on_world (GetParams X i) s = (r, s1)" by force
    have q1: "quiet view S s s1" using quiet_GetParams [OF X, of S s i] g by simp
    show ?thesis
    proof (cases r)
      case (Inl e)
      have "HandleTransmit X i sender pkt s = send_node i sender
          (errorEvent ''session_unavailable'' ''session parameters missing; was the session stopped?'') s1"
        using v g Inl by (simp add: HandleTransmit_def del: Validate_ok_iff_valid)
      then show ?thesis using silent quiet_trans [OF q1 quiet_send] by (simp add: errorEvent_def)
    next
      case (Inr params)
      let ?s = "incr X i StatTransmitTotal s1"
      have eq: "HandleTransmit X i sender pkt s = transmit_checked X i pkt sender payload params ?s"
        using v g Inr by (simp add: HandleTransmit_def del: Validate_ok_iff_valid)
      have q: "quiet view S s ?s" by (rule quiet_trans [OF q1 quiet_incr [OF ext_parts(1) [OF X] S]])
      have cache: "sy_byCode ?s = sy_byCode s" using g by (auto simp: on_world_def)
      obtain w' where "GetParams X i (sy_world s) = (Inr params, w')" using g Inr by (metis on_worldE)
      then have "stored_params (view (sy_world s)) i = Some params" by (rule GetParams_Inr(1) [OF ext_parts(1) [OF X]])
      then show ?thesis by (rule checked [OF eq q cache v])
    qed
  qed
qed

lemma HandleTransmit_cases:
  assumes X: "ext_ok F view X" and inv: "sys_inv s"
    and K: "keyStats i \<in> K" "keyDedup i (pk_PacketID pkt) (pk_TargetParent pkt) \<in> K" "keyGeo i \<notin> K" "keyParams i \<notin> K"
  obtains (silent) "quiet view K s (HandleTransmit X i sender pkt s)"
  | (accepted) payload params edge distKm v s1 s2 where
      "HandleTransmit X i sender pkt s =
         (case edge of Some e \<Rightarrow> deliverToEdge X i pkt payload e sender distKm params v s2
                     | None \<Rightarrow> forwardToNode X i pkt sender v s2)"
      "on_air view i sender pkt payload params edge distKm s"
      "quiet view {keyStats i} s s1" "quiet view K s1 s2"
      "MarkPacketSeen X i (pk_PacketID pkt) (pk_TargetParent pkt) (sy_world s1) = (Inr True, sy_world s2)"
proof -
  note landed = accepted
  have S: "keyStats i \<in> {keyStats i}" "keyGeo i \<notin> {keyStats i}" using K by auto
  have quietly: thesis if "quiet view {keyStats i} s (HandleTransmit X i sender pkt s)"
    by (rule silent [OF quiet_mono [OF that]]) (use K(1) in simp)
  from X S(1) show ?thesis
  proof (cases rule: HandleTransmit_checked [where s = s and sender = sender and pkt = pkt])
    case silent
    then show ?thesis by (rule quietly)
  next
    case go: (checked payload params s')
    from X S quiet_inv [OF go(2) inv] show ?thesis
    proof (cases rule: transmit_checked_cases [where pkt = pkt and t = sender and payload = payload and params = params])
      case silent
      then show ?thesis using quietly quiet_trans [OF go(2)] go(1) by simp
    next
      case (air edge la lo distKm s3)
      note q3 = quiet_trans [OF go(2) air(2)]
      have geo: "map_of (geo_at (view (sy_world s)) (keyGeo i)) sender = Some (la, lo)"
        using air(5) geo_at_calm [OF quiet_calm [OF go(2)] S(2)] by simp
      have tr: "target_reached view i (pk_TargetParent pkt) edge la lo distKm s"
        using air(6) target_reached_quiet [OF go(2) inv S(2) go(3)] by simp
      from X K(1,2) show ?thesis
      proof (cases rule: propagate_cases [where s = s3 and payload = payload and edge = edge and t = sender
            and distKm = distKm and params = params])
        case quiet_air: silent
        have "quiet view K s s3" by (rule quiet_mono [OF q3]) (use K(1) in simp)
        from silent [unfolded go(1) air(1), OF quiet_trans [OF this quiet_air]] show ?thesis .
      next
        case (accepted v s4 s5)
        have "on_air view i sender pkt payload params edge distKm s"
          using go(4-7) air(3,4) geo tr accepted(4) by (auto simp: on_air_def)
        then show ?thesis
          using landed [where payload = payload and params = params and edge = edge and distKm = distKm and v = v and ?s1.0 = s4 and ?s2.0 = s5]
            accepted(1,5) quiet_trans [OF q3 quiet_mono [OF accepted(2)]] accepted(3) go(1) air(1) by simp
      qed
    qed
  qed
qed

end
