(* ===== verification/Duo.thy ===== *)
theory Duo
  imports Engine
begin

text \<open>
  A small running system: session S with the ships A and B and the edge E at one place, in the
  in-memory world whose dice always show 50.  The witnesses of the later theories evaluate the
  handlers on it.
\<close>

section \<open>The system\<close>

definition duo_X :: "store ext" where
  "duo_X = mem_ext plain_formats (1 / 2) (\<lambda>_. Inl []) (\<lambda>_. Inl [])"

definition duo_params :: SessionParams where
  "duo_params = \<lparr>sp_SpreadingFactor = 7, sp_TxPowerDbm = 20, sp_WeatherSeverity = 1\<rparr>"

definition duo_edge :: Edge where
  "duo_edge = \<lparr>ed_ID = 1, ed_EdgeCode = ''E'', ed_Name = ''E'', ed_Latitude = 0, ed_Longitude = 0, ed_CreatedAt = 0, ed_UpdatedAt = 0\<rparr>"

definition duo_session :: Session where
  "duo_session = (new_session ''demo'' 7 20 1)\<lparr>ss_ID := ''S'', ss_IsActive := True\<rparr>"

definition duo_store :: store where
  "duo_store = \<lparr>st_now = 0,
     st_keys = [keyParams ''S'' \<mapsto> RHash [(''spreading_factor'', Txt (Itoa 7)), (''tx_power_dbm'', Txt (Itoa 20)), (''weather_severity'', FloatTxt 1)],
                keyGeo ''S'' \<mapsto> RGeo [(''A'', 0, 0), (''B'', 0, 0)]],
     st_sessions = [duo_session], st_schemas = [], st_edges = [duo_edge], st_telemetry = [], st_erased = [], st_serial = 2\<rparr>"

definition duo_hub :: Hub where
  "duo_hub = snd (open_node ''S'' ''B'' (snd (open_node ''S'' ''A'' (NewHub 8))))"

definition duo_sys :: "store sys" where
  "duo_sys = \<lparr>sy_world = duo_store, sy_hub = duo_hub, sy_active = {''S''}, sy_byCode = None, sy_loadedAt = 0\<rparr>"

definition duo_pkt :: "string \<Rightarrow> TransmitPacket" where
  "duo_pkt target =
     \<lparr>pk_Event = EvNodeTransmit, pk_PacketID = ''p'', pk_OriginNode = ''A'', pk_TargetParent = target, pk_HopCount = 1,
      pk_RoutingPath = [''A''], pk_BinaryPayloadB64 = ''AQID''\<rparr>"

lemma duo_ext_ok: "ext_ok plain_formats (\<lambda>w. w) duo_X"
  unfolding duo_X_def by (rule mem_ext_ok) simp_all

lemma duo_inv: "sys_inv duo_sys"
  unfolding duo_sys_def duo_hub_def sys.simps by (metis hub_inv_open_node hub_inv_NewHub prod.collapse)

lemmas duo_keys = key_defs sim_key_def

lemma duo_ops:
  "xClock duo_X = (\<lambda>w. (st_now w, w))" "xRand duo_X = (\<lambda>w. (1/2, w))" "rHGetAll duo_X = ref_HGetAll" "rSetNX duo_X = ref_SetNX"
  "rSet duo_X = ref_Set" "rGetDel duo_X = ref_GetDel" "rHIncrBy duo_X = ref_HIncrBy" "rGeoPos duo_X = ref_GeoPos"
  "qListEdges duo_X = ref_ListEdges" "qLatestSchema duo_X = ref_LatestSchema plain_formats"
  "qInsertTelemetry duo_X = ref_InsertTelemetry plain_formats" "rGeoAdd duo_X = ref_GeoAdd plain_formats"
  by (simp_all add: duo_X_def mem_ext_def)

lemma duo_hub_eq: "duo_hub = \<lparr>hb_sendBuffer = 8, 
   hb_heap = [0 \<mapsto> \<lparr>cl_kind = kindNode, cl_sessionID = ''S'', cl_nodeID = ''A'', cl_send = [], cl_done = False\<rparr>,
     1 \<mapsto> \<lparr>cl_kind = kindNode, cl_sessionID = ''S'', cl_nodeID = ''B'', cl_send = [], cl_done = False\<rparr>], hb_next = 2, 
   hb_nodes = [(''S'', [(''A'', 0), (''B'', 1)])], hb_monitors = []\<rparr>"
  by (simp add: duo_hub_def open_node_def newClient_def NewHub_def registerNode_def node_ref_def session_nodes_def Let_def numeral_2_eq_2 fun_eq_iff)



section \<open>Evaluation\<close>

lemma duo_GetParams: "GetParams duo_X ''S'' duo_store = (Inr duo_params, duo_store)"
  by (simp add: GetParams_def duo_ops ref_HGetAll_def is_hash_def hash_at_def live_entry_def duo_store_def duo_keys duo_params_def Atoi_Itoa int64_min_def int64_max_def)

lemma duo_valid: "Validate (duo_pkt ''B'') = Inr ()" "Validate (duo_pkt ''E'') = Inr ()"
  by (simp_all add: duo_pkt_def Validate_def bad_id_def maxIDLength_def MaxHops_def)

lemma duo_payload: "DecodeString ''AQID'' = Some [1, 2, 3]"
  by (simp add: DecodeString_def is_newline_def b64_val_def) (simp add: byte_at_def)

lemma duo_pkt_simps: "pk_PacketID (duo_pkt r) = ''p''" "pk_TargetParent (duo_pkt r) = r" "pk_HopCount (duo_pkt r) = 1"
  "pk_BinaryPayloadB64 (duo_pkt r) = ''AQID''" "Transmitter (duo_pkt r) = Some ''A''" "pk_OriginNode (duo_pkt r) = ''A''"
  by (simp_all add: duo_pkt_def Transmitter_def)

lemma duo_transmit: "HandleTransmit duo_X ''S'' ''A'' (duo_pkt r) duo_sys = 
  transmit_checked duo_X ''S'' (duo_pkt r) ''A'' [1, 2, 3] duo_params (incr duo_X ''S'' StatTransmitTotal duo_sys)"
  if "Validate (duo_pkt r) = Inr ()"
proof -
  have "on_world (GetParams duo_X ''S'') duo_sys = (Inr duo_params, duo_sys)"
    by (simp add: on_world_def duo_sys_def duo_GetParams)
  then show ?thesis using that
    by (simp add: HandleTransmit_def duo_pkt_simps duo_payload del: Validate_ok_iff_valid)
qed


lemmas duo_eval = duo_sys_def duo_store_def duo_ops on_world_def incr_def IncrStat_def duo_keys
  ref_HIncrBy_def is_hash_def hash_at_def live_entry_def field_int_def hset_def put_key_def
  is_geo_def geo_at_def ref_GeoPos_def Position_def duo_params_def int64_min_def int64_max_def

lemmas duo_air = transmit_checked_def duo_pkt_simps MaxPayloadBytes_def MaxHops_def edgeCache_get_def edgeCache_fresh_def
  EdgeList_def wrap_err_def ref_ListEdges_def duo_edge_def resolve_target_def NodeOnline_def duo_hub_eq node_ref_def
  session_nodes_def propagate_def roll_def Evaluate_def haversine_self MaxRangeKm_def FinalLossPercent_def
  BaseLossPercent_def RollDrop_def MarkPacketSeen_def ref_SetNX_def expiry_def

lemma duo_forwarded:
  obtains v s' where "HandleTransmit duo_X ''S'' ''A'' (duo_pkt ''B'') duo_sys = forwardToNode duo_X ''S'' (duo_pkt ''B'') ''A'' v s'"
    "sy_hub s' = duo_hub" "sy_world s' = put_key (keyDedup ''S'' ''p'' ''B'') (RStr ''1'' (Some dedupTTL))
      (put_key (keyStats ''S'') (RHash [(StatTransmitTotal, Txt (Itoa 1))]) duo_store)"
  using that unfolding duo_transmit [OF duo_valid(1)] by (simp add: duo_air duo_eval)

lemma duo_delivered:
  obtains v s' where "HandleTransmit duo_X ''S'' ''A'' (duo_pkt ''E'') duo_sys =
      deliverToEdge duo_X ''S'' (duo_pkt ''E'') [1, 2, 3] duo_edge ''A'' 0 duo_params v s'"
    "sy_hub s' = duo_hub" "sy_world s' = put_key (keyDedup ''S'' ''p'' ''E'') (RStr ''1'' (Some dedupTTL))
      (put_key (keyStats ''S'') (RHash [(StatTransmitTotal, Txt (Itoa 1))]) duo_store)"
  using that unfolding duo_transmit [OF duo_valid(2)] by (simp add: duo_air duo_eval)

lemma duo_before: "rfbox duo_sys ''S'' ''B'' = Some []"
  by (simp add: duo_sys_def duo_hub_eq rfbox_def inbox_def node_ref_def session_nodes_def)

end
