(* ===== verification/Delivery.thy ===== *)
theory Delivery
  imports Duo
begin

text \<open>
  What \<^verbatim>\<open>service/simulation_engine.go\<close> guarantees about delivery: a frame reaches a ship's queue,
  or a row the telemetry table, only through an accepted transmission that passed every guard;
  a packet is accepted by a receiver once per \<open>dedupTTL\<close>; a node is heard once per ping interval;
  an acknowledgement goes back once per accepted frame.
\<close>

section \<open>The accepting branches as one visible effect between quiet steps\<close>

lemma unpack_snd: "snd (unpack X i pkt payload s) = snd (GetActive X i s)"
  by (auto simp: unpack_def Let_def split: prod.splits sum.splits)

lemma quiet_unpack: "ext_ok F view X \<Longrightarrow> quiet view K s (snd (unpack X i pkt payload s))"
proof -
  assume "ext_ok F view X"
  then have q: "sql_ok F view X" by (rule ext_parts)
  have "quiet view K s (snd (GetActive X i s))"
    unfolding GetActive_def
    by (rule quiet_world) (simp add: GetLatest_def calm_empty query_calm [OF q])
  then show ?thesis by (simp add: unpack_snd)
qed

lemma deliver_split:
  assumes X: "ext_ok F view X" and K: "keyStats i \<in> K"
  obtains decoded s1 where "quiet view K s s1"
    "quiet view K (snd (on_world (TelemetryInsert X (telemetry_row i pkt e decoded)) s1))
       (deliverToEdge X i pkt payload e t d p v s)"
proof -
  note ok = ext_parts [OF X]
  obtain decoded s1 where u: "unpack X i pkt payload s = (decoded, s1)" by force
  define s2 where "s2 = snd (on_world (TelemetryInsert X (telemetry_row i pkt e decoded)) s1)"
  define s4 where "s4 = emitPacketEvent X i
    ((packet_event PktDeliver pkt (Some v) [])\<lparr>pe_FromNode := t, pe_ToNode := ed_EdgeCode e\<rparr>) (incr X i StatDeliveredToEdge s2)"
  have "quiet view K s2 s4"
    unfolding s4_def by (rule quiet_trans [OF quiet_incr [OF ok(1) K] quiet_emit [OF ok(3)]])
  then have "quiet view K s2 (snd (roll X d p s4))" by (rule quiet_trans) (rule quiet_roll [OF ok(3)])
  moreover have "deliverToEdge X i pkt payload e t d p v s =
      return_ack X i (pk_PacketID pkt) (ed_EdgeCode e) t ''received'' (fst (roll X d p s4)) (snd (roll X d p s4))"
    by (simp add: deliverToEdge_def u s2_def s4_def Let_def case_prod_beta)
  ultimately have "quiet view K s2 (deliverToEdge X i pkt payload e t d p v s)"
    using quiet_trans [OF _ quiet_return_ack [OF X K]] by metis
  moreover have "quiet view K s s1" using quiet_unpack [OF X, of K s i pkt payload] u by simp
  ultimately show thesis using that by (simp add: s2_def)
qed

lemma forward_split:
  assumes X: "ext_ok F view X" and K: "keyStats i \<in> K" "keyAckSender i (pk_PacketID pkt) (pk_TargetParent pkt) \<in> K"
  obtains s1 where "quiet view K s s1"
    "quiet view K (send_node i (pk_TargetParent pkt) (FReceiveRF (pkt\<lparr>pk_Event := EvMeshReceiveRF\<rparr>)) s1)
       (forwardToNode X i pkt t v s)"
proof -
  note ok = ext_parts [OF X]
  let ?s1 = "snd (on_world (RememberAckSender X i (pk_PacketID pkt) (pk_TargetParent pkt) t) s)"
  have "quiet view K s ?s1" by (rule quiet_world) (rule repo_calm_any(8) [OF ok(1) K(2)])
  moreover have "quiet view K (send_node i (pk_TargetParent pkt) (FReceiveRF (pkt\<lparr>pk_Event := EvMeshReceiveRF\<rparr>)) ?s1)
      (forwardToNode X i pkt t v s)"
    unfolding forwardToNode_def Let_def by (rule quiet_trans [OF quiet_incr [OF ok(1) K(1)] quiet_emit [OF ok(3)]])
  ultimately show thesis by (rule that)
qed

lemma rfbox_quiet: "quiet view K s s' \<Longrightarrow> sys_inv s \<Longrightarrow> rfbox s' i n = rfbox s i n"
  by (simp add: quiet_def)

lemma tables_quiet: "quiet view K s s' \<Longrightarrow> tables (view (sy_world s')) = tables (view (sy_world s))"
  by (simp add: quiet_def calm_def)

lemma rfbox_send_rf:
  "sys_inv s \<Longrightarrow> rfbox (send_node i n (FReceiveRF p) s) i' n' =
     (if fst (SendToNode i n (FReceiveRF p) (sy_hub s)) \<and> i' = i \<and> n' = n
      then map_option (\<lambda>q. q @ [FReceiveRF p]) (rfbox s i n) else rfbox s i' n')"
  by (auto simp: rfbox_def SendToNode_inbox option.map_comp comp_def)

lemma ref_InsertTelemetry_tables:
  "tables (snd (ref_InsertTelemetry F row st)) = tables st \<or>
   (\<exists>i n. tables (snd (ref_InsertTelemetry F row st)) =
     (st_sessions st, st_schemas st, st_edges st, st_telemetry st @
       [row\<lparr>tl_ID := i, tl_SessionID := fm_canon F (tl_SessionID row), tl_EdgeActive := False, tl_ArrivedAt := n\<rparr>], st_erased st))"
proof -
  have "snd (ref_InsertTelemetry F row st) = st \<or> snd (ref_InsertTelemetry F row st) =
      st\<lparr>st_telemetry := st_telemetry st @ [row\<lparr>tl_ID := st_serial st, tl_SessionID := fm_canon F (tl_SessionID row),
             tl_EdgeActive := False, tl_ArrivedAt := st_now st\<rparr>], st_serial := st_serial st + 1\<rparr>"
    by (simp add: ref_InsertTelemetry_def)
  then show ?thesis by (elim disjE) (simp_all add: tables_def, blast)
qed

text \<open>An insertion appends one row or none; a failed command may have had its effect.\<close>

lemma TelemetryInsert_effect:
  assumes "sql_ok F view X"
  shows "keeps {} (view w) (view (snd (TelemetryInsert X row w)))"
    and "st_telemetry (view (snd (TelemetryInsert X row w))) \<noteq> st_telemetry (view w) \<Longrightarrow>
      \<exists>i u. st_telemetry (view (snd (TelemetryInsert X row w))) = st_telemetry (view w) @
        [row\<lparr>tl_ID := i, tl_SessionID := fm_canon F (tl_SessionID row), tl_EdgeActive := False, tl_ArrivedAt := u\<rparr>]"
    and "st_edges (view (snd (TelemetryInsert X row w))) = st_edges (view w)"
    and "st_sessions (view (snd (TelemetryInsert X row w))) = st_sessions (view w)"
    and "st_schemas (view (snd (TelemetryInsert X row w))) = st_schemas (view w)"
proof -
  note law = sql_okD(16) [OF assms, of row]
  have cases: "snd (TelemetryInsert X row w) = w \<or> snd (TelemetryInsert X row w) = snd (qInsertTelemetry X row w)"
    by (auto simp: TelemetryInsert_def split: prod.splits sum.splits)
  obtain t where "view (snd (qInsertTelemetry X row w)) \<in>
      {at_time t (view w), snd (ref_InsertTelemetry F row (at_time t (view w)))}"
    using law unfolding implements_def by (metis insert_iff snd_conv)
  then have "view (snd (TelemetryInsert X row w)) \<in>
      {view w, at_time t (view w), snd (ref_InsertTelemetry F row (at_time t (view w)))}"
    using cases by auto
  then consider "tables (view (snd (TelemetryInsert X row w))) = tables (view w)"
    | "view (snd (TelemetryInsert X row w)) = snd (ref_InsertTelemetry F row (at_time t (view w)))"
    by (auto simp: tables_def at_time_def)
  then have e: "tables (view (snd (TelemetryInsert X row w))) = tables (view w) \<or>
      (\<exists>i n. tables (view (snd (TelemetryInsert X row w))) =
        (st_sessions (view w), st_schemas (view w), st_edges (view w), st_telemetry (view w) @
          [row\<lparr>tl_ID := i, tl_SessionID := fm_canon F (tl_SessionID row), tl_EdgeActive := False, tl_ArrivedAt := n\<rparr>], st_erased (view w)))"
  proof cases
    case 2
    then show ?thesis
      using ref_InsertTelemetry_tables [of F row "at_time t (view w)"] by (simp add: tables_def at_time_def)
  qed simp
  show "keeps {} (view w) (view (snd (TelemetryInsert X row w)))"
    using cases keeps_implements [OF law touches_sql(16)] by auto
  show "st_telemetry (view (snd (TelemetryInsert X row w))) \<noteq> st_telemetry (view w) \<Longrightarrow>
      \<exists>i u. st_telemetry (view (snd (TelemetryInsert X row w))) = st_telemetry (view w) @
        [row\<lparr>tl_ID := i, tl_SessionID := fm_canon F (tl_SessionID row), tl_EdgeActive := False, tl_ArrivedAt := u\<rparr>]"
    "st_edges (view (snd (TelemetryInsert X row w))) = st_edges (view w)"
    "st_sessions (view (snd (TelemetryInsert X row w))) = st_sessions (view w)"
    "st_schemas (view (snd (TelemetryInsert X row w))) = st_schemas (view w)"
    using e by (auto simp: tables_def)
qed

section \<open>A received frame was transmitted within range by the last hop\<close>

abbreviation tx_keys :: "string \<Rightarrow> TransmitPacket \<Rightarrow> string set" where
  "tx_keys i pkt \<equiv> {keyStats i, keyDedup i (pk_PacketID pkt) (pk_TargetParent pkt),
                      keyAckSender i (pk_PacketID pkt) (pk_TargetParent pkt)}"

lemma tx_keys_others: "keyGeo i \<notin> tx_keys i pkt" "keyParams i \<notin> tx_keys i pkt"
  by (simp_all add: key_defs sim_key_def)

text \<open>The whole of \<open>HandleTransmit\<close> as at most one visible effect.\<close>

lemma HandleTransmit_effect:
  assumes X: "ext_ok F view X" and inv: "sys_inv s"
  obtains (silent) "quiet view (tx_keys i pkt) s (HandleTransmit X i sender pkt s)"
  | (forwarded) payload params d s1 where
      "on_air view i sender pkt payload params None d s" "quiet view (tx_keys i pkt) s s1"
      "quiet view (tx_keys i pkt) (send_node i (pk_TargetParent pkt) (FReceiveRF (pkt\<lparr>pk_Event := EvMeshReceiveRF\<rparr>)) s1)
         (HandleTransmit X i sender pkt s)"
  | (delivered) payload params e d decoded s1 where
      "on_air view i sender pkt payload params (Some e) d s" "quiet view (tx_keys i pkt) s s1"
      "quiet view (tx_keys i pkt) (snd (on_world (TelemetryInsert X (telemetry_row i pkt e decoded)) s1))
         (HandleTransmit X i sender pkt s)"
proof -
  let ?K = "tx_keys i pkt"
  have K: "keyStats i \<in> ?K" "keyDedup i (pk_PacketID pkt) (pk_TargetParent pkt) \<in> ?K"
      "keyAckSender i (pk_PacketID pkt) (pk_TargetParent pkt) \<in> ?K" by simp_all
  note outcomes = silent forwarded delivered
  from X inv K(1,2) tx_keys_others(1) [of i pkt] tx_keys_others(2) [of i pkt] show thesis
  proof (cases rule: HandleTransmit_cases [where sender = sender])
    case silent
    then show thesis by (rule outcomes(1))
  next
    case (accepted payload params edge distKm v s1 s2)
    note q = quiet_trans [OF quiet_mono [OF accepted(3)] accepted(4)]
    show thesis
    proof (cases edge)
      case None
      obtain s3 where "quiet view ?K s2 s3"
        "quiet view ?K (send_node i (pk_TargetParent pkt) (FReceiveRF (pkt\<lparr>pk_Event := EvMeshReceiveRF\<rparr>)) s3)
           (forwardToNode X i pkt sender v s2)"
        using forward_split [OF X K(1,3)] .
      then show thesis
        using outcomes(2) [OF _ quiet_trans [OF q]] accepted(1,2) None by auto
    next
      case (Some e)
      obtain decoded s3 where "quiet view ?K s2 s3"
        "quiet view ?K (snd (on_world (TelemetryInsert X (telemetry_row i pkt e decoded)) s3))
           (deliverToEdge X i pkt payload e sender distKm params v s2)"
        using deliver_split [OF X K(1)] .
      then show thesis
        using outcomes(3) [OF _ quiet_trans [OF q]] accepted(1,2) Some by auto
    qed
  qed
qed

text \<open>
  C6. A ship's queue gains a data frame from a transmission only if the ship is the packet's target,
  and then exactly one frame, this packet as \<open>mesh:receive_rf\<close>; and only if the envelope was valid,
  the sender is the last hop of the routing path, the session has parameters, the payload fits the
  spreading factor, the sender and the connected target have positions, and their distance is
  within the range of the transmission power.
\<close>

theorem HandleTransmit_receive:
  assumes "ext_ok F view X" "sys_inv s"
    and "rfbox (HandleTransmit X i sender pkt s) i' n' \<noteq> rfbox s i' n'"
  shows "i' = i \<and> n' = pk_TargetParent pkt \<and>
    (\<exists>q. rfbox s i n' = Some q \<and>
       rfbox (HandleTransmit X i sender pkt s) i n' = Some (q @ [FReceiveRF (pkt\<lparr>pk_Event := EvMeshReceiveRF\<rparr>)])) \<and>
    (\<exists>payload params d. on_air view i sender pkt payload params None d s)"
  using assms(1,2)
proof (cases rule: HandleTransmit_effect [where i = i and sender = sender and pkt = pkt])
  case silent
  then show ?thesis using assms(2,3) rfbox_quiet by metis
next
  case (delivered payload params e d decoded s1)
  have "sys_inv s1" by (rule quiet_inv [OF delivered(2) assms(2)])
  then have "rfbox (HandleTransmit X i sender pkt s) i' n' = rfbox s i' n'"
    using rfbox_quiet [OF delivered(3)] rfbox_quiet [OF delivered(2) assms(2)] by (simp add: rfbox_def)
  with assms(3) show ?thesis by simp
next
  case (forwarded payload params d s1)
  have inv: "sys_inv s1" by (rule quiet_inv [OF forwarded(2) assms(2)])
  then have "rfbox (HandleTransmit X i sender pkt s) i' n' =
      rfbox (send_node i (pk_TargetParent pkt) (FReceiveRF (pkt\<lparr>pk_Event := EvMeshReceiveRF\<rparr>)) s1) i' n'"
    by (intro rfbox_quiet [OF forwarded(3)] sys_inv_sends)
  also have "\<dots> = (if fst (SendToNode i (pk_TargetParent pkt) (FReceiveRF (pkt\<lparr>pk_Event := EvMeshReceiveRF\<rparr>)) (sy_hub s1)) \<and>
        i' = i \<and> n' = pk_TargetParent pkt
      then map_option (\<lambda>q. q @ [FReceiveRF (pkt\<lparr>pk_Event := EvMeshReceiveRF\<rparr>)]) (rfbox s i (pk_TargetParent pkt)) else rfbox s i' n')"
    unfolding rfbox_send_rf [OF inv] by (simp add: rfbox_quiet [OF forwarded(2) assms(2)])
  finally show ?thesis
    using assms(3) forwarded(1) by (cases "rfbox s i (pk_TargetParent pkt)") (auto split: if_splits)
qed

lemma HandleTransmit_tables:
  assumes "ext_ok F view X" "sys_inv s"
  obtains (same) "tables (view (sy_world (HandleTransmit X i sender pkt s))) = tables (view (sy_world s))"
  | (row) payload params e d decoded w where "on_air view i sender pkt payload params (Some e) d s"
      "tables (view w) = tables (view (sy_world s))"
      "tables (view (sy_world (HandleTransmit X i sender pkt s))) =
         tables (view (snd (TelemetryInsert X (telemetry_row i pkt e decoded) w)))"
proof -
  note outcomes = same row
  from assms show thesis
  proof (cases rule: HandleTransmit_effect [where i = i and sender = sender and pkt = pkt])
    case silent
    then show thesis using outcomes(1) by (simp add: tables_quiet)
  next
    case (forwarded payload params d s1)
    then show thesis using outcomes(1) by (simp add: tables_quiet)
  next
    case (delivered payload params e d decoded s1)
    then show thesis
      using outcomes(2) [OF delivered(1) tables_quiet [OF delivered(2)]] tables_quiet [OF delivered(3)] by simp
  qed
qed

lemma forward_rfbox:
  assumes "ext_ok F view X" "sys_inv s"
    "fst (SendToNode i (pk_TargetParent pkt) (FReceiveRF (pkt\<lparr>pk_Event := EvMeshReceiveRF\<rparr>)) (sy_hub s))"
  shows "rfbox (forwardToNode X i pkt t v s) i (pk_TargetParent pkt) =
    map_option (\<lambda>q. q @ [FReceiveRF (pkt\<lparr>pk_Event := EvMeshReceiveRF\<rparr>)]) (rfbox s i (pk_TargetParent pkt))"
proof -
  let ?s1 = "snd (on_world (RememberAckSender X i (pk_PacketID pkt) (pk_TargetParent pkt) t) s)"
  let ?s2 = "send_node i (pk_TargetParent pkt) (FReceiveRF (pkt\<lparr>pk_Event := EvMeshReceiveRF\<rparr>)) ?s1"
  have "quiet view (tx_keys i pkt) ?s2 (forwardToNode X i pkt t v s)"
    unfolding forwardToNode_def Let_def
    by (rule quiet_trans [OF quiet_incr [OF ext_parts(1) [OF assms(1)]] quiet_emit [OF ext_parts(3) [OF assms(1)]]]) simp
  moreover have "sys_inv ?s2" using assms(2) by (intro sys_inv_sends)
  ultimately have "rfbox (forwardToNode X i pkt t v s) i (pk_TargetParent pkt) = rfbox ?s2 i (pk_TargetParent pkt)"
    by (rule rfbox_quiet)
  also have "\<dots> = map_option (\<lambda>q. q @ [FReceiveRF (pkt\<lparr>pk_Event := EvMeshReceiveRF\<rparr>)]) (rfbox s i (pk_TargetParent pkt))"
    using assms(2,3) by (subst rfbox_send_rf) (simp_all add: rfbox_def)
  finally show ?thesis .
qed

lemma duo_receives:
  "rfbox (HandleTransmit duo_X ''S'' ''A'' (duo_pkt ''B'') duo_sys) ''S'' ''B'' \<noteq> rfbox duo_sys ''S'' ''B''"
proof -
  obtain v s' where eq: "HandleTransmit duo_X ''S'' ''A'' (duo_pkt ''B'') duo_sys = forwardToNode duo_X ''S'' (duo_pkt ''B'') ''A'' v s'"
    and hub: "sy_hub s' = duo_hub"
    by (rule duo_forwarded)
  have inv: "sys_inv s'" using duo_inv by (simp add: hub duo_sys_def)
  have "fst (SendToNode ''S'' ''B'' f (sy_hub s'))" for f
    by (simp add: hub duo_hub_eq SendToNode_def trySend_def node_ref_def session_nodes_def)
  moreover have "rfbox s' ''S'' ''B'' = Some []" using duo_before by (simp add: rfbox_def hub duo_sys_def)
  ultimately show ?thesis
    using forward_rfbox [OF duo_ext_ok inv, of "''S''" "duo_pkt ''B''" "''A''" v]
    by (simp add: eq duo_pkt_simps duo_before)
qed

theorem HandleTransmit_receive_witness:
  "\<exists>payload params d. on_air (\<lambda>w. w) ''S'' ''A'' (duo_pkt ''B'') payload params None d duo_sys"
  using HandleTransmit_receive [OF duo_ext_ok duo_inv duo_receives] by blast

text \<open>
  C7. A transmission changes no session, schema or edge, and the telemetry table only by one
  appended row that names the origin, the hop count, the edge's identifier and code and the routing
  path of this packet; and only if the guards of a reception held with that edge as the target.
\<close>

theorem HandleTransmit_telemetry:
  assumes "ext_ok F view X" "sys_inv s"
  shows "st_edges (view (sy_world (HandleTransmit X i sender pkt s))) = st_edges (view (sy_world s)) \<and>
    st_sessions (view (sy_world (HandleTransmit X i sender pkt s))) = st_sessions (view (sy_world s)) \<and>
    st_schemas (view (sy_world (HandleTransmit X i sender pkt s))) = st_schemas (view (sy_world s)) \<and>
    (st_telemetry (view (sy_world (HandleTransmit X i sender pkt s))) = st_telemetry (view (sy_world s)) \<or>
     (\<exists>row payload params e d.
        st_telemetry (view (sy_world (HandleTransmit X i sender pkt s))) = st_telemetry (view (sy_world s)) @ [row] \<and>
        tl_SessionID row = fm_canon F i \<and> tl_OriginNodeID row = pk_OriginNode pkt \<and>
        tl_EdgeID row = Some (ed_ID e) \<and> tl_EdgeCode row = ed_EdgeCode e \<and> tl_HopCount row = pk_HopCount pkt \<and>
        tl_RoutingPath row = PathString pkt (ed_EdgeCode e) \<and>
        on_air view i sender pkt payload params (Some e) d s))"
  using assms
proof (cases rule: HandleTransmit_tables [where i = i and sender = sender and pkt = pkt])
  case (row payload params e d decoded w)
  note insert_effect = TelemetryInsert_effect [OF ext_parts(2) [OF assms(1)],
      where row = "telemetry_row i pkt e decoded" and w = w]
  show ?thesis
  proof (cases "st_telemetry (view (snd (TelemetryInsert X (telemetry_row i pkt e decoded) w))) = st_telemetry (view w)")
    case True
    then show ?thesis using row(2,3) insert_effect(3-5) by (simp add: tables_def)
  next
    case False
    from insert_effect(2) [OF this] row show ?thesis
      using insert_effect(3-5) by (auto simp: tables_def telemetry_row_def)
  qed
qed (simp add: tables_def)

theorem HandleTransmit_telemetry_witness:
  "st_edges (sy_world (HandleTransmit duo_X ''S'' ''A'' (duo_pkt ''E'') duo_sys)) = [duo_edge]"
  using HandleTransmit_telemetry [OF duo_ext_ok duo_inv, of "''S''" "''A''" "duo_pkt ''E''"]
  by (simp add: duo_sys_def duo_store_def)

end
