(* ===== verification/Gateway.thy ===== *)
theory Gateway
  imports Json Delivery
begin

text \<open>
  \<^verbatim>\<open>ws/gateway.go\<close>: admission of WebSocket connections, the bounded queue of inbound frames, and
  the dispatch of a frame to the engine.  A raw frame is its JSON text (\<open>jtext\<close>).  The upgrade of
  the HTTP connection is gorilla's: whether it succeeds is the parameter \<open>upgraded\<close>.  The
  goroutines of a connection are the functions they run: \<open>enqueue\<close> (each message of the read pump),
  \<open>node_onClose\<close> and \<open>monitor_onClose\<close> (its end), \<open>writePump_frame\<close> of the hub.
\<close>

section \<open>Wire formats of the inbound events\<close>

definition envelope_fields :: "string field list" where
  "envelope_fields = [(''event'', as_string (\<lambda>s _. s))]"

definition ping_fields :: "NodePing field list" where
  "ping_fields =
     [(''event'', as_string (\<lambda>s r. r\<lparr>ng_Event := s\<rparr>)), (''node_id'', as_string (\<lambda>s r. r\<lparr>ng_NodeID := s\<rparr>)),
      (''session_id'', as_string (\<lambda>s r. r\<lparr>ng_SessionID := s\<rparr>)), (''lat'', as_float (\<lambda>x r. r\<lparr>ng_Lat := x\<rparr>)),
      (''lng'', as_float (\<lambda>x r. r\<lparr>ng_Lng := x\<rparr>))]"

definition zero_ping :: NodePing where
  "zero_ping = \<lparr>ng_Event = [], ng_NodeID = [], ng_SessionID = [], ng_Lat = 0, ng_Lng = 0\<rparr>"

definition packet_fields :: "TransmitPacket field list" where
  "packet_fields =
     [(''event'', as_string (\<lambda>s r. r\<lparr>pk_Event := s\<rparr>)), (''packet_id'', as_string (\<lambda>s r. r\<lparr>pk_PacketID := s\<rparr>)),
      (''origin_node'', as_string (\<lambda>s r. r\<lparr>pk_OriginNode := s\<rparr>)),
      (''target_parent'', as_string (\<lambda>s r. r\<lparr>pk_TargetParent := s\<rparr>)),
      (''hop_count'', as_int (\<lambda>n r. r\<lparr>pk_HopCount := n\<rparr>)),
      (''routing_path'', as_slice text_elem [] pk_RoutingPath (\<lambda>p r. r\<lparr>pk_RoutingPath := p\<rparr>)),
      (''binary_payload_b64'', as_string (\<lambda>s r. r\<lparr>pk_BinaryPayloadB64 := s\<rparr>))]"

definition zero_packet :: TransmitPacket where
  "zero_packet = \<lparr>pk_Event = [], pk_PacketID = [], pk_OriginNode = [], pk_TargetParent = [], pk_HopCount = 0,
     pk_RoutingPath = [], pk_BinaryPayloadB64 = []\<rparr>"

definition ack_fields :: "NodeAck field list" where
  "ack_fields =
     [(''event'', as_string (\<lambda>s r. r\<lparr>na_Event := s\<rparr>)), (''packet_id'', as_string (\<lambda>s r. r\<lparr>na_PacketID := s\<rparr>)),
      (''receiver_node'', as_string (\<lambda>s r. r\<lparr>na_ReceiverNode := s\<rparr>)), (''status'', as_string (\<lambda>s r. r\<lparr>na_Status := s\<rparr>))]"

definition zero_ack :: NodeAck where
  "zero_ack = \<lparr>na_Event = [], na_PacketID = [], na_ReceiverNode = [], na_Status = []\<rparr>"

section \<open>Dispatch\<close>

record job =
  jb_sessionID :: string
  jb_nodeID :: string
  jb_raw :: jtext

definition sendError :: "job \<Rightarrow> string \<Rightarrow> string \<Rightarrow> 'w sys \<Rightarrow> 'w sys" where
  "sendError j code msg s = send_node (jb_sessionID j) (jb_nodeID j) (errorEvent code msg) s"

definition safeProcess :: "'w ext \<Rightarrow> duration \<Rightarrow> job \<Rightarrow> 'w sys \<Rightarrow> 'w sys" where
  "safeProcess X pingMinInterval j s =
     (case Unmarshal False envelope_fields [] (jb_raw j) of
        Inl err \<Rightarrow> send_node (jb_sessionID j) (jb_nodeID j) (errorEvent ''invalid_json'' err) s
      | Inr event \<Rightarrow>
          (if event = EvNodePing then
             (case Unmarshal False ping_fields zero_ping (jb_raw j) of
                Inl err \<Rightarrow> sendError j ''invalid_ping'' err s
              | Inr ping \<Rightarrow> HandlePing X pingMinInterval (jb_sessionID j) (jb_nodeID j) (ng_Lat ping) (ng_Lng ping) s)
           else if event = EvNodeTransmit then
             (case Unmarshal False packet_fields zero_packet (jb_raw j) of
                Inl err \<Rightarrow> sendError j ''invalid_transmit'' err s
              | Inr pkt \<Rightarrow> HandleTransmit X (jb_sessionID j) (jb_nodeID j) pkt s)
           else if event = EvNodeAck then
             (case Unmarshal False ack_fields zero_ack (jb_raw j) of
                Inl err \<Rightarrow> sendError j ''invalid_ack'' err s
              | Inr ack \<Rightarrow> HandleAck X (jb_sessionID j) (jb_nodeID j) ack s)
           else sendError j ''unknown_event'' (''unsupported event: '' @ event) s))"

section \<open>The queue and the workers\<close>

record 'w backend =
  be_sys :: "'w sys"
  be_jobs :: "job list"

definition jobQueueSize :: nat where "jobQueueSize = 8192"

text \<open>The send on the channel with a default branch: a full queue sheds the frame.\<close>

definition enqueue :: "string \<Rightarrow> string \<Rightarrow> jtext \<Rightarrow> 'w backend \<Rightarrow> 'w backend" where
  "enqueue sessionID nodeID raw b =
     (if length (be_jobs b) < jobQueueSize
      then b\<lparr>be_jobs := be_jobs b @ [\<lparr>jb_sessionID = sessionID, jb_nodeID = nodeID, jb_raw = raw\<rparr>]\<rparr>
      else b)"

definition worker_step :: "'w ext \<Rightarrow> duration \<Rightarrow> 'w backend \<Rightarrow> 'w backend" where
  "worker_step X pingMinInterval b =
     (case be_jobs b of
        [] \<Rightarrow> b
      | j # js \<Rightarrow> b\<lparr>be_sys := safeProcess X pingMinInterval j (be_sys b), be_jobs := js\<rparr>)"

section \<open>Connections\<close>

text \<open>\<^verbatim>\<open>^[A-Za-z0-9._-]{1,100}$\<close>\<close>

definition is_node_char :: "char \<Rightarrow> bool" where
  "is_node_char c \<longleftrightarrow> is_letter c \<or> is_digit c \<or> c \<in> {CHR ''.'', CHR ''_'', CHR ''-''}"

definition nodeIDRe_match :: "string \<Rightarrow> bool" where
  "nodeIDRe_match s \<longleftrightarrow> 1 \<le> length s \<and> length s \<le> 100 \<and> list_all is_node_char s"

datatype ws_result = Refused int string | UpgradeFailed | Connected cref

definition on_hub :: "(Hub \<Rightarrow> 'a \<times> Hub) \<Rightarrow> 'w sys \<Rightarrow> 'a \<times> 'w sys" where
  "on_hub f s = (fst (f (sy_hub s)), s\<lparr>sy_hub := snd (f (sy_hub s))\<rparr>)"

definition HandleNodeWS :: "'w ext \<Rightarrow> bool \<Rightarrow> string \<Rightarrow> string \<Rightarrow> 'w sys \<Rightarrow> ws_result \<times> 'w sys" where
  "HandleNodeWS X upgraded sessionID nodeID s =
     (if sessionID = [] \<or> \<not> nodeIDRe_match nodeID
      then (Refused 400 ''session_id and a valid node_id query parameter are required'', s)
      else case SessionActive X sessionID s of
             (False, s1) \<Rightarrow> (Refused 404 ''unknown or inactive simulation session'', s1)
           | (True, s1) \<Rightarrow>
               (if \<not> upgraded then (UpgradeFailed, s1)
                else let (c, s2) = on_hub (open_node sessionID nodeID) s1
                     in (Connected c, NodeConnected X sessionID nodeID s2)))"

definition node_onClose :: "'w ext \<Rightarrow> string \<Rightarrow> string \<Rightarrow> cref \<Rightarrow> 'w sys \<Rightarrow> 'w sys" where
  "node_onClose X sessionID nodeID c s =
     (let (removed, s1) = on_hub (\<lambda>h. unregisterNode c (Close c h)) s
      in if removed then NodeDisconnected X sessionID nodeID s1 else s1)"

definition monitor_send :: "cref \<Rightarrow> frame \<Rightarrow> 'w sys \<Rightarrow> 'w sys" where
  "monitor_send c payload s = snd (on_hub (trySend c payload) s)"

definition HandleMonitorWS :: "'w ext \<Rightarrow> bool \<Rightarrow> string \<Rightarrow> 'w sys \<Rightarrow> ws_result \<times> 'w sys" where
  "HandleMonitorWS X upgraded sessionID s =
     (if sessionID = [] then (Refused 400 ''session_id query parameter is required'', s)
      else case SessionActive X sessionID s of
             (False, s1) \<Rightarrow> (Refused 404 ''unknown or inactive simulation session'', s1)
           | (True, s1) \<Rightarrow>
               (if \<not> upgraded then (UpgradeFailed, s1)
                else let (c, s2) = on_hub (open_monitor sessionID) s1
                     in (Connected c, MonitorConnected X sessionID (monitor_send c) s2)))"

definition monitor_onClose :: "cref \<Rightarrow> 'w sys \<Rightarrow> 'w sys" where
  "monitor_onClose c s = s\<lparr>sy_hub := unregisterMonitor c (Close c (sy_hub s))\<rparr>"

end
