(* ===== verification/Api.thy ===== *)
theory Api
  imports Gateway
begin

text \<open>
  The REST layer, \<^verbatim>\<open>internal/api\<close>: the response envelope and the mapping of domain errors to HTTP
  status codes, the body decoder, the handlers, the route table and the middleware.  A request body
  is its JSON text; \<open>uuid.Parse\<close> of google/uuid is the parameter \<open>uuid_ok\<close> and a readiness probe
  the parameter of its handler.  A handler returns the response and the system.
\<close>

section \<open>Responses (response.go)\<close>

text \<open>The payloads of the handlers.\<close>

datatype payload =
    PNull
  | PCreated string Session
  | PSession Session
  | PSessions "Session list"
  | PSessionStats Session "(string \<times> int) list option"
  | PSessionID string
  | PStats "(string \<times> int) list"
  | PSchema DynamicSchema
  | PSchemaSet DynamicSchema int "(int \<times> int) option"
  | PTopology TopologySnapshot
  | PTelemetry "TelemetryLog list" int int int
  | PEdge Edge
  | PEdges "Edge list"
  | PEdgeCode string
  | PTime int

record envelope =
  en_Status :: string
  en_Message :: string
  en_Data :: payload

record response =
  rs_code :: int
  rs_body :: envelope

definition writeJSON :: "int \<Rightarrow> envelope \<Rightarrow> response" where
  "writeJSON status body = \<lparr>rs_code = status, rs_body = body\<rparr>"

definition respondOK :: "string \<Rightarrow> payload \<Rightarrow> response" where
  "respondOK message data = writeJSON 200 \<lparr>en_Status = ''success'', en_Message = message, en_Data = data\<rparr>"

definition respondCreated :: "string \<Rightarrow> payload \<Rightarrow> response" where
  "respondCreated message data = writeJSON 201 \<lparr>en_Status = ''success'', en_Message = message, en_Data = data\<rparr>"

definition respondError :: "int \<Rightarrow> string \<Rightarrow> response" where
  "respondError status message = writeJSON status \<lparr>en_Status = ''error'', en_Message = message, en_Data = PNull\<rparr>"

text \<open>The texts of the sentinel errors; a validation error's detail is left out.\<close>

definition respondDomainError :: "gerr \<Rightarrow> response" where
  "respondDomainError err =
     (case err of
        ErrValidation _ \<Rightarrow> respondError 400 ''validation error''
      | ErrNotFound \<Rightarrow> respondError 404 ''resource not found''
      | ErrSessionInactive \<Rightarrow> respondError 409 ''simulation session is not active''
      | ErrSessionStillActive \<Rightarrow>
          respondError 409 ''simulation session is still active; stop it before deleting its history''
      | ErrOther _ _ \<Rightarrow> respondError 500 ''internal server error'')"

text \<open>
  \<open>decodeBody\<close> reads the first JSON value of the body, of \<open>bodyBytes\<close> bytes: beyond a mebibyte the
  reader fails, and unknown fields are refused.
\<close>

definition decodeBody :: "'r field list \<Rightarrow> 'r \<Rightarrow> nat \<Rightarrow> jtext \<Rightarrow> response + 'r" where
  "decodeBody fs zero bodyBytes raw =
     (case Unmarshal True fs zero (if bodyBytes > 2 ^ 20 then Inl ''http: request body too large'' else raw) of
        Inl err \<Rightarrow> Inl (respondError 400 (''invalid JSON body: '' @ err))
      | Inr r \<Rightarrow> Inr r)"

section \<open>Requests\<close>

text \<open>
  A request: the wildcards of its path, its query, its body, and \<open>rq_size\<close>, the number of bytes the decoder reads
  until the first JSON value of the body is complete (\<^verbatim>\<open>MaxBytesReader\<close> fails only if that exceeds the cap).
\<close>

record request =
  rq_id :: string
  rq_code :: string
  rq_query :: "string \<Rightarrow> string"
  rq_size :: nat
  rq_body :: jtext

record createSimulationRequest =
  cs_SessionName :: string
  cs_SpreadingFactor :: "int option"
  cs_TxPowerDbm :: "int option"
  cs_WeatherSeverity :: "real option"

definition createSimulation_fields :: "createSimulationRequest field list" where
  "createSimulation_fields =
     [(''session_name'', as_string (\<lambda>s r. r\<lparr>cs_SessionName := s\<rparr>)),
      (''spreading_factor'', as_ptr 0 as_int (\<lambda>v r. r\<lparr>cs_SpreadingFactor := v\<rparr>)),
      (''tx_power_dbm'', as_ptr 0 as_int (\<lambda>v r. r\<lparr>cs_TxPowerDbm := v\<rparr>)),
      (''weather_severity'', as_ptr 0 as_float (\<lambda>v r. r\<lparr>cs_WeatherSeverity := v\<rparr>))]"

definition zero_create :: createSimulationRequest where
  "zero_create = \<lparr>cs_SessionName = [], cs_SpreadingFactor = None, cs_TxPowerDbm = None, cs_WeatherSeverity = None\<rparr>"

record updateParamsRequest =
  up_SpreadingFactor :: "int option"
  up_TxPowerDbm :: "int option"

definition updateWeather_fields :: "real option field list" where
  "updateWeather_fields = [(''weather_severity'', as_ptr 0 as_float (\<lambda>v _. v))]"

definition updateParams_fields :: "updateParamsRequest field list" where
  "updateParams_fields =
     [(''spreading_factor'', as_ptr 0 as_int (\<lambda>v r. r\<lparr>up_SpreadingFactor := v\<rparr>)),
      (''tx_power_dbm'', as_ptr 0 as_int (\<lambda>v r. r\<lparr>up_TxPowerDbm := v\<rparr>))]"

definition zero_params :: updateParamsRequest where
  "zero_params = \<lparr>up_SpreadingFactor = None, up_TxPowerDbm = None\<rparr>"

definition schemaField_fields :: "SchemaField field list" where
  "schemaField_fields =
     [(''name'', as_string (\<lambda>s r. r\<lparr>sf_Name := s\<rparr>)), (''type'', as_string (\<lambda>s r. r\<lparr>sf_Type := s\<rparr>))]"

definition setSchema_fields :: "SchemaField list field list" where
  "setSchema_fields =
     [(''fields'', as_slice (decode_struct True schemaField_fields) \<lparr>sf_Name = [], sf_Type = []\<rparr> (\<lambda>r. r) (\<lambda>v _. v))]"

record edgeRequest =
  er_EdgeCode :: string
  er_Name :: string
  er_Latitude :: "real option"
  er_Longitude :: "real option"

definition updateEdge_fields :: "edgeRequest field list" where
  "updateEdge_fields =
     [(''name'', as_string (\<lambda>s r. r\<lparr>er_Name := s\<rparr>)),
      (''latitude'', as_ptr 0 as_float (\<lambda>v r. r\<lparr>er_Latitude := v\<rparr>)),
      (''longitude'', as_ptr 0 as_float (\<lambda>v r. r\<lparr>er_Longitude := v\<rparr>))]"

definition createEdge_fields :: "edgeRequest field list" where
  "createEdge_fields = (''edge_code'', as_string (\<lambda>s r. r\<lparr>er_EdgeCode := s\<rparr>)) # updateEdge_fields"

definition zero_edge :: edgeRequest where
  "zero_edge = \<lparr>er_EdgeCode = [], er_Name = [], er_Latitude = None, er_Longitude = None\<rparr>"

section \<open>Handlers: simulations\<close>

definition sessionID :: "(string \<Rightarrow> bool) \<Rightarrow> request \<Rightarrow> response + string" where
  "sessionID uuid_ok r = (if uuid_ok (rq_id r) then Inr (rq_id r) else Inl (respondError 400 ''session id must be a UUID''))"

text \<open>\<open>if err != nil { respondDomainError(\<dots>) }\<close>, then the answer.\<close>

definition answer :: "('a \<Rightarrow> response) \<Rightarrow> 'a res \<times> 'w sys \<Rightarrow> response \<times> 'w sys" where
  "answer ok rs = ((case fst rs of Inl err \<Rightarrow> respondDomainError err | Inr x \<Rightarrow> ok x), snd rs)"

definition queryInt :: "request \<Rightarrow> string \<Rightarrow> int \<Rightarrow> int \<Rightarrow> int \<Rightarrow> int" where
  "queryInt r name def lo hi =
     (let raw = rq_query r name
      in if raw = [] then def
         else case Atoi raw of
                None \<Rightarrow> def
              | Some n \<Rightarrow> if n < lo then def else if n > hi then hi else n)"

definition handleCreateSimulation :: "'w ext \<Rightarrow> request \<Rightarrow> 'w sys \<Rightarrow> response \<times> 'w sys" where
  "handleCreateSimulation X r s =
     (case decodeBody createSimulation_fields zero_create (rq_size r) (rq_body r) of
        Inl resp \<Rightarrow> (resp, s)
      | Inr req \<Rightarrow>
          (if cs_SessionName req = [] \<or> length (cs_SessionName req) > 150
           then (respondError 400 ''session_name is required (max 150 chars)'', s)
           else let sf = (case cs_SpreadingFactor req of Some v \<Rightarrow> v | None \<Rightarrow> 7);
                    tx = (case cs_TxPowerDbm req of Some v \<Rightarrow> v | None \<Rightarrow> 20);
                    weather = (case cs_WeatherSeverity req of Some v \<Rightarrow> v | None \<Rightarrow> 1)
                in answer (\<lambda>sess. respondCreated ''simulation session created'' (PCreated (ss_ID sess) sess))
                     (Create X (cs_SessionName req) sf tx weather s)))"

definition handleListSimulations :: "'w ext \<Rightarrow> request \<Rightarrow> 'w sys \<Rightarrow> response \<times> 'w sys" where
  "handleListSimulations X r s =
     answer (\<lambda>ss. respondOK ''simulation sessions'' (PSessions ss)) (ListSessions X (queryInt r ''limit'' 50 1 200) s)"

definition handleGetSimulation :: "'w ext \<Rightarrow> (string \<Rightarrow> bool) \<Rightarrow> request \<Rightarrow> 'w sys \<Rightarrow> response \<times> 'w sys" where
  "handleGetSimulation X uuid_ok r s =
     (case sessionID uuid_ok r of
        Inl resp \<Rightarrow> (resp, s)
      | Inr i \<Rightarrow> answer (\<lambda>(sess, live). respondOK ''simulation session'' (PSessionStats sess live)) (Get X i s))"

definition handleStopSimulation :: "'w ext \<Rightarrow> (string \<Rightarrow> bool) \<Rightarrow> request \<Rightarrow> 'w sys \<Rightarrow> response \<times> 'w sys" where
  "handleStopSimulation X uuid_ok r s =
     (case sessionID uuid_ok r of
        Inl resp \<Rightarrow> (resp, s)
      | Inr i \<Rightarrow> answer (\<lambda>sess. respondOK ''simulation session stopped'' (PSession sess)) (Stop X i s))"

definition handleDeleteSession :: "'w ext \<Rightarrow> (string \<Rightarrow> bool) \<Rightarrow> request \<Rightarrow> 'w sys \<Rightarrow> response \<times> 'w sys" where
  "handleDeleteSession X uuid_ok r s =
     (case sessionID uuid_ok r of
        Inl resp \<Rightarrow> (resp, s)
      | Inr i \<Rightarrow> answer (\<lambda>_. respondOK ''simulation session removed'' (PSessionID i)) (DeleteSession X i s))"

definition handleUpdateWeather :: "'w ext \<Rightarrow> (string \<Rightarrow> bool) \<Rightarrow> request \<Rightarrow> 'w sys \<Rightarrow> response \<times> 'w sys" where
  "handleUpdateWeather X uuid_ok r s =
     (case sessionID uuid_ok r of
        Inl resp \<Rightarrow> (resp, s)
      | Inr i \<Rightarrow>
          (case decodeBody updateWeather_fields None (rq_size r) (rq_body r) of
             Inl resp \<Rightarrow> (resp, s)
           | Inr None \<Rightarrow> (respondError 400 ''weather_severity is required'', s)
           | Inr (Some severity) \<Rightarrow>
               answer (\<lambda>sess. respondOK ''weather severity updated'' (PSession sess)) (UpdateWeather X i severity s)))"

definition handleUpdateParams :: "'w ext \<Rightarrow> (string \<Rightarrow> bool) \<Rightarrow> request \<Rightarrow> 'w sys \<Rightarrow> response \<times> 'w sys" where
  "handleUpdateParams X uuid_ok r s =
     (case sessionID uuid_ok r of
        Inl resp \<Rightarrow> (resp, s)
      | Inr i \<Rightarrow>
          (case decodeBody updateParams_fields zero_params (rq_size r) (rq_body r) of
             Inl resp \<Rightarrow> (resp, s)
           | Inr req \<Rightarrow>
               (if up_SpreadingFactor req = None \<and> up_TxPowerDbm req = None
                then (respondError 400 ''provide spreading_factor and/or tx_power_dbm'', s)
                else answer (\<lambda>sess. respondOK ''radio parameters updated'' (PSession sess))
                       (UpdateRadioParams X i (up_SpreadingFactor req) (up_TxPowerDbm req) s))))"

definition handleGetStats :: "'w ext \<Rightarrow> (string \<Rightarrow> bool) \<Rightarrow> request \<Rightarrow> 'w sys \<Rightarrow> response \<times> 'w sys" where
  "handleGetStats X uuid_ok r s =
     (case sessionID uuid_ok r of
        Inl resp \<Rightarrow> (resp, s)
      | Inr i \<Rightarrow> answer (\<lambda>stats. respondOK ''live simulation statistics'' (PStats stats)) (LiveStats X i s))"

section \<open>Handlers: schema, topology, telemetry\<close>

definition handleSetSchema :: "'w ext \<Rightarrow> (string \<Rightarrow> bool) \<Rightarrow> request \<Rightarrow> 'w sys \<Rightarrow> response \<times> 'w sys" where
  "handleSetSchema X uuid_ok r s =
     (case sessionID uuid_ok r of
        Inl resp \<Rightarrow> (resp, s)
      | Inr i \<Rightarrow>
          (case decodeBody setSchema_fields [] (rq_size r) (rq_body r) of
             Inl resp \<Rightarrow> (resp, s)
           | Inr flds \<Rightarrow>
               answer (\<lambda>(schema, estimate, warning).
                   respondOK ''dynamic schema stored and pushed to active nodes'' (PSchemaSet schema estimate warning))
                 (SetSchema X i flds s)))"

definition handleGetSchema :: "'w ext \<Rightarrow> (string \<Rightarrow> bool) \<Rightarrow> request \<Rightarrow> 'w sys \<Rightarrow> response \<times> 'w sys" where
  "handleGetSchema X uuid_ok r s =
     (case sessionID uuid_ok r of
        Inl resp \<Rightarrow> (resp, s)
      | Inr i \<Rightarrow> answer (\<lambda>schema. respondOK ''active dynamic schema'' (PSchema schema)) (GetActive X i s))"

definition handleGetTopology :: "'w ext \<Rightarrow> (string \<Rightarrow> bool) \<Rightarrow> request \<Rightarrow> 'w sys \<Rightarrow> response \<times> 'w sys" where
  "handleGetTopology X uuid_ok r s =
     (case sessionID uuid_ok r of
        Inl resp \<Rightarrow> (resp, s)
      | Inr i \<Rightarrow> answer (\<lambda>snap. respondOK ''current mesh topology'' (PTopology snap)) (Snapshot X i s))"

definition handleListTelemetry :: "'w ext \<Rightarrow> (string \<Rightarrow> bool) \<Rightarrow> request \<Rightarrow> 'w sys \<Rightarrow> response \<times> 'w sys" where
  "handleListTelemetry X uuid_ok r s =
     (case sessionID uuid_ok r of
        Inl resp \<Rightarrow> (resp, s)
      | Inr i \<Rightarrow>
          (let limit = queryInt r ''limit'' 50 1 500;
               offset = queryInt r ''offset'' 0 0 1000000
           in case on_world (ListBySession X i limit offset) s of
                (Inl err, s1) \<Rightarrow> (respondDomainError err, s1)
              | (Inr items, s1) \<Rightarrow>
                  answer (\<lambda>total. respondOK ''telemetry logs'' (PTelemetry items total limit offset))
                    (on_world (CountBySession X i) s1)))"

section \<open>Handlers: edges\<close>

definition coordinate_ok :: "real \<Rightarrow> real option \<Rightarrow> bool" where
  "coordinate_ok bound c = (case c of None \<Rightarrow> False | Some x \<Rightarrow> \<not> (x < - bound \<or> x > bound))"

text \<open>The checks the two edge handlers share, after the one on the code.\<close>

definition check_edge :: "edgeRequest \<Rightarrow> response option" where
  "check_edge req =
     (if er_Name req = [] \<or> length (er_Name req) > 150
      then Some (respondError 400 ''name is required (max 150 chars)'')
      else if \<not> coordinate_ok 90 (er_Latitude req)
      then Some (respondError 400 ''latitude is required and must be within -90..90'')
      else if \<not> coordinate_ok 180 (er_Longitude req)
      then Some (respondError 400 ''longitude is required and must be within -180..180'')
      else None)"

definition check_code :: "string \<Rightarrow> response option" where
  "check_code code =
     (if code = [] \<or> length code > 50 then Some (respondError 400 ''edge_code is required (max 50 chars)'') else None)"

definition handleCreateEdge :: "'w ext \<Rightarrow> request \<Rightarrow> 'w sys \<Rightarrow> response \<times> 'w sys" where
  "handleCreateEdge X r s =
     (case decodeBody createEdge_fields zero_edge (rq_size r) (rq_body r) of
        Inl resp \<Rightarrow> (resp, s)
      | Inr req \<Rightarrow>
          (case (check_code (er_EdgeCode req), check_edge req, er_Latitude req, er_Longitude req) of
             (None, None, Some lat, Some lng) \<Rightarrow>
               answer (\<lambda>edge. respondCreated ''virtual edge registered'' (PEdge edge))
                 (on_world (EdgeCreate X
                    \<lparr>ed_ID = 0, ed_EdgeCode = er_EdgeCode req, ed_Name = er_Name req, ed_Latitude = lat,
                     ed_Longitude = lng, ed_CreatedAt = 0, ed_UpdatedAt = 0\<rparr>) s)
           | (Some resp, _) \<Rightarrow> (resp, s)
           | (None, Some resp, _) \<Rightarrow> (resp, s)
           | (None, None, _) \<Rightarrow> (respondError 500 ''internal server error'', s)))"  \<comment> \<open>a nil dereference, recovered\<close>

definition handleUpdateEdge :: "'w ext \<Rightarrow> request \<Rightarrow> 'w sys \<Rightarrow> response \<times> 'w sys" where
  "handleUpdateEdge X r s =
     (case check_code (rq_code r) of
        Some resp \<Rightarrow> (resp, s)
      | None \<Rightarrow>
          (case decodeBody updateEdge_fields zero_edge (rq_size r) (rq_body r) of
             Inl resp \<Rightarrow> (resp, s)
           | Inr req \<Rightarrow>
               (case (check_edge req, er_Latitude req, er_Longitude req) of
                  (None, Some lat, Some lng) \<Rightarrow>
                    answer (\<lambda>edge. respondOK ''virtual edge updated'' (PEdge edge))
                      (on_world (EdgeUpdate X (rq_code r) (er_Name req) lat lng) s)
                | (Some resp, _) \<Rightarrow> (resp, s)
                | (None, _) \<Rightarrow> (respondError 500 ''internal server error'', s))))"

definition handleListEdges :: "'w ext \<Rightarrow> request \<Rightarrow> 'w sys \<Rightarrow> response \<times> 'w sys" where
  "handleListEdges X r s = answer (\<lambda>es. respondOK ''virtual edges'' (PEdges es)) (on_world (EdgeList X) s)"

definition handleDeleteEdge :: "'w ext \<Rightarrow> request \<Rightarrow> 'w sys \<Rightarrow> response \<times> 'w sys" where
  "handleDeleteEdge X r s =
     (case check_code (rq_code r) of
        Some resp \<Rightarrow> (resp, s)
      | None \<Rightarrow> answer (\<lambda>_. respondOK ''virtual edge removed'' (PEdgeCode (rq_code r))) (on_world (EdgeDelete X (rq_code r)) s))"

section \<open>Handlers: health\<close>

definition handleHealthz :: "'w ext \<Rightarrow> request \<Rightarrow> 'w sys \<Rightarrow> response \<times> 'w sys" where
  "handleHealthz X r s = (let (now, s1) = on_world (xClock X) s in (respondOK ''alive'' (PTime now), s1))"

definition handleReadyz :: "('w \<Rightarrow> (string + unit) \<times> 'w) \<Rightarrow> request \<Rightarrow> 'w sys \<Rightarrow> response \<times> 'w sys" where
  "handleReadyz readiness r s =
     (case on_world readiness s of
        (Inl err, s1) \<Rightarrow> (respondError 503 (''not ready: '' @ err), s1)
      | (Inr _, s1) \<Rightarrow> (respondOK ''ready'' PNull, s1))"

end
