(* ===== verification/Wire.thy ===== *)
theory Wire
  imports Api
begin

text \<open>
  What \<open>json.Marshal\<close> writes for the messages of the WebSocket protocol, in both directions: the
  events a ship sends (\<^verbatim>\<open>cmd/nodesim/main.go\<close> is the reference client) and the frames the
  backend sends to a ship.  Strings are taken to be valid UTF-8, which \<open>json.Marshal\<close> writes
  losslessly; a nil and an empty slice are one list.
\<close>

section \<open>Numbers\<close>

text \<open>A number without fraction is written as an integer below \<open>1e21\<close>.\<close>

definition float_json :: "real \<Rightarrow> json" where
  "float_json x = (if x = of_int \<lfloor>x\<rfloor> \<and> \<bar>x\<bar> < 10 ^ 21 then JInt \<lfloor>x\<rfloor> else JReal x)"

lemma as_float_json: "\<bar>x\<bar> \<le> max_float64 \<Longrightarrow> as_float put (float_json x) r = Some (put x r)"
  by (auto simp: as_float_def float_json_def)

section \<open>From a ship to the backend\<close>

definition packet_json :: "TransmitPacket \<Rightarrow> json" where
  "packet_json p = JObj
     [(''event'', JStr (pk_Event p)), (''packet_id'', JStr (pk_PacketID p)), (''origin_node'', JStr (pk_OriginNode p)),
      (''target_parent'', JStr (pk_TargetParent p)), (''hop_count'', JInt (pk_HopCount p)),
      (''routing_path'', JArr (map JStr (pk_RoutingPath p))), (''binary_payload_b64'', JStr (pk_BinaryPayloadB64 p))]"

text \<open>A \<open>map[string]any\<close> is written with its keys in order.\<close>

definition ping_json :: "NodePing \<Rightarrow> json" where
  "ping_json g = JObj
     [(''event'', JStr (ng_Event g)), (''lat'', float_json (ng_Lat g)), (''lng'', float_json (ng_Lng g)),
      (''node_id'', JStr (ng_NodeID g)), (''session_id'', JStr (ng_SessionID g))]"

definition ack_json :: "NodeAck \<Rightarrow> json" where
  "ack_json a = JObj
     [(''event'', JStr (na_Event a)), (''packet_id'', JStr (na_PacketID a)), (''receiver_node'', JStr (na_ReceiverNode a)),
      (''status'', JStr (na_Status a))]"

section \<open>From the backend to a ship\<close>

definition routing_json :: "RoutingUpdate \<Rightarrow> json" where
  "routing_json u = JObj
     [(''event'', JStr (ru_Event u)), (''parent_target'', JStr (ru_ParentTarget u)), (''parent_is_edge'', JBool (ru_ParentIsEdge u)),
      (''distance_to_parent_km'', float_json (ru_DistanceToParentKm u)), (''hop_level'', JInt (ru_HopLevel u)),
      (''status'', JStr (ru_Status u))]"

definition env_json :: "EnvSyncParams \<Rightarrow> json" where
  "env_json e = JObj
     [(''event'', JStr (es_Event e)), (''sf'', JInt (es_SpreadingFactor e)), (''max_payload_bytes'', JInt (es_MaxPayloadBytes e)),
      (''ack_timeout_ms'', JInt (es_AckTimeoutMs e)), (''max_retries'', JInt (es_MaxRetries e)),
      (''tx_power_dbm'', JInt (es_TxPowerDbm e)), (''max_range_km'', float_json (es_MaxRangeKm e)),
      (''weather_severity'', float_json (es_WeatherSeverity e))]"

definition field_json :: "SchemaField \<Rightarrow> json" where
  "field_json f = JObj [(''name'', JStr (sf_Name f)), (''type'', JStr (sf_Type f))]"

definition schema_json :: "SchemaSync \<Rightarrow> json" where
  "schema_json s = JObj
     [(''event'', JStr (sy_Event s)), (''fields'', JArr (map field_json (sy_Fields s))),
      (''estimated_packed_bytes'', JInt (sy_EstimatedPackedBytes s))]"

text \<open>\<open>duplicate\<close> is omitted when false.\<close>

definition mesh_ack_json :: "MeshAck \<Rightarrow> json" where
  "mesh_ack_json a = JObj
     ([(''event'', JStr (ma_Event a)), (''packet_id'', JStr (ma_PacketID a)), (''receiver_node'', JStr (ma_ReceiverNode a)),
       (''status'', JStr (ma_Status a))] @ (if ma_Duplicate a then [(''duplicate'', JBool True)] else []))"

definition ended_json :: "SessionEnded \<Rightarrow> json" where
  "ended_json e = JObj
     [(''event'', JStr (se_Event e)), (''session_id'', JStr (se_SessionID e)), (''message'', JStr (se_Message e))]"

definition error_json :: "ErrorEvent \<Rightarrow> json" where
  "error_json e = JObj [(''event'', JStr (ee_Event e)), (''code'', JStr (ee_Code e)), (''message'', JStr (ee_Message e))]"

text \<open>The frames of a ship's socket; the others go to observers only.\<close>

fun ship_json :: "frame \<Rightarrow> json option" where
  "ship_json (FReceiveRF p) = Some (packet_json p)"
| "ship_json (FRoutingUpdate u) = Some (routing_json u)"
| "ship_json (FEnvSync e) = Some (env_json e)"
| "ship_json (FSchemaSync s) = Some (schema_json s)"
| "ship_json (FMeshAck a) = Some (mesh_ack_json a)"
| "ship_json (FSessionEnded e) = Some (ended_json e)"
| "ship_json (FError e) = Some (error_json e)"
| "ship_json _ = None"

section \<open>Reading back\<close>

lemmas unmarshal_defs = Unmarshal_def decode_struct_def decode_key_def find_field_def

lemma read_packet:
  assumes "int64_min \<le> pk_HopCount p" "pk_HopCount p \<le> int64_max"
  shows "Unmarshal False packet_fields zero_packet (Inr (packet_json p)) = Inr p"
  using assms by (simp add: unmarshal_defs packet_fields_def packet_json_def as_string_def as_int_def as_slice_def zero_packet_def)

lemma read_ping:
  assumes "\<bar>ng_Lat g\<bar> \<le> max_float64" "\<bar>ng_Lng g\<bar> \<le> max_float64"
  shows "Unmarshal False ping_fields zero_ping (Inr (ping_json g)) = Inr g"
  using assms by (simp add: unmarshal_defs ping_fields_def ping_json_def as_string_def as_float_json zero_ping_def)

lemma read_ack: "Unmarshal False ack_fields zero_ack (Inr (ack_json a)) = Inr a"
  by (simp add: unmarshal_defs ack_fields_def ack_json_def as_string_def zero_ack_def)

lemmas read_uplink = read_packet read_ping read_ack

lemma read_event [simp]:
  "Unmarshal False envelope_fields [] (Inr (packet_json p)) = Inr (pk_Event p)"
  "Unmarshal False envelope_fields [] (Inr (ping_json g)) = Inr (ng_Event g)"
  "Unmarshal False envelope_fields [] (Inr (ack_json a)) = Inr (na_Event a)"
  "Unmarshal False envelope_fields [] (Inr (routing_json u)) = Inr (ru_Event u)"
  "Unmarshal False envelope_fields [] (Inr (env_json e)) = Inr (es_Event e)"
  "Unmarshal False envelope_fields [] (Inr (schema_json s)) = Inr (sy_Event s)"
  "Unmarshal False envelope_fields [] (Inr (mesh_ack_json m)) = Inr (ma_Event m)"
  "Unmarshal False envelope_fields [] (Inr (ended_json d)) = Inr (se_Event d)"
  "Unmarshal False envelope_fields [] (Inr (error_json r)) = Inr (ee_Event r)"
  by (simp_all add: unmarshal_defs envelope_fields_def as_string_def fold_name.simps packet_json_def ping_json_def ack_json_def
      routing_json_def env_json_def schema_json_def mesh_ack_json_def ended_json_def error_json_def lower_char_def)

end
