(* ===== verification/Nodesim.thy ===== *)
theory Nodesim
  imports Wire
begin

text \<open>
  The virtual ship of \<^verbatim>\<open>cmd/nodesim/main.go\<close>, the reference implementation of the client side of
  the protocol.  A ship is its \<open>node\<close> (the fields guarded by \<open>n.mu\<close>, the messages it has written,
  and what it added to the fleet's counters, whose totals are the sums) and the goroutines running on
  it, each a \<open>task\<close> with its program counter: one atomic action per critical section or write.

  Parameters: whether a write succeeds (gorilla), MessagePack's \<open>Marshal\<close>, the HTTP transport, the
  random draws.  A \<open>select\<close> may take any branch whose channel is ready; the timer's branch is always
  possible, for no clock is modelled here.  \<open>n.lat\<close> and \<open>n.lng\<close> are read by \<open>buildPayload\<close> without the
  lock \<open>move\<close> does not take either: the model reads them when the report is built.  Verbose logging and
  the printed summary are left out.
\<close>

section \<open>Options and counters\<close>

record options =
  op_api :: string
  op_session :: string
  op_sessionName :: string
  op_sf :: int
  op_tx :: int
  op_weather :: real
  op_injectSchema :: bool
  op_nodes :: int
  op_centerLat :: real
  op_centerLng :: real
  op_spreadKm :: real
  op_speedKmh :: real
  op_pingInterval :: duration
  op_transmitEvery :: duration
  op_duration :: duration
  op_verbose :: bool
  op_ignoreSF :: bool

text \<open>The options of a command line without flags; the default center parses to these two numbers.\<close>

definition default_options :: options where
  "default_options =
     \<lparr>op_api = ''http://localhost:8080'', op_session = [], op_sessionName = ''nodesim fleet run'', op_sf = 7, op_tx = 10,
      op_weather = 1, op_injectSchema = True, op_nodes = 10, op_centerLat = - 6.9875, op_centerLng = 106.5504,
      op_spreadKm = 8, op_speedKmh = 10, op_pingInterval = 3 * Second, op_transmitEvery = 10 * Second,
      op_duration = 60 * Second, op_verbose = False, op_ignoreSF = False\<rparr>"

record fleetStats =
  fl_sent :: int
  fl_acked :: int
  fl_retries :: int
  fl_failed :: int
  fl_forwarded :: int
  fl_received :: int
  fl_dupSeen :: int

definition no_stats :: fleetStats where
  "no_stats = \<lparr>fl_sent = 0, fl_acked = 0, fl_retries = 0, fl_failed = 0, fl_forwarded = 0, fl_received = 0, fl_dupSeen = 0\<rparr>"

section \<open>The node\<close>

text \<open>A channel of \<open>waiters\<close> is a reference; \<open>nd_closed\<close> are the closed ones.\<close>

type_synonym chan = nat

datatype uplink = UPing NodePing | UAck NodeAck | UTransmit TransmitPacket

fun uplink_json :: "uplink \<Rightarrow> json" where
  "uplink_json (UPing g) = ping_json g"
| "uplink_json (UAck a) = ack_json a"
| "uplink_json (UTransmit p) = packet_json p"

record node =
  nd_id :: string
  nd_sessionID :: string
  nd_opt :: options
  nd_lat :: real
  nd_lng :: real
  nd_heading :: real
  nd_parent :: string
  nd_parentIsEdge :: bool
  nd_routed :: bool
  nd_ackTimeout :: duration
  nd_maxPayload :: int
  nd_fields :: "SchemaField list"
  nd_seen :: "string \<Rightarrow> bool"
  nd_waiters :: "string \<Rightarrow> chan option"
  nd_pktSeq :: int
  nd_closed :: "chan set"
  nd_nextChan :: chan
  nd_out :: "uplink list"
  nd_stats :: fleetStats

text \<open>\<^verbatim>\<open>%0wd\<close> of a number that is not negative.\<close>

definition pad_zero :: "nat \<Rightarrow> int \<Rightarrow> string" where
  "pad_zero w i = replicate (w - length (Itoa i)) (CHR ''0'') @ Itoa i"

definition node_name :: "int \<Rightarrow> string" where
  "node_name i = ''KPL-'' @ pad_zero 3 i"

definition new_node :: "options \<Rightarrow> string \<Rightarrow> int \<Rightarrow> real \<times> real \<Rightarrow> real \<Rightarrow> node" where
  "new_node opt sess i place r =
     \<lparr>nd_id = node_name i, nd_sessionID = sess, nd_opt = opt, nd_lat = fst place, nd_lng = snd place,
      nd_heading = r * 2 * pi, nd_parent = [], nd_parentIsEdge = False, nd_routed = False,
      nd_ackTimeout = 2 * Second, nd_maxPayload = 242, nd_fields = [], nd_seen = (\<lambda>_. False),
      nd_waiters = (\<lambda>_. None), nd_pktSeq = 0, nd_closed = {}, nd_nextChan = 0, nd_out = [], nd_stats = no_stats\<rparr>"

text \<open>Uniform placement in a disk around the center, from two draws.\<close>

definition scatter :: "real \<Rightarrow> real \<Rightarrow> real \<Rightarrow> real \<Rightarrow> real \<Rightarrow> real \<times> real" where
  "scatter lat lng radiusKm r1 r2 =
     (let r = radiusKm * sqrt r1; theta = r2 * 2 * pi;
          dLat = (r * cos theta) / 111.19; dLng = (r * sin theta) / (111.19 * cos (lat * pi / 180))
      in (lat + dLat, lng + dLng))"

definition move :: "real \<Rightarrow> node \<Rightarrow> node" where
  "move r n =
     (let stepKm = op_speedKmh (nd_opt n) * (real_of_int (op_pingInterval (nd_opt n)) / real_of_int (60 * Minute));
          heading = nd_heading n + (r - 0.5) * 0.6;
          dLat = (stepKm * cos heading) / 111.19;
          dLng = (stepKm * sin heading) / (111.19 * cos (nd_lat n * pi / 180))
      in n\<lparr>nd_heading := heading, nd_lat := nd_lat n + dLat, nd_lng := nd_lng n + dLng\<rparr>)"

section \<open>Writing\<close>

definition add_stats :: "(fleetStats \<Rightarrow> fleetStats) \<Rightarrow> node \<Rightarrow> node" where
  "add_stats f n = n\<lparr>nd_stats := f (nd_stats n)\<rparr>"

text \<open>
  \<open>writeJSON\<close> with the outcome \<open>ok\<close> of the connection's write; \<open>json.Marshal\<close> refuses an infinity, which
  is what a \<open>float64\<close> beyond its range has become.
\<close>

fun encodable :: "uplink \<Rightarrow> bool" where
  "encodable (UPing g) \<longleftrightarrow> \<bar>ng_Lat g\<bar> \<le> max_float64 \<and> \<bar>ng_Lng g\<bar> \<le> max_float64"
| "encodable _ \<longleftrightarrow> True"

definition sim_writeJSON :: "bool \<Rightarrow> uplink \<Rightarrow> node \<Rightarrow> bool \<times> node" where
  "sim_writeJSON ok v n = (if ok \<and> encodable v then (True, n\<lparr>nd_out := nd_out n @ [v]\<rparr>) else (False, n))"

definition sendPing :: "bool \<Rightarrow> node \<Rightarrow> node" where
  "sendPing ok n =
     snd (sim_writeJSON ok (UPing \<lparr>ng_Event = ''node:ping'', ng_NodeID = nd_id n, ng_SessionID = nd_sessionID n,
                                   ng_Lat = nd_lat n, ng_Lng = nd_lng n\<rparr>) n)"

section \<open>Sending with retries\<close>

definition maxRetries :: nat where "maxRetries = 3"

text \<open>
  The goroutines: a received frame before its acknowledgement and before the duplicate check, a
  report about to be built, and the retry loop at its head, before the write, and in the \<open>select\<close>.
\<close>

datatype wait = Try nat | Write nat chan duration | Await nat chan duration

datatype task = Acking TransmitPacket | Checking TransmitPacket | Sensing | Sending TransmitPacket wait | Over

text \<open>The head of the loop: a fresh channel is registered, or the link is declared dead.\<close>

definition arm :: "TransmitPacket \<Rightarrow> nat \<Rightarrow> node \<Rightarrow> task \<times> node" where
  "arm pkt attempt n =
     (if attempt \<le> maxRetries
      then (Sending pkt (Write attempt (nd_nextChan n) (nd_ackTimeout n)),
            n\<lparr>nd_nextChan := Suc (nd_nextChan n), nd_waiters := (nd_waiters n)(pk_PacketID pkt \<mapsto> nd_nextChan n)\<rparr>)
      else (Over, add_stats (\<lambda>s. s\<lparr>fl_failed := fl_failed s + 1\<rparr>) n))"

definition send_frame :: "bool \<Rightarrow> TransmitPacket \<Rightarrow> nat \<Rightarrow> chan \<Rightarrow> duration \<Rightarrow> node \<Rightarrow> task \<times> node" where
  "send_frame ok pkt attempt ch timeout n =
     (case sim_writeJSON ok (UTransmit pkt) n of
        (False, n1) \<Rightarrow> (Over, n1)
      | (True, n1) \<Rightarrow>
          (Sending pkt (Await attempt ch (wrap64 (timeout + 500 * Millisecond))),
           add_stats (\<lambda>s. s\<lparr>fl_sent := fl_sent s + 1, fl_retries := fl_retries s + (if attempt > 0 then 1 else 0)\<rparr>) n1))"

datatype wakeup = Acked | CtxDone | TimedOut

text \<open>The branches of the \<open>select\<close>; the first needs a closed channel.\<close>

definition ready :: "wakeup \<Rightarrow> chan \<Rightarrow> node \<Rightarrow> bool" where
  "ready w ch n \<longleftrightarrow> (w = Acked \<longrightarrow> ch \<in> nd_closed n)"

fun resume :: "wakeup \<Rightarrow> TransmitPacket \<Rightarrow> nat \<Rightarrow> node \<Rightarrow> task \<times> node" where
  "resume Acked pkt attempt n = (Over, add_stats (\<lambda>s. s\<lparr>fl_acked := fl_acked s + 1\<rparr>) n)"
| "resume CtxDone pkt attempt n = (Over, n)"
| "resume TimedOut pkt attempt n =
     (Sending pkt (Try (Suc attempt)), n\<lparr>nd_waiters := (nd_waiters n)(pk_PacketID pkt := None)\<rparr>)"

section \<open>Receiving a frame\<close>

definition receive_ack :: "TransmitPacket \<Rightarrow> node \<Rightarrow> uplink" where
  "receive_ack pkt n =
     UAck \<lparr>na_Event = ''node:ack'', na_PacketID = pk_PacketID pkt, na_ReceiverNode = nd_id n, na_Status = ''received''\<rparr>"

definition relay_frame :: "TransmitPacket \<Rightarrow> node \<Rightarrow> TransmitPacket" where
  "relay_frame pkt n =
     pkt\<lparr>pk_Event := ''node:transmit'', pk_TargetParent := nd_parent n, pk_HopCount := wrap64 (pk_HopCount pkt + 1),
         pk_RoutingPath := pk_RoutingPath pkt @ [nd_id n]\<rparr>"

text \<open>After the acknowledgement: the duplicate check, then the relay towards the ship's own parent.\<close>

definition handleReceive :: "TransmitPacket \<Rightarrow> node \<Rightarrow> task \<times> node" where
  "handleReceive pkt n =
     (if nd_seen n (pk_PacketID pkt) then (Over, add_stats (\<lambda>s. s\<lparr>fl_dupSeen := fl_dupSeen s + 1\<rparr>) n)
      else let n1 = n\<lparr>nd_seen := (nd_seen n)(pk_PacketID pkt := True)\<rparr>
           in if \<not> nd_routed n1 \<or> nd_parent n1 = [] then (Over, n1)
              else (Sending (relay_frame pkt n1) (Try 0), add_stats (\<lambda>s. s\<lparr>fl_forwarded := fl_forwarded s + 1\<rparr>) n1))"

section \<open>Reporting a catch\<close>

text \<open>The random draws of one report: the i-th field draws a float in [0, 1) or an integer below a bound.\<close>

record draws =
  dr_float :: "nat \<Rightarrow> real"
  dr_intn :: "nat \<Rightarrow> int \<Rightarrow> int"

definition fishNames :: "string list" where
  "fishNames = [''tuna'', ''layur'', ''tongkol'', ''cakalang'', ''kembung'', ''tenggiri'']"

text \<open>\<open>fmt.Sscanf(text, "string_%d", &n)\<close> with \<open>n\<close> zero before (blanks other than space and tab are not skipped).\<close>

definition scan_string_size :: "string \<Rightarrow> int" where
  "scan_string_size text =
     (if HasPrefix text ''string_''
      then let body = dropWhile (\<lambda>c. c = CHR '' '' \<or> c = CHR 0x09) (drop 7 text);
               sign = (case body of c # _ \<Rightarrow> if c = CHR ''-'' \<or> c = CHR ''+'' then [c] else [] | [] \<Rightarrow> []);
               digs = takeWhile is_digit (drop (length sign) body)
           in (case Atoi (sign @ digs) of Some n \<Rightarrow> n | None \<Rightarrow> 0)
      else 0)"

definition is_float_type :: "string \<Rightarrow> bool" where
  "is_float_type t \<longleftrightarrow> HasPrefix t ''float''"

definition field_draw :: "draws \<Rightarrow> node \<Rightarrow> nat \<Rightarrow> SchemaField \<Rightarrow> gval option" where
  "field_draw d n i f =
     (if sf_Name f = ''lat'' \<and> is_float_type (sf_Type f) then Some (GFloat32 (Fin (nd_lat n)))
      else if sf_Name f = ''lng'' \<and> is_float_type (sf_Type f) then Some (GFloat32 (Fin (nd_lng n)))
      else if is_float_type (sf_Type f) then Some (GFloat32 (Fin (dr_float d i * 100)))
      else if HasPrefix (sf_Type f) ''uint'' \<or> HasPrefix (sf_Type f) ''int''
           then Some (GUint16 (word_of_int (dr_intn d i 500 + 1)))
      else if sf_Type f = ''bool'' then Some (GBool (dr_intn d i 2 = 0))
      else if HasPrefix (sf_Type f) ''string_'' then
        (let name = fishNames ! nat (dr_intn d i (int (length fishNames))); maxLen = scan_string_size (sf_Type f)
         in Some (GStr (if maxLen > 0 \<and> int (length name) > maxLen then take (nat maxLen) name else name)))
      else None)"

definition buildPayload :: "draws \<Rightarrow> node \<Rightarrow> SchemaField list \<Rightarrow> gmap" where
  "buildPayload d n flds =
     (if length flds = 0
      then [(''lat'', GFloat32 (Fin (nd_lat n))), (''lng'', GFloat32 (Fin (nd_lng n))),
            (''berat_kg'', GUint16 (word_of_int (dr_intn d 0 300 + 1)))]
      else fold (\<lambda>(i, f) m. case field_draw d n i f of Some v \<Rightarrow> AList.update (sf_Name f) v m | None \<Rightarrow> m)
             (enumerate 0 flds) [])"

definition packet_name :: "string \<Rightarrow> int \<Rightarrow> string" where
  "packet_name name k = ''pkt-'' @ name @ ''-'' @ pad_zero 4 k"

definition report_frame :: "node \<Rightarrow> int \<Rightarrow> bytes \<Rightarrow> TransmitPacket" where
  "report_frame n k raw =
     \<lparr>pk_Event = ''node:transmit'', pk_PacketID = packet_name (nd_id n) k, pk_OriginNode = nd_id n,
      pk_TargetParent = nd_parent n, pk_HopCount = 1, pk_RoutingPath = [nd_id n],
      pk_BinaryPayloadB64 = EncodeToString raw\<rparr>"

definition transmitTelemetry :: "(gmap \<Rightarrow> string + bytes) \<Rightarrow> draws \<Rightarrow> node \<Rightarrow> task \<times> node" where
  "transmitTelemetry marshal d n =
     (let n1 = n\<lparr>nd_pktSeq := nd_pktSeq n + 1\<rparr>
      in if \<not> nd_routed n1 \<or> nd_parent n1 = [] then (Over, n1)
         else case marshal (buildPayload d n1 (nd_fields n1)) of
                Inl _ \<Rightarrow> (Over, n1)
              | Inr raw \<Rightarrow>
                  (if int (length raw) > nd_maxPayload n1 \<and> \<not> op_ignoreSF (nd_opt n1) then (Over, n1)
                   else (Sending (report_frame n1 (nd_pktSeq n1) raw) (Try 0), n1)))"

section \<open>Reading\<close>

record env_message =
  en_MaxPayloadBytes :: int
  en_AckTimeoutMs :: int

record route_message =
  ro_ParentTarget :: string
  ro_ParentIsEdge :: bool
  ro_Status :: string

record ack_message =
  ak_PacketID :: string
  ak_Duplicate :: bool

definition env_fields :: "env_message field list" where
  "env_fields =
     [(''max_payload_bytes'', as_int (\<lambda>v r. r\<lparr>en_MaxPayloadBytes := v\<rparr>)), (''ack_timeout_ms'', as_int (\<lambda>v r. r\<lparr>en_AckTimeoutMs := v\<rparr>))]"

definition schema_fields :: "SchemaField list field list" where
  "schema_fields = [(''fields'', as_slice (decode_struct False schemaField_fields) \<lparr>sf_Name = [], sf_Type = []\<rparr> (\<lambda>r. r) (\<lambda>v _. v))]"

definition route_fields :: "route_message field list" where
  "route_fields =
     [(''parent_target'', as_string (\<lambda>v r. r\<lparr>ro_ParentTarget := v\<rparr>)), (''parent_is_edge'', as_bool (\<lambda>v r. r\<lparr>ro_ParentIsEdge := v\<rparr>)),
      (''status'', as_string (\<lambda>v r. r\<lparr>ro_Status := v\<rparr>))]"

definition mesh_ack_fields :: "ack_message field list" where
  "mesh_ack_fields =
     [(''packet_id'', as_string (\<lambda>v r. r\<lparr>ak_PacketID := v\<rparr>)), (''duplicate'', as_bool (\<lambda>v r. r\<lparr>ak_Duplicate := v\<rparr>))]"

definition on_env :: "jtext \<Rightarrow> node \<Rightarrow> node" where
  "on_env raw n =
     (case Unmarshal False env_fields \<lparr>en_MaxPayloadBytes = 0, en_AckTimeoutMs = 0\<rparr> raw of
        Inl _ \<Rightarrow> n
      | Inr p \<Rightarrow> (if en_AckTimeoutMs p > 0
                 then n\<lparr>nd_ackTimeout := wrap64 (en_AckTimeoutMs p * Millisecond), nd_maxPayload := en_MaxPayloadBytes p\<rparr> else n))"

definition on_schema :: "jtext \<Rightarrow> node \<Rightarrow> node" where
  "on_schema raw n = (case Unmarshal False schema_fields [] raw of Inl _ \<Rightarrow> n | Inr flds \<Rightarrow> n\<lparr>nd_fields := flds\<rparr>)"

definition on_route :: "jtext \<Rightarrow> node \<Rightarrow> node" where
  "on_route raw n =
     (case Unmarshal False route_fields \<lparr>ro_ParentTarget = [], ro_ParentIsEdge = False, ro_Status = []\<rparr> raw of
        Inl _ \<Rightarrow> n
      | Inr r \<Rightarrow> n\<lparr>nd_parent := ro_ParentTarget r, nd_parentIsEdge := ro_ParentIsEdge r, nd_routed := (ro_Status r = ''routed'')\<rparr>)"

definition on_receive :: "jtext \<Rightarrow> node \<Rightarrow> task list \<times> node" where
  "on_receive raw n =
     (case Unmarshal False packet_fields zero_packet raw of
        Inl _ \<Rightarrow> ([], n)
      | Inr pkt \<Rightarrow> ([Acking pkt], add_stats (\<lambda>s. s\<lparr>fl_received := fl_received s + 1\<rparr>) n))"

definition on_ack :: "jtext \<Rightarrow> node \<Rightarrow> node" where
  "on_ack raw n =
     (case Unmarshal False mesh_ack_fields \<lparr>ak_PacketID = [], ak_Duplicate = False\<rparr> raw of
        Inl _ \<Rightarrow> n
      | Inr a \<Rightarrow>
          (case nd_waiters n (ak_PacketID a) of
             None \<Rightarrow> n
           | Some ch \<Rightarrow> n\<lparr>nd_waiters := (nd_waiters n)(ak_PacketID a := None), nd_closed := insert ch (nd_closed n)\<rparr>))"

text \<open>One message of the read loop: whether the loop goes on, the goroutines it starts, the node.\<close>

definition reader :: "jtext \<Rightarrow> node \<Rightarrow> bool \<times> task list \<times> node" where
  "reader raw n =
     (case Unmarshal False envelope_fields [] raw of
        Inl _ \<Rightarrow> (True, [], n)
      | Inr event \<Rightarrow>
          if event = ''env:sync_params'' then (True, [], on_env raw n)
          else if event = ''schema:sync'' then (True, [], on_schema raw n)
          else if event = ''mesh:routing_update'' then (True, [], on_route raw n)
          else if event = ''mesh:receive_rf'' then (True, on_receive raw n)
          else if event = ''mesh:ack'' then (True, [], on_ack raw n)
          else if event = ''session:ended'' then (False, [], n)
          else (True, [], n))"

section \<open>The ship as a machine\<close>

text \<open>One atomic action of a goroutine.\<close>

inductive task_step :: "task \<times> node \<Rightarrow> task \<times> node \<Rightarrow> bool" where
  do_ack: "task_step (Acking pkt, n) (Checking pkt, snd (sim_writeJSON ok (receive_ack pkt n) n))"
| do_check: "task_step (Checking pkt, n) (handleReceive pkt n)"
| do_sense: "task_step (Sensing, n) (transmitTelemetry marshal d n)"
| do_arm: "task_step (Sending pkt (Try a), n) (arm pkt a n)"
| do_write: "task_step (Sending pkt (Write a ch t), n) (send_frame ok pkt a ch t n)"
| do_wake: "ready w ch n \<Longrightarrow> task_step (Sending pkt (Await a ch t), n) (resume w pkt a n)"

record ship =
  sh_node :: node
  sh_tasks :: "task list"
  sh_reading :: bool
  sh_running :: bool

datatype run_result = Failed string | Panicked | Sailing ship

text \<open>
  The start of \<open>run\<close>: dialling, the reader goroutine, the first position report, and the two tickers,
  whose intervals must be positive; \<open>rand.Int64N\<close> of a bound below one panics too.
\<close>

definition run_start :: "string + unit \<Rightarrow> bool \<Rightarrow> int \<Rightarrow> node \<Rightarrow> run_result" where
  "run_start dialled ok jitter n =
     (case dialled of
        Inl err \<Rightarrow> Failed err
      | Inr _ \<Rightarrow>
          if op_pingInterval (nd_opt n) \<le> 0 \<or> op_transmitEvery (nd_opt n) div 2 \<le> 0
             \<or> wrap64 (op_transmitEvery (nd_opt n) + jitter) \<le> 0 then Panicked
          else Sailing \<lparr>sh_node = sendPing ok n, sh_tasks = [], sh_reading = True, sh_running = True\<rparr>)"

text \<open>The read loop, the goroutines, and the branches of the main loop's \<open>select\<close>.\<close>

inductive ship_step :: "ship \<Rightarrow> ship \<Rightarrow> bool" where
  step_read: "sh_reading s \<Longrightarrow> reader raw (sh_node s) = (goes_on, ts, n') \<Longrightarrow>
     ship_step s (s\<lparr>sh_node := n', sh_tasks := sh_tasks s @ ts, sh_reading := goes_on\<rparr>)"
| step_closed: "ship_step s (s\<lparr>sh_reading := False\<rparr>)"
| step_task: "i < length (sh_tasks s) \<Longrightarrow> task_step (sh_tasks s ! i, sh_node s) (t', n') \<Longrightarrow>
     ship_step s (s\<lparr>sh_node := n', sh_tasks := (sh_tasks s)[i := t']\<rparr>)"
| step_ping: "sh_running s \<Longrightarrow> ship_step s (s\<lparr>sh_node := sendPing ok (move r (sh_node s))\<rparr>)"
| step_report: "sh_running s \<Longrightarrow> ship_step s (s\<lparr>sh_tasks := sh_tasks s @ [Sensing]\<rparr>)"
| step_done: "ship_step s (s\<lparr>sh_running := False\<rparr>)"
| step_gone: "\<not> sh_reading s \<Longrightarrow> ship_step s (s\<lparr>sh_running := False\<rparr>)"

inductive ship_reachable :: "node \<Rightarrow> ship \<Rightarrow> bool" for n0 where
  sail: "run_start dialled ok jitter n0 = Sailing s \<Longrightarrow> ship_reachable n0 s"
| go_on: "ship_reachable n0 s \<Longrightarrow> ship_step s s' \<Longrightarrow> ship_reachable n0 s'"

inductive_cases task_stepE: "task_step (Acking pkt, n) c" "task_step (Checking pkt, n) c" "task_step (Sensing, n) c"
  "task_step (Sending pkt (Try a), n) c" "task_step (Sending pkt (Write a ch t), n) c" "task_step (Sending pkt (Await a ch t), n) c"
  "task_step (Over, n) c"

section \<open>Creating the session over REST\<close>

text \<open>An HTTP POST: the transport's error, or the status and the body of the reply.\<close>

type_synonym 'w transport = "string \<Rightarrow> json \<Rightarrow> 'w \<Rightarrow> (string + int \<times> jtext) \<times> 'w"

text \<open>Decoding into \<open>map[string]any\<close>: every number must fit a \<open>float64\<close>; the last of equal keys counts.\<close>

fun any_ok :: "json \<Rightarrow> bool" where
  "any_ok (JInt i) = (\<bar>real_of_int i\<bar> \<le> max_float64)"
| "any_ok (JReal x) = (\<bar>x\<bar> \<le> max_float64)"
| "any_ok (JArr js) = list_all any_ok js"
| "any_ok (JObj kvs) = list_all (\<lambda>kv. any_ok (snd kv)) kvs"
| "any_ok _ = True"

definition any_map :: "jtext \<Rightarrow> string + (string \<times> json) list" where
  "any_map raw =
     (case raw of
        Inl e \<Rightarrow> Inl e
      | Inr j \<Rightarrow> (case j of
                   JNull \<Rightarrow> Inr []
                 | JObj kvs \<Rightarrow> if any_ok j then Inr kvs else Inl ''json: cannot unmarshal''
                 | _ \<Rightarrow> Inl ''json: cannot unmarshal''))"

definition member_of :: "(string \<times> json) list \<Rightarrow> string \<Rightarrow> json" where
  "member_of kvs k = (case map_of (rev kvs) k of Some v \<Rightarrow> v | None \<Rightarrow> JNull)"

text \<open>The text of a refusal is given without the server's message.\<close>

definition postJSON :: "'w transport \<Rightarrow> string \<Rightarrow> json \<Rightarrow> 'w \<Rightarrow> (string + (string \<times> json) list) \<times> 'w" where
  "postJSON post endpoint body w =
     (case post endpoint body w of
        (Inl err, w1) \<Rightarrow> (Inl err, w1)
      | (Inr (code, raw), w1) \<Rightarrow>
          (case any_map raw of
             Inl err \<Rightarrow> (Inl err, w1)
           | Inr parsed \<Rightarrow> (if code \<ge> 300 then Inl (endpoint @ '' -> '' @ Itoa code) else Inr parsed, w1)))"

definition create_body :: "options \<Rightarrow> json" where
  "create_body opt = JObj
     [(''session_name'', JStr (op_sessionName opt)), (''spreading_factor'', JInt (op_sf opt)),
      (''tx_power_dbm'', JInt (op_tx opt)), (''weather_severity'', float_json (op_weather opt))]"

definition fishing_schema :: "SchemaField list" where
  "fishing_schema =
     [\<lparr>sf_Name = ''lat'', sf_Type = ''float32''\<rparr>, \<lparr>sf_Name = ''lng'', sf_Type = ''float32''\<rparr>,
      \<lparr>sf_Name = ''berat_kg'', sf_Type = ''uint16''\<rparr>, \<lparr>sf_Name = ''jenis_ikan'', sf_Type = ''string_10''\<rparr>,
      \<lparr>sf_Name = ''fresh'', sf_Type = ''bool''\<rparr>]"

definition schema_body :: json where
  "schema_body = JObj [(''fields'', JArr (map field_json fishing_schema))]"

definition ensureSession :: "'w transport \<Rightarrow> options \<Rightarrow> 'w \<Rightarrow> (string + string) \<times> 'w" where
  "ensureSession post opt w =
     (if op_session opt \<noteq> [] then (Inr (op_session opt), w)
      else case postJSON post (op_api opt @ ''/api/v1/simulations'') (create_body opt) w of
             (Inl err, w1) \<Rightarrow> (Inl err, w1)
           | (Inr resp, w1) \<Rightarrow>
               (let payload = (case member_of resp ''data'' of JObj m \<Rightarrow> m | _ \<Rightarrow> []);
                    sid = (case member_of payload ''session_id'' of JStr i \<Rightarrow> i | _ \<Rightarrow> [])
                in if sid = [] then (Inl ''no session_id in response'', w1)
                   else if op_injectSchema opt then
                     (case postJSON post (op_api opt @ ''/api/v1/simulations/'' @ sid @ ''/schema'') schema_body w1 of
                        (Inl err, w2) \<Rightarrow> (Inl (''schema injection: '' @ err), w2)
                      | (Inr _, w2) \<Rightarrow> (Inr sid, w2))
                   else (Inr sid, w1)))"

text \<open>The socket's URL, from the base URL as \<open>net/url\<close> parses it; \<open>Encode\<close> orders the parameters.\<close>

record URL =
  ur_Scheme :: string
  ur_Host :: string
  ur_Path :: string
  ur_Query :: "(string \<times> string list) list"

definition nodeWSURL :: "string + URL \<Rightarrow> string \<Rightarrow> string \<Rightarrow> string + URL" where
  "nodeWSURL parsed sid name =
     (case parsed of
        Inl err \<Rightarrow> Inl err
      | Inr u \<Rightarrow>
          Inr (u\<lparr>ur_Scheme := (if ur_Scheme u = ''http'' then ''ws'' else if ur_Scheme u = ''https'' then ''wss'' else ur_Scheme u),
                 ur_Path := ''/ws/nodes'',
                 ur_Query := AList.update ''node_id'' [name] (AList.update ''session_id'' [sid] (ur_Query u))\<rparr>))"

end
