(* ===== verification/Router.thy ===== *)
theory Router
  imports Api
begin

text \<open>
  \<^verbatim>\<open>api/router.go\<close> and \<^verbatim>\<open>api/middleware.go\<close>: the table of patterns, its matching as the standard
  library's \<open>ServeMux\<close> does it, the CORS middleware, and the whole HTTP surface as one function.
  A path is its list of unescaped segments.  The access log changes nothing, and the panic recovery
  has nothing to recover beyond what the handlers already show as status 500.
\<close>

section \<open>Patterns\<close>

datatype segment = Lit string | Wild

datatype endpoint =
    CreateSimulation | ListSimulations | GetSimulation | StopSimulation | DeleteSimulation | PutWeather | PutParams
  | PostSchema | GetSchema | GetTopology | ListTelemetry | GetStatistics
  | CreateEdge | ListEdges | PutEdge | RemoveEdge | WsNodes | WsMonitor | Healthz | Readyz

definition sims :: "segment list" where "sims = [Lit ''api'', Lit ''v1'', Lit ''simulations'']"
definition edges_path :: "segment list" where "edges_path = [Lit ''api'', Lit ''v1'', Lit ''edges'']"

definition routes :: "(string \<times> segment list \<times> endpoint) list" where
  "routes =
     [(''POST'', sims, CreateSimulation),
      (''GET'', sims, ListSimulations),
      (''GET'', sims @ [Wild], GetSimulation),
      (''POST'', sims @ [Wild, Lit ''stop''], StopSimulation),
      (''DELETE'', sims @ [Wild], DeleteSimulation),
      (''PUT'', sims @ [Wild, Lit ''weather''], PutWeather),
      (''PUT'', sims @ [Wild, Lit ''params''], PutParams),
      (''POST'', sims @ [Wild, Lit ''schema''], PostSchema),
      (''GET'', sims @ [Wild, Lit ''schema''], GetSchema),
      (''GET'', sims @ [Wild, Lit ''topology''], GetTopology),
      (''GET'', sims @ [Wild, Lit ''telemetry''], ListTelemetry),
      (''GET'', sims @ [Wild, Lit ''stats''], GetStatistics),
      (''POST'', edges_path, CreateEdge),
      (''GET'', edges_path, ListEdges),
      (''PUT'', edges_path @ [Wild], PutEdge),
      (''DELETE'', edges_path @ [Wild], RemoveEdge),
      (''GET'', [Lit ''ws'', Lit ''nodes''], WsNodes),
      (''GET'', [Lit ''ws'', Lit ''monitor''], WsMonitor),
      (''GET'', [Lit ''healthz''], Healthz),
      (''GET'', [Lit ''readyz''], Readyz)]"

section \<open>Matching\<close>

text \<open>A wildcard matches one segment that is not empty; the result is its binding.\<close>

fun match_path :: "segment list \<Rightarrow> string list \<Rightarrow> string list option" where
  "match_path [] [] = Some []"
| "match_path (Lit l # ps) (x # xs) = (if l = x then match_path ps xs else None)"
| "match_path (Wild # ps) (x # xs) = (if x = [] then None else map_option ((#) x) (match_path ps xs))"
| "match_path _ _ = None"

text \<open>A pattern for GET serves HEAD too.\<close>

definition method_ok :: "string \<Rightarrow> string \<Rightarrow> bool" where
  "method_ok pat m \<longleftrightarrow> pat = m \<or> pat = ''GET'' \<and> m = ''HEAD''"

datatype dispatch = Found endpoint "string list" | MethodNotAllowed | NoRoute

definition route :: "string \<Rightarrow> string list \<Rightarrow> dispatch" where
  "route m path =
     (case find (\<lambda>(pm, pat, _). method_ok pm m \<and> match_path pat path \<noteq> None) routes of
        Some (_, pat, e) \<Rightarrow> Found e (the (match_path pat path))
      | None \<Rightarrow> if list_ex (\<lambda>(_, pat, _). match_path pat path \<noteq> None) routes then MethodNotAllowed else NoRoute)"

section \<open>CORS\<close>

fun split_comma :: "string \<Rightarrow> string list" where
  "split_comma [] = [[]]"
| "split_comma (c # cs) =
     (if c = CHR '','' then [] # split_comma cs
      else case split_comma cs of [] \<Rightarrow> [[c]] | x # xs \<Rightarrow> (c # x) # xs)"

definition is_space :: "char \<Rightarrow> bool" where
  "is_space c \<longleftrightarrow> byte_of c \<in> {9, 10, 11, 12, 13, 32}"

definition TrimSpace :: "string \<Rightarrow> string" where
  "TrimSpace s = rev (dropWhile is_space (rev (dropWhile is_space s)))"

definition allowed_set :: "string \<Rightarrow> string list" where
  "allowed_set allowedOrigins = filter (\<lambda>x. x \<noteq> []) (map TrimSpace (split_comma allowedOrigins))"

definition cors_headers :: "string \<Rightarrow> string \<Rightarrow> (string \<times> string) list" where
  "cors_headers allowedOrigins origin =
     (let allowAll = (allowedOrigins = [] \<or> allowedOrigins = ''*'')
      in if origin \<noteq> [] \<and> (allowAll \<or> origin \<in> set (allowed_set allowedOrigins))
         then (if allowAll then [(''Access-Control-Allow-Origin'', ''*'')]
               else [(''Access-Control-Allow-Origin'', origin), (''Vary'', ''Origin'')]) @
              [(''Access-Control-Allow-Methods'', ''GET, POST, PUT, DELETE, OPTIONS''),
               (''Access-Control-Allow-Headers'', ''Content-Type, Authorization''),
               (''Access-Control-Max-Age'', ''600'')]
         else [])"

section \<open>The HTTP surface\<close>

datatype reply = JsonReply response | WsReply ws_result | StatusOnly int

text \<open>What the surface takes from outside: UUID parsing, the probe, the upgrade, the configured origins.\<close>

record 'w http_env =
  he_uuid :: "string \<Rightarrow> bool"
  he_ready :: "'w \<Rightarrow> (string + unit) \<times> 'w"
  he_upgraded :: bool
  he_origins :: string

definition serve_endpoint ::
  "'w ext \<Rightarrow> 'w http_env \<Rightarrow> endpoint \<Rightarrow> string list \<Rightarrow> request \<Rightarrow> 'w sys \<Rightarrow> reply \<times> 'w sys" where
  "serve_endpoint X env e vars r0 s =
     (let v = (case vars of [] \<Rightarrow> [] | x # _ \<Rightarrow> x);
          r = r0\<lparr>rq_id := v, rq_code := v\<rparr>;
          js = (\<lambda>(resp, s'). (JsonReply resp, s'));
          ws = (\<lambda>(res, s'). (WsReply res, s'));
          u = he_uuid env
      in case e of
           CreateSimulation \<Rightarrow> js (handleCreateSimulation X r s)
         | ListSimulations \<Rightarrow> js (handleListSimulations X r s)
         | GetSimulation \<Rightarrow> js (handleGetSimulation X u r s)
         | StopSimulation \<Rightarrow> js (handleStopSimulation X u r s)
         | DeleteSimulation \<Rightarrow> js (handleDeleteSession X u r s)
         | PutWeather \<Rightarrow> js (handleUpdateWeather X u r s)
         | PutParams \<Rightarrow> js (handleUpdateParams X u r s)
         | PostSchema \<Rightarrow> js (handleSetSchema X u r s)
         | GetSchema \<Rightarrow> js (handleGetSchema X u r s)
         | GetTopology \<Rightarrow> js (handleGetTopology X u r s)
         | ListTelemetry \<Rightarrow> js (handleListTelemetry X u r s)
         | GetStatistics \<Rightarrow> js (handleGetStats X u r s)
         | CreateEdge \<Rightarrow> js (handleCreateEdge X r s)
         | ListEdges \<Rightarrow> js (handleListEdges X r s)
         | PutEdge \<Rightarrow> js (handleUpdateEdge X r s)
         | RemoveEdge \<Rightarrow> js (handleDeleteEdge X r s)
         | WsNodes \<Rightarrow> ws (HandleNodeWS X (he_upgraded env) (rq_query r ''session_id'') (rq_query r ''node_id'') s)
         | WsMonitor \<Rightarrow> ws (HandleMonitorWS X (he_upgraded env) (rq_query r ''session_id'') s)
         | Healthz \<Rightarrow> js (handleHealthz X r s)
         | Readyz \<Rightarrow> js (handleReadyz (he_ready env) r s))"

definition serve ::
  "'w ext \<Rightarrow> 'w http_env \<Rightarrow> string \<Rightarrow> string list \<Rightarrow> string \<Rightarrow> request \<Rightarrow> 'w sys \<Rightarrow>
   ((string \<times> string) list \<times> reply) \<times> 'w sys" where
  "serve X env m path origin r s =
     (let hs = cors_headers (he_origins env) origin
      in if m = ''OPTIONS'' then ((hs, StatusOnly 204), s)
         else case route m path of
                Found e vars \<Rightarrow> (case serve_endpoint X env e vars r s of (rep, s') \<Rightarrow> ((hs, rep), s'))
              | MethodNotAllowed \<Rightarrow> ((hs, StatusOnly 405), s)
              | NoRoute \<Rightarrow> ((hs, StatusOnly 404), s))"

end
