(* ===== verification/Frame.thy ===== *)
theory Frame
  imports Router
begin

text \<open>
  What every operation of the backend preserves, proved once.  The locale \<open>service_frame\<close> takes a
  reflexive and transitive relation between system states that each primitive respects (a method of
  a repository, a send, a change of the scheduler's set or of the edge cache), and concludes that
  every handler, service call, tick and request respects it.  Its interpretations below and in the
  later theories instantiate the relation: the hub's invariant, the dedup and rate-limit claims.
\<close>

section \<open>What the services check before they write\<close>

definition legal_session :: "Session \<Rightarrow> bool" where
  "legal_session sess \<longleftrightarrow> ValidateSpreadingFactor (ss_SpreadingFactor sess) = Inr () \<and>
     ValidateTxPower (ss_TxPowerDbm sess) = Inr () \<and> ValidateWeatherSeverity (ss_WeatherSeverity sess) = Inr ()"

definition legal_place :: "string \<Rightarrow> real \<Rightarrow> real \<Rightarrow> bool" where
  "legal_place name la lo \<longleftrightarrow> name \<noteq> [] \<and> length name \<le> 150 \<and> \<bar>la\<bar> \<le> 90 \<and> \<bar>lo\<bar> \<le> 180"

definition legal_code :: "string \<Rightarrow> bool" where
  "legal_code code \<longleftrightarrow> code \<noteq> [] \<and> length code \<le> 50"

definition legal_hops :: "int \<Rightarrow> bool" where
  "legal_hops n \<longleftrightarrow> 1 \<le> n \<and> n \<le> MaxHops"

lemma legal_new_session:
  "ValidateSpreadingFactor sf = Inr x \<Longrightarrow> ValidateTxPower tx = Inr y \<Longrightarrow> ValidateWeatherSeverity ws = Inr z \<Longrightarrow>
   legal_session (new_session nm sf tx ws)"
  by (simp add: legal_session_def new_session_def)

lemma legal_checked_edge:
  "check_edge req = None \<Longrightarrow> er_Latitude req = Some la \<Longrightarrow> er_Longitude req = Some lo \<Longrightarrow> legal_place (er_Name req) la lo"
  "check_code code = None \<Longrightarrow> legal_code code"
  by (auto simp: check_edge_def coordinate_ok_def legal_place_def check_code_def legal_code_def split: if_splits)

lemma legal_valid_hops: "Validate pkt = Inr x \<Longrightarrow> \<not> pk_HopCount pkt > MaxHops \<Longrightarrow> legal_hops (pk_HopCount pkt)"
  by (simp add: legal_hops_def valid_packet_def)

section \<open>The contract\<close>

locale service_frame =
  fixes X :: "'w ext" and P :: "'w sys \<Rightarrow> 'w sys \<Rightarrow> bool" and ok :: "string \<Rightarrow> bool"
  assumes refl [simp]: "P s s"
    and trans: "P s s' \<Longrightarrow> P s' s'' \<Longrightarrow> P s s''"
    and clock: "P s (snd (on_world (xClock X) s))"
    and rand: "P s (snd (on_world (Evaluate (xRand X) d pr) s))"
    and reads: "P s (snd (on_world (GetParams X i) s))" "P s (snd (on_world (GetStats X i) s))"
      "P s (snd (on_world (Position X i n) s))" "P s (snd (on_world (AllPositions X i) s))"
      "P s (snd (on_world (GetTable X i) s))" "P s (snd (on_world (GetRoute X i n) s))"
    and queries: "P s (snd (on_world (GetByID X i) s))" "P s (snd (on_world (SessionList X m) s))"
      "P s (snd (on_world (ListActive X) s))" "P s (snd (on_world (EdgeList X) s))"
      "P s (snd (on_world (GetLatest X i) s))" "P s (snd (on_world (ListBySession X i m off) s))"
      "P s (snd (on_world (CountBySession X i) s))"
    and removals: "P s (snd (on_world (RepoStop X i stats) s))" "P s (snd (on_world (EdgeDelete X code) s))"
    and erasure: "on_world (GetByID X i) s = (Inr sess, s') \<Longrightarrow> \<not> ss_IsActive sess \<Longrightarrow> P s' (snd (on_world (RepoDelete X i) s'))"
    and statements: "legal_session sess \<Longrightarrow> P s (snd (on_world (SessionCreate X sess) s))"
      "ValidateWeatherSeverity ws = Inr u \<Longrightarrow> P s (snd (on_world (RepoUpdateWeather X i ws) s))"
      "ValidateSpreadingFactor sf = Inr u \<Longrightarrow> ValidateTxPower tx = Inr v \<Longrightarrow>
       P s (snd (on_world (RepoUpdateRadioParams X i sf tx) s))"
      "legal_code (ed_EdgeCode e) \<Longrightarrow> legal_place (ed_Name e) (ed_Latitude e) (ed_Longitude e) \<Longrightarrow>
       P s (snd (on_world (EdgeCreate X e) s))"
      "legal_place nm la lo \<Longrightarrow> P s (snd (on_world (EdgeUpdate X code nm la lo) s))"
      "ValidateSchemaFields flds = Inr u \<Longrightarrow> P s (snd (on_world (SchemaCreate X i flds) s))"
      "legal_hops (tl_HopCount row) \<Longrightarrow> P s (snd (on_world (TelemetryInsert X row) s))"
    and writes: "ok i \<Longrightarrow> P s (snd (on_world (SaveParams X i pr) s))" "ok i \<Longrightarrow> P s (snd (on_world (IncrStat X i g) s))"
      "ok i \<Longrightarrow> P s (snd (on_world (ClearSession X i) s))" "ok i \<Longrightarrow> P s (snd (on_world (UpsertPosition X i n la lo) s))"
      "ok i \<Longrightarrow> P s (snd (on_world (RemoveNode X i n) s))" "ok i \<Longrightarrow> P s (snd (on_world (GeoClear X i) s))"
      "ok i \<Longrightarrow> P s (snd (on_world (SaveTable X i t) s))" "ok i \<Longrightarrow> P s (snd (on_world (RoutesClear X i) s))"
      "ok i \<Longrightarrow> P s (snd (on_world (RememberAckSender X i p r n) s))"
      "ok i \<Longrightarrow> P s (snd (on_world (TakeAckSender X i p r) s))"
    and claims: "ok i \<Longrightarrow> P s (snd (on_world (MarkPacketSeen X i p r) s))" "ok i \<Longrightarrow> P s (snd (on_world (AllowPing X i n iv) s))"
    and sends: "P s (send_node i n f s)" "P s (to_nodes i f s)" "P s (to_monitors i f s)" "P s (kick_session i s)"
      "P s (monitor_send c f s)"
    and schedule: "ok i \<Longrightarrow> P s (AddSession i s)" "P s (RemoveSession i s)"
    and cache: "P s (s\<lparr>sy_byCode := m', sy_loadedAt := t'\<rparr>)"
    and row_ids: "on_world (SessionCreate X sess) s = (Inr sess', s') \<Longrightarrow> ok (ss_ID sess')"
      "on_world (GetByID X i) s = (Inr sess', s') \<Longrightarrow> ok (ss_ID sess')"
      "on_world (ListActive X) s = (Inr rows, s') \<Longrightarrow> list_all (\<lambda>r. ok (ss_ID r)) rows"
      "on_world (RepoStop X i stats) s = (Inr (), s') \<Longrightarrow> ok i"
    and opens: "P s (snd (on_hub (open_node i n) s))" "P s (snd (on_hub (open_monitor i) s))"
begin

text \<open>Every rule goes on from a state reached so far.\<close>

lemma on: "P s s' \<Longrightarrow> (\<And>u. P u (snd (on_world f u))) \<Longrightarrow> P s (snd (on_world f s'))"
  by (rule trans)

lemmas after_reads = reads [THEN trans [rotated]] queries [THEN trans [rotated]] removals [THEN trans [rotated]]
  clock [THEN trans [rotated]] rand [THEN trans [rotated]] sends [THEN trans [rotated]] opens [THEN trans [rotated]] schedule(2) [THEN trans [rotated]]
  cache [THEN trans [rotated]]

lemmas after_writes = writes [THEN trans [rotated]] claims [THEN trans [rotated]] schedule(1) [THEN trans [rotated]]

lemmas after_statements = statements [THEN trans [rotated]]

lemma bind: "P s (snd p) \<Longrightarrow> (\<And>r s1. p = (r, s1) \<Longrightarrow> P s s1 \<Longrightarrow> P s (g r s1)) \<Longrightarrow> P s (case p of (r, s1) \<Rightarrow> g r s1)"
  by (cases p) simp

lemma bind_snd:
  "P s (snd p) \<Longrightarrow> (\<And>r s1. p = (r, s1) \<Longrightarrow> P s s1 \<Longrightarrow> P s (snd (g r s1))) \<Longrightarrow> P s (snd (case p of (r, s1) \<Rightarrow> g r s1))"
  by (cases p) simp

lemma sum_cases:
  "(\<And>e. r = Inl e \<Longrightarrow> P s (a e)) \<Longrightarrow> (\<And>x. r = Inr x \<Longrightarrow> P s (b x)) \<Longrightarrow> P s (case r of Inl e \<Rightarrow> a e | Inr x \<Rightarrow> b x)"
  "(\<And>e. r = Inl e \<Longrightarrow> P s (snd (c e))) \<Longrightarrow> (\<And>x. r = Inr x \<Longrightarrow> P s (snd (d x))) \<Longrightarrow>
   P s (snd (case r of Inl e \<Rightarrow> c e | Inr x \<Rightarrow> d x))"
  by (cases r; simp)+

lemma option_cases:
  "(r = None \<Longrightarrow> P s a) \<Longrightarrow> (\<And>x. r = Some x \<Longrightarrow> P s (b x)) \<Longrightarrow> P s (case r of None \<Rightarrow> a | Some x \<Rightarrow> b x)"
  "(r = None \<Longrightarrow> P s (snd c)) \<Longrightarrow> (\<And>x. r = Some x \<Longrightarrow> P s (snd (d x))) \<Longrightarrow> P s (snd (case r of None \<Rightarrow> c | Some x \<Rightarrow> d x))"
  by (cases r; simp)+

lemma gerr_cases:
  "P s a \<Longrightarrow> P s b \<Longrightarrow> P s c \<Longrightarrow> (\<And>v. P s (d v)) \<Longrightarrow> (\<And>m t. P s (f m t)) \<Longrightarrow>
   P s (case e of ErrNotFound \<Rightarrow> a | ErrSessionInactive \<Rightarrow> b | ErrSessionStillActive \<Rightarrow> c | ErrValidation v \<Rightarrow> d v | ErrOther m t \<Rightarrow> f m t)"
  "P s (snd a') \<Longrightarrow> P s (snd b') \<Longrightarrow> P s (snd c') \<Longrightarrow> (\<And>v. P s (snd (d' v))) \<Longrightarrow> (\<And>m t. P s (snd (f' m t))) \<Longrightarrow>
   P s (snd (case e of ErrNotFound \<Rightarrow> a' | ErrSessionInactive \<Rightarrow> b' | ErrSessionStillActive \<Rightarrow> c' | ErrValidation v \<Rightarrow> d' v | ErrOther m t \<Rightarrow> f' m t))"
  by (cases e; simp)+

lemma if_cases:
  "(q \<Longrightarrow> P s a) \<Longrightarrow> (\<not> q \<Longrightarrow> P s b) \<Longrightarrow> P s (if q then a else b)"
  "(q \<Longrightarrow> P s (snd c)) \<Longrightarrow> (\<not> q \<Longrightarrow> P s (snd d)) \<Longrightarrow> P s (snd (if q then c else d))"
  "P s a \<Longrightarrow> P s b \<Longrightarrow> P s (case q of True \<Rightarrow> a | False \<Rightarrow> b)"
  "P s (snd c) \<Longrightarrow> P s (snd d) \<Longrightarrow> P s (snd (case q of True \<Rightarrow> c | False \<Rightarrow> d))"
  by (cases q; simp)+

lemma pair_snd: "P s s' \<Longrightarrow> P s (snd (r, s'))"
  by simp

lemma pair_cases: "(\<And>x y. P s (g x y)) \<Longrightarrow> P s (case p of (x, y) \<Rightarrow> g x y)"
  by (cases p) simp

lemma created_id: "on_world (SessionCreate X sess) s = (r, s') \<Longrightarrow> r = Inr sess' \<Longrightarrow> ok (ss_ID sess')"
  and found_id: "on_world (GetByID X i) s = (r, s') \<Longrightarrow> r = Inr sess' \<Longrightarrow> ok (ss_ID sess')"
  and listed_ids: "on_world (ListActive X) s = (q, s') \<Longrightarrow> q = Inr rows \<Longrightarrow> list_all (\<lambda>r. ok (ss_ID r)) rows"
  and stopped_id: "on_world (RepoStop X i stats) s = (u, s') \<Longrightarrow> u = Inr x \<Longrightarrow> ok i"
  using row_ids by (blast, blast, blast, cases x, blast)

lemma erase: "on_world (GetByID X i) s = (r, s') \<Longrightarrow> r = Inr sess \<Longrightarrow> \<not> ss_IsActive sess \<Longrightarrow> P u s' \<Longrightarrow> P u (snd (on_world (RepoDelete X i) s'))"
  using trans erasure by blast

lemmas flow = pair_snd bind bind_snd sum_cases option_cases gerr_cases if_cases after_reads pair_cases

section \<open>Engine\<close>

lemma incr: "ok i \<Longrightarrow> P s s' \<Longrightarrow> P s (incr X i g s')"
  unfolding incr_def by (rule after_writes)

lemma emit: "P s s' \<Longrightarrow> P s (emitPacketEvent X i ev s')"
  unfolding emitPacketEvent_def Let_def by (rule flow | assumption)+

lemma drop: "ok i \<Longrightarrow> P s s' \<Longrightarrow> P s (drop_frame X i pkt reason g v s')"
  unfolding drop_frame_def by (intro emit incr)

lemma reject: "ok i \<Longrightarrow> P s s' \<Longrightarrow> P s (reject X i n code msg s')"
  unfolding reject_def by (intro after_reads incr)

lemma roll: "P s s' \<Longrightarrow> P s (snd (roll X d pr s'))"
  unfolding roll_def by (intro after_reads)

lemma return_ack: "ok i \<Longrightarrow> P s s' \<Longrightarrow> P s (return_ack X i p r t status v s')"
  unfolding return_ack_def by (intro if_cases emit incr after_reads)

lemma duplicate: "ok i \<Longrightarrow> P s s' \<Longrightarrow> P s (handleDuplicate X i pkt t d pr v s')"
  unfolding handleDuplicate_def Let_def by (rule flow incr emit roll | assumption)+

lemma forward: "ok i \<Longrightarrow> P s s' \<Longrightarrow> P s (forwardToNode X i pkt t v s')"
  unfolding forwardToNode_def Let_def by (intro emit incr after_reads after_writes)

lemma unpack: "P s s' \<Longrightarrow> P s (snd (unpack X i pkt payload s'))"
  unfolding unpack_snd GetActive_def by (rule after_reads)

lemma insert_row:
  "legal_hops (pk_HopCount pkt) \<Longrightarrow> P s s' \<Longrightarrow> P s (snd (on_world (TelemetryInsert X (telemetry_row i pkt e dec)) s'))"
  by (rule after_statements) (simp_all add: telemetry_row_def)

lemma deliver: "ok i \<Longrightarrow> legal_hops (pk_HopCount pkt) \<Longrightarrow> P s s' \<Longrightarrow> P s (deliverToEdge X i pkt payload e t d pr v s')"
  unfolding deliverToEdge_def Let_def by (rule flow incr emit roll return_ack unpack insert_row | assumption)+

lemma propagate: "ok i \<Longrightarrow> legal_hops (pk_HopCount pkt) \<Longrightarrow> P s s' \<Longrightarrow> P s (propagate X i pkt payload edge t d pr s')"
  unfolding propagate_def Let_def
  by (rule flow incr emit roll drop duplicate forward deliver after_writes | assumption)+

lemma edge_lookup: "P s s' \<Longrightarrow> P s (snd (edgeCache_get X code s'))"
  unfolding edgeCache_get_def edgeCache_fresh_def Let_def by (rule flow | assumption)+

lemma resolve: "ok i \<Longrightarrow> P s s' \<Longrightarrow> P s (snd (resolve_target X i pkt edge s'))"
  unfolding resolve_target_def by (rule flow drop | assumption)+

lemma transmit: "ok i \<Longrightarrow> Validate pkt = Inr x \<Longrightarrow> P s s' \<Longrightarrow> P s (transmit_checked X i pkt t payload pr s')"
  unfolding transmit_checked_def by (rule flow drop propagate edge_lookup resolve legal_valid_hops | assumption)+

theorem HandleTransmit: "ok i \<Longrightarrow> P s s' \<Longrightarrow> P s (HandleTransmit X i n pkt s')"
  unfolding HandleTransmit_def prod.case by (rule flow reject transmit incr | assumption)+

theorem HandlePing: "ok i \<Longrightarrow> P s s' \<Longrightarrow> P s (HandlePing X iv i n la lo s')"
  unfolding HandlePing_def by (rule flow incr after_writes | assumption)+

theorem HandleAck: "ok i \<Longrightarrow> P s s' \<Longrightarrow> P s (HandleAck X i n ack s')"
  unfolding HandleAck_def Let_def prod.case by (rule flow incr return_ack roll after_writes | assumption)+

lemma SessionActive: "P s s' \<Longrightarrow> P s (snd (SessionActive X i s'))"
  unfolding SessionActive_def by (rule flow | assumption)+

lemma push_params:
  "(\<And>f u. P s u \<Longrightarrow> P s (send f u)) \<Longrightarrow> P s s' \<Longrightarrow> P s (push_params X i send s')"
  unfolding push_params_def by (rule flow | assumption)+

theorem NodeConnected: "P s s' \<Longrightarrow> P s (NodeConnected X i n s')"
  unfolding NodeConnected_def GetActive_def CurrentRoute_def Let_def
  by (rule flow push_params | assumption)+

theorem NodeDisconnected: "ok i \<Longrightarrow> P s s' \<Longrightarrow> P s (NodeDisconnected X i n s')"
  unfolding NodeDisconnected_def by (intro after_reads after_writes)

section \<open>Topology\<close>

lemma Snapshot: "P s s' \<Longrightarrow> P s (snd (Snapshot X i s'))"
  unfolding Snapshot_def Let_def by (rule flow | assumption)+

theorem MonitorConnected:
  "(\<And>f u. P s u \<Longrightarrow> P s (send f u)) \<Longrightarrow> P s s' \<Longrightarrow> P s (MonitorConnected X i send s')"
  unfolding MonitorConnected_def by (rule flow push_params Snapshot | assumption)+

lemma notify_steps: "P s (snd cs) \<Longrightarrow> P s (snd (fold (notify_step i old) tbl cs))"
proof (induction tbl arbitrary: cs)
  case (Cons ne tbl)
  have "P s (snd (notify_step i old ne cs))"
    using Cons.prems by (simp add: notify_step_def) (blast intro: after_reads)
  then show ?case using Cons.IH by simp
qed simp

lemma notify: "P s s' \<Longrightarrow> P s (notify_all i old tbl s')"
  unfolding notify_all_def Let_def by (rule flow notify_steps | assumption | simp)+

theorem recompute: "ok i \<Longrightarrow> P s s' \<Longrightarrow> P s (snd (recompute X i s'))"
  unfolding recompute_def Let_def by (rule flow after_writes notify | assumption)+

theorem tick: "\<forall>i \<in> sy_active s'. ok i \<Longrightarrow> P s s' \<Longrightarrow> P s (tick X s')"
proof -
  assume a: "\<forall>i \<in> sy_active s'. ok i" "P s s'"
  have "\<forall>i \<in> set ids. ok i \<Longrightarrow> P s u \<Longrightarrow> P s (fold (safeRecompute X) ids u)" for ids u
    by (induction ids arbitrary: u) (simp_all add: safeRecompute_def recompute)
  moreover have "\<forall>i \<in> set (activeSessions s'). ok i"
    using a(1) by (cases "finite (sy_active s')") (simp_all add: activeSessions_def)
  ultimately show ?thesis using a(2) by (simp add: tick_def)
qed

section \<open>Sessions and schemas\<close>

lemma cacheParams: "ok (ss_ID sess) \<Longrightarrow> P s s' \<Longrightarrow> P s (snd (cacheParams X sess s'))"
  unfolding cacheParams_def by (rule after_writes)

theorem Create: "P s s' \<Longrightarrow> P s (snd (Create X nm sf tx ws s'))"
  unfolding Create_def
  by (rule flow cacheParams created_id after_writes after_statements legal_new_session | assumption)+

lemma refresh: "P s s' \<Longrightarrow> P s (snd (refreshAndBroadcast X i s'))"
  unfolding refreshAndBroadcast_def Let_def
  by (rule flow cacheParams found_id | assumption)+

theorem UpdateWeather: "P s s' \<Longrightarrow> P s (snd (UpdateWeather X i ws s'))"
  unfolding UpdateWeather_def by (rule flow refresh after_statements | assumption)+

theorem UpdateRadioParams: "P s s' \<Longrightarrow> P s (snd (UpdateRadioParams X i sf tx s'))"
  unfolding UpdateRadioParams_def Let_def by (rule flow refresh after_statements | assumption)+

theorem Stop: "P s s' \<Longrightarrow> P s (snd (Stop X i s'))"
  unfolding Stop_def Let_def by (rule flow after_writes stopped_id | assumption)+

lemma Get: "P s s' \<Longrightarrow> P s (snd (Get X i s'))"
  unfolding Get_def by (rule flow | assumption)+

lemma DeleteSession: "P s s' \<Longrightarrow> P s (snd (DeleteSession X i s'))"
  unfolding DeleteSession_def by (rule flow erase | assumption)+

lemma LiveStats: "P s s' \<Longrightarrow> P s (snd (LiveStats X i s'))"
  unfolding LiveStats_def by (rule flow | assumption)+

lemma resume: "list_all (\<lambda>r. ok (ss_ID r)) rows \<Longrightarrow> P s s' \<Longrightarrow> P s (snd (resume_all X rows s'))"
proof (induction rows arbitrary: s')
  case (Cons r rows)
  then show ?case
    unfolding resume_all.simps by (auto intro!: flow cacheParams after_reads after_writes)
qed simp

theorem ResumeActive: "P s s' \<Longrightarrow> P s (snd (ResumeActive X s'))"
  unfolding ResumeActive_def by (rule flow resume listed_ids | assumption)+

theorem SetSchema: "P s s' \<Longrightarrow> P s (snd (SetSchema X i flds s'))"
  unfolding SetSchema_def Let_def by (rule flow after_statements | assumption)+

section \<open>Gateway\<close>

theorem safeProcess: "ok (jb_sessionID j) \<Longrightarrow> P s s' \<Longrightarrow> P s (safeProcess X iv j s')"
  unfolding safeProcess_def sendError_def
  by (rule flow HandlePing HandleTransmit HandleAck | assumption)+

theorem HandleNodeWS: "P s s' \<Longrightarrow> P s (snd (HandleNodeWS X up i n s'))"
  unfolding HandleNodeWS_def Let_def by (rule flow SessionActive NodeConnected | assumption)+

theorem HandleMonitorWS: "P s s' \<Longrightarrow> P s (snd (HandleMonitorWS X up i s'))"
  unfolding HandleMonitorWS_def Let_def by (rule flow SessionActive MonitorConnected | assumption)+

section \<open>REST\<close>

lemma answer: "P s (snd rs) \<Longrightarrow> P s (snd (answer f rs))"
  by (simp add: answer_def)

lemmas rest_defs = handleCreateSimulation_def handleListSimulations_def handleGetSimulation_def handleStopSimulation_def
  handleDeleteSession_def handleUpdateWeather_def handleUpdateParams_def handleGetStats_def handleSetSchema_def
  handleGetSchema_def handleGetTopology_def handleListTelemetry_def
  handleListEdges_def handleDeleteEdge_def handleHealthz_def handleReadyz_def ListSessions_def GetActive_def

lemmas services = Create UpdateWeather UpdateRadioParams Stop Get DeleteSession LiveStats SetSchema Snapshot

lemma edge_handlers:
  assumes "P s s'"
  shows "P s (snd (handleCreateEdge X r s'))" "P s (snd (handleUpdateEdge X r s'))"
  using assms unfolding handleCreateEdge_def handleUpdateEdge_def
  by (auto split: sum.split option.split intro!: answer after_statements legal_checked_edge)

lemma handlers:
  assumes "P s s'"
  shows "P s (snd (handleCreateSimulation X r s'))" "P s (snd (handleListSimulations X r s'))"
    "P s (snd (handleGetSimulation X u r s'))" "P s (snd (handleStopSimulation X u r s'))"
    "P s (snd (handleDeleteSession X u r s'))" "P s (snd (handleUpdateWeather X u r s'))"
    "P s (snd (handleUpdateParams X u r s'))" "P s (snd (handleGetStats X u r s'))"
    "P s (snd (handleSetSchema X u r s'))" "P s (snd (handleGetSchema X u r s'))"
    "P s (snd (handleGetTopology X u r s'))" "P s (snd (handleListTelemetry X u r s'))"
    "P s (snd (handleCreateEdge X r s'))" "P s (snd (handleUpdateEdge X r s'))"
    "P s (snd (handleListEdges X r s'))" "P s (snd (handleDeleteEdge X r s'))" "P s (snd (handleHealthz X r s'))"
  unfolding rest_defs Let_def
  by (rule assms | rule flow answer services edge_handlers | assumption)+

theorem serve:
  assumes "P s s'" and ready: "\<And>u. P u (snd (on_world (he_ready env) u))"
  shows "P s (snd (serve X env m path origin r s'))"
proof -
  have "P s (snd (handleReadyz (he_ready env) q s'))" for q
    unfolding handleReadyz_def by (rule flow trans [OF _ ready] assms | assumption)+
  then have "P s (snd (serve_endpoint X env e vars r s'))" for e vars
    unfolding serve_endpoint_def Let_def
    using handlers [OF assms(1)] HandleNodeWS [OF assms(1)] HandleMonitorWS [OF assms(1)]
    by (cases e) (simp_all add: case_prod_beta)
  then show ?thesis
    unfolding serve_def Let_def using assms(1) by (auto simp: case_prod_beta split: dispatch.splits)
qed

end

end
