(* ===== verification/Backend.thy ===== *)
theory Backend
  imports Frame
begin

text \<open>
  The whole backend as a state machine.  A step is an HTTP request (the WebSocket upgrades are two
  of them), a message of a connected ship entering the job queue, a worker taking a job, a tick of
  the topology scheduler, a frame leaving a send queue, the end of a connection, or the start-up and
  shutdown sequences.  Requests and jobs run to their end one after the other (Interleaved has them
  all in flight at once).  The readiness probe
  is assumed to change nothing but the time, and session identifiers are UUIDs.
\<close>

section \<open>Steps\<close>

definition quiet_probe :: "('w \<Rightarrow> store) \<Rightarrow> 'w http_env \<Rightarrow> bool" where
  "quiet_probe view env \<longleftrightarrow> (\<forall>w. calm {} (view w) (view (snd (he_ready env w))))"

definition on_sys :: "('w sys \<Rightarrow> 'w sys) \<Rightarrow> 'w backend \<Rightarrow> 'w backend" where
  "on_sys f b = b\<lparr>be_sys := f (be_sys b)\<rparr>"

inductive backend_step :: "('w \<Rightarrow> store) \<Rightarrow> 'w ext \<Rightarrow> duration \<Rightarrow> 'w backend \<Rightarrow> 'w backend \<Rightarrow> bool"
  for view :: "'w \<Rightarrow> store" and X :: "'w ext" and iv :: duration where
  step_http: "quiet_probe view env \<Longrightarrow> backend_step view X iv b (on_sys (\<lambda>s. snd (serve X env m path origin r s)) b)"
| step_frame: "is_client (sy_hub (be_sys b)) c (kindNode, i, n) \<Longrightarrow> colon_free i \<Longrightarrow>
    backend_step view X iv b (enqueue i n raw b)"
| step_work: "backend_step view X iv b (worker_step X iv b)"
| step_tick: "backend_step view X iv b (on_sys (tick X) b)"
| step_close_node: "is_client (sy_hub (be_sys b)) c (kindNode, i, n) \<Longrightarrow> colon_free i \<Longrightarrow>
    backend_step view X iv b (on_sys (node_onClose X i n c) b)"
| step_close_monitor: "is_client (sy_hub (be_sys b)) c (kindMonitor, i, []) \<Longrightarrow>
    backend_step view X iv b (on_sys (monitor_onClose c) b)"
| step_written: "backend_step view X iv b (on_sys (\<lambda>s. snd (on_hub (writePump_frame c) s)) b)"
| step_resume: "backend_step view X iv b (on_sys (\<lambda>s. snd (ResumeActive X s)) b)"
| step_stop_server: "backend_step view X iv b (on_sys (\<lambda>s. s\<lparr>sy_hub := Shutdown (sy_hub s)\<rparr>) b)"

inductive backend_run :: "('w \<Rightarrow> store) \<Rightarrow> 'w ext \<Rightarrow> duration \<Rightarrow> 'w backend \<Rightarrow> 'w backend \<Rightarrow> bool"
  for view :: "'w \<Rightarrow> store" and X :: "'w ext" and iv :: duration and b :: "'w backend" where
  run_here: "backend_run view X iv b b"
| run_step: "backend_run view X iv b b1 \<Longrightarrow> backend_step view X iv b1 b2 \<Longrightarrow> backend_run view X iv b b2"

definition start :: "int \<Rightarrow> 'w \<Rightarrow> 'w backend" where
  "start sendBuffer w =
     \<lparr>be_sys = \<lparr>sy_world = w, sy_hub = NewHub sendBuffer, sy_active = {}, sy_byCode = None, sy_loadedAt = 0\<rparr>, be_jobs = []\<rparr>"

section \<open>One step, for any relation that satisfies the frame contract\<close>

lemma on_sys_simps [simp]: "be_sys (on_sys f b) = f (be_sys b)" "be_jobs (on_sys f b) = be_jobs b"
  by (simp_all add: on_sys_def)

lemma enqueue_sys [simp]: "be_sys (enqueue i n raw b) = be_sys b"
  by (simp add: enqueue_def)

lemma worker_step_cases:
  obtains "worker_step X iv b = b" "be_jobs b = []"
  | j js where "be_jobs b = j # js" "be_sys (worker_step X iv b) = safeProcess X iv j (be_sys b)" "be_jobs (worker_step X iv b) = js"
  by (cases "be_jobs b") (simp_all add: worker_step_def)

lemma node_onClose_eq:
  "node_onClose X i n c s =
     (let s1 = s\<lparr>sy_hub := snd (unregisterNode c (Close c (sy_hub s)))\<rparr>
      in if fst (unregisterNode c (Close c (sy_hub s))) then NodeDisconnected X i n s1 else s1)"
  by (simp add: node_onClose_def on_hub_def Let_def)

lemma step_jobs:
  assumes "backend_step view X iv b b'"
    and "\<forall>j \<in> set (be_jobs b). colon_free (jb_sessionID j)" "length (be_jobs b) \<le> jobQueueSize"
  shows "(\<forall>j \<in> set (be_jobs b'). colon_free (jb_sessionID j)) \<and> length (be_jobs b') \<le> jobQueueSize"
  using assms
proof (induction rule: backend_step.induct)
  case (step_work b)
  then show ?case by (cases rule: worker_step_cases [of X iv b]) simp_all
qed (auto simp: enqueue_def)

context service_frame
begin

text \<open>The hub's own steps and the readiness probe are all that a step of the backend adds.\<close>

lemma step:
  assumes "backend_step view X iv b b'"
    and probe: "\<And>env u. quiet_probe view env \<Longrightarrow> P u (snd (on_world (he_ready env) u))"
    and hub: "\<And>s h. hub_step (sy_hub s) h \<Longrightarrow> P s (s\<lparr>sy_hub := h\<rparr>)"
    and ids: "\<And>i. colon_free i \<Longrightarrow> ok i" "\<forall>i \<in> sy_active (be_sys b). ok i" "\<forall>j \<in> set (be_jobs b). ok (jb_sessionID j)"
  shows "P (be_sys b) (be_sys b')"
  using assms(1) ids(2,3)
proof (induction rule: backend_step.induct)
  case (step_http env b m path origin r)
  show ?case unfolding on_sys_simps by (rule serve, rule refl, rule probe, rule step_http.hyps)
next
  case (step_work b)
  show ?case
  proof (cases rule: worker_step_cases [of X iv b])
    case (2 j js)
    then show ?thesis using step_work.prems(2) by (simp add: safeProcess)
  qed simp
next
  case (step_tick b)
  then show ?case by (simp add: tick)
next
  case (step_close_node b c i n)
  have "P (be_sys b) ((be_sys b)\<lparr>sy_hub := snd (unregisterNode c (Close c (sy_hub (be_sys b))))\<rparr>)"
    by (rule hub) (use step_close_node.hyps in \<open>simp add: hub_step.intros\<close>)
  then show ?case using step_close_node.hyps(2) by (simp add: node_onClose_eq Let_def NodeDisconnected ids(1))
next
  case (step_close_monitor b c i)
  then show ?case unfolding on_sys_simps monitor_onClose_def by (intro hub) (simp add: hub_step.intros)
next
  case (step_written b c)
  show ?case unfolding on_sys_simps on_hub_def snd_conv by (rule hub) (simp add: hub_step.intros)
next
  case (step_stop_server b)
  show ?case unfolding on_sys_simps by (rule hub) (simp add: hub_step.intros)
qed (simp_all add: ResumeActive)

end

section \<open>The hub is driven by its own steps only\<close>

definition drives :: "int \<Rightarrow> 'w sys \<Rightarrow> 'w sys \<Rightarrow> bool" where
  "drives n s s' \<longleftrightarrow> (hub_reachable n (sy_hub s) \<longrightarrow> hub_reachable n (sy_hub s'))"

lemma drives_same: "sy_hub s' = sy_hub s \<Longrightarrow> drives n s s'"
  by (simp add: drives_def)

lemma drives_step: "hub_step (sy_hub s) (sy_hub s') \<Longrightarrow> drives n s s'"
  by (auto simp: drives_def intro: reach_step)

lemma on_hub_hub [simp]: "sy_hub (snd (on_hub f s)) = snd (f (sy_hub s))"
  "sy_world (snd (on_hub f s)) = sy_world s" "sy_active (snd (on_hub f s)) = sy_active s"
  by (simp_all add: on_hub_def)

interpretation hub_frame: service_frame X "drives n" "\<lambda>_. True" for X :: "'w ext" and n
proof
  show "drives n s s' \<Longrightarrow> drives n s' s'' \<Longrightarrow> drives n s s''" for s s' s'' :: "'w sys"
    by (simp add: drives_def)
  show "drives n s (send_node i k f s)" "drives n s (to_nodes i f s)" "drives n s (to_monitors i f s)"
    "drives n s (kick_session i s)" "drives n s (monitor_send c f s)" for s :: "'w sys" and i k f c
    by (rule drives_step, simp add: kick_session_def monitor_send_def hub_step.intros)+
  show "drives n s (snd (on_hub (open_node i k) s))" "drives n s (snd (on_hub (open_monitor i) s))" for s :: "'w sys" and i k
    by (rule drives_step, simp add: hub_step.intros)+
qed (simp_all add: drives_same AddSession_def RemoveSession_def list_all_iff)

section \<open>The scheduler serves sessions of the database only\<close>

text \<open>An identifier the database returned: under its laws it contains no colon.\<close>

definition row_id :: "'w ext \<Rightarrow> string \<Rightarrow> bool" where
  "row_id X i \<longleftrightarrow> (uuid_column X \<longrightarrow> colon_free i)"

lemma row_id_results:
  "on_world (SessionCreate X sess) s = (Inr sess', s') \<Longrightarrow> row_id X (ss_ID sess')"
  "on_world (GetByID X i) s = (Inr sess', s') \<Longrightarrow> row_id X (ss_ID sess')"
  "on_world (ListActive X) s = (Inr rows, s') \<Longrightarrow> list_all (\<lambda>r. row_id X (ss_ID r)) rows"
  "on_world (RepoStop X i stats) s = (Inr (), s') \<Longrightarrow> row_id X i"
proof -
  show "row_id X (ss_ID sess')" if "on_world (SessionCreate X sess) s = (Inr sess', s')"
    using that unfolding row_id_def uuid_column_def
    by (fastforce simp: on_world_def SessionCreate_def split: prod.splits sum.splits)
  show "row_id X (ss_ID sess')" if "on_world (GetByID X i) s = (Inr sess', s')"
    using that unfolding row_id_def uuid_column_def
    by (fastforce simp: on_world_def GetByID_def split: prod.splits sum.splits option.splits)
  show "list_all (\<lambda>r. row_id X (ss_ID r)) rows" if on: "on_world (ListActive X) s = (Inr rows, s')"
  proof -
    obtain w' where "ListActive X (sy_world s) = (Inr rows, w')" using on by (metis on_worldE)
    then have "qListActive X (sy_world s) = (Inr rows, w')" by (simp add: ListActive_def wrap_err_eq)
    then show ?thesis unfolding row_id_def list_all_iff uuid_column_def by blast
  qed
  show "row_id X i" if on: "on_world (RepoStop X i stats) s = (Inr (), s')"
  proof -
    obtain w' where "RepoStop X i stats (sy_world s) = (Inr (), w')" using on by (metis on_worldE)
    then obtain k where "qStopSession X i stats (sy_world s) = (Inr k, w')"
      by (auto simp: RepoStop_def rows_or_def split: prod.splits sum.splits if_splits)
    then show ?thesis unfolding row_id_def uuid_column_def by blast
  qed
qed

definition serves_rows :: "'w ext \<Rightarrow> 'w sys \<Rightarrow> bool" where
  "serves_rows X s \<longleftrightarrow> (\<forall>i \<in> sy_active s. row_id X i)"

interpretation active_frame: service_frame X "\<lambda>s s'. serves_rows X s \<longrightarrow> serves_rows X s'" "row_id X" for X :: "'w ext"
proof
  show "serves_rows X s \<longrightarrow> serves_rows X (AddSession i s)" if "row_id X i" for s i
    using that by (simp add: serves_rows_def AddSession_def)
  show "serves_rows X s \<longrightarrow> serves_rows X (RemoveSession i s)" for s i
    by (simp add: serves_rows_def RemoveSession_def)
qed (auto simp: serves_rows_def kick_session_def monitor_send_def dest: row_id_results)

section \<open>Claims last until they expire\<close>

text \<open>Time does not run backwards and a claim on the key \<open>k\<close> stays until its expiry.\<close>

definition stays :: "('w \<Rightarrow> store) \<Rightarrow> string \<Rightarrow> 'w sys \<Rightarrow> 'w sys \<Rightarrow> bool" where
  "stays view k s s' \<longleftrightarrow>
     st_now (view (sy_world s)) \<le> st_now (view (sy_world s')) \<and>
     (\<forall>u. held_until (view (sy_world s)) k = Some u \<longrightarrow> st_now (view (sy_world s')) < u \<longrightarrow>
        held_until (view (sy_world s')) k = Some u)"

text \<open>The keys that only \<open>SETNX\<close> writes: packets seen and ping limits, of sessions with a UUID.\<close>

definition claim_key :: "string \<Rightarrow> bool" where
  "claim_key k \<longleftrightarrow> (\<exists>i p r. colon_free i \<and> k = keyDedup i p r) \<or> (\<exists>i n. colon_free i \<and> k = keyPingLimit i n)"

lemma stays_trans: "stays view k s s' \<Longrightarrow> stays view k s' s'' \<Longrightarrow> stays view k s s''"
  unfolding stays_def by fastforce

lemma stays_keeps: "keeps K (view (sy_world s)) (view (sy_world s')) \<Longrightarrow> k \<notin> K \<Longrightarrow> stays view k s s'"
  by (auto simp: stays_def keeps_def held_until_def)

lemma stays_same: "sy_world s' = sy_world s \<Longrightarrow> stays view k s s'"
  by (simp add: stays_def)

lemma claim_key_others:
  assumes "claim_key k" "colon_free i"
  shows "k \<notin> {keyGeo i, keyRoutes i, keyRoutesFull i, keyParams i, keyStats i, keyAckSender i p r}"
proof -
  obtain i0 p0 r0 n0 where "colon_free i0" "k = keyDedup i0 p0 r0 \<or> k = keyPingLimit i0 n0"
    using assms(1) by (auto simp: claim_key_def)
  then show ?thesis using keys_distinct [OF _ assms(2), of i0] by auto
qed

lemma stays_SetNX:
  assumes "redis_ok F view X"
  shows "stays view k s (snd (on_world (MarkPacketSeen X i p r) s))" "stays view k s (snd (on_world (AllowPing X i n iv) s))"
proof -
  have claim: "stays view k s s'" if "sy_world s' = snd (rSetNX X k' v ttl (sy_world s))" for s s' k' v ttl
  proof (cases "k' = k")
    case True
    have "keeps {k} (view (sy_world s)) (view (sy_world s'))"
      using keeps_implements [OF redis_okD(4) [OF assms] touches_redis(4)] that True by metis
    then show ?thesis
      using SetNX_stays [OF assms, of "sy_world s" k] that True by (auto simp: stays_def keeps_def)
  next
    case False
    then show ?thesis
      using keeps_implements [OF redis_okD(4) [OF assms] touches_redis(4)] that stays_keeps [of "{k'}"] by (metis singletonD)
  qed
  show "stays view k s (snd (on_world (MarkPacketSeen X i p r) s))" "stays view k s (snd (on_world (AllowPing X i n iv) s))"
    by (rule claim, simp add: MarkPacketSeen_def AllowPing_def)+
qed

lemma sql_repo_keeps:
  assumes "sql_ok F view X"
  shows "keeps {} (view w) (view (snd (SessionCreate X sess w)))" "keeps {} (view w) (view (snd (GetByID X i w)))"
    "keeps {} (view w) (view (snd (SessionList X m w)))" "keeps {} (view w) (view (snd (ListActive X w)))"
    "keeps {} (view w) (view (snd (RepoUpdateWeather X i ws w)))" "keeps {} (view w) (view (snd (RepoUpdateRadioParams X i sf tx w)))"
    "keeps {} (view w) (view (snd (RepoStop X i stats w)))" "keeps {} (view w) (view (snd (RepoDelete X i w)))"
    "keeps {} (view w) (view (snd (EdgeCreate X e w)))" "keeps {} (view w) (view (snd (EdgeList X w)))"
    "keeps {} (view w) (view (snd (EdgeUpdate X code nm la lo w)))" "keeps {} (view w) (view (snd (EdgeDelete X code w)))"
    "keeps {} (view w) (view (snd (SchemaCreate X i flds w)))" "keeps {} (view w) (view (snd (GetLatest X i w)))"
    "keeps {} (view w) (view (snd (TelemetryInsert X row w)))" "keeps {} (view w) (view (snd (ListBySession X i m off w)))"
    "keeps {} (view w) (view (snd (CountBySession X i w)))"
proof -
  have get: "snd (GetByID X i w) = snd (qGetSession X i w)"
    by (auto simp: GetByID_def split: prod.splits sum.splits option.splits)
  have create: "snd (SessionCreate X sess w) =
      snd (qInsertSession X (ss_SessionName sess) (ss_SpreadingFactor sess) (ss_TxPowerDbm sess) (ss_WeatherSeverity sess) w)"
    by (auto simp: SessionCreate_def split: prod.splits sum.splits)
  have edge: "snd (EdgeCreate X e w) = snd (qInsertEdge X (ed_EdgeCode e) (ed_Name e) (ed_Latitude e) (ed_Longitude e) w)"
    by (auto simp: EdgeCreate_def split: prod.splits sum.splits pgerr.splits)
  have schema: "snd (SchemaCreate X i flds w) = snd (qInsertSchema X i flds w)"
    by (auto simp: SchemaCreate_def split: prod.splits sum.splits)
  note q = sql_keeps [OF assms]
  show "keeps {} (view w) (view (snd (SessionCreate X sess w)))" "keeps {} (view w) (view (snd (GetByID X i w)))"
    "keeps {} (view w) (view (snd (EdgeCreate X e w)))" "keeps {} (view w) (view (snd (SchemaCreate X i flds w)))"
    by (simp_all add: get create edge schema q)
  show "keeps {} (view w) (view (snd (SessionList X m w)))" "keeps {} (view w) (view (snd (ListActive X w)))"
    "keeps {} (view w) (view (snd (RepoUpdateWeather X i ws w)))" "keeps {} (view w) (view (snd (RepoUpdateRadioParams X i sf tx w)))"
    "keeps {} (view w) (view (snd (RepoStop X i stats w)))" "keeps {} (view w) (view (snd (RepoDelete X i w)))"
    "keeps {} (view w) (view (snd (EdgeList X w)))"
    "keeps {} (view w) (view (snd (EdgeUpdate X code nm la lo w)))" "keeps {} (view w) (view (snd (EdgeDelete X code w)))"
    "keeps {} (view w) (view (snd (GetLatest X i w)))" "keeps {} (view w) (view (snd (ListBySession X i m off w)))"
    "keeps {} (view w) (view (snd (CountBySession X i w)))"
    by (simp_all add: SessionList_def ListActive_def RepoUpdateWeather_def RepoUpdateRadioParams_def RepoStop_def
        RepoDelete_def EdgeList_def EdgeUpdate_def EdgeDelete_def GetLatest_def ListBySession_def CountBySession_def q)
  show "keeps {} (view w) (view (snd (TelemetryInsert X row w)))" by (rule TelemetryInsert_effect(1) [OF assms])
qed

definition guards :: "formats \<Rightarrow> ('w \<Rightarrow> store) \<Rightarrow> 'w ext \<Rightarrow> string \<Rightarrow> 'w sys \<Rightarrow> 'w sys \<Rightarrow> bool" where
  "guards F view X k s s' \<longleftrightarrow> (ext_ok F view X \<longrightarrow> claim_key k \<longrightarrow> stays view k s s')"

lemma guards_same: "sy_world s' = sy_world s \<Longrightarrow> guards F view X k s s'"
  by (simp add: guards_def stays_same)

lemma guards_read:
  "(\<And>w. ext_ok F view X \<Longrightarrow> keeps {} (view w) (view (snd (f w)))) \<Longrightarrow> guards F view X k s (snd (on_world f s))"
  unfolding guards_def by (intro impI) (rule stays_keeps [of "{}"], simp_all)

lemma guards_write:
  assumes "\<And>w. ext_ok F view X \<Longrightarrow> keeps K (view w) (view (snd (f w)))" "ext_ok F view X \<Longrightarrow> colon_free i"
    "K \<subseteq> {keyGeo i, keyRoutes i, keyRoutesFull i, keyParams i, keyStats i, keyAckSender i p r}"
  shows "guards F view X k s (snd (on_world f s))"
  unfolding guards_def
proof (intro impI)
  assume a: "ext_ok F view X" "claim_key k"
  have "k \<notin> K" using claim_key_others [OF a(2) assms(2) [OF a(1)]] assms(3) by blast
  then show "stays view k s (snd (on_world f s))" by (rule stays_keeps [rotated]) (simp add: assms(1) a(1))
qed

interpretation guard_frame: service_frame X "guards F view X k" "\<lambda>i. ext_ok F view X \<longrightarrow> colon_free i"
  for X :: "'w ext" and F view k
proof
  show "guards F view X k s s' \<Longrightarrow> guards F view X k s' s'' \<Longrightarrow> guards F view X k s s''" for s s' s''
    by (auto simp: guards_def intro: stays_trans)
  show "guards F view X k s (snd (on_world (xClock X) s))" "guards F view X k s (snd (on_world (Evaluate (xRand X) d pr) s))" for s d pr
    by (rule guards_read, drule ext_parts(3), simp add: Evaluate_world calm_keeps env_calm)+
  show "guards F view X k s (snd (on_world (GetParams X i) s))" "guards F view X k s (snd (on_world (GetStats X i) s))"
      "guards F view X k s (snd (on_world (Position X i n) s))" "guards F view X k s (snd (on_world (AllPositions X i) s))"
      "guards F view X k s (snd (on_world (GetTable X i) s))" "guards F view X k s (snd (on_world (GetRoute X i n) s))" for s i n
    by (rule guards_read, drule ext_parts(1), rule calm_keeps, simp add: repo_calm)+
  show "guards F view X k s (snd (on_world (GetByID X i) s))" "guards F view X k s (snd (on_world (SessionList X m) s))"
      "guards F view X k s (snd (on_world (ListActive X) s))" "guards F view X k s (snd (on_world (EdgeList X) s))"
      "guards F view X k s (snd (on_world (GetLatest X i) s))" "guards F view X k s (snd (on_world (ListBySession X i m off) s))"
      "guards F view X k s (snd (on_world (CountBySession X i) s))" "guards F view X k s (snd (on_world (SessionCreate X sess) s))"
      "guards F view X k s (snd (on_world (RepoUpdateWeather X i ws) s))" "guards F view X k s (snd (on_world (RepoUpdateRadioParams X i sf tx) s))"
      "guards F view X k s (snd (on_world (RepoStop X i stats) s))" "guards F view X k s (snd (on_world (RepoDelete X i) s))"
      "guards F view X k s (snd (on_world (EdgeCreate X e) s))" "guards F view X k s (snd (on_world (EdgeUpdate X code nm la lo) s))"
      "guards F view X k s (snd (on_world (EdgeDelete X code) s))" "guards F view X k s (snd (on_world (SchemaCreate X i flds) s))"
      "guards F view X k s (snd (on_world (TelemetryInsert X row) s))" for s i m off sess ws sf tx stats e code nm la lo flds row
    by (rule guards_read, drule ext_parts(2), simp add: sql_repo_keeps)+
  show "guards F view X k s (snd (on_world (MarkPacketSeen X i p r) s))" "guards F view X k s (snd (on_world (AllowPing X i n iv) s))" for s i p r n iv
    unfolding guards_def by (auto intro: stays_SetNX dest: ext_parts(1))
  fix s :: "'w sys" and i pr g n la lo t p r
  assume i: "ext_ok F view X \<longrightarrow> colon_free i"
  have w: "guards F view X k s (snd (on_world f s))"
    if "\<And>w. redis_ok F view X \<Longrightarrow> calm K (view w) (view (snd (f w)))"
      "K \<subseteq> {keyGeo i, keyRoutes i, keyRoutesFull i, keyParams i, keyStats i, keyAckSender i p r}" for f :: "'w \<Rightarrow> 'b \<times> 'w" and K
    using i that(2) by (auto intro!: guards_write [where K = K and i = i] intro: calm_keeps that(1) ext_parts(1))
  show "guards F view X k s (snd (on_world (SaveParams X i pr) s))" by (rule w, erule repo_calm(1)) auto
  show "guards F view X k s (snd (on_world (IncrStat X i g) s))" by (rule w, erule repo_calm(7)) auto
  show "guards F view X k s (snd (on_world (ClearSession X i) s))" by (rule w, erule repo_calm(9)) auto
  show "guards F view X k s (snd (on_world (UpsertPosition X i n la lo) s))" by (rule w, erule repo_calm(10)) auto
  show "guards F view X k s (snd (on_world (RemoveNode X i n) s))" by (rule w, erule repo_calm(11)) auto
  show "guards F view X k s (snd (on_world (GeoClear X i) s))" by (rule w, erule repo_calm(13)) auto
  show "guards F view X k s (snd (on_world (SaveTable X i t) s))" by (rule w, erule repo_calm(14)) auto
  show "guards F view X k s (snd (on_world (RoutesClear X i) s))" by (rule w, erule repo_calm(17)) auto
  show "guards F view X k s (snd (on_world (RememberAckSender X i p r n) s))" by (rule w, erule repo_calm(4)) auto
  show "guards F view X k s (snd (on_world (TakeAckSender X i p r) s))" by (rule w, erule repo_calm(5)) auto
qed (auto simp: guards_same kick_session_def monitor_send_def AddSession_def RemoveSession_def
    dest!: row_id_results ext_parts(4) simp: row_id_def list_all_iff)

end
