(* ===== verification/Runs.thy ===== *)
theory Runs
  imports Backend
begin

text \<open>
  Properties of whole runs of the backend: its invariant, the refinement of the hub's state
  machine, at-most-once reception of a packet, and the rate limit of position reports.
\<close>

section \<open>The invariant\<close>

definition backend_inv :: "'w ext \<Rightarrow> 'w backend \<Rightarrow> bool" where
  "backend_inv X b \<longleftrightarrow>
     serves_rows X (be_sys b) \<and> (\<forall>j \<in> set (be_jobs b). colon_free (jb_sessionID j)) \<and> length (be_jobs b) \<le> jobQueueSize"

lemma serves_rows_hub [simp]: "serves_rows X (s\<lparr>sy_hub := h\<rparr>) = serves_rows X s"
  by (simp add: serves_rows_def)

lemma backend_inv_step:
  assumes "backend_step view X iv b b'" "backend_inv X b" "uuid_column X"
  shows "backend_inv X b'"
proof -
  have "serves_rows X (be_sys b) \<longrightarrow> serves_rows X (be_sys b')"
    using assms(2) by (intro active_frame.step [OF assms(1)]) (auto simp: backend_inv_def row_id_def serves_rows_def)
  moreover have "(\<forall>j \<in> set (be_jobs b'). colon_free (jb_sessionID j)) \<and> length (be_jobs b') \<le> jobQueueSize"
    using step_jobs [OF assms(1)] assms(2) by (simp add: backend_inv_def)
  ultimately show ?thesis using assms(2) by (simp add: backend_inv_def)
qed

lemma backend_run_inv: "backend_run view X iv b b' \<Longrightarrow> backend_inv X b \<Longrightarrow> uuid_column X \<Longrightarrow> backend_inv X b'"
  by (induction rule: backend_run.induct) (auto intro: backend_inv_step)

lemma start_inv: "backend_inv X (start n w)"
  by (simp add: backend_inv_def start_def serves_rows_def)

section \<open>Claims over runs\<close>

lemma step_guards:
  assumes "backend_step view X iv b b'" "backend_inv X b" "ext_ok F view X"
  shows "guards F view X k (be_sys b) (be_sys b')"
proof (rule guard_frame.step [OF assms(1)])
  show "guards F view X k u (snd (on_world (he_ready env) u))" if "quiet_probe view env" for env u
    by (rule guards_read) (use that in \<open>simp add: quiet_probe_def calm_keeps\<close>)
  show "\<forall>i \<in> sy_active (be_sys b). ext_ok F view X \<longrightarrow> colon_free i"
    using assms(2,3) ext_parts(4) by (auto simp: backend_inv_def serves_rows_def row_id_def)
qed (use assms(2) in \<open>simp_all add: guards_same backend_inv_def\<close>)

lemma run_stays:
  assumes "backend_run view X iv b b'" "backend_inv X b" "ext_ok F view X" "claim_key k"
  shows "stays view k (be_sys b) (be_sys b')"
proof -
  have "guards F view X k (be_sys b) (be_sys b')"
    using assms(1)
  proof (induction rule: backend_run.induct)
    case (run_step b1 b2)
    have "backend_inv X b1" by (rule backend_run_inv [OF run_step.hyps(1) assms(2) ext_parts(4) [OF assms(3)]])
    from guard_frame.trans [OF run_step.IH step_guards [OF run_step.hyps(2) this assms(3)]] show ?case .
  qed simp
  with assms(3,4) show ?thesis by (simp add: guards_def)
qed

section \<open>The hub inside the backend\<close>

lemma step_drives: "backend_step view X iv b b' \<Longrightarrow> drives n (be_sys b) (be_sys b')"
  by (erule hub_frame.step) (simp_all add: drives_step drives_same)

lemma run_drives: "backend_run view X iv b b' \<Longrightarrow> drives n (be_sys b) (be_sys b')"
proof (induction rule: backend_run.induct)
  case (run_step b1 b2)
  from hub_frame.trans [OF run_step.IH step_drives [OF run_step.hyps(2)]] show ?case .
qed simp

lemma run_hub:
  assumes "backend_run view X iv (start n w) b"
  shows "hub_reachable n (sy_hub (be_sys b))"
  using run_drives [OF assms, of n] reach_new [of n] by (simp add: drives_def start_def)

text \<open>
  Whatever requests, messages and ticks arrive, the backend drives its hub through the steps of
  the hub's own state machine only: in every run from the start the registries agree with their
  clients and every send queue stays within its capacity, the job queue holds at most 8192 frames,
  and no identifier the scheduler serves contains a colon, so that the keys of two sessions differ.
\<close>

theorem backend_invariant:
  assumes "uuid_column X" "backend_run view X iv (start n w) b"
  shows "hub_reachable n (sy_hub (be_sys b)) \<and> hub_inv (sy_hub (be_sys b)) \<and> queues_ok (sy_hub (be_sys b)) \<and>
    length (be_jobs b) \<le> 8192 \<and> (\<forall>j \<in> set (be_jobs b). colon_free (jb_sessionID j)) \<and>
    (\<forall>i \<in> sy_active (be_sys b). colon_free i)"
proof -
  have h: "hub_reachable n (sy_hub (be_sys b))" by (rule run_hub [OF assms(2)])
  have "backend_inv X b" by (rule backend_run_inv [OF assms(2) start_inv assms(1)])
  then show ?thesis
    using h hub_reachable_inv [OF h] hub_reachable_queues [OF h] assms(1)
    by (simp add: backend_inv_def serves_rows_def row_id_def jobQueueSize_def)
qed

theorem backend_invariant_witness:
  "hub_inv (sy_hub (tick duo_X (snd (ResumeActive duo_X (be_sys (start 8 duo_store))))))"
proof -
  let ?b = "on_sys (tick duo_X) (on_sys (\<lambda>s. snd (ResumeActive duo_X s)) (start 8 duo_store))"
  have "backend_run (\<lambda>w. w) duo_X 0 (start 8 duo_store) ?b"
    by (rule run_step [OF run_step [OF run_here step_resume] step_tick])
  from backend_invariant [OF ext_parts(4) [OF duo_ext_ok] this] show ?thesis by (simp only: on_sys_simps)
qed

section \<open>At most once\<close>

lemma redis_env_ext: "ext_ok F view X \<Longrightarrow> redis_env (view, X)"
  using ext_parts(1) by (auto simp: redis_env_def)

text \<open>What the world outside the engine sees of an accepted frame.\<close>

definition arrives :: "('w \<Rightarrow> store) \<Rightarrow> 'w sys \<Rightarrow> 'w sys \<Rightarrow> bool" where
  "arrives view s s' \<longleftrightarrow>
     (\<exists>i n. rfbox s' i n \<noteq> rfbox s i n) \<or> st_telemetry (view (sy_world s')) \<noteq> st_telemetry (view (sy_world s))"

lemma quiet_silent: "quiet view K s s' \<Longrightarrow> sys_inv s \<Longrightarrow> \<not> arrives view s s'"
  using tables_quiet [of view K s s'] by (simp add: arrives_def tables_def rfbox_quiet)

lemma stays_quiet: "quiet view K s s' \<Longrightarrow> k \<notin> K \<Longrightarrow> stays view k s s'"
  by (rule stays_keeps [OF calm_keeps [OF quiet_calm]])

lemma on_air_hops: "on_air view i sender pkt payload params edge d s \<Longrightarrow> legal_hops (pk_HopCount pkt)"
  by (simp add: on_air_def legal_hops_def valid_packet_def)

text \<open>An arrival is a won claim on the packet and its receiver.\<close>

lemma arrival_claims:
  assumes X: "ext_ok F view X" and inv: "sys_inv s" and i: "colon_free i"
    and arr: "arrives view s (HandleTransmit X i sender pkt s)"
  obtains sa sb where "stays view (keyDedup i (pk_PacketID pkt) (pk_TargetParent pkt)) s sa"
    "MarkPacketSeen X i (pk_PacketID pkt) (pk_TargetParent pkt) (sy_world sa) = (Inr True, sy_world sb)"
    "stays view (keyDedup i (pk_PacketID pkt) (pk_TargetParent pkt)) sb (HandleTransmit X i sender pkt s)"
proof -
  let ?k = "keyDedup i (pk_PacketID pkt) (pk_TargetParent pkt)" and ?K = "tx_keys i pkt"
  have c: "claim_key ?k" using i by (auto simp: claim_key_def)
  have K: "keyStats i \<in> ?K" "?k \<in> ?K" "keyGeo i \<notin> ?K" "keyParams i \<notin> ?K" using tx_keys_others by simp_all
  from X inv K show thesis
  proof (cases rule: HandleTransmit_cases [where sender = sender])
    case silent
    from quiet_silent [OF this inv] arr show thesis by simp
  next
    case (accepted payload params edge distKm v s1 s2)
    have "guards F view X ?k s2 (HandleTransmit X i sender pkt s)"
      unfolding accepted(1) using i on_air_hops [OF accepted(2)] by (cases edge) (simp_all add: guard_frame.deliver guard_frame.forward)
    then have "stays view ?k s2 (HandleTransmit X i sender pkt s)" using X c by (simp add: guards_def)
    moreover have "stays view ?k s s1"
      by (rule stays_quiet [OF accepted(3)]) (simp add: key_defs sim_key_def)
    ultimately show thesis using that [OF _ accepted(5)] by simp
  qed
qed

text \<open>
  C1. A receiver accepts a packet at most once per dedup interval: if a transmission of a packet
  reached its target (a data frame in a ship's queue, or a row in the telemetry table), then in any
  run of the backend no later transmission with the same packet identifier and target reaches
  anything before \<open>dedupTTL\<close> (30 s) has passed since the first.
\<close>

theorem accepted_once:
  assumes "ext_ok F view X" "colon_free i" "backend_inv X b1" "sys_inv s" "sys_inv (be_sys b2)"
    and "arrives view s (HandleTransmit X i sender pkt s)"
    and "be_sys b1 = HandleTransmit X i sender pkt s"
    and "backend_run view X iv b1 b2"
    and "pk_PacketID pkt' = pk_PacketID pkt" "pk_TargetParent pkt' = pk_TargetParent pkt"
  shows "arrives view (be_sys b2) (HandleTransmit X i sender' pkt' (be_sys b2)) \<longrightarrow>
    st_now (view (sy_world s)) + dedupTTL \<le>
    st_now (view (sy_world (HandleTransmit X i sender' pkt' (be_sys b2))))"
proof
  let ?p = "pk_PacketID pkt" and ?r = "pk_TargetParent pkt" and ?fin = "HandleTransmit X i sender' pkt' (be_sys b2)"
  let ?k = "keyDedup i ?p ?r"
  assume again: "arrives view (be_sys b2) ?fin"
  have c: "claim_key ?k" using assms(2) by (auto simp: claim_key_def)
  obtain sa sb where 1: "stays view ?k s sa"
      "MarkPacketSeen X i ?p ?r (sy_world sa) = (Inr True, sy_world sb)" "stays view ?k sb (be_sys b1)"
    using arrival_claims [OF assms(1,4,2,6)] unfolding assms(7) by blast
  obtain sc sd where 2: "stays view ?k (be_sys b2) sc"
      "MarkPacketSeen X i ?p ?r (sy_world sc) = (Inr True, sy_world sd)" "stays view ?k sd ?fin"
    using arrival_claims [OF assms(1,5,2) again] unfolding assms(9,10) by blast
  have mid: "stays view ?k sb sc"
    using stays_trans [OF 1(3) stays_trans [OF run_stays [OF assms(8,3,1) c] 2(1)]] .
  have "st_now (view (sy_world sa)) + dedupTTL \<le> st_now (view (sy_world sd))"
    using dedup.won_apart [OF redis_env_ext [OF assms(1)], of "(i, ?p, ?r)" "sy_world sa" "sy_world sb" "sy_world sc" "sy_world sd"]
      1(2) 2(2) mid by (simp add: stays_def)
  then show "st_now (view (sy_world s)) + dedupTTL \<le> st_now (view (sy_world ?fin))"
    using 1(1) 2(3) by (simp add: stays_def)
qed

text \<open>Ship B of the small system receives the packet of ship A.\<close>

lemma duo_arrives: "arrives (\<lambda>w. w) duo_sys (HandleTransmit duo_X ''S'' ''A'' (duo_pkt ''B'') duo_sys)"
  unfolding arrives_def using duo_receives by blast

lemma duo_reachable: "hub_reachable 8 (sy_hub duo_sys)"
  unfolding duo_sys_def duo_hub_def sys.simps
  by (rule reach_step [OF reach_step [OF reach_new step_open_node] step_open_node])

theorem accepted_once_witness:
  "let s1 = HandleTransmit duo_X ''S'' ''A'' (duo_pkt ''B'') duo_sys; s2 = HandleTransmit duo_X ''S'' ''A'' (duo_pkt ''B'') s1
   in arrives (\<lambda>w. w) duo_sys s1 \<and> (arrives (\<lambda>w. w) s1 s2 \<longrightarrow> dedupTTL \<le> st_now (sy_world s2))"
proof -
  let ?s1 = "HandleTransmit duo_X ''S'' ''A'' (duo_pkt ''B'') duo_sys"
  have "drives 8 duo_sys ?s1" by (rule hub_frame.HandleTransmit) simp_all
  then have inv: "sys_inv ?s1" using duo_reachable hub_reachable_inv unfolding drives_def by blast
  have "serves_rows duo_X duo_sys \<longrightarrow> serves_rows duo_X ?s1"
    by (rule active_frame.HandleTransmit) (simp_all add: row_id_def)
  then have rows: "serves_rows duo_X ?s1" by (simp add: serves_rows_def duo_sys_def row_id_def)
  have now: "st_now (sy_world duo_sys) = 0" by (simp add: duo_sys_def duo_store_def)
  show ?thesis
    using accepted_once [OF duo_ext_ok _ _ duo_inv _ duo_arrives,
        of "\<lparr>be_sys = ?s1, be_jobs = []\<rparr>" "\<lparr>be_sys = ?s1, be_jobs = []\<rparr>" 0 "duo_pkt ''B''" "''A''"]
    by (simp add: inv rows now run_here backend_inv_def duo_arrives Let_def)
qed

end
