(* ===== verification/Positions.thy ===== *)
theory Positions
  imports Runs
begin

text \<open>
  Position reports: what a ping can change, who can change a position, and how often.
\<close>

section \<open>What a ping changes\<close>

definition position :: "('w \<Rightarrow> store) \<Rightarrow> string \<Rightarrow> string \<Rightarrow> 'w sys \<Rightarrow> (real \<times> real) option" where
  "position view i n s = map_of (geo_at (view (sy_world s)) (keyGeo i)) n"

lemma position_keeps: "keeps K (view (sy_world s)) (view (sy_world s')) \<Longrightarrow> keyGeo i \<notin> K \<Longrightarrow> position view i n s' = position view i n s"
  by (simp add: position_def geo_at_keeps)

lemma geo_key_others:
  assumes "colon_free i" "colon_free i'"
  shows "keyGeo i' \<notin> {keyStats i, keyPingLimit i n}" "keyGeo i' \<notin> {keyStats i, keyAckSender i p r}"
    "keyGeo i' \<notin> tx_keys i pkt"
  using keys_distinct [OF assms] keys_distinct [OF assms(2,1)] by (metis empty_iff insert_iff)+

lemma position_send [simp]: "position view i n (send_node i' n' f s) = position view i n s"
  by (simp add: position_def)

text \<open>\<open>GEOADD\<close> moves one member, to the stored form of a legal coordinate.\<close>

lemma UpsertPosition_effect:
  assumes "redis_ok F view X"
  shows "map_of (geo_at (view (snd (UpsertPosition X i n la lo w))) (keyGeo i)) n' = map_of (geo_at (view w) (keyGeo i)) n' \<or>
    n' = n \<and> \<bar>la\<bar> \<le> geo_lat_max \<and> \<bar>lo\<bar> \<le> 180 \<and>
    map_of (geo_at (view (snd (UpsertPosition X i n la lo w))) (keyGeo i)) n' = Some (fm_quant F (la, lo))"
proof -
  have "snd (UpsertPosition X i n la lo w) = snd (rGeoAdd X (keyGeo i) n la lo w)" by (simp add: UpsertPosition_def)
  moreover obtain t where "view (snd (rGeoAdd X (keyGeo i) n la lo w)) = snd (ref_GeoAdd F (keyGeo i) n la lo (at_time t (view w))) \<or>
      view (snd (rGeoAdd X (keyGeo i) n la lo w)) = at_time t (view w)"
    using redis_okD(9) [OF assms, of "keyGeo i" n la lo] unfolding implements_def by (metis insert_iff singletonD snd_conv)
  moreover have "geo_at (put_key k (RGeo g) st) k = g" for k g st by (simp add: geo_at_def live_entry_def)
  ultimately show ?thesis by (auto simp: ref_GeoAdd_def map_of_update split: if_splits)
qed

lemma HandlePing_cases:
  assumes X: "ext_ok F view X"
  obtains (ignored) "calm {keyStats i, keyPingLimit i n} (view (sy_world s)) (view (sy_world (HandlePing X iv i n la lo s)))"
  | (upserted) w1 where "\<bar>la\<bar> \<le> 90" "\<bar>lo\<bar> \<le> 180" "AllowPing X i n iv (sy_world s) = (Inr True, w1)"
      "calm {keyStats i} (view (snd (UpsertPosition X i n la lo w1))) (view (sy_world (HandlePing X iv i n la lo s)))"
proof (cases "la < -90 \<or> la > 90 \<or> lo < -180 \<or> lo > 180")
  case True
  then show thesis using ignored by (simp add: HandlePing_def)
next
  case False
  note incr = repo_calm_any(1) [OF ext_parts(1) [OF X]]
  obtain r w1 where a: "AllowPing X i n iv (sy_world s) = (r, w1)" by force
  have c1: "calm {keyStats i, keyPingLimit i n} (view (sy_world s)) (view w1)"
    using calm_mono [OF repo_calm(6) [OF ext_parts(1) [OF X], of i n "sy_world s" iv]] a by simp
  show thesis
  proof (cases "r = Inr True")
    case True
    obtain r2 w2 where u: "UpsertPosition X i n la lo w1 = (r2, w2)" by force
    have "calm {keyStats i} (view w2) (view (sy_world (HandlePing X iv i n la lo s)))"
      using False True a u by (cases r2) (simp_all add: HandlePing_def on_world_def incr)
    then show thesis using upserted [OF _ _ _] False True a u by (simp add: abs_le_iff)
  next
    case other: False
    have "calm {keyStats i, keyPingLimit i n} (view (sy_world s)) (view (sy_world (HandlePing X iv i n la lo s)))"
    proof (cases r)
      case (Inr b)
      then have "sy_world (HandlePing X iv i n la lo s) = snd (IncrStat X i StatPingsRateLimited w1)"
        using False a other by (simp add: HandlePing_def on_world_def)
      then show ?thesis using calm_trans [OF c1 incr, of i StatPingsRateLimited] by simp
    qed (use False a c1 in \<open>simp add: HandlePing_def on_world_def\<close>)
    then show thesis by (rule ignored)
  qed
qed

lemma HandlePing_position:
  assumes "ext_ok F view X" "colon_free i" "colon_free i'"
  shows "position view i' n' (HandlePing X iv i n la lo s) = position view i' n' s \<or>
    i' = i \<and> n' = n \<and> \<bar>la\<bar> \<le> geo_lat_max \<and> \<bar>lo\<bar> \<le> 180 \<and>
    position view i' n' (HandlePing X iv i n la lo s) = Some (fm_quant F (la, lo))"
proof -
  note d = geo_key_others [OF assms(2,3)]
  from assms(1) show ?thesis
  proof (cases rule: HandlePing_cases [where i = i and n = n and iv = iv and la = la and lo = lo and s = s])
    case ignored
    then have "position view i' n' (HandlePing X iv i n la lo s) = position view i' n' s"
      by (intro position_keeps [OF calm_keeps d(1)])
    then show ?thesis ..
  next
    case (upserted w1)
    let ?w2 = "snd (UpsertPosition X i n la lo w1)"
    have fin: "position view i' n' (HandlePing X iv i n la lo s) = map_of (geo_at (view ?w2) (keyGeo i')) n'"
      using geo_at_calm [OF upserted(4), of "keyGeo i'"] d by (simp add: position_def)
    have first: "map_of (geo_at (view w1) (keyGeo i')) n' = position view i' n' s"
      using geo_at_calm [OF repo_calm(6) [OF ext_parts(1) [OF assms(1)]], of "keyGeo i'" i n iv "sy_world s"] upserted(3) d
      by (simp add: position_def)
    show ?thesis
    proof (cases "i' = i")
      case True
      then show ?thesis using UpsertPosition_effect [OF ext_parts(1) [OF assms(1)], of i n la lo w1 n'] fin first by auto
    next
      case False
      then have "keyGeo i' \<notin> {keyGeo i}" by (simp add: keyGeo_def sim_key_def)
      then show ?thesis
        using geo_at_calm [OF repo_calm(10) [OF ext_parts(1) [OF assms(1)]], of "keyGeo i'" i n la lo w1] fin first by simp
    qed
  qed
qed

section \<open>The other events change no position\<close>

lemma HandleTransmit_keeps:
  assumes "ext_ok F view X" "sys_inv s"
  shows "keeps (tx_keys i pkt) (view (sy_world s)) (view (sy_world (HandleTransmit X i sender pkt s)))"
  using assms
proof (cases rule: HandleTransmit_effect [where i = i and pkt = pkt and sender = sender])
  case (forwarded payload params d s1)
  from keeps_trans [OF calm_keeps [OF quiet_calm [OF forwarded(2)]]] calm_keeps [OF quiet_calm [OF forwarded(3)]]
  show ?thesis by simp
next
  case (delivered payload params e d decoded s1)
  have mid: "keeps (tx_keys i pkt) (view (sy_world s1)) (view (snd (TelemetryInsert X (telemetry_row i pkt e decoded) (sy_world s1))))"
    by (rule keeps_mono [OF TelemetryInsert_effect(1) [OF ext_parts(2) [OF assms(1)]]]) simp
  from keeps_trans [OF keeps_trans [OF calm_keeps [OF quiet_calm [OF delivered(2)]] mid]] calm_keeps [OF quiet_calm [OF delivered(3)]]
  show ?thesis by simp
qed (rule calm_keeps [OF quiet_calm])

lemma quiet_HandleAck:
  assumes "ext_ok F view X"
  shows "quiet view {keyStats i, keyAckSender i (na_PacketID ack) n} s (HandleAck X i n ack s)"
proof -
  let ?K = "{keyStats i, keyAckSender i (na_PacketID ack) n}"
  note e = ext_parts [OF assms] and K = insertI1 [of "keyStats i" "{keyAckSender i (na_PacketID ack) n}"]
  obtain r1 s1 where 1: "on_world (TakeAckSender X i (na_PacketID ack) n) s = (r1, s1)" by force
  have "quiet view ?K s (snd (on_world (TakeAckSender X i (na_PacketID ack) n) s))"
    by (rule quiet_world, rule repo_calm_any(9) [OF e(1)]) simp
  then have q1: "quiet view ?K s s1" by (simp add: 1)
  show ?thesis
  proof (cases r1)
    case (Inl err)
    then show ?thesis using 1 q1 quiet_trans [OF q1 quiet_incr [OF e(1) K]]
      by (cases err) (simp_all add: HandleAck_def)
  next
    case (Inr sender)
    obtain r2 s2 where 2: "on_world (GetParams X i) s1 = (r2, s2)" by force
    obtain rx s3 where 3: "on_world (Position X i n) s2 = (rx, s3)" by force
    obtain tx s4 where 4: "on_world (Position X i sender) s3 = (tx, s4)" by force
    have q2: "quiet view ?K s s2" using quiet_trans [OF q1 quiet_GetParams [OF assms]] 2 by (metis snd_conv)
    have q4: "quiet view ?K s s4"
      using quiet_trans [OF quiet_trans [OF q2 quiet_Position [OF assms]] quiet_Position [OF assms]] 3 4 by (metis snd_conv)
    note fin = quiet_trans [OF q4 quiet_incr [OF e(1) K]]
      quiet_trans [OF quiet_trans [OF q4 quiet_roll [OF e(3)]] quiet_return_ack [OF assms K]]
    show ?thesis
      using q1 q2 fin by (simp add: HandleAck_def 1 2 3 4 Inr Let_def case_prod_beta split: sum.split)
  qed
qed

section \<open>A connection moves its own ship only\<close>

text \<open>
  C8. Whatever frame a connection sends, the identifiers inside it are ignored: of all the positions of
  all the sessions, processing it can change only the one of the connection's own ship, and only to
  the coordinates of a well-formed ping within the bounds Redis accepts.
\<close>

theorem safeProcess_own_position:
  assumes "ext_ok F view X" "sys_inv s" "colon_free (jb_sessionID j)" "colon_free i"
    and "position view i n (safeProcess X iv j s) \<noteq> position view i n s"
  shows "i = jb_sessionID j \<and> n = jb_nodeID j \<and>
    (\<exists>ping. Unmarshal False ping_fields zero_ping (jb_raw j) = Inr ping \<and>
       \<bar>ng_Lat ping\<bar> \<le> geo_lat_max \<and> \<bar>ng_Lng ping\<bar> \<le> 180 \<and>
       position view i n (safeProcess X iv j s) = Some (fm_quant F (ng_Lat ping, ng_Lng ping)))"
proof -
  let ?i = "jb_sessionID j"
  note keys = geo_key_others(3,2) [OF assms(3,4)]
  have other: "position view i n (HandleTransmit X ?i (jb_nodeID j) pkt s) = position view i n s"
      "position view i n (HandleAck X ?i (jb_nodeID j) ack s) = position view i n s" for pkt ack
    by (rule position_keeps, rule HandleTransmit_keeps [OF assms(1,2)], rule keys,
        rule position_keeps, rule calm_keeps, rule quiet_calm, rule quiet_HandleAck [OF assms(1)], rule keys)
  have ping: "position view i n (HandlePing X iv ?i (jb_nodeID j) la lo s) \<noteq> position view i n s \<Longrightarrow>
      i = ?i \<and> n = jb_nodeID j \<and> \<bar>la\<bar> \<le> geo_lat_max \<and> \<bar>lo\<bar> \<le> 180 \<and>
      position view i n (HandlePing X iv ?i (jb_nodeID j) la lo s) = Some (fm_quant F (la, lo))" for la lo
    using HandlePing_position [OF assms(1,3,4)] by blast
  show ?thesis
    using assms(5) by (auto simp: safeProcess_def sendError_def other dest: ping split: sum.splits if_splits)
qed

section \<open>At most one position report per interval\<close>

lemma ping_claims:
  assumes X: "ext_ok F view X" and i: "colon_free i"
    and moved: "position view i n (HandlePing X iv i n la lo s) \<noteq> position view i n s"
  obtains sb where "AllowPing X i n iv (sy_world s) = (Inr True, sy_world sb)"
    "stays view (keyPingLimit i n) sb (HandlePing X iv i n la lo s)"
  using X
proof (cases rule: HandlePing_cases [where i = i and n = n and iv = iv and la = la and lo = lo and s = s])
  case ignored
  then show thesis
    using moved position_keeps [OF calm_keeps geo_key_others(1) [OF i i]] by blast
next
  case (upserted w1)
  have "calm {keyStats i, keyGeo i} (view w1) (view (snd (UpsertPosition X i n la lo w1)))"
    by (rule calm_mono [OF repo_calm(10) [OF ext_parts(1) [OF X]]]) simp
  moreover have "calm {keyStats i, keyGeo i} (view (snd (UpsertPosition X i n la lo w1))) (view (sy_world (HandlePing X iv i n la lo s)))"
    by (rule calm_mono [OF upserted(4)]) simp
  ultimately have "keeps {keyStats i, keyGeo i} (view w1) (view (sy_world (HandlePing X iv i n la lo s)))"
    by (rule calm_keeps [OF calm_trans])
  moreover have "keyPingLimit i n \<notin> {keyStats i, keyGeo i}" by (simp add: key_defs sim_key_def)
  ultimately show thesis using that [of "s\<lparr>sy_world := w1\<rparr>"] upserted(3) by (simp add: stays_keeps)
qed

text \<open>
  C9. Two reports of one ship that change its position are at least the configured interval apart, in
  every run of the backend (for an interval above zero).
\<close>

theorem ping_rate_limit:
  assumes "ext_ok F view X" "colon_free i" "0 < iv" "backend_inv X b1"
    and "position view i n (HandlePing X iv i n la lo s) \<noteq> position view i n s"
    and "be_sys b1 = HandlePing X iv i n la lo s"
    and "backend_run view X iv b1 b2"
  shows "position view i n (HandlePing X iv i n la' lo' (be_sys b2)) \<noteq> position view i n (be_sys b2) \<longrightarrow>
    st_now (view (sy_world s)) + iv \<le> st_now (view (sy_world (HandlePing X iv i n la' lo' (be_sys b2))))"
proof
  let ?fin = "HandlePing X iv i n la' lo' (be_sys b2)" and ?k = "keyPingLimit i n"
  assume again: "position view i n ?fin \<noteq> position view i n (be_sys b2)"
  have c: "claim_key ?k" using assms(2) by (auto simp: claim_key_def)
  obtain sb where 1: "AllowPing X i n iv (sy_world s) = (Inr True, sy_world sb)" "stays view ?k sb (be_sys b1)"
    using ping_claims [OF assms(1,2,5)] unfolding assms(6) by blast
  obtain sd where 2: "AllowPing X i n iv (sy_world (be_sys b2)) = (Inr True, sy_world sd)" "stays view ?k sd ?fin"
    using ping_claims [OF assms(1,2) again] by blast
  have mid: "stays view ?k sb (be_sys b2)"
    using stays_trans [OF 1(2) run_stays [OF assms(7,4,1) c]] .
  have "st_now (view (sy_world s)) + iv \<le> st_now (view (sy_world sd))"
    using ping_limit.won_apart [OF redis_env_ext [OF assms(1)], of "(i, n, iv)" "sy_world s" "sy_world sb" "sy_world (be_sys b2)" "sy_world sd"]
      1(1) 2(1) mid assms(3) by (simp add: stays_def)
  then show "st_now (view (sy_world s)) + iv \<le> st_now (view (sy_world ?fin))" using 2(2) by (simp add: stays_def)
qed

text \<open>
  An interval of zero is no limit to Redis but a key without expiry: the first ping would be the
  last one accepted until the key is deleted, which nothing does.
\<close>

lemma ping_interval_zero:
  assumes "ext_ok F view X" "AllowPing X i n 0 w = (Inr True, w1)"
    and "st_keys (view w2) (keyPingLimit i n) = st_keys (view w1) (keyPingLimit i n)"
    and "AllowPing X i n iv w2 = (Inr b, w3)"
  shows "\<not> b"
proof -
  note set_nx = redis_okD(4) [OF ext_parts(1) [OF assms(1)]]
  obtain t where "ref_SetNX (keyPingLimit i n) ''1'' 0 (at_time t (view w)) = (Inr True, view w1)"
    using implements_Inr [OF set_nx] assms(2) by (metis AllowPing_def wrap_err_eq)
  then have "st_keys (view w1) (keyPingLimit i n) = Some (RStr ''1'' None)"
    by (auto simp: ref_SetNX_def expiry_def dest!: sym [of _ "view w1"] split: if_splits)
  then have held: "live_entry (at_time u (view w2)) (keyPingLimit i n) \<noteq> None" for u
    using assms(3) by (simp add: live_entry_def)
  obtain u where "ref_SetNX (keyPingLimit i n) ''1'' iv (at_time u (view w2)) = (Inr b, view w3)"
    using implements_Inr [OF set_nx] assms(4) by (metis AllowPing_def wrap_err_eq)
  then show ?thesis using held [of u] by (simp add: ref_SetNX_def)
qed

section \<open>Witnesses\<close>

text \<open>Ship A reports its way to latitude and longitude 1, in a frame that claims to come from ship B.\<close>

definition duo_job :: job where
  "duo_job = \<lparr>jb_sessionID = ''S'', jb_nodeID = ''A'',
     jb_raw = Inr (JObj [(''event'', JStr ''node:ping''), (''node_id'', JStr ''B''), (''session_id'', JStr ''S''),
                         (''lat'', JInt 1), (''lng'', JInt 1)])\<rparr>"

lemma duo_ping_moves:
  "position (\<lambda>w. w) ''S'' ''A'' (HandlePing duo_X 10 ''S'' ''A'' 1 1 duo_sys) = Some (1, 1)"
  "position (\<lambda>w. w) ''S'' ''A'' duo_sys = Some (0, 0)"
  by (simp_all add: position_def HandlePing_def AllowPing_def UpsertPosition_def ref_SetNX_def ref_GeoAdd_def wrap_err_def
      geo_lat_max_def plain_formats_def expiry_def duo_eval)

lemma max_float64_ge: "1 \<le> max_float64"
proof -
  have "(1::real) * 1 \<le> (2 - 1 / 2 ^ 52) * 2 ^ 1023" by (rule mult_mono, simp_all only: one_le_power) simp_all
  then show ?thesis by (simp add: max_float64_def)
qed

lemma duo_job_ping: "safeProcess duo_X 10 duo_job duo_sys = HandlePing duo_X 10 ''S'' ''A'' 1 1 duo_sys"
  by (simp add: safeProcess_def duo_job_def Unmarshal_def envelope_fields_def ping_fields_def decode_struct_def decode_key_def
      find_field_def decoders zero_ping_def EvNodePing_def max_float64_ge)

theorem safeProcess_own_position_witness:
  "position (\<lambda>w. w) ''S'' ''A'' (safeProcess duo_X 10 duo_job duo_sys) = Some (1, 1) \<and>
   position (\<lambda>w. w) ''S'' ''B'' (safeProcess duo_X 10 duo_job duo_sys) = position (\<lambda>w. w) ''S'' ''B'' duo_sys"
proof -
  have own: "position (\<lambda>w. w) ''S'' n (safeProcess duo_X 10 duo_job duo_sys) \<noteq> position (\<lambda>w. w) ''S'' n duo_sys \<Longrightarrow> n = ''A''" for n
    using safeProcess_own_position [OF duo_ext_ok duo_inv, of duo_job "''S''" n 10] by (auto simp: duo_job_def)
  show ?thesis using duo_ping_moves own [of "''B''"] by (auto simp: duo_job_ping)
qed

theorem ping_rate_limit_witness:
  "let s1 = HandlePing duo_X 10 ''S'' ''A'' 1 1 duo_sys; s2 = HandlePing duo_X 10 ''S'' ''A'' 2 2 s1
   in position (\<lambda>w. w) ''S'' ''A'' s2 \<noteq> position (\<lambda>w. w) ''S'' ''A'' s1 \<longrightarrow> 10 \<le> st_now (sy_world s2)"
proof -
  let ?s1 = "HandlePing duo_X 10 ''S'' ''A'' 1 1 duo_sys"
  have "serves_rows duo_X duo_sys \<longrightarrow> serves_rows duo_X ?s1"
    by (rule active_frame.HandlePing) (simp_all add: row_id_def)
  then have rows: "serves_rows duo_X ?s1" by (simp add: serves_rows_def duo_sys_def row_id_def)
  have now: "st_now (sy_world duo_sys) = 0" by (simp add: duo_sys_def duo_store_def)
  show ?thesis
    using ping_rate_limit [OF duo_ext_ok, of "''S''" 10 "\<lparr>be_sys = ?s1, be_jobs = []\<rparr>" "''A''" 1 1 duo_sys
        "\<lparr>be_sys = ?s1, be_jobs = []\<rparr>" 2 2]
    by (simp add: rows now run_here backend_inv_def duo_ping_moves Let_def)
qed

end
