(* ===== verification/Acks.thy ===== *)
theory Acks
  imports Positions
begin

text \<open>
  Acknowledgements: a ship's \<open>node:ack\<close> is relayed to the recorded transmitter of the packet, at most
  once per recorded transmission.
\<close>

section \<open>Ship queues under the reports of the engine\<close>

lemma emit_hub: "sy_hub (emitPacketEvent X i ev s) =
    BroadcastToMonitors i (FPacketEvent (ev\<lparr>pe_Event := EvPacketEvent, pe_At := fst (xClock X (sy_world s))\<rparr>)) (sy_hub s)"
  by (simp add: emitPacketEvent_def case_prod_beta Let_def)

lemma emit_shipbox [simp]: "sys_inv s \<Longrightarrow> shipbox (emitPacketEvent X i ev s) i' n' = shipbox s i' n'"
  by (simp add: emit_hub)

lemma roll_hub [simp]: "sy_hub (snd (roll X d p s)) = sy_hub s"
  by (simp add: roll_def)

lemma return_ack_shipbox:
  assumes "sys_inv s"
  shows "shipbox (return_ack X i p r t status v s) i' n' =
    (if \<not> tv_Dropped v \<and> fst (SendToNode i t (mesh_ack p r status False) (sy_hub s)) \<and> i' = i \<and> n' = t
     then map_option (\<lambda>q. q @ [mesh_ack p r status False]) (shipbox s i t) else shipbox s i' n')"
  using assms sys_inv_sends(1) [OF assms, of i t] by (simp add: return_ack_def SendToNode_inbox)

section \<open>The recorded transmitter is taken once\<close>

lemma TakeAckSender_Inr:
  assumes "redis_ok F view X" "TakeAckSender X i p n w = (Inr sender, w')"
  shows "\<exists>e. st_keys (view w) (keyAckSender i p n) = Some (RStr sender e)" "st_keys (view w') (keyAckSender i p n) = None"
proof -
  have "rGetDel X (keyAckSender i p n) w = (Inr (Some sender), w')"
    using assms(2) by (auto simp: TakeAckSender_def split: prod.splits sum.splits option.splits)
  then obtain t where "ref_GetDel (keyAckSender i p n) (at_time t (view w)) = (Inr (Some sender), view w')"
    using implements_Inr [OF redis_okD(6) [OF assms(1)]] by metis
  then show "\<exists>e. st_keys (view w) (keyAckSender i p n) = Some (RStr sender e)" "st_keys (view w') (keyAckSender i p n) = None"
    by (auto simp: ref_GetDel_def live_entry_def dest!: sym [of _ "view w'"] split: option.splits rentry.splits if_splits)
qed

text \<open>All that \<open>HandleAck\<close> can do to the ships.\<close>

lemma HandleAck_relays:
  assumes X: "ext_ok F view X" and inv: "sys_inv s"
    and relayed: "shipbox (HandleAck X i n ack s) i' n' \<noteq> shipbox s i' n'"
  obtains s1 where "on_world (TakeAckSender X i (na_PacketID ack) n) s = (Inr n', s1)" "i' = i"
    "quiet view {keyStats i} s1 (HandleAck X i n ack s)"
    "shipbox (HandleAck X i n ack s) i n' =
       map_option (\<lambda>q. q @ [mesh_ack (na_PacketID ack) n (if na_Status ack = [] then ''received'' else na_Status ack) False]) (shipbox s i n')"
proof -
  obtain r1 s1 where 1: "on_world (TakeAckSender X i (na_PacketID ack) n) s = (r1, s1)" by force
  have h1: "sy_hub s1 = sy_hub s" using 1 by (metis on_world_simps(3) snd_conv)
  obtain sender where r1: "r1 = Inr sender" "na_PacketID ack \<noteq> []"
    using relayed 1 h1 by (cases r1; cases "na_PacketID ack = []") (auto simp: HandleAck_def split: gerr.splits)
  obtain r2 s2 where 2: "on_world (GetParams X i) s1 = (r2, s2)" by force
  obtain rx s3 where 3: "on_world (Position X i n) s2 = (rx, s3)" by force
  obtain tx s4 where 4: "on_world (Position X i sender) s3 = (tx, s4)" by force
  have hubs: "sy_hub s2 = sy_hub s" "sy_hub s3 = sy_hub s" "sy_hub s4 = sy_hub s"
    using h1 2 3 4 by (metis on_world_simps(3) snd_conv)+
  obtain params rxPos txPos where ok: "r2 = Inr params" "rx = Inr rxPos" "tx = Inr txPos"
    using relayed 1 2 3 4 h1 hubs r1 by (cases r2; cases rx; cases tx) (auto simp: HandleAck_def Let_def)
  let ?d = "HaversineKm (np_Lat rxPos) (np_Lng rxPos) (np_Lat txPos) (np_Lng txPos)"
  let ?st = "if na_Status ack = [] then ''received'' else na_Status ack"
  obtain v s5 where 5: "roll X ?d params s4 = (v, s5)" by force
  have h5: "sy_hub s5 = sy_hub s" using hubs(3) roll_hub [of X ?d params s4] by (simp add: 5)
  have eq: "HandleAck X i n ack s = return_ack X i (na_PacketID ack) n sender ?st v s5"
    using r1 ok by (simp add: HandleAck_def 1 2 3 4 5 Let_def)
  have inv5: "sys_inv s5" using inv h5 by simp
  have "i' = i" "n' = sender" using relayed unfolding eq return_ack_shipbox [OF inv5] by (auto simp: h5 split: if_splits)
  moreover have "shipbox (HandleAck X i n ack s) i n' = map_option (\<lambda>q. q @ [mesh_ack (na_PacketID ack) n ?st False]) (shipbox s i n')"
    using relayed calculation unfolding eq return_ack_shipbox [OF inv5] by (auto simp: h5 split: if_splits)
  moreover have "quiet view {keyStats i} s1 (HandleAck X i n ack s)"
  proof -
    have "quiet view {keyStats i} s1 s2" "quiet view {keyStats i} s2 s3" "quiet view {keyStats i} s3 s4" "quiet view {keyStats i} s4 s5"
      using quiet_GetParams [OF X, of "{keyStats i}" s1 i] quiet_Position [OF X, of "{keyStats i}" s2 i n]
        quiet_Position [OF X, of "{keyStats i}" s3 i sender] quiet_roll [OF ext_parts(3) [OF X], of "{keyStats i}" s4 ?d params]
      by (simp_all add: 2 3 4 5)
    moreover have "quiet view {keyStats i} s5 (HandleAck X i n ack s)" unfolding eq by (rule quiet_return_ack [OF X]) simp
    ultimately show ?thesis by (blast intro: quiet_trans)
  qed
  ultimately show thesis using that 1 r1(1) by blast
qed

text \<open>
  C10. An acknowledgement reaches a ship only if that ship is the transmitter recorded for the packet and
  the acknowledging receiver in the same session; the ship then gains exactly one frame, the
  \<open>mesh:ack\<close> of this packet and receiver, and the record is gone: until the packet is transmitted
  again no further acknowledgement of it is relayed.
\<close>

theorem HandleAck_once:
  assumes "ext_ok F view X" "sys_inv s" "shipbox (HandleAck X i n ack s) i' n' \<noteq> shipbox s i' n'"
  shows "i' = i \<and>
    (\<exists>e. st_keys (view (sy_world s)) (keyAckSender i (na_PacketID ack) n) = Some (RStr n' e)) \<and>
    (\<exists>q. shipbox s i n' = Some q \<and> shipbox (HandleAck X i n ack s) i n' =
       Some (q @ [mesh_ack (na_PacketID ack) n (if na_Status ack = [] then ''received'' else na_Status ack) False])) \<and>
    st_keys (view (sy_world (HandleAck X i n ack s))) (keyAckSender i (na_PacketID ack) n) = None"
proof -
  let ?k = "keyAckSender i (na_PacketID ack) n"
  obtain s1 where 1: "on_world (TakeAckSender X i (na_PacketID ack) n) s = (Inr n', s1)" "i' = i"
    "quiet view {keyStats i} s1 (HandleAck X i n ack s)"
    "shipbox (HandleAck X i n ack s) i n' =
       map_option (\<lambda>q. q @ [mesh_ack (na_PacketID ack) n (if na_Status ack = [] then ''received'' else na_Status ack) False]) (shipbox s i n')"
    using HandleAck_relays [OF assms] by metis
  obtain w1 where w: "TakeAckSender X i (na_PacketID ack) n (sy_world s) = (Inr n', w1)" "sy_world s1 = w1"
    using 1(1) by (rule on_worldE) simp
  have "?k \<notin> {keyStats i}" by (simp add: key_defs sim_key_def)
  then have "st_keys (view (sy_world (HandleAck X i n ack s))) ?k = st_keys (view w1) ?k"
    using calm_keeps [OF quiet_calm [OF 1(3)]] w(2) by (auto simp: keeps_def)
  moreover have "shipbox s i n' \<noteq> None" using assms(3) 1(2,4) by (cases "shipbox s i n'") simp_all
  ultimately show ?thesis using TakeAckSender_Inr [OF ext_parts(1) [OF assms(1)] w(1)] 1(2,4) by auto
qed

text \<open>Ship B of the small system acknowledges a packet recorded as ship A's.\<close>

definition duo_acked :: "store sys" where
  "duo_acked = duo_sys\<lparr>sy_world := put_key (keyAckSender ''S'' ''p'' ''B'') (RStr ''A'' (Some 100)) duo_store\<rparr>"

definition duo_ack :: NodeAck where
  "duo_ack = \<lparr>na_Event = EvNodeAck, na_PacketID = ''p'', na_ReceiverNode = ''B'', na_Status = []\<rparr>"

lemma duo_ack_relayed: "shipbox (HandleAck duo_X ''S'' ''B'' duo_ack duo_acked) ''S'' ''A'' \<noteq> shipbox duo_acked ''S'' ''A''"
proof -
  obtain v s' where eq: "HandleAck duo_X ''S'' ''B'' duo_ack duo_acked = return_ack duo_X ''S'' ''p'' ''B'' ''A'' ''received'' v s'"
    and v: "\<not> tv_Dropped v" and hub: "sy_hub s' = duo_hub"
  proof -
    show thesis
      by (rule that, simp add: HandleAck_def duo_ack_def duo_acked_def TakeAckSender_def ref_GetDel_def del_key_def
          GetParams_def ref_HGetAll_def Atoi_Itoa roll_def Evaluate_def haversine_self MaxRangeKm_def FinalLossPercent_def
          BaseLossPercent_def RollDrop_def duo_eval Let_def; (rule refl | simp add: duo_eval)?)
  qed
  have inv: "sys_inv s'" using duo_inv by (simp add: hub duo_sys_def)
  show ?thesis
    unfolding eq return_ack_shipbox [OF inv]
    by (simp add: v hub duo_acked_def duo_sys_def duo_hub_eq SendToNode_def trySend_def node_ref_def session_nodes_def inbox_def)
qed

theorem HandleAck_once_witness:
  "st_keys (sy_world (HandleAck duo_X ''S'' ''B'' duo_ack duo_acked)) (keyAckSender ''S'' ''p'' ''B'') = None \<and>
   (\<exists>q. shipbox (HandleAck duo_X ''S'' ''B'' duo_ack duo_acked) ''S'' ''A'' = Some (q @ [mesh_ack ''p'' ''B'' ''received'' False]))"
proof -
  have inv: "sys_inv duo_acked" using duo_inv by (simp add: duo_acked_def)
  show ?thesis using HandleAck_once [OF duo_ext_ok inv duo_ack_relayed] by (auto simp: duo_ack_def)
qed

end
