(* ===== verification/Rows.thy ===== *)
theory Rows
  imports Acks
begin

text \<open>
  The tables of the database as an interface: a relation between stores that each SQL statement
  respects, under the checks the services make before it, is respected by the whole backend.  The
  locale \<open>table_frame\<close> states the laws, the sublocale below derives the frame contract from them, and
  Integrity and Ledger interpret it.
\<close>

section \<open>The statements behind the repositories\<close>

lemma repo_writes_snd:
  "snd (SessionCreate X sess w) = snd (qInsertSession X (ss_SessionName sess) (ss_SpreadingFactor sess) (ss_TxPowerDbm sess) (ss_WeatherSeverity sess) w)"
  "snd (EdgeCreate X e w) = snd (qInsertEdge X (ed_EdgeCode e) (ed_Name e) (ed_Latitude e) (ed_Longitude e) w)"
  "snd (SchemaCreate X i flds w) = snd (qInsertSchema X i flds w)"
  "snd (GetByID X i w) = snd (qGetSession X i w)"
  "snd (TelemetryInsert X row w) \<in> {w, snd (qInsertTelemetry X row w)}"
  by (auto simp: SessionCreate_def EdgeCreate_def SchemaCreate_def GetByID_def TelemetryInsert_def
    split: prod.splits sum.splits pgerr.splits option.splits)

lemma found_row:
  assumes "sql_ok F view X" "GetByID X i w = (Inr sess, w')"
  shows "find (\<lambda>s. ss_ID s = fm_canon F i) (st_sessions (view w')) = Some sess"
proof -
  have "qGetSession X i w = (Inr (Some sess), w')"
    using assms(2) by (auto simp: GetByID_def split: prod.splits sum.splits option.splits)
  then obtain t where "ref_GetSession F i (at_time t (view w)) = (Inr (Some sess), view w')"
    using implements_Inr [OF sql_okD(2) [OF assms(1)]] by metis
  then show ?thesis by (auto simp: ref_GetSession_def dest: sym)
qed

section \<open>The contract of the tables\<close>

locale table_frame =
  fixes F :: formats and view :: "'w \<Rightarrow> store" and X :: "'w ext" and R :: "store \<Rightarrow> store \<Rightarrow> bool"
  assumes same: "tables st' = tables st \<Longrightarrow> R st st'"
    and chain: "R st st' \<Longrightarrow> R st' st'' \<Longrightarrow> R st st''"
    and insert_session: "legal_session (new_session nm sf tx ws) \<Longrightarrow> R st (snd (ref_InsertSession F nm sf tx ws st))"
    and weather: "ValidateWeatherSeverity ws = Inr () \<Longrightarrow> R st (snd (ref_UpdateWeather F i ws st))"
    and radio: "ValidateSpreadingFactor sf = Inr () \<Longrightarrow> ValidateTxPower tx = Inr () \<Longrightarrow> R st (snd (ref_UpdateRadio F i sf tx st))"
    and stop: "R st (snd (ref_StopSession F i js st))"
    and erase: "find (\<lambda>s. ss_ID s = fm_canon F i) (st_sessions st) = Some sess \<Longrightarrow> \<not> ss_IsActive sess \<Longrightarrow>
      R st (snd (ref_DeleteSession F i st))"
    and insert_edge: "legal_code c \<Longrightarrow> legal_place nm la lo \<Longrightarrow> R st (snd (ref_InsertEdge c nm la lo st))"
    and update_edge: "legal_place nm la lo \<Longrightarrow> R st (snd (ref_UpdateEdge c nm la lo st))"
    and delete_edge: "R st (snd (ref_DeleteEdge c st))"
    and schema: "ValidateSchemaFields flds = Inr () \<Longrightarrow> R st (snd (ref_InsertSchema F i flds st))"
    and telemetry: "legal_hops (tl_HopCount row) \<Longrightarrow> R st (snd (ref_InsertTelemetry F row st))"
begin

definition obeys :: "'w sys \<Rightarrow> 'w sys \<Rightarrow> bool" where
  "obeys s s' \<longleftrightarrow> (ext_ok F view X \<longrightarrow> R (view (sy_world s)) (view (sy_world s')))"

lemma obeys_refl: "obeys s s"
  by (simp add: obeys_def same)

lemma obeys_trans: "obeys s s' \<Longrightarrow> obeys s' s'' \<Longrightarrow> obeys s s''"
  using chain by (auto simp: obeys_def)

lemma obeys_same: "sy_world s' = sy_world s \<Longrightarrow> obeys s s'"
  by (simp add: obeys_def same)

lemma obeys_calm:
  "(\<And>w. ext_ok F view X \<Longrightarrow> calm K (view w) (view (snd (f w)))) \<Longrightarrow> obeys s (snd (on_world f s))"
  by (simp add: obeys_def calm_def same)

lemma statement_step:
  assumes "implements view q g" "\<And>t. R (at_time t (view w)) (snd (g (at_time t (view w))))"
  shows "R (view w) (view (snd (q w)))"
proof -
  obtain t where "view (snd (q w)) = snd (g (at_time t (view w))) \<or> view (snd (q w)) = at_time t (view w)"
    using assms(1) unfolding implements_def by (metis insert_iff singletonD snd_conv)
  moreover have "R (view w) (at_time t (view w))" by (rule same) simp
  ultimately show ?thesis using assms(2) chain by metis
qed

lemma obeys_sql:
  assumes "\<And>w. snd (f w) = snd (q w)" "sql_ok F view X \<Longrightarrow> implements view q g" "\<And>st. R st (snd (g st))"
  shows "obeys s (snd (on_world f s))"
  unfolding obeys_def on_world_simps assms(1)
  by (intro impI statement_step [OF assms(2,3)] ext_parts(2))

lemma obeys_erasure:
  assumes "on_world (GetByID X i) s = (Inr sess, s')" "\<not> ss_IsActive sess"
  shows "obeys s' (snd (on_world (RepoDelete X i) s'))"
  unfolding obeys_def
proof
  assume X: "ext_ok F view X"
  obtain w' where "GetByID X i (sy_world s) = (Inr sess, w')" "sy_world s' = w'" using assms(1) by (rule on_worldE) simp
  then have "find (\<lambda>s. ss_ID s = fm_canon F i) (st_sessions (at_time t (view (sy_world s')))) = Some sess" for t
    using found_row [OF ext_parts(2) [OF X]] by simp
  then have "R (view (sy_world s')) (view (snd (qDeleteSession X i (sy_world s'))))"
    by (rule statement_step [OF sql_okD(8) [OF ext_parts(2) [OF X]] erase [OF _ assms(2)]])
  then show "R (view (sy_world s')) (view (sy_world (snd (on_world (RepoDelete X i) s'))))" by (simp add: RepoDelete_def)
qed

end

sublocale table_frame \<subseteq> rows: service_frame X obeys "\<lambda>_. True"
proof
  show "obeys s s" for s by (rule obeys_refl)
  show "obeys s s' \<Longrightarrow> obeys s' s'' \<Longrightarrow> obeys s s''" for s s' s'' by (rule obeys_trans)
  show "obeys s (snd (on_world (xClock X) s))" "obeys s (snd (on_world (Evaluate (xRand X) d pr) s))" for s d pr
    by (rule obeys_calm [where K = "{}"], drule ext_parts(3), simp add: Evaluate_world env_calm)+
  fix s :: "'w sys" and i n pr g la lo t p r m off
  show "obeys s (snd (on_world (GetParams X i) s))" "obeys s (snd (on_world (GetStats X i) s))"
      "obeys s (snd (on_world (Position X i n) s))" "obeys s (snd (on_world (AllPositions X i) s))"
      "obeys s (snd (on_world (GetTable X i) s))" "obeys s (snd (on_world (GetRoute X i n) s))"
      "obeys s (snd (on_world (SaveParams X i pr) s))" "obeys s (snd (on_world (IncrStat X i g) s))"
      "obeys s (snd (on_world (ClearSession X i) s))" "obeys s (snd (on_world (UpsertPosition X i n la lo) s))"
      "obeys s (snd (on_world (RemoveNode X i n) s))" "obeys s (snd (on_world (GeoClear X i) s))"
      "obeys s (snd (on_world (SaveTable X i t) s))" "obeys s (snd (on_world (RoutesClear X i) s))"
      "obeys s (snd (on_world (RememberAckSender X i p r n) s))" "obeys s (snd (on_world (TakeAckSender X i p r) s))"
      "obeys s (snd (on_world (MarkPacketSeen X i p r) s))" "obeys s (snd (on_world (AllowPing X i n m) s))"
    by (rule obeys_calm, drule ext_parts(1), erule repo_calm)+
  show "obeys s (snd (on_world (GetByID X i) s))" "obeys s (snd (on_world (SessionList X m) s))"
      "obeys s (snd (on_world (ListActive X) s))" "obeys s (snd (on_world (EdgeList X) s))"
      "obeys s (snd (on_world (GetLatest X i) s))" "obeys s (snd (on_world (ListBySession X i m off) s))"
      "obeys s (snd (on_world (CountBySession X i) s))"
    by (rule obeys_calm [where K = "{}"], drule ext_parts(2),
        simp add: repo_writes_snd SessionList_def ListActive_def EdgeList_def GetLatest_def ListBySession_def CountBySession_def query_calm)+
  show "obeys s (snd (on_world (RepoStop X i stats) s))" for stats
    by (rule obeys_sql, simp add: RepoStop_def, erule sql_okD(7), rule stop)
  show "obeys s (snd (on_world (EdgeDelete X code) s))" for code
    by (rule obeys_sql, simp add: EdgeDelete_def, erule sql_okD(12), rule delete_edge)
  show "obeys s' (snd (on_world (RepoDelete X i) s'))"
    if "on_world (GetByID X i) s = (Inr sess, s')" "\<not> ss_IsActive sess" for sess s'
    by (rule obeys_erasure [OF that])
  show "obeys s (snd (on_world (SessionCreate X sess) s))" if "legal_session sess" for sess
    by (rule obeys_sql, rule repo_writes_snd, erule sql_okD(1), rule insert_session)
      (use that in \<open>simp add: legal_session_def new_session_def\<close>)
  show "obeys s (snd (on_world (RepoUpdateWeather X i ws) s))" if "ValidateWeatherSeverity ws = Inr u" for ws u
    by (rule obeys_sql, simp add: RepoUpdateWeather_def, erule sql_okD(5), rule weather) (use that in simp)
  show "obeys s (snd (on_world (RepoUpdateRadioParams X i sf tx) s))"
    if "ValidateSpreadingFactor sf = Inr u" "ValidateTxPower tx = Inr v" for sf tx u v
    by (rule obeys_sql, simp add: RepoUpdateRadioParams_def, erule sql_okD(6), rule radio) (use that in simp_all)
  show "obeys s (snd (on_world (EdgeCreate X e) s))"
    if "legal_code (ed_EdgeCode e)" "legal_place (ed_Name e) (ed_Latitude e) (ed_Longitude e)" for e
    by (rule obeys_sql, rule repo_writes_snd, erule sql_okD(9), rule insert_edge [OF that])
  show "obeys s (snd (on_world (EdgeUpdate X code nm la lo) s))" if "legal_place nm la lo" for code nm la lo
    by (rule obeys_sql, simp add: EdgeUpdate_def, erule sql_okD(11), rule update_edge [OF that])
  show "obeys s (snd (on_world (SchemaCreate X i flds) s))" if "ValidateSchemaFields flds = Inr u" for flds u
    by (rule obeys_sql, rule repo_writes_snd, erule sql_okD(14), rule schema) (use that in simp)
  show "obeys s (snd (on_world (TelemetryInsert X row) s))" if "legal_hops (tl_HopCount row)" for row
    using repo_writes_snd(5) [of X row "sy_world s"] statement_step [OF sql_okD(16) telemetry] ext_parts(2) that same
    by (fastforce simp: obeys_def)
qed (simp_all add: obeys_same kick_session_def monitor_send_def AddSession_def RemoveSession_def list_all_iff)

context table_frame
begin

lemma step: "backend_step view X iv b b' \<Longrightarrow> obeys (be_sys b) (be_sys b')"
proof (erule rows.step)
  show "obeys u (snd (on_world (he_ready env) u))" if "quiet_probe view env" for env :: "'w http_env" and u
    by (rule obeys_calm [where K = "{}"]) (use that in \<open>simp add: quiet_probe_def\<close>)
qed (simp_all add: obeys_same)

text \<open>What the tables go through in a run.\<close>

lemma run: "backend_run view X iv b b' \<Longrightarrow> ext_ok F view X \<Longrightarrow> R (view (sy_world (be_sys b))) (view (sy_world (be_sys b')))"
proof (induction rule: backend_run.induct)
  case (run_step b1 b2)
  then show ?case using step [OF run_step.hyps(2)] chain by (auto simp: obeys_def)
qed (simp add: same)

end

section \<open>A plain server for examples\<close>

definition plain_env :: "store http_env" where
  "plain_env = \<lparr>he_uuid = (\<lambda>_. True), he_ready = (\<lambda>w. (Inr (), w)), he_upgraded = True, he_origins = []\<rparr>"

definition plain_request :: request where
  "plain_request = \<lparr>rq_id = [], rq_code = [], rq_query = (\<lambda>_. []), rq_size = 0, rq_body = Inr JNull\<rparr>"

lemma plain_probe: "quiet_probe (\<lambda>w. w) plain_env"
  by (simp add: quiet_probe_def plain_env_def)

end
