(* ===== verification/Integrity.thy ===== *)
theory Integrity
  imports Rows
begin

text \<open>
  What the checks of the services and handlers are for: in every run of the backend the tables hold
  legal rows only: an interpretation of the tables' contract.
\<close>

section \<open>Legal tables\<close>

definition legal_edge :: "Edge \<Rightarrow> bool" where
  "legal_edge e \<longleftrightarrow> legal_code (ed_EdgeCode e) \<and> legal_place (ed_Name e) (ed_Latitude e) (ed_Longitude e)"

definition legal_store :: "store \<Rightarrow> bool" where
  "legal_store st \<longleftrightarrow>
     (\<forall>r \<in> set (st_sessions st). legal_session r) \<and> (\<forall>d \<in> set (st_schemas st). ValidateSchemaFields (ds_Fields d) = Inr ()) \<and>
     (\<forall>e \<in> set (st_edges st). legal_edge e) \<and> distinct (map ed_EdgeCode (st_edges st)) \<and>
     (\<forall>t \<in> set (st_telemetry st). legal_hops (tl_HopCount t))"

lemma legal_store_tables: "tables st' = tables st \<Longrightarrow> legal_store st' = legal_store st"
  by (simp add: legal_store_def tables_def)

lemma legal_at_time [simp]: "legal_store (at_time t st) = legal_store st"
  by (rule legal_store_tables) simp

text \<open>Rounding to a decimal column stays within integral bounds.\<close>

lemma sql_round_bounds:
  assumes "\<bar>x\<bar> \<le> of_int m"
  shows "\<bar>sql_round n x\<bar> \<le> of_int m" "0 \<le> x \<Longrightarrow> 0 \<le> sql_round n x"
proof -
  let ?p = "10 ^ n :: int"
  have "\<bar>x\<bar> * 10 ^ n \<le> of_int (m * ?p)" using assms by (simp add: mult_right_mono)
  then have "\<lfloor>\<bar>x\<bar> * 10 ^ n + 1 / 2\<rfloor> \<le> m * ?p" by linarith
  then have "real_of_int \<lfloor>\<bar>x\<bar> * 10 ^ n + 1 / 2\<rfloor> \<le> of_int m * 10 ^ n"
    by (metis of_int_le_iff of_int_mult of_int_numeral of_int_power)
  then have b: "real_of_int \<lfloor>\<bar>x\<bar> * 10 ^ n + 1 / 2\<rfloor> / 10 ^ n \<le> of_int m"
    by (simp add: divide_le_eq)
  have nn: "0 \<le> real_of_int \<lfloor>\<bar>x\<bar> * 10 ^ n + 1 / 2\<rfloor> / 10 ^ n" by simp
  show "\<bar>sql_round n x\<bar> \<le> of_int m"
    using b nn by (cases "x = 0") (auto simp: sql_round_def abs_mult sgn_if)
  show "0 \<le> x \<Longrightarrow> 0 \<le> sql_round n x" using nn by (auto simp: sql_round_def sgn_if)
qed

lemma legal_weather_round: "ValidateWeatherSeverity w = Inr () \<Longrightarrow> ValidateWeatherSeverity (sql_round 2 w) = Inr ()"
  using sql_round_bounds [of w 2 2] by (simp add: MinWeatherSeverity_def MaxWeatherSeverity_def)

lemma legal_place_round: "legal_place nm la lo \<Longrightarrow> legal_place nm (sql_round 8 la) (sql_round 8 lo)"
  using sql_round_bounds(1) [of la 90 8] sql_round_bounds(1) [of lo 180 8] by (simp add: legal_place_def)

section \<open>The statements keep them legal\<close>

lemma legal_effects:
  assumes "legal_store st"
  shows "legal_session (new_session nm sf tx ws) \<Longrightarrow> legal_store (snd (ref_InsertSession F nm sf tx ws st))"
    "ValidateWeatherSeverity ws = Inr () \<Longrightarrow> legal_store (snd (ref_UpdateWeather F i ws st))"
    "ValidateSpreadingFactor sf = Inr () \<Longrightarrow> ValidateTxPower tx = Inr () \<Longrightarrow> legal_store (snd (ref_UpdateRadio F i sf tx st))"
    "legal_store (snd (ref_StopSession F i js st))" "legal_store (snd (ref_DeleteSession F i st))"
    "legal_code c \<Longrightarrow> legal_place nm la lo \<Longrightarrow> legal_store (snd (ref_InsertEdge c nm la lo st))"
    "legal_place nm la lo \<Longrightarrow> legal_store (snd (ref_UpdateEdge c nm la lo st))" "legal_store (snd (ref_DeleteEdge c st))"
    "ValidateSchemaFields flds = Inr () \<Longrightarrow> legal_store (snd (ref_InsertSchema F i flds st))"
    "legal_hops (tl_HopCount row) \<Longrightarrow> legal_store (snd (ref_InsertTelemetry F row st))"
proof -
  note st = assms [unfolded legal_store_def]
  show "legal_session (new_session nm sf tx ws) \<Longrightarrow> legal_store (snd (ref_InsertSession F nm sf tx ws st))"
    using st legal_weather_round [of ws] by (simp add: ref_InsertSession_def legal_store_def legal_session_def new_session_def)
  show "ValidateWeatherSeverity ws = Inr () \<Longrightarrow> legal_store (snd (ref_UpdateWeather F i ws st))"
    using st legal_weather_round [of ws]
    by (auto simp: ref_UpdateWeather_def update_sessions_def legal_store_def legal_session_def)
  show "ValidateSpreadingFactor sf = Inr () \<Longrightarrow> ValidateTxPower tx = Inr () \<Longrightarrow> legal_store (snd (ref_UpdateRadio F i sf tx st))"
    using st by (auto simp: ref_UpdateRadio_def update_sessions_def legal_store_def legal_session_def)
  show "legal_store (snd (ref_StopSession F i js st))"
    using st by (auto simp: ref_StopSession_def update_sessions_def legal_store_def legal_session_def)
  show "legal_store (snd (ref_DeleteSession F i st))"
    using st by (simp add: ref_DeleteSession_def legal_store_def)
  show "legal_code c \<Longrightarrow> legal_place nm la lo \<Longrightarrow> legal_store (snd (ref_InsertEdge c nm la lo st))"
    using st legal_place_round [of nm la lo] by (auto simp: ref_InsertEdge_def legal_store_def legal_edge_def)
  show "legal_place nm la lo \<Longrightarrow> legal_store (snd (ref_UpdateEdge c nm la lo st))"
    using st legal_place_round [of nm la lo]
    by (auto simp: ref_UpdateEdge_def legal_store_def legal_edge_def Let_def comp_def if_distrib [of ed_EdgeCode] cong: if_cong)
  show "legal_store (snd (ref_DeleteEdge c st))"
    using st by (auto simp: ref_DeleteEdge_def legal_store_def Let_def distinct_map_filter)
  show "ValidateSchemaFields flds = Inr () \<Longrightarrow> legal_store (snd (ref_InsertSchema F i flds st))"
    using st by (simp add: ref_InsertSchema_def legal_store_def)
  show "legal_hops (tl_HopCount row) \<Longrightarrow> legal_store (snd (ref_InsertTelemetry F row st))"
    using st by (simp add: ref_InsertTelemetry_def legal_store_def)
qed

interpretation legal: table_frame F view X "\<lambda>st st'. legal_store st \<longrightarrow> legal_store st'" for F view and X :: "'w ext"
proof
  show "tables st' = tables st \<Longrightarrow> legal_store st \<longrightarrow> legal_store st'" for st st' using legal_store_tables by blast
qed (blast | rule impI, erule legal_effects; assumption)+

section \<open>In every run\<close>

lemma legal_store_rows:
  assumes "legal_store st0"
  shows "let st = st0 in
    (\<forall>r \<in> set (st_sessions st). 7 \<le> ss_SpreadingFactor r \<and> ss_SpreadingFactor r \<le> 12 \<and>
       2 \<le> ss_TxPowerDbm r \<and> ss_TxPowerDbm r \<le> 20 \<and> 0 \<le> ss_WeatherSeverity r \<and> ss_WeatherSeverity r \<le> 2) \<and>
    (\<forall>d \<in> set (st_schemas st). ValidateSchemaFields (ds_Fields d) = Inr ()) \<and>
    (\<forall>e \<in> set (st_edges st). ed_EdgeCode e \<noteq> [] \<and> length (ed_EdgeCode e) \<le> 50 \<and> ed_Name e \<noteq> [] \<and>
       length (ed_Name e) \<le> 150 \<and> \<bar>ed_Latitude e\<bar> \<le> 90 \<and> \<bar>ed_Longitude e\<bar> \<le> 180) \<and>
    distinct (map ed_EdgeCode (st_edges st)) \<and>
    (\<forall>t \<in> set (st_telemetry st). 1 \<le> tl_HopCount t \<and> tl_HopCount t \<le> 5)"
  using assms
  by (simp add: legal_store_def legal_session_def legal_edge_def legal_code_def legal_place_def legal_hops_def Let_def
      MinSpreadingFactor_def MaxSpreadingFactor_def MinTxPowerDbm_def MaxTxPowerDbm_def MinWeatherSeverity_def
      MaxWeatherSeverity_def MaxHops_def)

text \<open>
  Whatever requests and frames arrive, the database holds legal rows only: radio parameters and
  weather within their windows, schemas that pass validation, edges with a code, a name and
  coordinates on the globe and no two with the same code, and telemetry of one to five hops.
\<close>

theorem database_legal:
  assumes "ext_ok F view X" "legal_store (view w)" "backend_run view X iv (start n w) b"
  shows "let st = view (sy_world (be_sys b)) in
    (\<forall>r \<in> set (st_sessions st). 7 \<le> ss_SpreadingFactor r \<and> ss_SpreadingFactor r \<le> 12 \<and>
       2 \<le> ss_TxPowerDbm r \<and> ss_TxPowerDbm r \<le> 20 \<and> 0 \<le> ss_WeatherSeverity r \<and> ss_WeatherSeverity r \<le> 2) \<and>
    (\<forall>d \<in> set (st_schemas st). ValidateSchemaFields (ds_Fields d) = Inr ()) \<and>
    (\<forall>e \<in> set (st_edges st). ed_EdgeCode e \<noteq> [] \<and> length (ed_EdgeCode e) \<le> 50 \<and> ed_Name e \<noteq> [] \<and>
       length (ed_Name e) \<le> 150 \<and> \<bar>ed_Latitude e\<bar> \<le> 90 \<and> \<bar>ed_Longitude e\<bar> \<le> 180) \<and>
    distinct (map ed_EdgeCode (st_edges st)) \<and>
    (\<forall>t \<in> set (st_telemetry st). 1 \<le> tl_HopCount t \<and> tl_HopCount t \<le> 5)"
proof -
  have "legal_store (view (sy_world (be_sys b)))" using legal.run [OF assms(3,1)] assms(2) by (simp add: start_def)
  then show ?thesis by (rule legal_store_rows)
qed

lemma duo_legal: "legal_store duo_store"
  by (simp add: legal_store_def duo_store_def legal_session_def duo_session_def new_session_def legal_edge_def duo_edge_def
      legal_code_def legal_place_def lora_consts)

theorem database_legal_witness:
  "distinct (map ed_EdgeCode (st_edges (sy_world (tick duo_X (snd (ResumeActive duo_X (be_sys (start 8 duo_store))))))))"
proof -
  let ?b = "on_sys (tick duo_X) (on_sys (\<lambda>s. snd (ResumeActive duo_X s)) (start 8 duo_store))"
  have run: "backend_run (\<lambda>w. w) duo_X 0 (start 8 duo_store) ?b"
    by (rule run_step [OF run_step [OF run_here step_resume] step_tick])
  from database_legal [OF duo_ext_ok duo_legal run] show ?thesis by (simp only: on_sys_simps Let_def)
qed

end
