(* ===== verification/Lifecycle.thy ===== *)
theory Lifecycle
  imports Integrity
begin

text \<open>
  The life cycle of a session: what a successful create, update, stop and delete establish in the
  database, in Redis, in the hub and in the scheduler, and what a refused one leaves alone.
\<close>

section \<open>The parameters the ether works with\<close>

lemma saved_params:
  assumes "ext_ok F view X" "legal_session sess" "on_world (SaveParams X i (session_params sess)) s = (Inr (), s')"
  shows "stored_params (view (sy_world s')) i = Some (session_params sess)"
proof -
  obtain w' where w: "SaveParams X i (session_params sess) (sy_world s) = (Inr (), w')" "s' = s\<lparr>sy_world := w'\<rparr>"
    using assms(3) by (rule on_worldE)
  from SaveParams_stored [OF ext_parts(1) [OF assms(1)] w(1)] assms(2) w(2) show ?thesis
    by (simp add: session_params_def legal_session_def lora_consts int64_min_def int64_max_def)
qed

lemma GetByID_row:
  assumes "ext_ok F view X" "on_world (GetByID X i) s = (Inr sess, s')"
  shows "sess \<in> set (st_sessions (view (sy_world s)))" "ss_ID sess = fm_canon F i" "tables (view (sy_world s')) = tables (view (sy_world s))"
proof -
  obtain w' where "GetByID X i (sy_world s) = (Inr sess, w')" and s': "s' = s\<lparr>sy_world := w'\<rparr>"
    using assms(2) by (rule on_worldE)
  then have "qGetSession X i (sy_world s) = (Inr (Some sess), w')"
    by (auto simp: GetByID_def split: prod.splits sum.splits option.splits)
  then obtain u where "ref_GetSession F i (at_time u (view (sy_world s))) = (Inr (Some sess), view w')"
    using implements_Inr [OF sql_okD(2) [OF ext_parts(2) [OF assms(1)]]] by metis
  then show "sess \<in> set (st_sessions (view (sy_world s)))" "ss_ID sess = fm_canon F i"
    "tables (view (sy_world s')) = tables (view (sy_world s))"
    by (auto simp: ref_GetSession_def s' find_Some_iff dest!: sym [of _ "view w'"])
qed

text \<open>The tail of both updates: the parameters of the row as it is now, cached and announced.\<close>

lemma refreshAndBroadcast_Inr:
  assumes "ext_ok F view X" "legal_store (view (sy_world s))" "refreshAndBroadcast X i s = (Inr sess, s')"
  shows "stored_params (view (sy_world s')) (ss_ID sess) = Some (session_params sess)" "legal_session sess"
    "ss_ID sess = fm_canon F i" "sess \<in> set (st_sessions (view (sy_world s)))"
proof -
  obtain s1 where g: "on_world (GetByID X i) s = (Inr sess, s1)"
    and rest: "\<exists>s2. cacheParams X sess s1 = (Inr (), s2) \<and> sy_world s' = sy_world s2"
    using assms(3) by (auto simp: refreshAndBroadcast_def Let_def split: prod.splits sum.splits)
  note row = GetByID_row [OF assms(1) g]
  then show l: "legal_session sess" "ss_ID sess = fm_canon F i" "sess \<in> set (st_sessions (view (sy_world s)))"
    using assms(2) by (simp_all add: legal_store_def)
  show "stored_params (view (sy_world s')) (ss_ID sess) = Some (session_params sess)"
    using rest saved_params [OF assms(1) l(1)] by (auto simp: cacheParams_def)
qed

text \<open>An update that affected a row affected the one that is found afterwards.\<close>

lemma update_found:
  assumes "update_sessions (active_with_id F i) f st = (Inr n, st')" "n \<noteq> 0" "distinct (map ss_ID (st_sessions st))"
    and "\<And>r. ss_ID (f r) = ss_ID r" "sess \<in> set (st_sessions st')" "ss_ID sess = fm_canon F i"
  shows "\<exists>r \<in> set (st_sessions st). active_with_id F i r \<and> sess = f r"
proof -
  have n: "filter (active_with_id F i) (st_sessions st) \<noteq> []" and
    st': "st_sessions st' = map (\<lambda>s. if active_with_id F i s then f s else s) (st_sessions st)"
    using assms(1,2) by (auto simp: update_sessions_def)
  then obtain r where r: "r \<in> set (st_sessions st)" "active_with_id F i r" by (auto simp: filter_empty_conv)
  obtain r' where r': "r' \<in> set (st_sessions st)" "sess = (if active_with_id F i r' then f r' else r')"
    using assms(5) st' by auto
  have "ss_ID r' = ss_ID r" using r' r(2) assms(4,6) by (auto simp: active_with_id_def split: if_splits)
  then have "r' = r" using assms(3) r(1) r'(1) by (metis distinct_map inj_on_def)
  then show ?thesis using r r'(2) by auto
qed


lemma rows_or_Inr:
  assumes "rows_or none msg (q w) = (Inr (), w')" "implements view q g"
  obtains n u where "g (at_time u (view w)) = (Inr n, view w')" "n \<noteq> 0"
proof -
  obtain n where "q w = (Inr n, w')" "n \<noteq> 0"
    using assms(1) by (auto simp: rows_or_def split: prod.splits sum.splits if_splits)
  then show thesis using that implements_Inr [OF assms(2)] by metis
qed

lemma updated_row:
  assumes "ext_ok F view X" "rows_or none msg (q (sy_world s)) = (Inr (), w1)"
    and "implements view q (update_sessions (active_with_id F i) f)" "\<And>r. ss_ID (f r) = ss_ID r"
    and "distinct (map ss_ID (st_sessions (view (sy_world s))))"
    and "refreshAndBroadcast X i (s\<lparr>sy_world := w1\<rparr>) = (Inr sess, s')" "legal_store (view w1)"
  shows "\<exists>r \<in> set (st_sessions (view (sy_world s))). active_with_id F i r \<and> sess = f r"
    "ss_ID sess = fm_canon F i \<and> legal_session sess \<and> stored_params (view (sy_world s')) (ss_ID sess) = Some (session_params sess)"
proof -
  note r = refreshAndBroadcast_Inr [OF assms(1) _ assms(6)]
  show "\<exists>r \<in> set (st_sessions (view (sy_world s))). active_with_id F i r \<and> sess = f r"
  proof (rule rows_or_Inr [OF assms(2,3)])
    fix n u
    assume "update_sessions (active_with_id F i) f (at_time u (view (sy_world s))) = (Inr n, view w1)" "n \<noteq> 0"
    from update_found [OF this _ assms(4)] r assms(5,7) show ?thesis by simp
  qed
  show "ss_ID sess = fm_canon F i \<and> legal_session sess \<and> stored_params (view (sy_world s')) (ss_ID sess) = Some (session_params sess)"
    using r assms(7) by simp
qed

text \<open>The answer of an update is the active row of the identifier, and the ether works with its parameters.\<close>

definition in_force :: "formats \<Rightarrow> ('w \<Rightarrow> store) \<Rightarrow> string \<Rightarrow> Session \<Rightarrow> 'w sys \<Rightarrow> bool" where
  "in_force F view i sess s \<longleftrightarrow>
     ss_ID sess = fm_canon F i \<and> ss_IsActive sess \<and> legal_session sess \<and>
     stored_params (view (sy_world s)) (ss_ID sess) = Some (session_params sess)"

text \<open>
  C17. When the weather or the radio parameters of a session change successfully, the answer is the
  session's row, active and with the new values (the weather rounded to the column's two decimals)
  and legal ones, and the parameters Redis holds for its identifier, by which every later frame is
  judged, are exactly those of that row.
\<close>

theorem session_updated:
  assumes "ext_ok F view X" "legal_store (view (sy_world s))" "distinct (map ss_ID (st_sessions (view (sy_world s))))"
  shows "(UpdateWeather X i ws s = (Inr sess, s') \<longrightarrow>
       in_force F view i sess s' \<and> ss_WeatherSeverity sess = sql_round 2 ws) \<and>
    (UpdateRadioParams X i osf otx s = (Inr sess, s') \<longrightarrow>
       in_force F view i sess s' \<and> (\<forall>v. osf = Some v \<longrightarrow> ss_SpreadingFactor sess = v) \<and>
       (\<forall>v. otx = Some v \<longrightarrow> ss_TxPowerDbm sess = v))"
proof (intro conjI [of "_ \<longrightarrow> _" "_ \<longrightarrow> _"] impI)
  assume up: "UpdateWeather X i ws s = (Inr sess, s')"
  obtain a w1 where w1: "RepoUpdateWeather X i ws (sy_world s) = (a, w1)" by force
  with up have v: "ValidateWeatherSeverity ws = Inr ()" and u: "RepoUpdateWeather X i ws (sy_world s) = (Inr (), w1)"
    and r: "refreshAndBroadcast X i (s\<lparr>sy_world := w1\<rparr>) = (Inr sess, s')"
    by (auto simp: UpdateWeather_def on_world_def simp del: Validate_ok_iff split: sum.splits)
  have "legal_store (view w1)"
    using legal.rows.statements(2) [OF v, where F = F and view = view and X = X and s = s and i = i] assms(1,2) u by (simp add: legal.obeys_def)
  from updated_row [OF assms(1) u [unfolded RepoUpdateWeather_def] sql_okD(5) [OF ext_parts(2) [OF assms(1)], unfolded ref_UpdateWeather_def] _ assms(3) r this]
  show "in_force F view i sess s' \<and> ss_WeatherSeverity sess = sql_round 2 ws" by (auto simp: active_with_id_def in_force_def)
next
  assume up: "UpdateRadioParams X i osf otx s = (Inr sess, s')"
  then obtain cur s1 where g: "on_world (GetByID X i) s = (Inr cur, s1)"
    by (auto simp: UpdateRadioParams_def split: prod.splits sum.splits)
  let ?sf = "case osf of Some v \<Rightarrow> v | None \<Rightarrow> ss_SpreadingFactor cur" and ?tx = "case otx of Some v \<Rightarrow> v | None \<Rightarrow> ss_TxPowerDbm cur"
  obtain a w1 where w1: "RepoUpdateRadioParams X i ?sf ?tx (sy_world s1) = (a, w1)" by force
  with up g have v: "ValidateSpreadingFactor ?sf = Inr ()" "ValidateTxPower ?tx = Inr ()"
    and u: "RepoUpdateRadioParams X i ?sf ?tx (sy_world s1) = (Inr (), w1)"
    and r: "refreshAndBroadcast X i (s1\<lparr>sy_world := w1\<rparr>) = (Inr sess, s')"
    by (simp_all add: UpdateRadioParams_def on_world_def Let_def del: Validate_ok_iff split: sum.splits if_splits)
  have t1: "tables (view (sy_world s1)) = tables (view (sy_world s))" by (rule GetByID_row(3) [OF assms(1) g])
  then have d1: "distinct (map ss_ID (st_sessions (view (sy_world s1))))" using assms(3) by (simp add: tables_def)
  have "legal_store (view (sy_world s1))" using assms(2) legal_store_tables [OF t1] by simp
  then have "legal_store (view w1)"
    using legal.rows.statements(3) [OF v, where F = F and view = view and X = X and s = s1 and i = i] assms(1) u by (simp add: legal.obeys_def)
  from updated_row [OF assms(1) u [unfolded RepoUpdateRadioParams_def] sql_okD(6) [OF ext_parts(2) [OF assms(1)], unfolded ref_UpdateRadio_def] _ d1 r this]
  show "in_force F view i sess s' \<and> (\<forall>v. osf = Some v \<longrightarrow> ss_SpreadingFactor sess = v) \<and> (\<forall>v. otx = Some v \<longrightarrow> ss_TxPowerDbm sess = v)"
    by (auto simp: active_with_id_def in_force_def)
qed

text \<open>
  C25. A successful create adds one row to the sessions and answers with it (the column holds the weather with two
  decimals): running, with the requested, legal parameters; it makes the session known to the topology scheduler
  and puts the same parameters into Redis; a request with a spreading
  factor, power or weather outside its window is refused with a validation error and changes nothing.
\<close>

theorem session_created:
  assumes "ext_ok F view X"
  shows "(Create X nm sf tx ws s = (Inr sess, s') \<longrightarrow>
       legal_session sess \<and> session_params sess = \<lparr>sp_SpreadingFactor = sf, sp_TxPowerDbm = tx, sp_WeatherSeverity = ws\<rparr> \<and>
       stored_params (view (sy_world s')) (ss_ID sess) = Some (session_params sess) \<and> ss_ID sess \<in> sy_active s' \<and>
       ss_SessionName sess = nm \<and> ss_IsActive sess \<and>
       st_sessions (view (sy_world s')) = st_sessions (view (sy_world s)) @ [sess\<lparr>ss_WeatherSeverity := sql_round 2 ws\<rparr>]) \<and>
    (\<not> legal_session (new_session nm sf tx ws) \<longrightarrow> (\<exists>v. Create X nm sf tx ws s = (Inl (ErrValidation v), s)))"
proof (intro conjI [of "_ \<longrightarrow> _" "_ \<longrightarrow> _"] impI)
  assume up: "Create X nm sf tx ws s = (Inr sess, s')"
  obtain a s1 where 1: "on_world (SessionCreate X (new_session nm sf tx ws)) s = (a, s1)" by force
  have legal: "legal_session (new_session nm sf tx ws)"
    using up by (auto simp: Create_def legal_session_def new_session_def simp del: Validate_ok_iff split: sum.splits)
  obtain s2 where a: "a = Inr sess" and 2: "cacheParams X sess s1 = (Inr (), s2)" and s': "s' = AddSession (ss_ID sess) s2"
    using up 1 by (auto simp: Create_def split: sum.splits prod.splits)
  have fields: "ss_SpreadingFactor sess = sf" "ss_TxPowerDbm sess = tx" "ss_WeatherSeverity sess = ws"
    using 1 a by (auto simp: on_world_def SessionCreate_def new_session_def split: prod.splits sum.splits)
  obtain w1 where w1: "SessionCreate X (new_session nm sf tx ws) (sy_world s) = (Inr sess, w1)" "s1 = s\<lparr>sy_world := w1\<rparr>"
    using 1 unfolding a by (rule on_worldE)
  then obtain c where q: "qInsertSession X nm sf tx ws (sy_world s) = (Inr (ss_ID sess, ss_IsActive sess, c), w1)"
      and sess: "sess = (new_session nm sf tx ws)\<lparr>ss_ID := ss_ID sess, ss_IsActive := ss_IsActive sess, ss_CreatedAt := c\<rparr>"
    by (auto simp: SessionCreate_def new_session_def split: prod.splits sum.splits)
  obtain u where "ref_InsertSession F nm sf tx ws (at_time u (view (sy_world s))) = (Inr (ss_ID sess, ss_IsActive sess, c), view w1)"
    by (rule implements_Inr [OF sql_okD(1) [OF ext_parts(2) [OF assms]] q])
  then have row: "ss_IsActive sess" "st_sessions (view w1) = st_sessions (view (sy_world s)) @ [sess\<lparr>ss_WeatherSeverity := sql_round 2 ws\<rparr>]"
    by (auto simp: ref_InsertSession_def sess [symmetric] split: if_splits dest!: sym [of _ "view w1"])
      (subst sess, simp add: new_session_def)
  have "tables (view (sy_world s2)) = tables (view w1)"
    using repo_calm(1) [OF ext_parts(1) [OF assms], of "ss_ID sess" w1] 2 w1(2) by (auto simp: cacheParams_def on_world_def calm_def split: prod.splits)
  then have kept: "st_sessions (view (sy_world s')) = st_sessions (view w1)" by (simp add: tables_def s' AddSession_def)
  have "legal_session sess" using legal fields by (simp add: legal_session_def new_session_def)
  moreover have "ss_SessionName sess = nm" by (subst sess) (simp add: new_session_def)
  ultimately show "legal_session sess \<and> session_params sess = \<lparr>sp_SpreadingFactor = sf, sp_TxPowerDbm = tx, sp_WeatherSeverity = ws\<rparr> \<and>
       stored_params (view (sy_world s')) (ss_ID sess) = Some (session_params sess) \<and> ss_ID sess \<in> sy_active s' \<and>
       ss_SessionName sess = nm \<and> ss_IsActive sess \<and>
       st_sessions (view (sy_world s')) = st_sessions (view (sy_world s)) @ [sess\<lparr>ss_WeatherSeverity := sql_round 2 ws\<rparr>]"
    using saved_params [OF assms _ 2 [unfolded cacheParams_def]] s' fields row kept by (simp add: AddSession_def session_params_def)
next
  assume "\<not> legal_session (new_session nm sf tx ws)"
  then show "\<exists>v. Create X nm sf tx ws s = (Inl (ErrValidation v), s)"
    by (auto simp: Create_def legal_session_def new_session_def ValidateSpreadingFactor_def ValidateTxPower_def ValidateWeatherSeverity_def)
qed

lemma duo_session_ops:
  "rHSet duo_X = ref_HSet" "qUpdateWeather duo_X = ref_UpdateWeather plain_formats" "rDel duo_X = ref_Del"
  "qInsertSession duo_X n sf tx ws w = uuid_result (\<lambda>(i, _). colon_free i) (ref_InsertSession plain_formats n sf tx ws w)"
  "qGetSession duo_X i w =
     uuid_result (\<lambda>r. case r of None \<Rightarrow> True | Some s \<Rightarrow> colon_free (ss_ID s)) (ref_GetSession plain_formats i w)"
  by (simp_all add: duo_X_def mem_ext_def)

lemma duo_create: "\<exists>sess s'. Create duo_X ''n'' 9 14 2 duo_sys = (Inr sess, s')"
  by (simp add: Create_def lora_consts ValidateSpreadingFactor_def ValidateTxPower_def ValidateWeatherSeverity_def on_world_def
      SessionCreate_def new_session_def duo_session_ops ref_InsertSession_def plain_formats_def uuid_result_def
      cacheParams_def SaveParams_def wrap_err_def ref_HSet_def is_hash_def live_entry_def duo_sys_def duo_store_def duo_session_def duo_keys)

theorem session_created_witness:
  "\<exists>sess s'. Create duo_X ''n'' 9 14 2 duo_sys = (Inr sess, s') \<and> ss_ID sess \<in> sy_active s' \<and> length (st_sessions (sy_world s')) = 2 \<and>
     stored_params (sy_world s') (ss_ID sess) = Some \<lparr>sp_SpreadingFactor = 9, sp_TxPowerDbm = 14, sp_WeatherSeverity = 2\<rparr>"
proof -
  obtain sess s' where c: "Create duo_X ''n'' 9 14 2 duo_sys = (Inr sess, s')" using duo_create by blast
  then show ?thesis using session_created [OF duo_ext_ok, of "''n''" 9 14 2 duo_sys sess s'] by (auto simp: duo_sys_def duo_store_def)
qed

lemma duo_update: "\<exists>sess s'. UpdateWeather duo_X ''S'' 2 duo_sys = (Inr sess, s')"
  by (simp add: UpdateWeather_def lora_consts ValidateWeatherSeverity_def on_world_def RepoUpdateWeather_def rows_or_def
      refreshAndBroadcast_def GetByID_def duo_session_ops ref_UpdateWeather_def update_sessions_def active_with_id_def
      ref_GetSession_def plain_formats_def uuid_result_def cacheParams_def SaveParams_def wrap_err_def ref_HSet_def is_hash_def
      live_entry_def duo_sys_def duo_store_def duo_session_def new_session_def duo_keys Let_def)

theorem session_updated_witness:
  "\<exists>sess s'. UpdateWeather duo_X ''S'' 2 duo_sys = (Inr sess, s') \<and> in_force plain_formats (\<lambda>w. w) ''S'' sess s' \<and>
     ss_WeatherSeverity sess = 2"
proof -
  obtain sess s' where c: "UpdateWeather duo_X ''S'' 2 duo_sys = (Inr sess, s')" using duo_update by blast
  have "sql_round 2 2 = 2" by (simp add: sql_round_def)
  then show ?thesis
    using session_updated [OF duo_ext_ok, of duo_sys "''S''" 2 sess s' None None] c duo_legal
    by (auto simp: duo_sys_def duo_store_def)
qed

section \<open>Stopping\<close>













end
