(* ===== verification/Routing.thy ===== *)
theory Routing
  imports Lifecycle
begin

text \<open>
  A recomputation of the mesh: what is stored, and which ships hear of it.
\<close>

section \<open>Telling the ships\<close>

text \<open>A frame for the ship will be queued: it is connected, its socket is open and has space.\<close>

definition can_queue :: "Hub \<Rightarrow> string \<Rightarrow> string \<Rightarrow> bool" where
  "can_queue h i n \<longleftrightarrow>
     (\<exists>c cl. node_ref h i n = Some c \<and> hb_heap h c = Some cl \<and> \<not> cl_done cl \<and> int (length (cl_send cl)) < hb_sendBuffer h)"

lemma SendToNode_can: "fst (SendToNode i n f h) = can_queue h i n"
  by (auto simp: SendToNode_def trySend_def can_queue_def split: option.splits)

lemma can_queue_other:
  assumes "hub_inv h" "n' \<noteq> n"
  shows "can_queue (snd (SendToNode i n f h)) i n' = can_queue h i n'"
proof (cases "node_ref h i n")
  case (Some c)
  have "hb_sendBuffer (snd (trySend c f h)) = hb_sendBuffer h" by (simp add: trySend_def split: option.splits)
  then show ?thesis
    using assms(2) node_ref_inj [OF assms(1) Some, of i n'] same_registry_lookup(3) [OF trySend_registry, of c f h i n']
    by (auto simp: SendToNode_def Some can_queue_def trySend_heap)
qed (simp add: SendToNode_def)

text \<open>The frame a ship is told its new route with.\<close>

definition route_frame :: "RouteEntry \<Rightarrow> frame" where
  "route_frame e = FRoutingUpdate (routing_update e (round3 (re_DistanceKm e)))"

definition told :: "string \<Rightarrow> table \<Rightarrow> table \<Rightarrow> 'w sys \<Rightarrow> string \<Rightarrow> frame list option" where
  "told i old tbl s n =
     (case map_of tbl n of
        Some e \<Rightarrow> if \<not> routeUnchanged old n e \<and> can_queue (sy_hub s) i n
                  then map_option (\<lambda>q. q @ [route_frame e]) (shipbox s i n) else shipbox s i n
      | None \<Rightarrow> shipbox s i n)"

lemma notify_step_inv: "sys_inv (snd cs) \<Longrightarrow> sys_inv (snd (notify_step i old ne cs))"
  using sys_inv_sends(1) by (auto simp: notify_step_def)

lemma notify_steps_told:
  assumes "wf_map tbl" "sys_inv (snd cs)"
  shows "sys_inv (snd (fold (notify_step i old) tbl cs)) \<and>
    shipbox (snd (fold (notify_step i old) tbl cs)) i' n = (if i' = i then told i old tbl (snd cs) n else shipbox (snd cs) i' n)"
  using assms
proof (induction tbl arbitrary: cs)
  case (Cons ne tbl)
  obtain m e where ne: "ne = (m, e)" by (cases ne)
  let ?cs = "notify_step i old ne cs"
  have inv: "sys_inv (snd ?cs)" by (rule notify_step_inv [OF Cons.prems(2)])
  have m: "map_of tbl m = None" using Cons.prems(1) by (simp add: ne map_of_notin)
  have box: "shipbox (snd ?cs) i' n = (if i' = i \<and> n = m \<and> \<not> routeUnchanged old m e \<and> can_queue (sy_hub (snd cs)) i m
      then map_option (\<lambda>q. q @ [route_frame e]) (shipbox (snd cs) i m) else shipbox (snd cs) i' n)" for i' n
    using SendToNode_inbox [OF Cons.prems(2)] by (simp add: notify_step_def ne SendToNode_can route_frame_def)
  have can: "n \<noteq> m \<Longrightarrow> can_queue (sy_hub (snd ?cs)) i n = can_queue (sy_hub (snd cs)) i n"
    using can_queue_other [OF Cons.prems(2)] by (simp add: notify_step_def ne)
  have IH: "sys_inv (snd (fold (notify_step i old) tbl ?cs)) \<and> shipbox (snd (fold (notify_step i old) tbl ?cs)) i' n =
      (if i' = i then told i old tbl (snd ?cs) n else shipbox (snd ?cs) i' n)"
    using Cons.IH [OF _ inv] Cons.prems(1) by simp
  show ?case using IH m box can by (auto simp: told_def ne split: option.splits)
qed (simp add: told_def)

lemma notify_all_told:
  assumes "wf_map tbl" "sys_inv s"
  shows "shipbox (notify_all i old tbl s) i' n = (if i' = i then told i old tbl s n else shipbox s i' n)"
  using notify_steps_told [OF assms(1), of "(0, s)" i old i' n] assms(2)
  by (auto simp: notify_all_def case_prod_beta Let_def)

lemma notify_all_world:
  fixes s :: "'w sys"
  shows "sy_world (notify_all i old tbl s) = sy_world s"
proof -
  have "sy_world (snd (fold (notify_step i old) tbl cs)) = sy_world (snd cs)" for cs :: "int \<times> 'w sys"
    by (induction tbl arbitrary: cs) (simp_all add: notify_step_def)
  from this [of "(0, s)"] show ?thesis by (simp add: notify_all_def case_prod_beta Let_def)
qed

section \<open>A recomputation\<close>

lemma on_world_result: "on_world f s = (r, s') \<Longrightarrow> f (sy_world s) = (r, sy_world s')"
  by (auto simp: on_world_def)

lemma EdgeList_Inr:
  assumes "sql_ok F view X" "EdgeList X w = (Inr es, w')"
  shows "set es = set (st_edges (view w))"
proof -
  have "qListEdges X w = (Inr es, w')" using assms(2) by (simp add: EdgeList_def wrap_err_eq)
  then obtain u where "ref_ListEdges (at_time u (view w)) = (Inr es, view w')"
    using implements_Inr [OF sql_okD(10) [OF assms(1)]] by metis
  then show ?thesis by (auto simp: ref_ListEdges_def)
qed

lemma at_position: "position view i n s = map_of (geo_at (view (sy_world s)) (keyGeo i)) n"
  by (simp add: position_def)

text \<open>What a recomputation that succeeds has done, command by command.\<close>

lemma recompute_Inr:
  assumes "recompute X i s = (Inr (), s')"
  obtains params ps es old w1 w2 w3 w4 s5 where
    "GetParams X i (snd (xClock X (sy_world s))) = (Inr params, w1)" "AllPositions X i w1 = (Inr ps, w2)" "EdgeList X w2 = (Inr es, w3)"
    "GetTable X i w3 = (Inr old, w4)"
    "SaveTable X i (BuildTopology (live_nodes (OnlineNodes i (sy_hub s)) ps) es (MaxRangeKm (sp_TxPowerDbm params))) w4 = (Inr (), sy_world s5)"
    "sy_hub s5 = sy_hub s"
    "s' = notify_all i old (BuildTopology (live_nodes (OnlineNodes i (sy_hub s)) ps) es (MaxRangeKm (sp_TxPowerDbm params))) s5"
proof -
  obtain now s0 where 0: "on_world (xClock X) s = (now, s0)" by force
  obtain a s1 where 1: "on_world (GetParams X i) s0 = (a, s1)" by force
  obtain b s2 where 2: "on_world (AllPositions X i) s1 = (b, s2)" by force
  obtain c s3 where 3: "on_world (EdgeList X) s2 = (c, s3)" by force
  obtain d s4 where 4: "on_world (GetTable X i) s3 = (d, s4)" by force
  obtain params ps es old where ok: "a = Inr params" "b = Inr ps" "c = Inr es" "d = Inr old"
    using assms 0 1 2 3 4 by (cases a; cases b; cases c; cases d) (simp_all add: recompute_def Let_def)
  let ?tbl = "BuildTopology (live_nodes (OnlineNodes i (sy_hub s)) ps) es (MaxRangeKm (sp_TxPowerDbm params))"
  obtain f s5 where 5: "on_world (SaveTable X i ?tbl) s4 = (f, s5)" by force
  have hubs: "sy_hub s2 = sy_hub s" "sy_hub s5 = sy_hub s" using 0 1 2 3 4 5 by (metis on_world_simps(3) snd_conv)+
  have f: "f = Inr ()" and s': "s' = notify_all i old ?tbl s5"
    using assms 0 1 2 3 4 5 ok hubs by (cases f; simp add: recompute_def Let_def)+
  have "sy_world s0 = snd (xClock X (sy_world s))" using 0 by (auto simp: on_world_def)
  then show thesis
    using that on_world_result [OF 1] on_world_result [OF 2] on_world_result [OF 3] on_world_result [OF 4] on_world_result [OF 5] ok f hubs(2) s'
    by simp
qed

lemma positions_listed:
  assumes "redis_ok F view X" "AllPositions X i w = (Inr ps, w')"
    and "geo_at (view w) (keyGeo i) = geo_at (view (sy_world s)) (keyGeo i)"
  shows "(\<exists>p \<in> set ps. np_ID p = n \<and> np_Lat p = la \<and> np_Lng p = lo) \<longleftrightarrow> position view i n s = Some (la, lo)"
proof
  note pos = AllPositions_Inr [OF assms(1,2)]
  assume "position view i n s = Some (la, lo)"
  then have at: "map_of (geo_at (view (sy_world s)) (keyGeo i)) n = Some (la, lo)" by (simp add: at_position)
  then have "n \<in> np_ID ` set ps" using pos(3) assms(3) keys_of_iff by (metis option.distinct(1))
  then obtain p where "p \<in> set ps" "np_ID p = n" by auto
  then show "\<exists>p \<in> set ps. np_ID p = n \<and> np_Lat p = la \<and> np_Lng p = lo" using pos(2) at assms(3) by fastforce
qed (use AllPositions_Inr(2) [OF assms(1,2)] assms(3) in \<open>auto simp: at_position\<close>)

lemma live_nodes_iff:
  "(\<exists>p \<in> set (live_nodes (OnlineNodes i h) ps). np_ID p = n \<and> np_Lat p = la \<and> np_Lng p = lo) \<longleftrightarrow>
   NodeOnline i n h \<and> (\<exists>p \<in> set ps. np_ID p = n \<and> np_Lat p = la \<and> np_Lng p = lo)"
proof -
  have "n \<in> set (OnlineNodes i h) \<longleftrightarrow> NodeOnline i n h"
    by (simp only: OnlineNodes_def NodeOnline_def node_ref_def set_sort set_map keys_of_iff)
  then show ?thesis by (auto simp: live_nodes_def)
qed

text \<open>
  C16. A successful recomputation of a session builds the topology of exactly the ships that are
  connected and have a position, over all the edges and with the range of the session's power; it
  stores that table in Redis; and of all the ships exactly those of the session whose route
  changed against the table stored before (by more than the distance jitter) are told, with one frame.
\<close>

theorem recompute_stores_and_tells:
  assumes "ext_ok F view X" "sys_inv s" "recompute X i s = (Inr (), s')"
  shows "\<exists>params nodes edges old. stored_params (view (sy_world s)) i = Some params \<and>
    distinct (map np_ID nodes) \<and>
    (\<forall>n la lo. (\<exists>p \<in> set nodes. np_ID p = n \<and> np_Lat p = la \<and> np_Lng p = lo) \<longleftrightarrow>
       NodeOnline i n (sy_hub s) \<and> position view i n s = Some (la, lo)) \<and>
    set edges = set (st_edges (view (sy_world s))) \<and>
    stored_routes (view (sy_world s)) i = map (\<lambda>(n, e). (n, RouteTxt e)) old \<and>
    (let tbl = BuildTopology nodes edges (MaxRangeKm (sp_TxPowerDbm params)) in
       map_of (stored_routes (view (sy_world s')) i) = map_option RouteTxt \<circ> map_of tbl \<and>
       (\<forall>i' n. shipbox s' i' n = (if i' = i then told i old tbl s n else shipbox s i' n)))"
proof -
  note e = ext_parts [OF assms(1)]
  obtain params ps es old w1 w2 w3 w4 s5 where ran: "GetParams X i (snd (xClock X (sy_world s))) = (Inr params, w1)"
      "AllPositions X i w1 = (Inr ps, w2)" "EdgeList X w2 = (Inr es, w3)" "GetTable X i w3 = (Inr old, w4)"
      "SaveTable X i (BuildTopology (live_nodes (OnlineNodes i (sy_hub s)) ps) es (MaxRangeKm (sp_TxPowerDbm params))) w4 = (Inr (), sy_world s5)"
    and hub: "sy_hub s5 = sy_hub s"
    and s': "s' = notify_all i old (BuildTopology (live_nodes (OnlineNodes i (sy_hub s)) ps) es (MaxRangeKm (sp_TxPowerDbm params))) s5"
    by (rule recompute_Inr [OF assms(3)])
  let ?nodes = "live_nodes (OnlineNodes i (sy_hub s)) ps" let ?tbl = "BuildTopology ?nodes es (MaxRangeKm (sp_TxPowerDbm params))"
  let ?w0 = "snd (xClock X (sy_world s))"
  have c0: "calm {} (view (sy_world s)) (view ?w0)" by (rule env_calm(1) [OF e(3)])
  have c1: "calm {} (view (sy_world s)) (view w1)" using calm_trans [OF c0 repo_calm(2) [OF e(1), of ?w0 i]] ran(1) by simp
  have c2: "calm {} (view (sy_world s)) (view w2)" using calm_trans [OF c1 repo_calm(18) [OF e(1), of w1 i]] ran(2) by simp
  have c3: "calm {} (view (sy_world s)) (view w3)"
    using calm_trans [OF c2 query_calm(4) [OF e(2), of w2]] ran(3) by (metis EdgeList_snd snd_conv)
  have p1: "stored_params (view (sy_world s)) i = Some params"
    using GetParams_Inr(1) [OF e(1) ran(1)] stored_params_keeps [OF calm_keeps [OF c0], of i] by simp
  have d: "distinct (map np_ID ?nodes)"
    using AllPositions_Inr(1) [OF e(1) ran(2)] by (simp add: live_nodes_def distinct_map_filter)
  have geo: "geo_at (view w1) (keyGeo i) = geo_at (view (sy_world s)) (keyGeo i)" by (rule geo_at_calm [OF c1]) simp
  have nodes: "(\<exists>p \<in> set ?nodes. np_ID p = n \<and> np_Lat p = la \<and> np_Lng p = lo) \<longleftrightarrow>
      NodeOnline i n (sy_hub s) \<and> position view i n s = Some (la, lo)" for n la lo
    unfolding live_nodes_iff positions_listed [OF e(1) ran(2) geo] ..
  have es: "set es = set (st_edges (view (sy_world s)))"
    using EdgeList_Inr [OF e(2) ran(3)] c2 by (simp add: calm_def tables_def)
  have old: "stored_routes (view (sy_world s)) i = map (\<lambda>(n, e). (n, RouteTxt e)) old"
    using GetTable_Inr [OF e(1) ran(4)] hash_at_keeps [OF calm_keeps [OF c3]] by (simp add: stored_routes_def)
  have wf: "wf_map ?tbl" by (rule BuildTopology_table(3) [OF d])
  have stored: "map_of (stored_routes (view (sy_world s')) i) = map_option RouteTxt \<circ> map_of ?tbl"
    using SaveTable_stored(1) [OF e(1) ran(5) wf] by (simp add: s' notify_all_world)
  have boxes: "shipbox s' i' n = (if i' = i then told i old ?tbl s n else shipbox s i' n)" for i' n
  proof -
    have "told i old ?tbl s5 n = told i old ?tbl s n" by (simp only: told_def hub)
    then show ?thesis using notify_all_told [OF wf, of s5 i old i' n] assms(2) hub by (simp add: s')
  qed
  show ?thesis
    by (intro exI [of _ params] exI [of _ ?nodes] exI [of _ es] exI [of _ old]) (simp add: p1 d nodes es old stored boxes Let_def)
qed

lemma duo_recompute: "\<exists>s'. recompute duo_X ''S'' duo_sys = (Inr (), s')"
proof -
  have routes: "GetTable duo_X ''S'' duo_store = (Inr [], duo_store)"
    by (simp add: GetTable_def duo_ops ref_HGetAll_def is_hash_def hash_at_def live_entry_def duo_store_def duo_keys)
  have edges: "EdgeList duo_X duo_store = (Inr [duo_edge], duo_store)"
    by (simp add: EdgeList_def duo_ops ref_ListEdges_def wrap_err_def duo_store_def)
  obtain ps where positions: "AllPositions duo_X ''S'' duo_store = (Inr ps, duo_store)"
    by (simp add: AllPositions_def duo_ops ref_ZRange_def duo_X_def mem_ext_def is_geo_def geo_at_def live_entry_def duo_store_def
        duo_keys plain_formats_def ref_GeoPos_def)
  obtain w where save: "SaveTable duo_X ''S'' tbl duo_store = (Inr (), w tbl)" for tbl
    by (simp add: SaveTable_def duo_X_def mem_ext_def ref_TxExec_def wrap_err_def Let_def)
  have world: "sy_world duo_sys = duo_store" by (simp add: duo_sys_def)
  show ?thesis
    by (simp add: recompute_def Let_def on_world_def duo_ops world duo_GetParams positions edges routes save)
qed

theorem recompute_stores_and_tells_witness:
  "\<exists>nodes edges s'. recompute duo_X ''S'' duo_sys = (Inr (), s') \<and> np_ID ` set nodes = {''A'', ''B''} \<and> set edges = {duo_edge} \<and>
     map_of (stored_routes (sy_world s') ''S'') = map_option RouteTxt \<circ> map_of (BuildTopology nodes edges (MaxRangeKm 20))"
proof -
  obtain s' where r: "recompute duo_X ''S'' duo_sys = (Inr (), s')" using duo_recompute by blast
  have params: "stored_params (sy_world duo_sys) ''S'' = Some duo_params"
    using GetParams_Inr(1) [OF ext_parts(1) [OF duo_ext_ok] duo_GetParams] by (simp add: duo_sys_def)
  have online: "NodeOnline ''S'' n (sy_hub duo_sys) \<longleftrightarrow> n \<in> {''A'', ''B''}" for n
    by (simp add: NodeOnline_def node_ref_def session_nodes_def duo_sys_def duo_hub_eq)
  have pos: "position (\<lambda>w. w) ''S'' n duo_sys = (if n \<in> {''A'', ''B''} then Some (0, 0) else None)" for n
    by (simp add: position_def duo_eval)
  from recompute_stores_and_tells [OF duo_ext_ok duo_inv r] params obtain nodes edges where
    n: "\<forall>n la lo. (\<exists>p \<in> set nodes. np_ID p = n \<and> np_Lat p = la \<and> np_Lng p = lo) \<longleftrightarrow>
       NodeOnline ''S'' n (sy_hub duo_sys) \<and> position (\<lambda>w. w) ''S'' n duo_sys = Some (la, lo)"
    and e: "set edges = set (st_edges (sy_world duo_sys))"
    and t: "map_of (stored_routes (sy_world s') ''S'') = map_option RouteTxt \<circ> map_of (BuildTopology nodes edges (MaxRangeKm (sp_TxPowerDbm duo_params)))"
    by (auto simp: Let_def)
  have h1: "x \<in> {''A'', ''B''} \<Longrightarrow> \<exists>p \<in> set nodes. np_ID p = x" for x
    using n [rule_format, of x 0 0] online [of x] pos [of x] by metis
  have h2: "p \<in> set nodes \<Longrightarrow> np_ID p \<in> {''A'', ''B''}" for p
    using n online by metis
  have "np_ID ` set nodes = {''A'', ''B''}"
  proof (intro equalityI subsetI)
    show "x \<in> {''A'', ''B''}" if "x \<in> np_ID ` set nodes" for x using that h2 by (elim imageE) simp
    show "x \<in> np_ID ` set nodes" if "x \<in> {''A'', ''B''}" for x using h1 [OF that] by (elim bexE) (rule image_eqI, rule sym)
  qed
  then show ?thesis using r e t by (auto simp: duo_sys_def duo_store_def duo_params_def)
qed

end
