(* ===== verification/Surface.thy ===== *)
theory Surface
  imports Routing Wire
begin

text \<open>
  The surface of the backend: the route table, the replies of the REST handlers and the admission of
  WebSocket connections.
\<close>

section \<open>The route table\<close>








section \<open>Admission\<close>

lemma quiet_GetActive: "ext_ok F view X \<Longrightarrow> quiet view K s (snd (GetActive X i s))"
  unfolding GetActive_def
  by (rule quiet_world, rule calm_empty, drule ext_parts(2)) (simp add: GetLatest_def query_calm)

lemma quiet_push: "ext_ok F view X \<Longrightarrow> quiet view K s (push_params X i (send_node i n) s)"
proof -
  assume X: "ext_ok F view X"
  obtain r s1 where 1: "on_world (GetParams X i) s = (r, s1)" by force
  have q: "quiet view K s s1" using quiet_GetParams [OF X, of K s i] by (simp add: 1)
  show ?thesis using quiet_trans [OF q quiet_send] q by (simp add: push_params_def 1 split: sum.split)
qed

lemma quiet_NodeConnected:
  assumes "ext_ok F view X"
  shows "quiet view K s (NodeConnected X i n s)"
proof -
  have q0: "quiet view K s (to_monitors i (node_status n True) s)" by (rule quiet_monitors)
  define s1 where "s1 = push_params X i (send_node i n) (to_monitors i (node_status n True) s)"
  have q1: "quiet view K s s1" unfolding s1_def by (rule quiet_trans [OF q0 quiet_push [OF assms]])
  obtain r s2 where 2: "GetActive X i s1 = (r, s2)" by force
  have q2: "quiet view K s s2" using quiet_trans [OF q1 quiet_GetActive [OF assms]] 2 by (metis snd_conv)
  define s3 where "s3 = (case r of Inr schema \<Rightarrow> send_node i n (FSchemaSync (schema_sync (ds_Fields schema))) s2 | Inl _ \<Rightarrow> s2)"
  have q3: "quiet view K s s3" using quiet_trans [OF q2 quiet_send] q2 by (simp add: s3_def split: sum.split)
  obtain a s4 where 4: "CurrentRoute X i n s3 = (a, s4)" by force
  have "quiet view K s3 (snd (on_world (GetRoute X i n) s3))"
    by (rule quiet_world) (rule repo_calm_any [OF ext_parts(1) [OF assms]])
  then have q4: "quiet view K s s4" using quiet_trans [OF q3] 4 by (simp add: CurrentRoute_def)
  have "NodeConnected X i n s = (case a of Inr en \<Rightarrow> send_node i n (FRoutingUpdate (routing_update en (re_DistanceKm en))) s4 | Inl _ \<Rightarrow> s4)"
    unfolding NodeConnected_def Let_def s1_def [symmetric] 2
    by (cases r; simp add: s3_def [symmetric] 4 split: sum.split)
      (use 4 in \<open>simp_all add: s3_def split: sum.split\<close>)
  then show ?thesis using q4 quiet_trans [OF q4 quiet_send] by (simp split: sum.split)
qed

lemma open_node_ref:
  assumes "hub_inv h" "open_node i n h = (c, h')"
  shows "node_ref h' i n = Some c"
proof -
  obtain h0 where 0: "newClient kindNode i n h = (c, h0)" "h' = registerNode c h0"
    using assms(2) by (auto simp: open_node_def split: prod.splits)
  from hub_inv_newClient(2) [OF assms(1) 0(1)] have "is_client h0 c (kindNode, i, n)" .
  then have "h' = (case node_ref h0 i n of None \<Rightarrow> \<lambda>h. h | Some old_client \<Rightarrow> Close old_client)
      (h0\<lparr>hb_nodes := AList.update i (AList.update n c (session_nodes h0 i)) (hb_nodes h0)\<rparr>)"
    using 0(2) by (simp only: registerNode_eq)
  then have "node_ref h' i n = node_ref (h0\<lparr>hb_nodes := AList.update i (AList.update n c (session_nodes h0 i)) (hb_nodes h0)\<rparr>) i n"
    using same_registry_lookup(3) [OF Close_registry] by (cases "node_ref h0 i n") simp_all
  then show ?thesis by (simp add: node_ref_def session_nodes_def map_of_update)
qed

lemma SessionActive_cases:
  assumes "ext_ok F view X" "SessionActive X i s = (ok, s1)"
  shows "quiet view {} s s1" "sy_hub s1 = sy_hub s" "ok \<Longrightarrow> stored_params (view (sy_world s)) i \<noteq> None"
proof -
  obtain r s2 where 1: "on_world (GetParams X i) s = (r, s2)" by force
  then have s1: "s1 = s2" "ok = is_ok r" using assms(2) by (simp_all add: SessionActive_def)
  show "quiet view {} s s1" using quiet_GetParams [OF assms(1), of "{}" s i] by (simp add: 1 s1)
  show "sy_hub s1 = sy_hub s" using 1 s1 by (metis on_world_simps(3) snd_conv)
  show "ok \<Longrightarrow> stored_params (view (sy_world s)) i \<noteq> None"
    using GetParams_Inr(1) [OF ext_parts(1) [OF assms(1)]] on_world_result [OF 1] s1 by (cases r) auto
qed

text \<open>
  C18. A ship is admitted only with a session identifier, a well-formed node name of at most 100
  characters and a session whose parameters are in Redis; it is then the session's ship of that
  name.  A refused request is answered with 400 or 404 and changes no connection, and nothing at
  all in the databases.
\<close>

theorem HandleNodeWS_admission:
  assumes "ext_ok F view X" "sys_inv s" "HandleNodeWS X up i n s = (res, s')"
  shows "(\<forall>c. res = Connected c \<longrightarrow> up \<and> i \<noteq> [] \<and> n \<noteq> [] \<and> length n \<le> 100 \<and> list_all is_node_char n \<and>
       stored_params (view (sy_world s)) i \<noteq> None \<and> node_ref (sy_hub s') i n = Some c) \<and>
    (\<forall>code msg. res = Refused code msg \<longrightarrow> sy_hub s' = sy_hub s \<and>
       (code = 400 \<and> (i = [] \<or> \<not> nodeIDRe_match n) \<or> code = 404 \<and> i \<noteq> [] \<and> nodeIDRe_match n)) \<and>
    calm {} (view (sy_world s)) (view (sy_world s'))"
proof (cases "i = [] \<or> \<not> nodeIDRe_match n")
  case True
  then show ?thesis using assms(3) by (auto simp: HandleNodeWS_def)
next
  case False
  obtain ok s1 where a: "SessionActive X i s = (ok, s1)" by force
  note sa = SessionActive_cases [OF assms(1) a]
  show ?thesis
  proof (cases "ok \<and> up")
    case True
    obtain c h where o: "open_node i n (sy_hub s1) = (c, h)" by force
    have ref: "node_ref h i n = Some c" and inv: "hub_inv h"
      using open_node_ref [OF _ o] hub_inv_open_node [OF _ o] assms(2) sa(2) by simp_all
    have s': "res = Connected c" "s' = NodeConnected X i n (s1\<lparr>sy_hub := h\<rparr>)"
      using assms(3) False True a o by (auto simp: HandleNodeWS_def on_hub_def)
    have q: "quiet view {} (s1\<lparr>sy_hub := h\<rparr>) s'" unfolding s' by (rule quiet_NodeConnected [OF assms(1)])
    then have "node_ref (sy_hub s') i n = Some c"
      using same_registry_lookup(3) ref inv by (auto simp: quiet_def)
    moreover have "calm {} (view (sy_world s)) (view (sy_world s'))"
      using calm_trans [OF quiet_calm [OF sa(1)]] quiet_calm [OF q] by simp
    ultimately show ?thesis using False True sa(3) by (auto simp: s'(1) nodeIDRe_match_def)
  next
    case other: False
    then have "res \<in> {Refused 404 ''unknown or inactive simulation session'', UpgradeFailed}" "s' = s1"
      using assms(3) False a by (auto simp: HandleNodeWS_def split: bool.splits if_splits)
    then show ?thesis using False sa(2) quiet_calm [OF sa(1)] by auto
  qed
qed

lemma duo_admitted: "\<exists>c s'. HandleNodeWS duo_X True ''S'' ''C-1'' duo_sys = (Connected c, s')"
  by (simp add: HandleNodeWS_def nodeIDRe_match_def is_node_char_def is_letter_def is_digit_def SessionActive_def on_world_def
      duo_sys_def duo_GetParams case_prod_beta Let_def)

theorem HandleNodeWS_admission_witness:
  "\<exists>c s'. HandleNodeWS duo_X True ''S'' ''C-1'' duo_sys = (Connected c, s') \<and> node_ref (sy_hub s') ''S'' ''C-1'' = Some c"
proof -
  obtain c s' where c: "HandleNodeWS duo_X True ''S'' ''C-1'' duo_sys = (Connected c, s')" using duo_admitted by blast
  from HandleNodeWS_admission [OF duo_ext_ok duo_inv c] c show ?thesis by blast
qed

section \<open>Replies\<close>

text \<open>The response envelope of the API: success with 200 or 201, or an error without data.\<close>

definition good_response :: "response \<Rightarrow> bool" where
  "good_response r \<longleftrightarrow>
     en_Status (rs_body r) = ''success'' \<and> rs_code r \<in> {200, 201} \<or>
     en_Status (rs_body r) = ''error'' \<and> rs_code r \<in> {400, 404, 409, 500, 503} \<and> en_Data (rs_body r) = PNull"

lemma good_responses [simp]:
  "good_response (respondOK m d)" "good_response (respondCreated m d)"
  "code \<in> {400, 404, 409, 500, 503} \<Longrightarrow> good_response (respondError code m)" "good_response (respondDomainError err)"
  by (auto simp: good_response_def respondOK_def respondCreated_def respondError_def writeJSON_def respondDomainError_def split: gerr.split)

lemma good_answer: "(\<And>x. good_response (f x)) \<Longrightarrow> good_response (fst (answer f rs))"
  by (simp add: answer_def split: sum.split)

lemma good_checks:
  "decodeBody fs z n raw = Inl r \<Longrightarrow> good_response r" "sessionID u q = Inl r \<Longrightarrow> good_response r"
  "check_edge req = Some r \<Longrightarrow> good_response r" "check_code c = Some r \<Longrightarrow> good_response r"
  by (auto simp: decodeBody_def sessionID_def check_edge_def check_code_def split: sum.splits if_splits)

lemma good_handlers:
  "good_response (fst (handleCreateSimulation X r s))" "good_response (fst (handleListSimulations X r s))"
  "good_response (fst (handleGetSimulation X u r s))" "good_response (fst (handleStopSimulation X u r s))"
  "good_response (fst (handleDeleteSession X u r s))" "good_response (fst (handleUpdateWeather X u r s))"
  "good_response (fst (handleUpdateParams X u r s))" "good_response (fst (handleGetStats X u r s))"
  "good_response (fst (handleSetSchema X u r s))" "good_response (fst (handleGetSchema X u r s))"
  "good_response (fst (handleGetTopology X u r s))" "good_response (fst (handleListTelemetry X u r s))"
  "good_response (fst (handleCreateEdge X r s))" "good_response (fst (handleUpdateEdge X r s))"
  "good_response (fst (handleListEdges X r s))" "good_response (fst (handleDeleteEdge X r s))"
  "good_response (fst (handleHealthz X r s))" "good_response (fst (handleReadyz ready r s))"
  by (auto simp: handleCreateSimulation_def handleListSimulations_def handleGetSimulation_def handleStopSimulation_def
      handleDeleteSession_def handleUpdateWeather_def handleUpdateParams_def handleGetStats_def handleSetSchema_def
      handleGetSchema_def handleGetTopology_def handleListTelemetry_def handleCreateEdge_def handleUpdateEdge_def
      handleListEdges_def handleDeleteEdge_def handleHealthz_def handleReadyz_def Let_def
      intro!: good_answer intro: good_checks split: sum.split option.split prod.split)

text \<open>
  C26. Every JSON answer of the server keeps the response contract: a success carries 200 or 201, an
  error one of 400, 404, 409, 500 and 503 and no data.  A preflight request reaches no handler.
\<close>

theorem serve_envelope:
  "(\<forall>r. snd (fst (serve X env m path origin q s)) = JsonReply r \<longrightarrow> good_response r) \<and>
   serve X env ''OPTIONS'' path origin q s = ((cors_headers (he_origins env) origin, StatusOnly 204), s)"
proof -
  have "good_response r" if "fst (serve_endpoint X env e vars q s) = JsonReply r" for e vars r
    using that good_handlers by (cases e) (auto simp: serve_endpoint_def Let_def case_prod_beta)
  then show ?thesis by (auto simp: serve_def case_prod_beta Let_def split: dispatch.splits)
qed

theorem serve_envelope_witness:
  "\<exists>r. snd (fst (serve duo_X plain_env ''GET'' [''api'', ''v1'', ''edges''] ''http://x'' plain_request duo_sys)) = JsonReply r \<and>
     good_response r"
proof -
  have "\<exists>r. snd (fst (serve duo_X plain_env ''GET'' [''api'', ''v1'', ''edges''] ''http://x'' plain_request duo_sys)) = JsonReply r"
    by (simp add: serve_def route_def routes_def sims_def edges_path_def method_ok_def serve_endpoint_def Let_def case_prod_beta)
  then show ?thesis using serve_envelope [of duo_X plain_env "''GET''" "[''api'', ''v1'', ''edges'']" "''http://x''" plain_request duo_sys] by blast
qed

end
