(* ===== verification/Fleet.thy ===== *)
theory Fleet
  imports Nodesim Surface
begin

text \<open>
  What the virtual ships do: the retry loop ends, a packet is relayed once, the frames on the wire are
  the ship's own, and the two programs understand each other.
\<close>

section \<open>The retry loop ends\<close>

text \<open>How many actions a goroutine has left at most, and how many frames it may still write.\<close>

fun rank :: "task \<Rightarrow> nat" where
  "rank (Acking _) = 15"
| "rank (Checking _) = 14"
| "rank Sensing = 14"
| "rank (Sending _ (Try a)) = 3 * (4 - a) + 1"
| "rank (Sending _ (Write a _ _)) = 3 * (4 - a)"
| "rank (Sending _ (Await a _ _)) = 3 * (4 - a) - 1"
| "rank Over = 0"

text \<open>The attempts a reachable goroutine can be at.\<close>

fun attempt_ok :: "task \<Rightarrow> bool" where
  "attempt_ok (Sending _ (Try a)) \<longleftrightarrow> a \<le> 4"
| "attempt_ok (Sending _ (Write a _ _)) \<longleftrightarrow> a \<le> 3"
| "attempt_ok (Sending _ (Await a _ _)) \<longleftrightarrow> a \<le> 3"
| "attempt_ok _ \<longleftrightarrow> True"

lemma task_step_rank:
  assumes "task_step (t, n) (t', n')" "attempt_ok t"
  shows "rank t' < rank t \<and> attempt_ok t'"
  using assms
proof (cases rule: task_step.cases)
  case (do_wake w ch pkt a)
  then show ?thesis using assms(2) by (cases w) auto
qed (auto simp: handleReceive_def transmitTelemetry_def arm_def send_frame_def sim_writeJSON_def maxRetries_def Let_def
    split: if_splits sum.splits)






section \<open>Invariants of a ship\<close>

text \<open>A relation between the node and its goroutines that every action keeps.\<close>

locale ship_invariant =
  fixes n0 :: node and I :: "node \<Rightarrow> task list \<Rightarrow> bool"
  assumes start: "I (sendPing ok n0) []"
    and act: "I n (ts1 @ t # ts2) \<Longrightarrow> task_step (t, n) (t', n') \<Longrightarrow> I n' (ts1 @ t' # ts2)"
    and read: "I n ts \<Longrightarrow> reader raw n = (goes_on, ts', n') \<Longrightarrow> I n' (ts @ ts')"
    and ping: "I n ts \<Longrightarrow> I (sendPing ok (move r n)) ts"
    and spawn: "I n ts \<Longrightarrow> I n (ts @ [Sensing])"
begin

lemma step: "ship_step s s' \<Longrightarrow> I (sh_node s) (sh_tasks s) \<Longrightarrow> I (sh_node s') (sh_tasks s')"
proof (induction rule: ship_step.induct)
  case (step_task i s t' n')
  let ?ts = "sh_tasks s"
  have "?ts = take i ?ts @ ?ts ! i # drop (Suc i) ?ts" by (rule id_take_nth_drop [OF step_task.hyps(1)])
  then have "I (sh_node s) (take i ?ts @ ?ts ! i # drop (Suc i) ?ts)" using step_task.prems by simp
  then have "I n' (take i ?ts @ t' # drop (Suc i) ?ts)" using step_task.hyps(2) by (rule act)
  then show ?case using upd_conv_take_nth_drop [OF step_task.hyps(1), of t'] by simp
qed (auto intro: read ping spawn)

lemma reachable: "ship_reachable n0 s \<Longrightarrow> I (sh_node s) (sh_tasks s)"
  by (induction rule: ship_reachable.induct) (auto simp: run_start_def start step split: sum.splits if_splits)

end

lemma sim_write_simps [simp]:
  "nd_id (snd (sim_writeJSON ok v n)) = nd_id n" "nd_sessionID (snd (sim_writeJSON ok v n)) = nd_sessionID n"
  "nd_seen (snd (sim_writeJSON ok v n)) = nd_seen n" "nd_pktSeq (snd (sim_writeJSON ok v n)) = nd_pktSeq n"
  "nd_out (snd (sim_writeJSON ok v n)) = nd_out n @ (if ok \<and> encodable v then [v] else [])"
  by (simp_all add: sim_writeJSON_def)

lemma add_stats_simps [simp]:
  "nd_id (add_stats f n) = nd_id n" "nd_sessionID (add_stats f n) = nd_sessionID n" "nd_seen (add_stats f n) = nd_seen n"
  "nd_pktSeq (add_stats f n) = nd_pktSeq n" "nd_out (add_stats f n) = nd_out n"
  by (simp_all add: add_stats_def)

lemma move_simps [simp]:
  "nd_id (move r n) = nd_id n" "nd_sessionID (move r n) = nd_sessionID n" "nd_seen (move r n) = nd_seen n"
  "nd_pktSeq (move r n) = nd_pktSeq n" "nd_out (move r n) = nd_out n"
  by (simp_all add: move_def Let_def)

text \<open>The read loop writes nothing and leaves what was seen and sent.\<close>

lemma reader_keeps:
  assumes "reader raw n = (goes_on, ts, n')"
  shows "nd_id n' = nd_id n" "nd_sessionID n' = nd_sessionID n" "nd_seen n' = nd_seen n" "nd_pktSeq n' = nd_pktSeq n" "nd_out n' = nd_out n"
    "ts = [] \<or> (\<exists>pkt. ts = [Acking pkt] \<and> Unmarshal False packet_fields zero_packet raw = Inr pkt)"
  using assms by (auto simp: reader_def on_env_def on_schema_def on_route_def on_receive_def on_ack_def
      split: sum.splits if_splits option.splits)

lemma find_field_in: "find_field fs key = Some f \<Longrightarrow> \<exists>tag. (tag, f) \<in> set fs"
  by (auto simp: find_field_def find_Some_iff split: option.splits dest: map_of_SomeD)
    (metis nth_mem)

lemma Unmarshal_keeps:
  assumes "Unmarshal strict fs zero raw = Inr r" "Q zero"
    and field: "\<And>tag f j x y. (tag, f) \<in> set fs \<Longrightarrow> Q x \<Longrightarrow> f j x = Some y \<Longrightarrow> Q y"
  shows "Q r"
proof -
  have key: "Q (snd (decode_key strict fs kv st))" if "Q (snd st)" for kv st
    using that field find_field_in [of fs "fst kv"] by (auto simp: decode_key_def split: option.splits)
  have "Q (snd (fold (decode_key strict fs) kvs st))" if "Q (snd st)" for kvs st
    using that key by (induction kvs arbitrary: st) simp_all
  then have "Q r" if "fold (decode_key strict fs) kvs (False, zero) = (failed, r)" for kvs failed
    using that assms(2) by (metis snd_conv)
  then show ?thesis using assms(1,2) by (auto simp: Unmarshal_def decode_struct_def split: sum.splits json.splits option.splits prod.splits if_splits)
qed

definition int64_hops :: "TransmitPacket \<Rightarrow> bool" where
  "int64_hops p \<longleftrightarrow> int64_min \<le> pk_HopCount p \<and> pk_HopCount p \<le> int64_max"

lemma read_hops: "Unmarshal False packet_fields zero_packet raw = Inr p \<Longrightarrow> int64_hops p"
  by (rule Unmarshal_keeps [where Q = int64_hops])
    (auto simp: packet_fields_def int64_hops_def zero_packet_def int64_min_def int64_max_def as_string_def as_int_def as_slice_def
      split: json.splits if_splits)

section \<open>What a ship writes\<close>

definition sent_frame :: "string \<Rightarrow> TransmitPacket \<Rightarrow> bool" where
  "sent_frame name p \<longleftrightarrow> pk_Event p = EvNodeTransmit \<and> Transmitter p = Some name \<and> pk_TargetParent p \<noteq> [] \<and> int64_hops p"

fun message_ok :: "string \<Rightarrow> string \<Rightarrow> uplink \<Rightarrow> bool" where
  "message_ok name sess (UPing g) \<longleftrightarrow> ng_Event g = EvNodePing \<and> ng_NodeID g = name \<and> ng_SessionID g = sess \<and> encodable (UPing g)"
| "message_ok name sess (UAck a) \<longleftrightarrow> na_Event a = EvNodeAck \<and> na_ReceiverNode a = name \<and> na_Status a = ''received''"
| "message_ok name sess (UTransmit p) \<longleftrightarrow> sent_frame name p"

definition wire_ok :: "string \<Rightarrow> string \<Rightarrow> node \<Rightarrow> task list \<Rightarrow> bool" where
  "wire_ok name sess n ts \<longleftrightarrow> nd_id n = name \<and> nd_sessionID n = sess \<and> (\<forall>u \<in> set (nd_out n). message_ok name sess u) \<and>
     (\<forall>p w. Sending p w \<in> set ts \<longrightarrow> sent_frame name p)"

lemma sent_relay: "nd_parent n \<noteq> [] \<Longrightarrow> sent_frame (nd_id n) (relay_frame pkt n)"
  using wrap64_range [of "pk_HopCount pkt + 1"]
  by (simp add: sent_frame_def relay_frame_def EvNodeTransmit_def Transmitter_def int64_hops_def)

lemma sent_report: "nd_parent n \<noteq> [] \<Longrightarrow> sent_frame (nd_id n) (report_frame n k raw)"
  by (simp add: sent_frame_def report_frame_def EvNodeTransmit_def Transmitter_def int64_hops_def int64_min_def int64_max_def)

lemma wire_ok_ping: "wire_ok name sess n ts \<Longrightarrow> wire_ok name sess (sendPing ok n) ts"
  by (auto simp: wire_ok_def sendPing_def EvNodePing_def)

text \<open>One action: the node keeps its names, the messages stay good, and so does what the goroutine sends.\<close>

lemma wire_ok_act:
  assumes "task_step (t, n) (t', n')" "\<And>p w. t = Sending p w \<Longrightarrow> sent_frame (nd_id n) p"
  shows "nd_id n' = nd_id n" "nd_sessionID n' = nd_sessionID n"
    "\<forall>u \<in> set (nd_out n'). u \<in> set (nd_out n) \<or> message_ok (nd_id n) (nd_sessionID n) u"
    "\<forall>p w. t' = Sending p w \<longrightarrow> sent_frame (nd_id n) p"
proof -
  have "nd_id n' = nd_id n \<and> nd_sessionID n' = nd_sessionID n \<and>
    (\<forall>u \<in> set (nd_out n'). u \<in> set (nd_out n) \<or> message_ok (nd_id n) (nd_sessionID n) u) \<and>
    (\<forall>p w. t' = Sending p w \<longrightarrow> sent_frame (nd_id n) p)"
    using assms(1)
  proof (cases rule: task_step.cases)
    case (do_check pkt)
    then show ?thesis
      using sent_relay [of "n\<lparr>nd_seen := (nd_seen n)(pk_PacketID pkt := True)\<rparr>" pkt] by (auto simp: handleReceive_def Let_def split: if_splits)
  next
    case (do_sense marshal d)
    then show ?thesis using sent_report [of "n\<lparr>nd_pktSeq := nd_pktSeq n + 1\<rparr>"]
      by (auto simp: transmitTelemetry_def Let_def split: if_splits sum.splits)
  next
    case (do_wake w ch pkt a ti)
    then show ?thesis using assms(2) by (cases w) auto
  qed (use assms(2) in \<open>auto simp: receive_ack_def EvNodeAck_def arm_def send_frame_def sim_writeJSON_def split: if_splits\<close>)
  then show "nd_id n' = nd_id n" "nd_sessionID n' = nd_sessionID n"
    "\<forall>u \<in> set (nd_out n'). u \<in> set (nd_out n) \<or> message_ok (nd_id n) (nd_sessionID n) u"
    "\<forall>p w. t' = Sending p w \<longrightarrow> sent_frame (nd_id n) p" by blast+
qed

interpretation wire: ship_invariant "new_node opt sess i place r" "wire_ok (node_name i) sess" for opt sess i place r
proof
  fix ok show "wire_ok (node_name i) sess (sendPing ok (new_node opt sess i place r)) []"
    by (rule wire_ok_ping) (simp add: wire_ok_def new_node_def)
next
  fix n ts1 t ts2 t' n'
  assume "wire_ok (node_name i) sess n (ts1 @ t # ts2)" "task_step (t, n) (t', n')"
  then show "wire_ok (node_name i) sess n' (ts1 @ t' # ts2)"
    using wire_ok_act [of t n t' n'] by (auto simp: wire_ok_def)
next
  fix n ts raw g ts' n'
  assume "wire_ok (node_name i) sess n ts" "reader raw n = (g, ts', n')"
  then show "wire_ok (node_name i) sess n' (ts @ ts')" using reader_keeps [of raw n g ts' n'] by (auto simp: wire_ok_def)
next
  fix n ts ok r' assume "wire_ok (node_name i) sess n ts"
  then show "wire_ok (node_name i) sess (sendPing ok (move r' n)) ts" by (intro wire_ok_ping) (simp add: wire_ok_def)
next
  fix n ts assume "wire_ok (node_name i) sess n ts"
  then show "wire_ok (node_name i) sess n (ts @ [Sensing])" by (auto simp: wire_ok_def)
qed

text \<open>The first ship of a fleet with the default options, just after its start.\<close>

definition first_node :: node where "first_node = new_node default_options ''S'' 1 (1, 2) 0"

definition first_ship :: ship where
  "first_ship = \<lparr>sh_node = sendPing True first_node, sh_tasks = [], sh_reading = True, sh_running = True\<rparr>"

lemma first_ship_reachable: "ship_reachable (new_node default_options ''S'' 1 (1, 2) 0) first_ship"
proof (rule sail)
  show "run_start (Inr ()) True 0 (new_node default_options ''S'' 1 (1, 2) 0) = Sailing first_ship"
    unfolding first_ship_def first_node_def
    by (simp add: run_start_def new_node_def default_options_def duration_consts wrap64_id int64_min_def int64_max_def)
qed

text \<open>
  C34. The backend understands its ships: whatever a ship writes on its connection, the gateway decodes
  it to exactly that message and hands it to its handler; a frame names the ship itself as its
  transmitter, so that the engine's impersonation guard never refuses it.
\<close>

theorem uplink_dispatched:
  assumes "ship_reachable (new_node opt sess i place r) s" "u \<in> set (nd_out (sh_node s))"
  shows "safeProcess X iv \<lparr>jb_sessionID = sess, jb_nodeID = node_name i, jb_raw = Inr (uplink_json u)\<rparr> S =
     (case u of UPing g \<Rightarrow> HandlePing X iv sess (node_name i) (ng_Lat g) (ng_Lng g) S
              | UAck a \<Rightarrow> HandleAck X sess (node_name i) a S
              | UTransmit p \<Rightarrow> HandleTransmit X sess (node_name i) p S) \<and>
     (\<forall>p. u = UTransmit p \<longrightarrow> Transmitter p = Some (node_name i))"
proof -
  have "message_ok (node_name i) sess u" using wire.reachable [OF assms(1)] assms(2) by (simp add: wire_ok_def)
  then show ?thesis
    by (cases u) (auto simp: safeProcess_def read_uplink sent_frame_def int64_hops_def event_names)
qed

theorem uplink_dispatched_witness:
  "safeProcess duo_X 0 \<lparr>jb_sessionID = ''S'', jb_nodeID = ''KPL-001'',
      jb_raw = Inr (ping_json \<lparr>ng_Event = ''node:ping'', ng_NodeID = ''KPL-001'', ng_SessionID = ''S'', ng_Lat = 1, ng_Lng = 2\<rparr>)\<rparr> duo_sys =
    HandlePing duo_X 0 ''S'' ''KPL-001'' 1 2 duo_sys"
proof -
  have "char_of (49 :: nat) = CHR ''1''" by (simp add: char_of_def bit_0)
  then have name: "node_name 1 = ''KPL-001''"
    by (simp add: node_name_def pad_zero_def Itoa_def nat_digits.simps digit_char_def numeral_2_eq_2)
  have "UPing \<lparr>ng_Event = ''node:ping'', ng_NodeID = ''KPL-001'', ng_SessionID = ''S'', ng_Lat = 1, ng_Lng = 2\<rparr> \<in> set (nd_out (sh_node first_ship))"
    by (simp add: first_ship_def sendPing_def) (simp add: first_node_def new_node_def name max_float64_def)
  from uplink_dispatched [OF first_ship_reachable this, of duo_X 0 duo_sys] show ?thesis by (simp add: name)
qed

section \<open>What a ship reads\<close>

lemma read_env:
  assumes "int64_min \<le> es_MaxPayloadBytes e" "es_MaxPayloadBytes e \<le> int64_max" "int64_min \<le> es_AckTimeoutMs e" "es_AckTimeoutMs e \<le> int64_max"
  shows "Unmarshal False env_fields \<lparr>en_MaxPayloadBytes = 0, en_AckTimeoutMs = 0\<rparr> (Inr (env_json e)) =
    Inr \<lparr>en_MaxPayloadBytes = es_MaxPayloadBytes e, en_AckTimeoutMs = es_AckTimeoutMs e\<rparr>"
  using assms by (simp add: unmarshal_defs env_fields_def env_json_def as_int_def fold_name.simps lower_char_def)

lemma read_route:
  "Unmarshal False route_fields \<lparr>ro_ParentTarget = [], ro_ParentIsEdge = False, ro_Status = []\<rparr> (Inr (routing_json u)) =
    Inr \<lparr>ro_ParentTarget = ru_ParentTarget u, ro_ParentIsEdge = ru_ParentIsEdge u, ro_Status = ru_Status u\<rparr>"
  by (simp add: unmarshal_defs route_fields_def routing_json_def as_string_def as_bool_def fold_name.simps lower_char_def)

lemma read_field: "decode_struct strict schemaField_fields (field_json f) f0 = Some f"
  by (simp add: decode_struct_def decode_key_def find_field_def schemaField_fields_def field_json_def as_string_def)

lemma read_schema: "Unmarshal False schema_fields [] (Inr (schema_json s)) = Inr (sy_Fields s)"
proof -
  have "decode_elems (decode_struct False schemaField_fields) z [] (map field_json flds) = Some flds" for z flds
    by (rule decode_elems_map) (rule read_field)
  then show ?thesis
    by (simp add: unmarshal_defs schema_fields_def schema_json_def as_slice_def fold_name.simps lower_char_def)
qed

lemma read_mesh_ack:
  "Unmarshal False mesh_ack_fields \<lparr>ak_PacketID = [], ak_Duplicate = False\<rparr> (Inr (mesh_ack_json a)) =
    Inr \<lparr>ak_PacketID = ma_PacketID a, ak_Duplicate = ma_Duplicate a\<rparr>"
  by (simp add: unmarshal_defs mesh_ack_fields_def mesh_ack_json_def as_string_def as_bool_def fold_name.simps lower_char_def)

lemma AckTimeout_ms: "Milliseconds (AckTimeout sf) * Millisecond = AckTimeout sf" "0 < AckTimeout sf" "AckTimeout sf \<le> 10 * Second"
  by (auto simp: AckTimeout_def ackTimeout_at_def ackTimeouts_def Milliseconds_def duration_consts MinSpreadingFactor_def MaxSpreadingFactor_def)

text \<open>
  C35. A ship understands the backend: after the frame with the radio parameters it waits exactly the
  session's acknowledgement timeout and obeys its payload ceiling; after a routing directive it sends to
  exactly that parent, and only if the directive says routed; after a schema it packs exactly those
  fields; a data frame starts one handler on exactly that packet; a \<open>mesh:ack\<close> wakes exactly the waiter
  of its packet; and the end of the session ends the reading.
\<close>

theorem downlink_understood:
  "reader (Inr (env_json (EnvParamsFrom pr))) n =
     (True, [], n\<lparr>nd_ackTimeout := AckTimeout (sp_SpreadingFactor pr), nd_maxPayload := MaxPayloadBytes (sp_SpreadingFactor pr)\<rparr>) \<and>
   reader (Inr (routing_json (routing_update e d))) n =
     (True, [], n\<lparr>nd_parent := re_Parent e, nd_parentIsEdge := re_ParentIsEdge e, nd_routed := (re_Status e = RouteStatusRouted)\<rparr>) \<and>
   reader (Inr (schema_json (schema_sync flds))) n = (True, [], n\<lparr>nd_fields := flds\<rparr>) \<and>
   (int64_hops p \<longrightarrow> reader (Inr (packet_json (p\<lparr>pk_Event := EvMeshReceiveRF\<rparr>))) n =
     (True, [Acking (p\<lparr>pk_Event := EvMeshReceiveRF\<rparr>)], add_stats (\<lambda>s. s\<lparr>fl_received := fl_received s + 1\<rparr>) n)) \<and>
   (ma_Event a = EvMeshAck \<longrightarrow> reader (Inr (mesh_ack_json a)) n =
     (True, [], case nd_waiters n (ma_PacketID a) of
        None \<Rightarrow> n
      | Some ch \<Rightarrow> n\<lparr>nd_waiters := (nd_waiters n)(ma_PacketID a := None), nd_closed := insert ch (nd_closed n)\<rparr>)) \<and>
   (se_Event x = EvSessionEnded \<longrightarrow> reader (Inr (ended_json x)) n = (False, [], n))"
proof (intro conjI impI)
  let ?e = "EnvParamsFrom pr" and ?t = "AckTimeout (sp_SpreadingFactor pr)"
  have f: "es_Event ?e = ''env:sync_params''" "es_MaxPayloadBytes ?e = MaxPayloadBytes (sp_SpreadingFactor pr)"
    "es_AckTimeoutMs ?e = Milliseconds ?t" by (simp_all add: EnvParamsFrom_def EvEnvSyncParams_def)
  have ms: "0 < Milliseconds ?t" "Milliseconds ?t \<le> 10000"
    using AckTimeout_ms [of "sp_SpreadingFactor pr"] by (auto simp: Milliseconds_def duration_consts)
  have w: "wrap64 (Milliseconds ?t * Millisecond) = ?t"
    unfolding AckTimeout_ms(1) using AckTimeout_ms(2,3) [of "sp_SpreadingFactor pr"]
    by (intro wrap64_id) (simp_all add: int64_min_def int64_max_def duration_consts)
  have u: "Unmarshal False env_fields \<lparr>en_MaxPayloadBytes = 0, en_AckTimeoutMs = 0\<rparr> (Inr (env_json ?e)) =
    Inr \<lparr>en_MaxPayloadBytes = MaxPayloadBytes (sp_SpreadingFactor pr), en_AckTimeoutMs = Milliseconds ?t\<rparr>"
    using ms by (subst read_env) (auto simp: f int64_min_def int64_max_def MaxPayloadBytes_def)
  show "reader (Inr (env_json ?e)) n = (True, [], n\<lparr>nd_ackTimeout := ?t, nd_maxPayload := MaxPayloadBytes (sp_SpreadingFactor pr)\<rparr>)"
    using ms(1) by (simp add: reader_def on_env_def u f(1) w)
  show "reader (Inr (routing_json (routing_update e d))) n =
     (True, [], n\<lparr>nd_parent := re_Parent e, nd_parentIsEdge := re_ParentIsEdge e, nd_routed := (re_Status e = RouteStatusRouted)\<rparr>)"
    by (simp add: reader_def on_route_def read_route routing_update_def event_names RouteStatusRouted_def)
  show "reader (Inr (schema_json (schema_sync flds))) n = (True, [], n\<lparr>nd_fields := flds\<rparr>)"
    by (simp add: reader_def on_schema_def read_schema schema_sync_def event_names)
  show "reader (Inr (packet_json (p\<lparr>pk_Event := EvMeshReceiveRF\<rparr>))) n =
     (True, [Acking (p\<lparr>pk_Event := EvMeshReceiveRF\<rparr>)], add_stats (\<lambda>s. s\<lparr>fl_received := fl_received s + 1\<rparr>) n)" if "int64_hops p"
    using that by (simp add: reader_def on_receive_def read_packet int64_hops_def EvMeshReceiveRF_def)
  show "reader (Inr (mesh_ack_json a)) n = (True, [], case nd_waiters n (ma_PacketID a) of None \<Rightarrow> n
      | Some ch \<Rightarrow> n\<lparr>nd_waiters := (nd_waiters n)(ma_PacketID a := None), nd_closed := insert ch (nd_closed n)\<rparr>)"
    if "ma_Event a = EvMeshAck" using that by (simp add: reader_def on_ack_def read_mesh_ack event_names split: option.split)
  show "reader (Inr (ended_json x)) n = (False, [], n)" if "se_Event x = EvSessionEnded"
    using that by (simp add: reader_def event_names)
qed

theorem downlink_understood_witness:
  "reader (Inr (packet_json ((duo_pkt ''B'')\<lparr>pk_Event := EvMeshReceiveRF\<rparr>))) (new_node default_options ''S'' 1 (0, 0) 0) =
     (True, [Acking ((duo_pkt ''B'')\<lparr>pk_Event := EvMeshReceiveRF\<rparr>)],
      add_stats (\<lambda>s. s\<lparr>fl_received := fl_received s + 1\<rparr>) (new_node default_options ''S'' 1 (0, 0) 0))"
  using downlink_understood [of duo_params "new_node default_options ''S'' 1 (0, 0) 0" _ 0 "[]" "duo_pkt ''B''"]
  by (simp add: int64_hops_def duo_pkt_simps int64_min_def int64_max_def)

section \<open>How often a packet is sent\<close>

lemma pad_zero_inj: "0 \<le> i \<Longrightarrow> 0 \<le> j \<Longrightarrow> pad_zero w i = pad_zero w j \<Longrightarrow> i = j"
proof -
  have z: "digits_val 0 (replicate k (CHR ''0'') @ ds) = digits_val 0 ds" for k ds
    by (induction k) (simp_all add: digit_val_def)
  have v: "digits_val 0 (pad_zero w i) = i" if "0 \<le> i" for i
    using that nat_digits_facts [of "nat i"] unfolding pad_zero_def z by (simp add: Itoa_def)
  show "0 \<le> i \<Longrightarrow> 0 \<le> j \<Longrightarrow> pad_zero w i = pad_zero w j \<Longrightarrow> i = j" using v by metis
qed

lemma packet_name_inj: "0 \<le> i \<Longrightarrow> 0 \<le> j \<Longrightarrow> packet_name name i = packet_name name j \<longleftrightarrow> i = j"
  using pad_zero_inj by (auto simp: packet_name_def)

fun is_transmit :: "string \<Rightarrow> uplink \<Rightarrow> bool" where
  "is_transmit pid (UTransmit p) \<longleftrightarrow> pk_PacketID p = pid"
| "is_transmit pid _ \<longleftrightarrow> False"

definition times_sent :: "string \<Rightarrow> node \<Rightarrow> nat" where
  "times_sent pid n = length (filter (is_transmit pid) (nd_out n))"

text \<open>The frames of a packet a goroutine may still write, and the total a ship has earned for it.\<close>

fun pending :: "string \<Rightarrow> task \<Rightarrow> nat" where
  "pending pid (Sending p (Try a)) = (if pk_PacketID p = pid then 4 - a else 0)"
| "pending pid (Sending p (Write a _ _)) = (if pk_PacketID p = pid then 4 - a else 0)"
| "pending pid (Sending p (Await a _ _)) = (if pk_PacketID p = pid then 3 - a else 0)"
| "pending pid _ = 0"

definition reported :: "string \<Rightarrow> node \<Rightarrow> bool" where
  "reported pid n \<longleftrightarrow> (\<exists>k. 0 < k \<and> k \<le> nd_pktSeq n \<and> pid = packet_name (nd_id n) k)"

definition allowance :: "string \<Rightarrow> node \<Rightarrow> nat" where
  "allowance pid n = (if nd_seen n pid then 4 else 0) + (if reported pid n then 4 else 0)"

definition budget :: "string \<Rightarrow> string \<Rightarrow> node \<Rightarrow> task list \<Rightarrow> bool" where
  "budget pid name n ts \<longleftrightarrow> nd_id n = name \<and> 0 \<le> nd_pktSeq n \<and> list_all attempt_ok ts \<and>
     times_sent pid n + sum_list (map (pending pid) ts) \<le> allowance pid n"

lemma reported_next:
  assumes "0 \<le> nd_pktSeq n"
  shows "reported pid (n\<lparr>nd_pktSeq := nd_pktSeq n + 1\<rparr>) \<longleftrightarrow> reported pid n \<or> pid = packet_name (nd_id n) (nd_pktSeq n + 1)"
    "reported pid n \<Longrightarrow> pid \<noteq> packet_name (nd_id n) (nd_pktSeq n + 1)"
  using assms by (auto simp: reported_def packet_name_inj intro: exI [of _ "nd_pktSeq n + 1"])

lemma budget_act:
  assumes "task_step (t, n) (t', n')" "attempt_ok t" "0 \<le> nd_pktSeq n"
  shows "times_sent pid n' + pending pid t' + allowance pid n \<le> times_sent pid n + pending pid t + allowance pid n'"
    "nd_id n' = nd_id n \<and> nd_pktSeq n \<le> nd_pktSeq n'"
proof -
  have "times_sent pid n' + pending pid t' + allowance pid n \<le> times_sent pid n + pending pid t + allowance pid n' \<and>
    nd_id n' = nd_id n \<and> nd_pktSeq n \<le> nd_pktSeq n'"
    using assms(1)
  proof (cases rule: task_step.cases)
    case (do_check pkt)
    then show ?thesis
      by (auto simp: handleReceive_def relay_frame_def times_sent_def allowance_def reported_def add_stats_def Let_def split: if_splits)
  next
    case (do_sense marshal d)
    then show ?thesis using reported_next [OF assms(3), of pid]
      by (auto simp: transmitTelemetry_def report_frame_def times_sent_def allowance_def Let_def split: if_splits sum.splits)
  next
    case (do_wake w ch pkt a ti)
    then show ?thesis using assms(2) by (cases w) (auto simp: times_sent_def allowance_def reported_def add_stats_def)
  qed (use assms(2) in \<open>auto simp: receive_ack_def arm_def send_frame_def sim_writeJSON_def maxRetries_def
         times_sent_def allowance_def reported_def add_stats_def split: if_splits\<close>)
  then show "times_sent pid n' + pending pid t' + allowance pid n \<le> times_sent pid n + pending pid t + allowance pid n'"
    "nd_id n' = nd_id n \<and> nd_pktSeq n \<le> nd_pktSeq n'" by blast+
qed

lemma budget_node:
  "nd_id n' = nd_id n \<Longrightarrow> nd_pktSeq n' = nd_pktSeq n \<Longrightarrow> nd_seen n' = nd_seen n \<Longrightarrow> times_sent pid n' = times_sent pid n \<Longrightarrow>
   budget pid name n' ts = budget pid name n ts"
  by (simp only: budget_def allowance_def reported_def)

lemma budget_ping: "budget pid name n ts \<Longrightarrow> budget pid name (sendPing ok n) ts"
  by (subst budget_node [of _ n]) (simp_all add: sendPing_def times_sent_def)

interpretation relays: ship_invariant "new_node opt sess i place r" "budget pid (node_name i)" for opt sess i place r pid
proof
  fix ok show "budget pid (node_name i) (sendPing ok (new_node opt sess i place r)) []"
    by (rule budget_ping) (simp add: budget_def times_sent_def new_node_def)
next
  fix n ts1 t ts2 t' n'
  assume b: "budget pid (node_name i) n (ts1 @ t # ts2)" and st: "task_step (t, n) (t', n')"
  then have "attempt_ok t" "0 \<le> nd_pktSeq n" by (simp_all add: budget_def)
  note act = budget_act(1) [OF st this, of pid] budget_act(2) [OF st this] task_step_rank [OF st this(1)]
  show "budget pid (node_name i) n' (ts1 @ t' # ts2)" using b act by (auto simp: budget_def)
next
  fix n ts raw g ts' n'
  assume "budget pid (node_name i) n ts" and r: "reader raw n = (g, ts', n')"
  then show "budget pid (node_name i) n' (ts @ ts')"
    using reader_keeps [OF r] budget_node [of n' n pid "node_name i" ts] by (auto simp: budget_def times_sent_def)
next
  fix n ts ok r' assume "budget pid (node_name i) n ts"
  then show "budget pid (node_name i) (sendPing ok (move r' n)) ts"
    by (intro budget_ping) (subst budget_node [of _ n]; simp add: times_sent_def)
next
  fix n ts assume "budget pid (node_name i) n ts"
  then show "budget pid (node_name i) n (ts @ [Sensing])" by (simp add: budget_def)
qed

text \<open>
  C36. A ship writes the frame of a packet at most four times (once and three retries) if it did not
  originate the packet, however often it receives it, and never if it never received it; a packet of
  its own it writes at most eight times, for a report that comes back to its origin is relayed once
  like any other.
\<close>

theorem transmissions_bounded:
  assumes "ship_reachable (new_node opt sess i place r) s"
  shows "times_sent pid (sh_node s) \<le> (if nd_seen (sh_node s) pid then 4 else 0) +
    (if \<exists>k. 0 < k \<and> k \<le> nd_pktSeq (sh_node s) \<and> pid = packet_name (node_name i) k then 4 else 0)"
proof -
  have "nd_id (sh_node s) = node_name i" "times_sent pid (sh_node s) \<le> allowance pid (sh_node s)"
    using relays.reachable [OF assms, of pid] by (auto simp: budget_def)
  then show ?thesis by (simp only: allowance_def reported_def)
qed

theorem transmissions_bounded_witness:
  "times_sent ''x'' (sh_node first_ship) \<le> (if nd_seen (sh_node first_ship) ''x'' then 4 else 0) +
    (if \<exists>k. 0 < k \<and> k \<le> nd_pktSeq (sh_node first_ship) \<and> ''x'' = packet_name (node_name 1) k then 4 else 0)"
  by (rule transmissions_bounded [OF first_ship_reachable])

end
