(* ===== verification/Loop.thy ===== *)
theory Loop
  imports Fleet
begin

text \<open>
  The acknowledged transmission as a whole, through both programs: a ship's frame, the virtual ether,
  the receiving ship, its acknowledgement, and the ship that waits for it.  The safety theorems say that
  nothing else can happen; here the services answer (\<open>steady\<close>: each command has its documented result and
  effect, at once), the air is clear, and it does happen.
\<close>

section \<open>A world without faults\<close>

definition exact :: "('w \<Rightarrow> store) \<Rightarrow> ('w \<Rightarrow> 'a \<times> 'w) \<Rightarrow> (store \<Rightarrow> 'a \<times> store) \<Rightarrow> bool" where
  "exact view f g \<longleftrightarrow> (\<forall>w. (fst (f w), view (snd (f w))) = g (view w))"

definition steady :: "formats \<Rightarrow> ('w \<Rightarrow> store) \<Rightarrow> 'w ext \<Rightarrow> bool" where
  "steady F view X \<longleftrightarrow>
     (\<forall>k. exact view (rHGetAll X k) (ref_HGetAll k)) \<and>
     (\<forall>k v ttl. exact view (rSetNX X k v ttl) (ref_SetNX k v ttl)) \<and>
     (\<forall>k v ttl. exact view (rSet X k v ttl) (ref_Set k v ttl)) \<and>
     (\<forall>k. exact view (rGetDel X k) (ref_GetDel k)) \<and>
     (\<forall>k f n. exact view (rHIncrBy X k f n) (ref_HIncrBy k f n)) \<and>
     (\<forall>k ns. exact view (rGeoPos X k ns) (ref_GeoPos k ns)) \<and>
     exact view (qListEdges X) ref_ListEdges \<and>
     (\<forall>k. exact view (qLatestSchema X k) (ref_LatestSchema F k)) \<and>
     (\<forall>row. exact view (qInsertTelemetry X row) (ref_InsertTelemetry F row)) \<and>
     exact view (xClock X) (\<lambda>st. (st_now st, st)) \<and>
     (\<forall>w. view (snd (xRand X w)) = view w)"

lemma exactD: "exact view f g \<Longrightarrow> f w = (r, w') \<Longrightarrow> (r, view w') = g (view w)"
  unfolding exact_def by (metis fst_conv snd_conv)

lemma steadyD:
  assumes "steady F view X"
  shows "exact view (rHGetAll X k) (ref_HGetAll k)" "exact view (rSetNX X k v ttl) (ref_SetNX k v ttl)"
    "exact view (rSet X k v ttl) (ref_Set k v ttl)" "exact view (rGetDel X k) (ref_GetDel k)"
    "exact view (rHIncrBy X k f n) (ref_HIncrBy k f n)" "exact view (rGeoPos X k ns) (ref_GeoPos k ns)"
    "exact view (qListEdges X) ref_ListEdges" "exact view (xClock X) (\<lambda>st. (st_now st, st))"
    "view (snd (xRand X w)) = view w" "exact view (qLatestSchema X k) (ref_LatestSchema F k)"
    "exact view (qInsertTelemetry X row) (ref_InsertTelemetry F row)"
  using assms by (simp_all add: steady_def)

text \<open>The draw of every traversal of the distance survives.\<close>

definition clear_air :: "'w ext \<Rightarrow> SessionParams \<Rightarrow> real \<Rightarrow> bool" where
  "clear_air X pr d \<longleftrightarrow> d \<le> MaxRangeKm (sp_TxPowerDbm pr) \<and>
     (\<forall>w. FinalLossPercent d (MaxRangeKm (sp_TxPowerDbm pr)) (sp_WeatherSeverity pr) \<le> fst (xRand X w) * 100)"

section \<open>Steps that leave the ships alone\<close>

text \<open>The edge of a code, and an edge cache that agrees with the table.\<close>

definition edge_named :: "store \<Rightarrow> string \<Rightarrow> Edge option" where
  "edge_named st c = find (\<lambda>e. ed_EdgeCode e = c) (st_edges st)"

definition edges_known :: "('w \<Rightarrow> store) \<Rightarrow> 'w sys \<Rightarrow> bool" where
  "edges_known view s \<longleftrightarrow> distinct (map ed_EdgeCode (st_edges (view (sy_world s)))) \<and>
     (\<forall>m. sy_byCode s = Some m \<longrightarrow> map_of m = edge_named (view (sy_world s)))"

lemma edges_known_same:
  "sy_byCode s' = sy_byCode s \<Longrightarrow> tables (view (sy_world s')) = tables (view (sy_world s)) \<Longrightarrow> edges_known view s' = edges_known view s"
  by (simp add: edges_known_def edge_named_def [abs_def] tables_def)

lemma edge_named_tables: "tables st' = tables st \<Longrightarrow> edge_named st' c = edge_named st c"
  by (simp add: edge_named_def tables_def)

text \<open>Only keys in \<open>K\<close> may differ, the clock stands, and every ship's queue and its room are as before.\<close>

definition idle :: "('w \<Rightarrow> store) \<Rightarrow> string set \<Rightarrow> 'w sys \<Rightarrow> 'w sys \<Rightarrow> bool" where
  "idle view K s s' \<longleftrightarrow>
     st_now (view (sy_world s')) = st_now (view (sy_world s)) \<and>
     (\<forall>k. k \<notin> K \<longrightarrow> st_keys (view (sy_world s')) k = st_keys (view (sy_world s)) k) \<and>
     tables (view (sy_world s')) = tables (view (sy_world s)) \<and>
     (edges_known view s \<longrightarrow> edges_known view s') \<and>
     (sys_inv s \<longrightarrow> sys_inv s' \<and> same_registry (sy_hub s) (sy_hub s') \<and>
        (\<forall>i n. shipbox s' i n = shipbox s i n \<and> can_queue (sy_hub s') i n = can_queue (sy_hub s) i n))"

lemma idle_refl [simp]: "idle view K s s"
  by (simp add: idle_def)

lemma idle_trans: "idle view K s s' \<Longrightarrow> idle view K s' s'' \<Longrightarrow> idle view K s s''"
  by (auto simp: idle_def intro: same_registry_trans)

lemma idle_mono: "idle view K s s' \<Longrightarrow> K \<subseteq> L \<Longrightarrow> idle view L s s'"
  unfolding idle_def by blast

lemma idle_world:
  assumes "f (sy_world s) = (r, w')" "st_now (view w') = st_now (view (sy_world s))" "tables (view w') = tables (view (sy_world s))"
    "\<And>k. k \<notin> K \<Longrightarrow> st_keys (view w') k = st_keys (view (sy_world s)) k"
  shows "idle view K s (snd (on_world f s))"
  using assms edges_known_same [of "snd (on_world f s)" s view] by (simp add: idle_def on_world_def)

lemma idle_same_view: "f (sy_world s) = (r, w') \<Longrightarrow> view w' = view (sy_world s) \<Longrightarrow> idle view K s (snd (on_world f s))"
  by (rule idle_world [where r = r and w' = w']) simp_all

lemma can_queue_monitors:
  assumes "hub_inv h"
  shows "can_queue (BroadcastToMonitors i f h) i' n = can_queue h i' n"
proof -
  have "can_queue (send_all cs f h) i' n = can_queue h i' n" if "hub_inv h" "\<forall>c \<in> set cs. \<forall>s n. node_ref h s n \<noteq> Some c" for cs h
    using that
  proof (induction cs arbitrary: h)
    case (Cons c cs)
    let ?h = "snd (trySend c f h)"
    have inv: "hub_inv ?h" by (rule hub_inv_same [OF trySend_registry Cons.prems(1)])
    have ref: "node_ref ?h s m = node_ref h s m" for s m by (rule same_registry_lookup(3) [OF trySend_registry])
    have buf: "hb_sendBuffer ?h = hb_sendBuffer h" by (simp add: trySend_def split: option.splits)
    have "can_queue ?h i' n = can_queue h i' n"
      using Cons.prems(2) by (cases "node_ref h i' n") (auto simp: can_queue_def ref buf trySend_heap)
    then show ?case using Cons.IH [OF inv] Cons.prems(2) by (simp add: send_all_def ref)
  qed (simp add: send_all_def)
  then show ?thesis using assms monitor_not_node [OF assms] by (auto simp: BroadcastToMonitors_def snapshotMonitors_def)
qed

lemma idle_monitors: "idle view K s (to_monitors i f s)"
  using edges_known_same [of "to_monitors i f s" s view]
  by (simp add: idle_def broadcast_registry can_queue_monitors hub_inv_same [OF broadcast_registry(3)])

section \<open>The commands in a steady world\<close>

lemma idle_incr:
  assumes "steady F view X"
  shows "idle view {keyStats i} s (incr X i g s)"
proof -
  obtain r w' where f: "rHIncrBy X (keyStats i) g 1 (sy_world s) = (r, w')" by force
  have "(r, view w') = ref_HIncrBy (keyStats i) g 1 (view (sy_world s))" by (rule exactD [OF steadyD(5) [OF assms] f])
  then have v: "st_now (view w') = st_now (view (sy_world s))" "tables (view w') = tables (view (sy_world s))"
    "\<And>k. k \<notin> {keyStats i} \<Longrightarrow> st_keys (view w') k = st_keys (view (sy_world s)) k"
    by (auto simp: ref_HIncrBy_def hset_def put_key_def tables_def split: option.splits if_splits)
  obtain r' where "IncrStat X i g (sy_world s) = (r', w')" using f by (cases r) (auto simp: IncrStat_def)
  then show ?thesis unfolding incr_def by (rule idle_world) (use v in auto)
qed

lemma idle_emit:
  assumes "steady F view X"
  shows "idle view K s (emitPacketEvent X i ev s)"
proof -
  obtain t w' where f: "xClock X (sy_world s) = (t, w')" by force
  then have "idle view K s (snd (on_world (xClock X) s))"
    by (rule idle_same_view) (use exactD [OF steadyD(8) [OF assms] f] in simp)
  then show ?thesis unfolding emitPacketEvent_def case_prod_beta Let_def by (rule idle_trans) (rule idle_monitors)
qed

lemma clear_roll:
  assumes "steady F view X" "clear_air X pr d"
  obtains v s' where "roll X d pr s = (v, s')" "\<not> tv_Dropped v" "idle view K s s'"
proof -
  obtain v s' where e: "roll X d pr s = (v, s')" by force
  obtain w' where ev: "Evaluate (xRand X) d pr (sy_world s) = (v, w')" and s': "s' = s\<lparr>sy_world := w'\<rparr>"
    using e unfolding roll_def by (rule on_worldE)
  note f = Evaluate_fields [OF ev]
  have "\<not> tv_Dropped v" unfolding f(5) f(4) RollDrop_def using assms(2) by (auto simp: clear_air_def not_less)
  moreover have "idle view K s (snd (on_world (Evaluate (xRand X) d pr) s))"
    by (rule idle_same_view, rule ev) (simp add: f(1) steadyD(9) [OF assms(1)])
  ultimately show thesis using that e ev s' by (simp add: on_world_def)
qed

lemma steady_GetParams:
  assumes "steady F view X" "stored_params (view (sy_world s)) i = Some pr"
  obtains s' where "on_world (GetParams X i) s = (Inr pr, s')" "idle view K s s'"
proof -
  let ?st = "view (sy_world s)" and ?k = "keyParams i"
  obtain r w' where f: "rHGetAll X ?k (sy_world s) = (r, w')" by force
  have v: "(r, view w') = ref_HGetAll ?k ?st" by (rule exactD [OF steadyD(1) [OF assms(1)] f])
  have "hash_at ?st ?k \<noteq> []" using assms(2) by (auto simp: stored_params_def Let_def split: if_splits)
  then have "is_hash ?st ?k" by (auto simp: is_hash_def hash_at_def split: option.splits rentry.splits)
  then have r: "r = Inr (hash_at ?st ?k)" "view w' = ?st" using v by (auto simp: ref_HGetAll_def)
  have g: "GetParams X i (sy_world s) = (Inr pr, w')"
    using assms(2) by (auto simp: GetParams_def f r stored_params_def Let_def split: option.splits if_splits)
  have "idle view K s (snd (on_world (GetParams X i) s))" by (rule idle_same_view, rule g, rule r(2))
  then show thesis using that g by (simp add: on_world_def)
qed

lemma steady_Position:
  assumes "steady F view X" "map_of (geo_at (view (sy_world s)) (keyGeo i)) n = Some (la, lo)"
  obtains s' where "on_world (Position X i n) s = (Inr \<lparr>np_ID = n, np_Lat = la, np_Lng = lo\<rparr>, s')" "idle view K s s'"
proof -
  let ?st = "view (sy_world s)" and ?k = "keyGeo i"
  obtain r w' where f: "rGeoPos X ?k [n] (sy_world s) = (r, w')" by force
  have v: "(r, view w') = ref_GeoPos ?k [n] ?st" by (rule exactD [OF steadyD(6) [OF assms(1)] f])
  have "is_geo ?st ?k" using assms(2) by (auto simp: is_geo_def geo_at_def split: option.splits rentry.splits)
  then have r: "r = Inr [Some (la, lo)]" "view w' = ?st" using v assms(2) by (auto simp: ref_GeoPos_def)
  have g: "Position X i n (sy_world s) = (Inr \<lparr>np_ID = n, np_Lat = la, np_Lng = lo\<rparr>, w')" by (simp add: Position_def f r)
  have "idle view K s (snd (on_world (Position X i n) s))" by (rule idle_same_view, rule g, rule r(2))
  then show thesis using that g by (simp add: on_world_def)
qed

text \<open>The edge cache, filled or not, answers with the table's edge.\<close>

lemma map_of_byCode:
  assumes "distinct (map ed_EdgeCode es)"
  shows "map_of (fold (\<lambda>e. AList.update (ed_EdgeCode e) e) es m) c =
    (case find (\<lambda>e. ed_EdgeCode e = c) es of None \<Rightarrow> map_of m c | Some e \<Rightarrow> Some e)"
  using assms
proof (induction es arbitrary: m)
  case (Cons e es)
  have "find (\<lambda>e. ed_EdgeCode e = code) es = None" if "code \<notin> ed_EdgeCode ` set es" for code
    using that by (auto simp: find_None_iff)
  then show ?case using Cons by (auto simp: update_conv' split: option.splits)
qed simp

lemma find_distinct:
  assumes "distinct (map f xs)"
  shows "find (\<lambda>x. f x = c) xs = Some x \<longleftrightarrow> x \<in> set xs \<and> f x = c"
  using assms by (induction xs) (auto intro: rev_image_eqI)

lemma find_sort_key:
  assumes "distinct (map f xs)"
  shows "find (\<lambda>x. f x = c) (sort_key g xs) = find (\<lambda>x. f x = c) xs"
proof -
  have "distinct (map f (sort_key g xs))" using assms by (simp add: distinct_map)
  then have "find (\<lambda>x. f x = c) (sort_key g xs) = Some x \<longleftrightarrow> find (\<lambda>x. f x = c) xs = Some x" for x
    by (simp add: find_distinct assms)
  then show ?thesis by (metis option.exhaust)
qed

lemma steady_edgeCache:
  assumes "steady F view X" "edges_known view s"
  obtains s' where "edgeCache_get X t s = (Inr (edge_named (view (sy_world s)) t), s')" "idle view K s s'"
proof -
  let ?st = "view (sy_world s)"
  note known = assms(2) [unfolded edges_known_def]
  obtain fresh s1 where 1: "edgeCache_fresh X s = (fresh, s1)" by force
  have same1: "view (sy_world s1) = ?st \<and> sy_hub s1 = sy_hub s \<and> sy_byCode s1 = sy_byCode s" "fresh \<Longrightarrow> sy_byCode s \<noteq> None"
    using 1 exactD [OF steadyD(8) [OF assms(1)], of "sy_world s"]
    by (cases "xClock X (sy_world s)"; auto simp: edgeCache_fresh_def on_world_def Let_def split: if_splits)+
  show thesis
  proof (cases fresh)
    case True
    then have "edgeCache_get X t s = (Inr (edge_named ?st t), s1)"
      using 1 known same1(2) by (auto simp: edgeCache_get_def edgeCache_lookup_def)
    moreover have "idle view K s s1" using same1(1) edges_known_same [of s1 s view] by (simp add: idle_def)
    ultimately show thesis by (rule that)
  next
    case False
    obtain r2 w2 where 2: "qListEdges X (sy_world s1) = (r2, w2)" by force
    have "(r2, view w2) = ref_ListEdges (view (sy_world s1))" by (rule exactD [OF steadyD(7) [OF assms(1)] 2])
    then have r2: "r2 = Inr (sort_key ed_ID (st_edges ?st))" "view w2 = ?st"
      using same1(1) by (auto simp: ref_ListEdges_def)
    obtain now w3 where 3: "xClock X w2 = (now, w3)" by force
    have w3: "view w3 = ?st" using exactD [OF steadyD(8) [OF assms(1)] 3] r2(2) by simp
    let ?m = "fold (\<lambda>e. AList.update (ed_EdgeCode e) e) (sort_key ed_ID (st_edges ?st)) []"
    let ?s = "s1\<lparr>sy_world := w3, sy_byCode := Some ?m, sy_loadedAt := now\<rparr>"
    have "distinct (map ed_EdgeCode (sort_key ed_ID (st_edges ?st)))" using known by (simp add: distinct_map)
    then have m: "map_of ?m = edge_named ?st"
      using known by (simp add: fun_eq_iff map_of_byCode find_sort_key edge_named_def split: option.split)
    have "edgeCache_get X t s = (Inr (map_of ?m t), ?s)"
      using 1 2 3 False r2 by (simp add: edgeCache_get_def on_world_def EdgeList_def wrap_err_def Let_def)
    moreover have "idle view K s ?s" using same1(1) w3 m known by (simp add: idle_def edges_known_def)
    ultimately show thesis using that m by simp
  qed
qed

section \<open>The frame reaches its target\<close>

text \<open>Both ships have reported positions at this distance.\<close>

definition link :: "('w \<Rightarrow> store) \<Rightarrow> string \<Rightarrow> string \<Rightarrow> string \<Rightarrow> real \<Rightarrow> 'w sys \<Rightarrow> bool" where
  "link view i a b d s \<longleftrightarrow>
     (\<exists>la lo la' lo'. map_of (geo_at (view (sy_world s)) (keyGeo i)) a = Some (la, lo) \<and>
        map_of (geo_at (view (sy_world s)) (keyGeo i)) b = Some (la', lo') \<and> d = HaversineKm la lo la' lo')"

lemma link_sym: "link view i a b d s \<Longrightarrow> link view i b a d s"
  unfolding link_def using haversine_sym by metis

lemma idle_keeps: "idle view K s s' \<Longrightarrow> keeps K (view (sy_world s)) (view (sy_world s'))"
  by (simp add: idle_def keeps_def)

lemma idle_geo: "idle view K s s' \<Longrightarrow> keyGeo i \<notin> K \<Longrightarrow>
    geo_at (view (sy_world s')) (keyGeo i) = geo_at (view (sy_world s)) (keyGeo i)"
  by (rule geo_at_keeps [OF idle_keeps])

lemma idle_link: "idle view K s s' \<Longrightarrow> keyGeo i \<notin> K \<Longrightarrow> link view i a b d s' = link view i a b d s"
  by (simp add: link_def idle_geo)

lemma idle_params: "idle view K s s' \<Longrightarrow> keyParams i \<notin> K \<Longrightarrow>
    stored_params (view (sy_world s')) i = stored_params (view (sy_world s)) i"
  by (rule stored_params_keeps [OF idle_keeps])

lemma idle_entry: "idle view K s s' \<Longrightarrow> k \<notin> K \<Longrightarrow> live_entry (view (sy_world s')) k = live_entry (view (sy_world s)) k"
  by (auto simp: idle_def live_entry_def split: option.splits rentry.splits)

lemma idle_ships:
  "idle view K s s' \<Longrightarrow> sys_inv s \<Longrightarrow> sys_inv s' \<and> shipbox s' i n = shipbox s i n \<and> can_queue (sy_hub s') i n = can_queue (sy_hub s) i n"
  by (simp add: idle_def)

lemmas loop_keys = key_defs sim_key_def

lemma can_queue_online: "can_queue h i n \<Longrightarrow> NodeOnline i n h"
  by (auto simp: can_queue_def NodeOnline_def)

text \<open>Where a frame goes: an edge has its place in the table, a ship the last one it reported.\<close>

definition target_place :: "store \<Rightarrow> string \<Rightarrow> string \<Rightarrow> (real \<times> real) option" where
  "target_place st i t =
     (case edge_named st t of Some e \<Rightarrow> Some (ed_Latitude e, ed_Longitude e) | None \<Rightarrow> map_of (geo_at st (keyGeo i)) t)"

definition reach :: "('w \<Rightarrow> store) \<Rightarrow> string \<Rightarrow> string \<Rightarrow> string \<Rightarrow> real \<Rightarrow> 'w sys \<Rightarrow> bool" where
  "reach view i n t d s \<longleftrightarrow>
     (\<exists>la lo la' lo'. map_of (geo_at (view (sy_world s)) (keyGeo i)) n = Some (la, lo) \<and>
        target_place (view (sy_world s)) i t = Some (la', lo') \<and> d = HaversineKm la lo la' lo')"

text \<open>What it takes for a frame of ship \<open>n\<close> to fly.\<close>

definition flyable :: "TransmitPacket \<Rightarrow> string \<Rightarrow> SessionParams \<Rightarrow> bool" where
  "flyable pkt n pr \<longleftrightarrow> valid_packet pkt \<and> Transmitter pkt = Some n \<and> pk_HopCount pkt \<le> MaxHops \<and>
     (\<exists>raw. DecodeString (pk_BinaryPayloadB64 pkt) = Some raw \<and> int (length raw) \<le> MaxPayloadBytes (sp_SpreadingFactor pr))"

definition clear_link :: "('w \<Rightarrow> store) \<Rightarrow> 'w ext \<Rightarrow> string \<Rightarrow> string \<Rightarrow> string \<Rightarrow> string \<Rightarrow> SessionParams \<Rightarrow> real \<Rightarrow> 'w sys \<Rightarrow> bool" where
  "clear_link view X i p n t pr d s \<longleftrightarrow> reach view i n t d s \<and> clear_air X pr d \<and>
     (edge_named (view (sy_world s)) t = None \<longrightarrow> can_queue (sy_hub s) i t) \<and>
     live_entry (view (sy_world s)) (keyDedup i p t) = None"

definition ready_to_fly :: "('w \<Rightarrow> store) \<Rightarrow> 'w ext \<Rightarrow> string \<Rightarrow> string \<Rightarrow> TransmitPacket \<Rightarrow> SessionParams \<Rightarrow> real \<Rightarrow> 'w sys \<Rightarrow> bool" where
  "ready_to_fly view X i n pkt pr d s \<longleftrightarrow> flyable pkt n pr \<and> edges_known view s \<and>
     stored_params (view (sy_world s)) i = Some pr \<and> clear_link view X i (pk_PacketID pkt) n (pk_TargetParent pkt) pr d s"

lemma idle_edge: "idle view K s s' \<Longrightarrow> edge_named (view (sy_world s')) t = edge_named (view (sy_world s)) t"
  by (rule edge_named_tables) (simp add: idle_def)

lemma idle_place: "idle view K s s' \<Longrightarrow> keyGeo i \<notin> K \<Longrightarrow> target_place (view (sy_world s')) i t = target_place (view (sy_world s)) i t"
  by (simp add: target_place_def idle_edge idle_geo split: option.split)

lemma steady_target:
  assumes X: "steady F view X" and inv: "sys_inv s" and place: "target_place (view (sy_world s)) i (pk_TargetParent pkt) = Some (la, lo)"
    and can: "edge_named (view (sy_world s)) (pk_TargetParent pkt) = None \<longrightarrow> can_queue (sy_hub s) i (pk_TargetParent pkt)"
  obtains s' where "resolve_target X i pkt (edge_named (view (sy_world s)) (pk_TargetParent pkt)) s = (Some (la, lo), s')" "idle view K s s'"
proof (cases "edge_named (view (sy_world s)) (pk_TargetParent pkt)")
  case None
  let ?t = "pk_TargetParent pkt"
  have "map_of (geo_at (view (sy_world s)) (keyGeo i)) ?t = Some (la, lo)" using place None by (simp add: target_place_def)
  then obtain s' where 1: "on_world (Position X i ?t) s = (Inr \<lparr>np_ID = ?t, np_Lat = la, np_Lng = lo\<rparr>, s')" "idle view K s s'"
    using steady_Position [OF X] by metis
  have "NodeOnline i ?t (sy_hub s)" using can None can_queue_online by blast
  then show thesis using that [OF _ 1(2)] 1(1) None by (simp add: resolve_target_def)
next
  case (Some e)
  then show thesis using that [OF _ idle_refl] place by (simp add: resolve_target_def target_place_def)
qed

text \<open>Up to the roll of the dice nothing happens to the ships.\<close>

lemma transmit_to_propagate:
  assumes X: "steady F view X" and inv: "sys_inv s" and fly: "ready_to_fly view X i n pkt pr d s"
    and raw: "DecodeString (pk_BinaryPayloadB64 pkt) = Some raw"
  obtains s' where
    "HandleTransmit X i n pkt s = propagate X i pkt raw (edge_named (view (sy_world s)) (pk_TargetParent pkt)) n d pr s'"
    "idle view {keyStats i} s s'"
proof -
  let ?t = "pk_TargetParent pkt" and ?K = "{keyStats i}"
  let ?e = "edge_named (view (sy_world s)) ?t"
  note f = fly [unfolded ready_to_fly_def flyable_def clear_link_def]
  obtain s1 where 1: "on_world (GetParams X i) s = (Inr pr, s1)" "idle view ?K s s1"
    using steady_GetParams [OF X, of s i pr ?K] f by blast
  define s2 where "s2 = incr X i StatTransmitTotal s1"
  have i2: "idle view ?K s s2" unfolding s2_def by (rule idle_trans [OF 1(2) idle_incr [OF X]])
  have "edges_known view s2" using f i2 by (simp add: idle_def)
  then obtain s3 where 3: "edgeCache_get X ?t s2 = (Inr ?e, s3)" "idle view ?K s2 s3"
    using steady_edgeCache [OF X, of s2 ?t ?K] unfolding idle_edge [OF i2] by metis
  have i3: "idle view ?K s s3" by (rule idle_trans [OF i2 3(2)])
  have K: "keyGeo i \<notin> ?K" by (simp add: loop_keys)
  obtain la lo la' lo' where g: "map_of (geo_at (view (sy_world s)) (keyGeo i)) n = Some (la, lo)"
    "target_place (view (sy_world s)) i ?t = Some (la', lo')" "d = HaversineKm la lo la' lo'"
    using f by (auto simp: reach_def)
  obtain s4 where 4: "on_world (Position X i n) s3 = (Inr \<lparr>np_ID = n, np_Lat = la, np_Lng = lo\<rparr>, s4)" "idle view ?K s3 s4"
    using steady_Position [OF X] g(1) unfolding idle_geo [OF i3 K, symmetric] by metis
  have i4: "idle view ?K s s4" by (rule idle_trans [OF i3 4(2)])
  have "target_place (view (sy_world s4)) i ?t = Some (la', lo')" using g(2) idle_place [OF i4 K] by simp
  moreover have "edge_named (view (sy_world s4)) ?t = None \<longrightarrow> can_queue (sy_hub s4) i ?t"
    using f idle_ships [OF i4 inv] idle_edge [OF i4] by simp
  moreover have "sys_inv s4" using idle_ships [OF i4 inv] by blast
  ultimately obtain s5 where 5: "resolve_target X i pkt ?e s4 = (Some (la', lo'), s5)" "idle view ?K s4 s5"
    using steady_target [OF X, of s4 i pkt la' lo' ?K] unfolding idle_edge [OF i4] by metis
  have "HandleTransmit X i n pkt s = transmit_checked X i pkt n raw pr s2"
    using f raw 1(1) by (simp add: HandleTransmit_def s2_def flip: Validate_ok_iff_valid)
  also have "\<dots> = propagate X i pkt raw ?e n d pr s5"
    using f raw by (auto simp: transmit_checked_def 3(1) 4(1) 5(1) g(3) not_less)
  finally show thesis by (rule that) (rule idle_trans [OF i4 5(2)])
qed

text \<open>A fresh frame in clear air is delivered or forwarded.\<close>

lemma transmit_accepted:
  assumes X: "steady F view X" and inv: "sys_inv s" and fly: "ready_to_fly view X i n pkt pr d s"
    and raw: "DecodeString (pk_BinaryPayloadB64 pkt) = Some raw"
  obtains v s' where
    "HandleTransmit X i n pkt s =
       (case edge_named (view (sy_world s)) (pk_TargetParent pkt) of
          Some e \<Rightarrow> deliverToEdge X i pkt raw e n d pr v s' | None \<Rightarrow> forwardToNode X i pkt n v s')"
    "idle view {keyStats i, keyDedup i (pk_PacketID pkt) (pk_TargetParent pkt)} s s'"
proof -
  let ?K = "{keyStats i}" and ?kd = "keyDedup i (pk_PacketID pkt) (pk_TargetParent pkt)"
  let ?e = "edge_named (view (sy_world s)) (pk_TargetParent pkt)"
  obtain s5 where eq: "HandleTransmit X i n pkt s = propagate X i pkt raw ?e n d pr s5" and i5: "idle view ?K s s5"
    using transmit_to_propagate [OF X inv fly raw] by metis
  have "clear_air X pr d" using fly by (simp add: ready_to_fly_def clear_link_def)
  then obtain v s6 where 6: "roll X d pr s5 = (v, s6)" "\<not> tv_Dropped v" "idle view ?K s5 s6" using clear_roll [OF X] by metis
  have i6: "idle view ?K s s6" by (rule idle_trans [OF i5 6(3)])
  have fresh: "live_entry (view (sy_world s6)) ?kd = None"
    using fly idle_entry [OF i6, of ?kd] by (simp add: ready_to_fly_def clear_link_def loop_keys)
  obtain r7 w7 where 7: "rSetNX X ?kd ''1'' dedupTTL (sy_world s6) = (r7, w7)" by force
  have v7: "r7 = Inr True" "view w7 = put_key ?kd (RStr ''1'' (expiry (view (sy_world s6)) dedupTTL)) (view (sy_world s6))"
    using exactD [OF steadyD(2) [OF X] 7] fresh by (simp_all add: ref_SetNX_def)
  have m: "MarkPacketSeen X i (pk_PacketID pkt) (pk_TargetParent pkt) (sy_world s6) = (Inr True, w7)"
    by (simp add: MarkPacketSeen_def 7 v7(1) wrap_err_def)
  have "idle view {?kd} s6 (snd (on_world (MarkPacketSeen X i (pk_PacketID pkt) (pk_TargetParent pkt)) s6))"
    by (rule idle_world, rule m) (simp_all add: v7(2) put_key_def tables_def)
  then have i7: "idle view {?kd} s6 (s6\<lparr>sy_world := w7\<rparr>)" using m by (simp add: on_world_def)
  have "idle view {keyStats i, ?kd} s (s6\<lparr>sy_world := w7\<rparr>)"
    by (rule idle_trans [OF idle_mono [OF i6] idle_mono [OF i7]]) simp_all
  moreover have "HandleTransmit X i n pkt s =
      (case ?e of Some e \<Rightarrow> deliverToEdge X i pkt raw e n d pr v (s6\<lparr>sy_world := w7\<rparr>) | None \<Rightarrow> forwardToNode X i pkt n v (s6\<lparr>sy_world := w7\<rparr>))"
    using 6(1,2) m by (simp add: eq propagate_def on_world_def split: option.split)
  ultimately show thesis using that by blast
qed

lemma transmit_reaches:
  assumes X: "steady F view X" and inv: "sys_inv s" and fly: "ready_to_fly view X i n pkt pr d s"
    and ship: "edge_named (view (sy_world s)) (pk_TargetParent pkt) = None"
  defines "p \<equiv> pk_PacketID pkt" and "t \<equiv> pk_TargetParent pkt" and "s' \<equiv> HandleTransmit X i n pkt s"
  shows "sys_inv s'" "shipbox s' i' m = (if i' = i \<and> m = t then map_option (\<lambda>q. q @ [FReceiveRF (pkt\<lparr>pk_Event := EvMeshReceiveRF\<rparr>)]) (shipbox s i t)
           else shipbox s i' m)"
    "m \<noteq> t \<Longrightarrow> can_queue (sy_hub s') i m = can_queue (sy_hub s) i m"
    "live_entry (view (sy_world s')) (keyAckSender i p t) = Some (RStr n (Some (st_now (view (sy_world s)) + ackSenderTTL)))"
    "keeps {keyStats i, keyDedup i p t, keyAckSender i p t} (view (sy_world s)) (view (sy_world s'))"
    "tables (view (sy_world s')) = tables (view (sy_world s))" "st_now (view (sy_world s')) = st_now (view (sy_world s))"
    "edges_known view s'"
proof -
  let ?K = "{keyStats i, keyDedup i p t}" and ?ka = "keyAckSender i p t" and ?now = "st_now (view (sy_world s))"
  obtain raw where "DecodeString (pk_BinaryPayloadB64 pkt) = Some raw" using fly by (auto simp: ready_to_fly_def flyable_def)
  then obtain v s7 where fwd: "s' = forwardToNode X i pkt n v s7" and i7: "idle view ?K s s7"
    using transmit_accepted [OF X inv fly] ship unfolding s'_def p_def t_def by (metis option.simps(4))
  obtain r8 w8 where 8: "rSet X ?ka n ackSenderTTL (sy_world s7) = (r8, w8)" by force
  have v8: "view w8 = put_key ?ka (RStr n (expiry (view (sy_world s7)) ackSenderTTL)) (view (sy_world s7))"
    using exactD [OF steadyD(3) [OF X] 8] by (simp add: ref_Set_def)
  define s8 where "s8 = s7\<lparr>sy_world := w8\<rparr>"
  have m8: "snd (on_world (RememberAckSender X i p t n) s7) = s8"
    by (simp add: on_world_def RememberAckSender_def 8 wrap_err_def s8_def)
  define s9 where "s9 = send_node i t (FReceiveRF (pkt\<lparr>pk_Event := EvMeshReceiveRF\<rparr>)) s8"
  have e: "s' = emitPacketEvent X i ((packet_event PktForward pkt (Some v) [])\<lparr>pe_FromNode := n\<rparr>) (incr X i StatForwardedToNode s9)"
    by (simp add: fwd forwardToNode_def Let_def m8 s9_def flip: p_def t_def)
  have i9: "idle view {keyStats i} s9 s'" unfolding e by (rule idle_trans [OF idle_incr [OF X] idle_emit [OF X]])
  have h8: "sy_hub s8 = sy_hub s7" by (simp add: s8_def)
  have inv7: "sys_inv s7" and inv9: "sys_inv s9"
    using idle_ships [OF i7 inv] sys_inv_sends(1) [of s8] h8 by (auto simp: s9_def)
  have can: "can_queue (sy_hub s8) i t"
    using fly idle_ships [OF i7 inv] h8 ship by (simp add: ready_to_fly_def clear_link_def t_def)
  show "sys_inv s'" using idle_ships [OF i9 inv9] by blast
  have "shipbox s9 i' m = (if i' = i \<and> m = t then map_option (\<lambda>q. q @ [FReceiveRF (pkt\<lparr>pk_Event := EvMeshReceiveRF\<rparr>)]) (shipbox s8 i t)
      else shipbox s8 i' m)"
    using can inv7 h8 by (simp add: s9_def SendToNode_inbox SendToNode_can)
  then show "shipbox s' i' m = (if i' = i \<and> m = t then map_option (\<lambda>q. q @ [FReceiveRF (pkt\<lparr>pk_Event := EvMeshReceiveRF\<rparr>)]) (shipbox s i t)
      else shipbox s i' m)"
    using idle_ships [OF i9 inv9] idle_ships [OF i7 inv] h8 by simp
  show "can_queue (sy_hub s') i m = can_queue (sy_hub s) i m" if "m \<noteq> t"
    using idle_ships [OF i9 inv9] idle_ships [OF i7 inv] can_queue_other [OF _ that, of "sy_hub s8" i] inv7 h8 by (simp add: s9_def)
  have now7: "st_now (view (sy_world s7)) = ?now" "tables (view (sy_world s7)) = tables (view (sy_world s))"
    using i7 by (simp_all add: idle_def)
  have w9: "view (sy_world s9) = put_key ?ka (RStr n (Some (?now + ackSenderTTL))) (view (sy_world s7))"
    by (simp add: s9_def s8_def v8 expiry_def now7(1) ackSenderTTL_def duration_consts)
  have "?ka \<notin> {keyStats i}" by (simp add: loop_keys)
  then have "live_entry (view (sy_world s')) ?ka = live_entry (view (sy_world s9)) ?ka" by (rule idle_entry [OF i9])
  also have "\<dots> = Some (RStr n (Some (?now + ackSenderTTL)))"
    by (simp add: w9 live_entry_def now7(1) ackSenderTTL_def duration_consts)
  finally show "live_entry (view (sy_world s')) ?ka = Some (RStr n (Some (?now + ackSenderTTL)))" .
  have t9: "tables (view (sy_world s9)) = tables (view (sy_world s7))" "st_now (view (sy_world s9)) = st_now (view (sy_world s7))"
    by (simp_all add: w9)
  show "tables (view (sy_world s')) = tables (view (sy_world s))" "st_now (view (sy_world s')) = ?now"
    using i9 t9 now7 by (simp_all add: idle_def)
  have "sy_byCode s9 = sy_byCode s7" by (simp add: s9_def s8_def)
  then have "edges_known view s9" using edges_known_same [OF _ t9(1)] i7 fly by (simp add: idle_def ready_to_fly_def)
  then show "edges_known view s'" using i9 by (simp add: idle_def)
  have "keeps {keyStats i, keyDedup i p t, ?ka} (view (sy_world s7)) (view (sy_world s9))" by (simp add: w9 keeps_def put_key_def)
  moreover have "keeps {keyStats i, keyDedup i p t, ?ka} (view (sy_world s)) (view (sy_world s7))"
    by (rule keeps_mono [OF idle_keeps [OF i7]]) auto
  moreover have "keeps {keyStats i, keyDedup i p t, ?ka} (view (sy_world s9)) (view (sy_world s'))"
    by (rule keeps_mono [OF idle_keeps [OF i9]]) simp
  ultimately show "keeps {keyStats i, keyDedup i p t, ?ka} (view (sy_world s)) (view (sy_world s'))" by (blast intro: keeps_trans)
qed

section \<open>The acknowledgement comes back\<close>

lemma steady_TakeAckSender:
  assumes "steady F view X" "live_entry (view (sy_world s)) (keyAckSender i p t) = Some (RStr n e)"
  obtains s' where "on_world (TakeAckSender X i p t) s = (Inr n, s')" "idle view {keyAckSender i p t} s s'"
proof -
  let ?k = "keyAckSender i p t"
  obtain r w' where f: "rGetDel X ?k (sy_world s) = (r, w')" by force
  have "(r, view w') = ref_GetDel ?k (view (sy_world s))" by (rule exactD [OF steadyD(4) [OF assms(1)] f])
  then have r: "r = Inr (Some n)" "view w' = del_key ?k (view (sy_world s))" using assms(2) by (simp_all add: ref_GetDel_def)
  have g: "TakeAckSender X i p t (sy_world s) = (Inr n, w')" by (simp add: TakeAckSender_def f r(1))
  have "idle view {?k} s (snd (on_world (TakeAckSender X i p t) s))"
    by (rule idle_world, rule g) (simp_all add: r(2) del_key_def tables_def)
  then show thesis using that g by (simp add: on_world_def)
qed

lemma ack_reaches:
  assumes X: "steady F view X" and inv: "sys_inv s" and p: "na_PacketID ack \<noteq> []"
    and rec: "live_entry (view (sy_world s)) (keyAckSender i (na_PacketID ack) t) = Some (RStr n e)"
    and par: "stored_params (view (sy_world s)) i = Some pr" and lnk: "link view i t n d s" and air: "clear_air X pr d"
    and can: "can_queue (sy_hub s) i n"
  shows "shipbox (HandleAck X i t ack s) i n =
    map_option (\<lambda>q. q @ [mesh_ack (na_PacketID ack) t (if na_Status ack = [] then ''received'' else na_Status ack) False]) (shipbox s i n)"
proof -
  let ?K = "{keyAckSender i (na_PacketID ack) t}" and ?st = "if na_Status ack = [] then ''received'' else na_Status ack"
  have K: "keyGeo i \<notin> ?K" "keyParams i \<notin> ?K" by (simp_all add: loop_keys)
  obtain s1 where 1: "on_world (TakeAckSender X i (na_PacketID ack) t) s = (Inr n, s1)" "idle view ?K s s1"
    using steady_TakeAckSender [OF X rec] by blast
  have "stored_params (view (sy_world s1)) i = Some pr" using idle_params [OF 1(2) K(2)] par by simp
  then obtain s2 where 2: "on_world (GetParams X i) s1 = (Inr pr, s2)" "idle view ?K s1 s2" using steady_GetParams [OF X] by metis
  have i2: "idle view ?K s s2" by (rule idle_trans [OF 1(2) 2(2)])
  obtain la lo la' lo' where g: "map_of (geo_at (view (sy_world s)) (keyGeo i)) t = Some (la, lo)"
    "map_of (geo_at (view (sy_world s)) (keyGeo i)) n = Some (la', lo')" "d = HaversineKm la lo la' lo'"
    using lnk by (auto simp: link_def)
  obtain s3 where 3: "on_world (Position X i t) s2 = (Inr \<lparr>np_ID = t, np_Lat = la, np_Lng = lo\<rparr>, s3)" "idle view ?K s2 s3"
    using steady_Position [OF X] g(1) unfolding idle_geo [OF i2 K(1), symmetric] by metis
  have i3: "idle view ?K s s3" by (rule idle_trans [OF i2 3(2)])
  obtain s4 where 4: "on_world (Position X i n) s3 = (Inr \<lparr>np_ID = n, np_Lat = la', np_Lng = lo'\<rparr>, s4)" "idle view ?K s3 s4"
    using steady_Position [OF X] g(2) unfolding idle_geo [OF i3 K(1), symmetric] by metis
  obtain v s5 where 5: "roll X d pr s4 = (v, s5)" "\<not> tv_Dropped v" "idle view ?K s4 s5" using clear_roll [OF X air] by metis
  have i5: "idle view ?K s s5" by (rule idle_trans [OF i3 idle_trans [OF 4(2) 5(3)]])
  have inv5: "sys_inv s5" and can5: "can_queue (sy_hub s5) i n" and box5: "shipbox s5 i n = shipbox s i n"
    using idle_ships [OF i5 inv] can by simp_all
  have "HandleAck X i t ack s = return_ack X i (na_PacketID ack) t n ?st v s5"
    using p 5(1) by (simp add: HandleAck_def 1(1) 2(1) 3(1) 4(1) g(3) Let_def)
  then show ?thesis using can5 by (simp add: return_ack_shipbox [OF inv5] 5(2) SendToNode_can box5)
qed

section \<open>The round trip\<close>

lemma dispatched_transmit:
  "pk_Event pkt = EvNodeTransmit \<Longrightarrow> int64_hops pkt \<Longrightarrow>
   safeProcess X iv \<lparr>jb_sessionID = i, jb_nodeID = n, jb_raw = Inr (uplink_json (UTransmit pkt))\<rparr> S = HandleTransmit X i n pkt S"
  by (simp add: safeProcess_def read_uplink int64_hops_def event_names)

lemma dispatched_ack:
  "safeProcess X iv \<lparr>jb_sessionID = i, jb_nodeID = n, jb_raw = Inr (uplink_json (receive_ack pkt b))\<rparr> S =
   HandleAck X i n \<lparr>na_Event = ''node:ack'', na_PacketID = pk_PacketID pkt, na_ReceiverNode = nd_id b, na_Status = ''received''\<rparr> S"
  by (simp add: receive_ack_def safeProcess_def read_uplink event_names)

text \<open>
  C5. In a world whose services answer and whose air is clear, a ship's transmission comes full circle
  through both programs: the gateway's handling of the frame puts exactly one copy of it into the
  target's queue; the target reads it there and starts a handler, whose acknowledgement the gateway
  relays; exactly this acknowledgement is then in the queue of the transmitting ship, and when that
  ship reads it, the retry loop waiting for the packet may wake up as acknowledged.
\<close>

theorem acknowledged_round_trip:
  assumes X: "steady F view X" and inv: "sys_inv S" and fly: "ready_to_fly view X i n pkt pr d S"
    and sent: "pk_Event pkt = EvNodeTransmit" "int64_hops pkt" "pk_TargetParent pkt = t" "t \<noteq> n"
    and ship: "edge_named (view (sy_world S)) t = None"
    and room: "can_queue (sy_hub S) i n" and waiting: "nd_waiters a (pk_PacketID pkt) = Some ch"
    and S1: "S1 = safeProcess X iv \<lparr>jb_sessionID = i, jb_nodeID = n, jb_raw = Inr (uplink_json (UTransmit pkt))\<rparr> S"
    and rf: "rf = pkt\<lparr>pk_Event := EvMeshReceiveRF\<rparr>"
    and S2: "S2 = safeProcess X iv \<lparr>jb_sessionID = i, jb_nodeID = t, jb_raw = Inr (uplink_json (receive_ack rf b))\<rparr> S1"
    and ack: "ack = \<lparr>ma_Event = EvMeshAck, ma_PacketID = pk_PacketID pkt, ma_ReceiverNode = t, ma_Status = ''received'', ma_Duplicate = False\<rparr>"
  shows "shipbox S1 i t = map_option (\<lambda>q. q @ [FReceiveRF rf]) (shipbox S i t) \<and>
    fst (snd (reader (Inr (packet_json rf)) b)) = [Acking rf] \<and>
    shipbox S2 i n = map_option (\<lambda>q. q @ [FMeshAck ack]) (shipbox S i n) \<and>
    ready Acked ch (snd (snd (reader (Inr (mesh_ack_json ack)) a)))"
proof -
  have S1': "S1 = HandleTransmit X i n pkt S" unfolding S1 by (rule dispatched_transmit [OF sent(1,2)])
  note tr = transmit_reaches [OF X inv fly ship [folded sent(3)], folded S1', unfolded sent(3)]
  note fly' = fly [unfolded ready_to_fly_def flyable_def clear_link_def reach_def target_place_def sent(3) ship option.case]
  have box1: "shipbox S1 i t = map_option (\<lambda>q. q @ [FReceiveRF rf]) (shipbox S i t)" unfolding rf tr(2) by simp
  have keep: "keyGeo i \<notin> {keyStats i, keyDedup i (pk_PacketID pkt) t, keyAckSender i (pk_PacketID pkt) t}"
    "keyParams i \<notin> {keyStats i, keyDedup i (pk_PacketID pkt) t, keyAckSender i (pk_PacketID pkt) t}" by (simp_all add: loop_keys)
  have par: "stored_params (view (sy_world S1)) i = Some pr" using stored_params_keeps [OF tr(5) keep(2)] fly' by simp
  have "link view i n t d S1" using fly' unfolding link_def geo_at_keeps [OF tr(5) keep(1)] by blast
  then have lnk: "link view i t n d S1" by (rule link_sym)
  have can1: "can_queue (sy_hub S1) i n" unfolding tr(3) [OF sent(4) [symmetric]] by (rule room)
  have pid: "pk_PacketID pkt \<noteq> []" using fly' by (simp add: valid_packet_def bad_id_def)
  have air: "clear_air X pr d" using fly' by blast
  have box2: "shipbox S2 i n = map_option (\<lambda>q. q @ [FMeshAck ack]) (shipbox S i n)"
    unfolding S2 dispatched_ack
    by (subst ack_reaches [OF X tr(1) _ _ par lnk air can1, where e = "Some (st_now (view (sy_world S)) + ackSenderTTL)"])
      (use pid tr(2,4) sent(4) in \<open>auto simp: rf mesh_ack_def ack\<close>)
  have "reader (Inr (packet_json rf)) b = (True, [Acking rf], add_stats (\<lambda>s. s\<lparr>fl_received := fl_received s + 1\<rparr>) b)"
    unfolding rf using sent(2) by (simp add: reader_def on_receive_def read_packet int64_hops_def EvMeshReceiveRF_def)
  moreover have "reader (Inr (mesh_ack_json ack)) a = (True, [], a\<lparr>nd_waiters := (nd_waiters a)(pk_PacketID pkt := None), nd_closed := insert ch (nd_closed a)\<rparr>)"
    using waiting by (simp add: reader_def on_ack_def read_mesh_ack event_names ack)
  ultimately show ?thesis using box1 box2 by (simp add: ready_def)
qed

text \<open>The two ships of the small system.\<close>

lemma duo_steady: "steady plain_formats (\<lambda>w. w) duo_X"
  by (simp add: steady_def exact_def duo_ops)

lemma duo_no_edge: "edge_named duo_store ''B'' = None" "edges_known (\<lambda>w. w) duo_sys"
  by (simp_all add: edge_named_def edges_known_def duo_sys_def duo_store_def duo_edge_def)

lemma duo_flies: "ready_to_fly (\<lambda>w. w) duo_X ''S'' ''A'' (duo_pkt ''B'') duo_params 0 duo_sys"
proof -
  have "hash_at duo_store (keyParams ''S'') = [(''spreading_factor'', Txt (Itoa 7)), (''tx_power_dbm'', Txt (Itoa 20)), (''weather_severity'', FloatTxt 1)]"
    "geo_at duo_store (keyGeo ''S'') = [(''A'', 0, 0), (''B'', 0, 0)]" by (simp_all add: duo_eval)
  then show ?thesis
    using duo_valid(1) duo_no_edge
    by (simp add: ready_to_fly_def flyable_def clear_link_def reach_def target_place_def stored_params_def clear_air_def
        can_queue_def Atoi_Itoa duo_air duo_payload duo_eval)
qed

theorem acknowledged_round_trip_witness:
  "shipbox
     (safeProcess duo_X 0 \<lparr>jb_sessionID = ''S'', jb_nodeID = ''B'',
          jb_raw = Inr (uplink_json (receive_ack ((duo_pkt ''B'')\<lparr>pk_Event := EvMeshReceiveRF\<rparr>) first_node))\<rparr>
        (safeProcess duo_X 0 \<lparr>jb_sessionID = ''S'', jb_nodeID = ''A'', jb_raw = Inr (uplink_json (UTransmit (duo_pkt ''B'')))\<rparr> duo_sys))
     ''S'' ''A'' =
   Some [FMeshAck \<lparr>ma_Event = EvMeshAck, ma_PacketID = ''p'', ma_ReceiverNode = ''B'', ma_Status = ''received'', ma_Duplicate = False\<rparr>]"
proof -
  let ?p = "duo_pkt ''B''" and ?a = "first_node\<lparr>nd_waiters := [''p'' \<mapsto> 0]\<rparr>"
  have box: "shipbox duo_sys ''S'' ''A'' = Some []"
    by (simp add: duo_sys_def duo_hub_eq inbox_def node_ref_def session_nodes_def)
  have room: "can_queue (sy_hub duo_sys) ''S'' ''A''"
    by (simp add: can_queue_def duo_sys_def duo_hub_eq node_ref_def session_nodes_def)
  have sent: "pk_Event ?p = EvNodeTransmit" "int64_hops ?p" "pk_TargetParent ?p = ''B''" "''B'' \<noteq> ''A''"
    by (simp_all add: duo_pkt_def int64_hops_def int64_min_def int64_max_def)
  have ship: "edge_named (sy_world duo_sys) ''B'' = None" using duo_no_edge(1) by (simp add: duo_sys_def)
  have w: "nd_waiters ?a (pk_PacketID ?p) = Some 0" by (simp add: duo_pkt_simps)
  note acknowledged_round_trip [OF duo_steady duo_inv duo_flies sent ship room w refl refl refl refl, of 0 first_node]
  from this [THEN conjunct2, THEN conjunct2, THEN conjunct1] show ?thesis unfolding duo_pkt_simps box by simp
qed

end
