(* ===== verification/Voyage.thy ===== *)
theory Voyage
  imports Loop
begin

text \<open>
  Store and forward, end to end: the report of a ship travels along its route, from ship to ship through
  the gateway, the ether and the relaying ships, and becomes a row of the telemetry table at the edge.
  As in Loop the services answer and the air is clear.
\<close>

section \<open>Delivery at an edge\<close>

lemma steady_unpack:
  assumes "steady F view X"
  shows "view (sy_world (snd (unpack X i pkt raw s))) = view (sy_world s)"
    "sy_hub (snd (unpack X i pkt raw s)) = sy_hub s"
    "tables (view (sy_world s')) = tables (view (sy_world s)) \<Longrightarrow> fst (unpack X i pkt raw s') = fst (unpack X i pkt raw s)"
proof -
  let ?latest = "\<lambda>st. case fst (ref_LatestSchema F i st) of Inr (Some d) \<Rightarrow> Inr d | _ \<Rightarrow> Inl ErrNotFound"
  have got: "fst (GetActive X i u) = ?latest (view (sy_world u)) \<and> view (sy_world (snd (GetActive X i u))) = view (sy_world u) \<and>
      sy_hub (snd (GetActive X i u)) = sy_hub u" for u
  proof -
    obtain r w where q: "qLatestSchema X i (sy_world u) = (r, w)" by force
    have "(r, view w) = ref_LatestSchema F i (view (sy_world u))" by (rule exactD [OF steadyD(10) [OF assms] q])
    then show ?thesis
      by (auto simp: GetActive_def GetLatest_def on_world_def row_or_def q ref_LatestSchema_def Let_def split: list.splits option.splits)
  qed
  show "view (sy_world (snd (unpack X i pkt raw s))) = view (sy_world s)" "sy_hub (snd (unpack X i pkt raw s)) = sy_hub s"
    using got [of s] by (auto simp: unpack_def Let_def split: prod.splits sum.splits)
  have fst_unpack: "fst (unpack X i pkt raw u) = fst (unpack X i pkt raw v)" if "fst (GetActive X i u) = fst (GetActive X i v)" for u v
    using that by (auto simp: unpack_def Let_def split: prod.splits sum.splits)
  assume "tables (view (sy_world s')) = tables (view (sy_world s))"
  then have "?latest (view (sy_world s')) = ?latest (view (sy_world s))" by (simp add: ref_LatestSchema_def tables_def Let_def)
  then show "fst (unpack X i pkt raw s') = fst (unpack X i pkt raw s)" using got by (intro fst_unpack) simp
qed

lemma unpack_payload: "pk_BinaryPayloadB64 pkt' = pk_BinaryPayloadB64 pkt \<Longrightarrow> unpack X i pkt' raw s = unpack X i pkt raw s"
proof -
  assume "pk_BinaryPayloadB64 pkt' = pk_BinaryPayloadB64 pkt"
  then have "raw_payload pkt' = raw_payload pkt" by (simp add: raw_payload_def)
  then show ?thesis by (simp only: unpack_def)
qed

lemma idle_tables: "idle view K s s' \<Longrightarrow> tables (view (sy_world s')) = tables (view (sy_world s))"
  by (simp add: idle_def)

lemma return_ack_tables:
  assumes "steady F view X"
  shows "tables (view (sy_world (return_ack X i p r t status v s))) = tables (view (sy_world s))"
proof -
  have "tables (view (sy_world (emitPacketEvent X i ev (incr X i g u)))) = tables (view (sy_world u))" for ev g u
    by (rule idle_tables [OF idle_trans [OF idle_incr [OF assms] idle_emit [OF assms]]])
  then show ?thesis by (simp add: return_ack_def)
qed

text \<open>What the row of a delivered packet says.\<close>

definition row_says :: "TelemetryLog \<Rightarrow> string \<Rightarrow> string \<Rightarrow> int \<Rightarrow> string list \<Rightarrow> jmap \<Rightarrow> bool" where
  "row_says row origin code hop path payload \<longleftrightarrow> tl_OriginNodeID row = origin \<and> tl_EdgeCode row = code \<and> tl_HopCount row = hop \<and>
     tl_RoutingPath row = Join (path @ [code]) ''->'' \<and> tl_DecodedPayload row = payload"

text \<open>What the database asks of the row.\<close>

definition storable :: "formats \<Rightarrow> store \<Rightarrow> string \<Rightarrow> string \<Rightarrow> string list \<Rightarrow> jmap \<Rightarrow> bool" where
  "storable F st i origin path payload \<longleftrightarrow> has_session F i st \<and> list_all (\<lambda>(_, v). jval_safe v) payload \<and>
     fm_chars F (Join path ''->'') \<le> 255 \<and> fm_chars F origin \<le> 100"

lemma transmit_delivers:
  assumes X: "steady F view X" and inv: "sys_inv s" and fly: "ready_to_fly view X i n pkt pr d s"
    and e: "edge_named (view (sy_world s)) (pk_TargetParent pkt) = Some e"
    and raw: "DecodeString (pk_BinaryPayloadB64 pkt) = Some raw"
    and st: "storable F (view (sy_world s)) i (pk_OriginNode pkt) (pk_RoutingPath pkt @ [pk_TargetParent pkt]) (fst (unpack X i pkt raw s))"
  shows "\<exists>row. st_telemetry (view (sy_world (HandleTransmit X i n pkt s))) = st_telemetry (view (sy_world s)) @ [row] \<and>
    row_says row (pk_OriginNode pkt) (pk_TargetParent pkt) (pk_HopCount pkt) (pk_RoutingPath pkt) (fst (unpack X i pkt raw s))"
proof -
  let ?t = "pk_TargetParent pkt" and ?dec = "fst (unpack X i pkt raw s)"
  obtain v s7 where del: "HandleTransmit X i n pkt s = deliverToEdge X i pkt raw e n d pr v s7"
    and i7: "idle view {keyStats i, keyDedup i (pk_PacketID pkt) ?t} s s7"
    using transmit_accepted [OF X inv fly raw] e by (metis option.simps(5))
  have code: "ed_EdgeCode e = ?t" "e \<in> set (st_edges (view (sy_world s)))" using e by (auto simp: edge_named_def find_Some_iff)
  obtain s8 where 8: "unpack X i pkt raw s7 = (?dec, s8)" "view (sy_world s8) = view (sy_world s7)"
    using steady_unpack(1) [OF X, of i pkt raw s7] steady_unpack(3) [OF X idle_tables [OF i7], of i pkt raw] by (metis prod.collapse)
  let ?row = "telemetry_row i pkt e ?dec"
  obtain r w9 where 9: "qInsertTelemetry X ?row (sy_world s8) = (r, w9)" by force
  have t7: "tables (view (sy_world s8)) = tables (view (sy_world s))" using 8(2) idle_tables [OF i7] by simp
  let ?st8 = "view (sy_world s8)"
  define row where "row = ?row\<lparr>tl_ID := st_serial ?st8, tl_SessionID := fm_canon F i, tl_EdgeActive := False, tl_ArrivedAt := st_now ?st8\<rparr>"
  have "has_session F i ?st8" "ed_ID e \<in> ed_ID ` set (st_edges ?st8)"
    using st code(2) t7 by (auto simp: storable_def has_session_def tables_def)
  moreover have "\<not> fm_chars F (tl_RoutingPath ?row) > 255 \<and> \<not> fm_chars F (tl_OriginNodeID ?row) > 100"
    using st by (simp add: storable_def telemetry_row_def PathString_def code(1))
  ultimately have "st_telemetry (snd (ref_InsertTelemetry F ?row ?st8)) = st_telemetry ?st8 @ [row]"
    by (simp add: ref_InsertTelemetry_def telemetry_row_def row_def)
  moreover have "(r, view w9) = ref_InsertTelemetry F ?row ?st8" by (rule exactD [OF steadyD(11) [OF X] 9])
  ultimately have row: "st_telemetry (view w9) = st_telemetry (view (sy_world s)) @ [row]" using t7 by (metis snd_conv tables_def prod.inject)
  have says: "row_says row (pk_OriginNode pkt) ?t (pk_HopCount pkt) (pk_RoutingPath pkt) ?dec"
    by (simp add: row_says_def row_def telemetry_row_def PathString_def code(1))
  define s9 where "s9 = s8\<lparr>sy_world := w9\<rparr>"
  have m9: "snd (on_world (TelemetryInsert X ?row) s8) = s9"
  proof -
    have "tl_DecodedPayload ?row = ?dec" by (simp add: telemetry_row_def)
    then show ?thesis using st by (simp add: TelemetryInsert_def 9 on_world_def s9_def storable_def split: sum.split prod.split)
  qed
  define ev where "ev = (packet_event PktDeliver pkt (Some v) [])\<lparr>pe_FromNode := n, pe_ToNode := ed_EdgeCode e\<rparr>"
  define s10 where "s10 = emitPacketEvent X i ev (incr X i StatDeliveredToEdge s9)"
  have "clear_air X pr d" using fly by (simp add: ready_to_fly_def clear_link_def)
  then obtain u s11 where 11: "roll X d pr s10 = (u, s11)" "idle view {keyStats i} s10 s11" using clear_roll [OF X] by metis
  have "HandleTransmit X i n pkt s = return_ack X i (pk_PacketID pkt) (ed_EdgeCode e) n ''received'' u s11"
    by (simp add: del deliverToEdge_def 8(1) m9 11(1) Let_def flip: ev_def s10_def)
  then have "tables (view (sy_world (HandleTransmit X i n pkt s))) = tables (view (sy_world s11))" by (simp add: return_ack_tables [OF X])
  also have "\<dots> = tables (view (sy_world s9))"
    using idle_tables [OF 11(2)] idle_tables [OF idle_trans [OF idle_incr [OF X] idle_emit [OF X]]] by (simp add: s10_def)
  finally have "st_telemetry (view (sy_world (HandleTransmit X i n pkt s))) = st_telemetry (view w9)" by (simp add: tables_def s9_def)
  then show ?thesis using row says by auto
qed

section \<open>The route\<close>

text \<open>
  What the gateway, the ether and the ships do with a packet: \<open>n\<close> transmits it, each ship of the list
  finds it in its queue, reads it, has not seen it, and transmits it in its turn.
\<close>

definition transmitted :: "'w ext \<Rightarrow> duration \<Rightarrow> string \<Rightarrow> string \<Rightarrow> TransmitPacket \<Rightarrow> 'w sys \<Rightarrow> 'w sys" where
  "transmitted X iv i n pkt = safeProcess X iv \<lparr>jb_sessionID = i, jb_nodeID = n, jb_raw = Inr (uplink_json (UTransmit pkt))\<rparr>"

inductive voyage :: "'w ext \<Rightarrow> duration \<Rightarrow> string \<Rightarrow> string \<Rightarrow> TransmitPacket \<Rightarrow> node list \<Rightarrow> 'w sys \<Rightarrow> 'w sys \<Rightarrow> bool"
  for X :: "'w ext" and iv :: duration and i :: string where
  last_hop: "voyage X iv i n pkt [] S (transmitted X iv i n pkt S)"
| relayed: "S1 = transmitted X iv i n pkt S \<Longrightarrow> shipbox S1 i (nd_id a) = Some (q @ [FReceiveRF rf]) \<Longrightarrow>
    reader (Inr (packet_json rf)) a = (True, [Acking rf], a1) \<Longrightarrow> handleReceive rf a1 = (Sending pkt' (Try 0), a2) \<Longrightarrow>
    voyage X iv i (nd_id a) pkt' as S1 S' \<Longrightarrow> voyage X iv i n pkt (a # as) S S'"

text \<open>The stations ahead of \<open>n\<close>: each ship knows its parent and has not seen the packet, the last station is an edge.\<close>

fun route_ahead :: "('w \<Rightarrow> store) \<Rightarrow> 'w ext \<Rightarrow> string \<Rightarrow> string \<Rightarrow> SessionParams \<Rightarrow> 'w sys \<Rightarrow> string \<Rightarrow> string \<Rightarrow> node list \<Rightarrow> bool" where
  "route_ahead view X i p pr S n t [] \<longleftrightarrow> edge_named (view (sy_world S)) t \<noteq> None \<and> (\<exists>d. clear_link view X i p n t pr d S)"
| "route_ahead view X i p pr S n t (a # as) \<longleftrightarrow> edge_named (view (sy_world S)) t = None \<and> (\<exists>d. clear_link view X i p n t pr d S) \<and>
     nd_id a = t \<and> nd_routed a \<and> \<not> bad_id (nd_parent a) \<and> \<not> nd_seen a p \<and> route_ahead view X i p pr S t (nd_parent a) as"

definition stations :: "string \<Rightarrow> node list \<Rightarrow> string list" where
  "stations t as = t # map nd_parent as"

text \<open>A hop towards another station leaves the way ahead as it is.\<close>

definition hop_leaves :: "('w \<Rightarrow> store) \<Rightarrow> string \<Rightarrow> string \<Rightarrow> string \<Rightarrow> 'w sys \<Rightarrow> 'w sys \<Rightarrow> bool" where
  "hop_leaves view i p t S S' \<longleftrightarrow>
     keeps {keyStats i, keyDedup i p t, keyAckSender i p t} (view (sy_world S)) (view (sy_world S')) \<and>
     tables (view (sy_world S')) = tables (view (sy_world S)) \<and> st_now (view (sy_world S')) = st_now (view (sy_world S)) \<and>
     (\<forall>m. m \<noteq> t \<longrightarrow> can_queue (sy_hub S') i m = can_queue (sy_hub S) i m)"

lemma keeps_entry: "keeps K st st' \<Longrightarrow> st_now st' = st_now st \<Longrightarrow> k \<notin> K \<Longrightarrow> live_entry st' k = live_entry st k"
  by (auto simp: keeps_def live_entry_def split: option.splits rentry.splits)

lemma hop_leaves_link:
  assumes "hop_leaves view i p t0 S S'" "t \<noteq> t0"
  shows "clear_link view X i p n t pr d S' = clear_link view X i p n t pr d S"
proof -
  let ?K = "{keyStats i, keyDedup i p t0, keyAckSender i p t0}"
  have h: "keeps ?K (view (sy_world S)) (view (sy_world S'))" "tables (view (sy_world S')) = tables (view (sy_world S))"
    "st_now (view (sy_world S')) = st_now (view (sy_world S))" "can_queue (sy_hub S') i t = can_queue (sy_hub S) i t"
    using assms unfolding hop_leaves_def by blast+
  have k: "keyGeo i \<notin> ?K" "keyDedup i p t \<notin> ?K" using assms(2) by (auto simp: loop_keys)
  have geo: "geo_at (view (sy_world S')) (keyGeo i) = geo_at (view (sy_world S)) (keyGeo i)"
    by (rule geo_at_keeps [OF h(1) k(1)])
  have dedup: "live_entry (view (sy_world S')) (keyDedup i p t) = live_entry (view (sy_world S)) (keyDedup i p t)"
    by (rule keeps_entry [OF h(1,3) k(2)])
  have e: "edge_named (view (sy_world S')) t = edge_named (view (sy_world S)) t" by (rule edge_named_tables [OF h(2)])
  have "target_place (view (sy_world S')) i t = target_place (view (sy_world S)) i t"
    by (cases "edge_named (view (sy_world S)) t") (simp_all add: target_place_def geo e)
  then show ?thesis by (simp add: clear_link_def reach_def geo dedup e h(4))
qed

lemma hop_leaves_edge: "hop_leaves view i p t S S' \<Longrightarrow> edge_named (view (sy_world S')) c = edge_named (view (sy_world S)) c"
  by (rule edge_named_tables) (simp add: hop_leaves_def)

lemma hop_leaves_route:
  assumes "hop_leaves view i p t0 S S'" "t0 \<notin> set (stations t as)"
  shows "route_ahead view X i p pr S' n t as = route_ahead view X i p pr S n t as"
  using assms(2)
proof (induction as arbitrary: n t)
  case (Cons a as)
  have "t \<noteq> t0" "t0 \<notin> set (stations (nd_parent a) as)" using Cons.prems by (auto simp: stations_def)
  then show ?case using Cons.IH [of "nd_parent a" t] hop_leaves_link [OF assms(1), of t] hop_leaves_edge [OF assms(1)] by simp
next
  case Nil
  have "t \<noteq> t0" using Nil.prems by (auto simp: stations_def)
  then show ?case using hop_leaves_link [OF assms(1), of t] hop_leaves_edge [OF assms(1)] by simp
qed

section \<open>The whole voyage\<close>

text \<open>A packet of ship \<open>n\<close> fit for itself and \<open>k\<close> more hops.\<close>

definition seaworthy :: "TransmitPacket \<Rightarrow> string \<Rightarrow> SessionParams \<Rightarrow> nat \<Rightarrow> bool" where
  "seaworthy pkt n pr k \<longleftrightarrow> flyable pkt n pr \<and> pk_Event pkt = EvNodeTransmit \<and> pk_HopCount pkt + int k \<le> MaxHops \<and>
     length (pk_RoutingPath pkt) + k \<le> 6"

lemma seaworthy_hops: "seaworthy pkt n pr k \<Longrightarrow> 1 \<le> pk_HopCount pkt \<and> pk_HopCount pkt \<le> 5 \<and> int64_hops pkt"
  by (simp add: seaworthy_def flyable_def valid_packet_def MaxHops_def int64_hops_def int64_min_def int64_max_def)

lemma seaworthy_sent: "seaworthy pkt n pr k \<Longrightarrow> transmitted X iv i n pkt S = HandleTransmit X i n pkt S"
  unfolding transmitted_def by (rule dispatched_transmit) (use seaworthy_hops in \<open>auto simp: seaworthy_def\<close>)

lemma relay_seaworthy:
  assumes "seaworthy pkt n pr (Suc k)" "nd_id a = pk_TargetParent pkt" "\<not> bad_id (nd_parent a)"
  shows "seaworthy (relay_frame (pkt\<lparr>pk_Event := EvMeshReceiveRF\<rparr>) a) (nd_id a) pr k"
    "pk_HopCount (relay_frame (pkt\<lparr>pk_Event := EvMeshReceiveRF\<rparr>) a) = pk_HopCount pkt + 1"
proof -
  have h: "wrap64 (pk_HopCount pkt + 1) = pk_HopCount pkt + 1"
    using seaworthy_hops [OF assms(1)] by (intro wrap64_id) (simp_all add: int64_min_def int64_max_def)
  then show "pk_HopCount (relay_frame (pkt\<lparr>pk_Event := EvMeshReceiveRF\<rparr>) a) = pk_HopCount pkt + 1" by (simp add: relay_frame_def)
  show "seaworthy (relay_frame (pkt\<lparr>pk_Event := EvMeshReceiveRF\<rparr>) a) (nd_id a) pr k"
    using assms h by (auto simp: seaworthy_def flyable_def valid_packet_def relay_frame_def Transmitter_def event_names MaxHops_def)
qed

lemma ship_relays:
  assumes "seaworthy pkt n pr k" "nd_routed a" "\<not> bad_id (nd_parent a)" "\<not> nd_seen a (pk_PacketID pkt)"
  defines "rf \<equiv> pkt\<lparr>pk_Event := EvMeshReceiveRF\<rparr>"
  obtains a1 a2 where "reader (Inr (packet_json rf)) a = (True, [Acking rf], a1)" "handleReceive rf a1 = (Sending (relay_frame rf a) (Try 0), a2)"
proof -
  have "reader (Inr (packet_json rf)) a = (True, [Acking rf], add_stats (\<lambda>s. s\<lparr>fl_received := fl_received s + 1\<rparr>) a)"
    using seaworthy_hops [OF assms(1)]
    by (simp add: rf_def reader_def on_receive_def read_packet int64_hops_def EvMeshReceiveRF_def)
  moreover have "\<exists>a2. handleReceive rf (add_stats (\<lambda>s. s\<lparr>fl_received := fl_received s + 1\<rparr>) a) = (Sending (relay_frame rf a) (Try 0), a2)"
    using assms(2,3,4) by (simp add: handleReceive_def rf_def add_stats_def relay_frame_def bad_id_def)
  ultimately show thesis using that by blast
qed

lemma hop_leaves_transmit:
  assumes X: "steady F view X" and inv: "sys_inv S" and fly: "ready_to_fly view X i n pkt pr d S"
    and ship: "edge_named (view (sy_world S)) (pk_TargetParent pkt) = None"
  shows "hop_leaves view i (pk_PacketID pkt) (pk_TargetParent pkt) S (HandleTransmit X i n pkt S)"
  using transmit_reaches(3,5,6,7) [OF X inv fly ship] by (simp add: hop_leaves_def)

lemma voyage_arrives:
  assumes X: "steady F view X" and raw: "DecodeString b64 = Some raw"
  shows "sys_inv S \<Longrightarrow> edges_known view S \<Longrightarrow> stored_params (view (sy_world S)) i = Some pr \<Longrightarrow> seaworthy pkt n pr (length as) \<Longrightarrow>
    pk_BinaryPayloadB64 pkt = b64 \<Longrightarrow> pk_PacketID pkt = p \<Longrightarrow> pk_TargetParent pkt = t \<Longrightarrow> distinct (stations t as) \<Longrightarrow>
    route_ahead view X i p pr S n t as \<Longrightarrow>
    storable F (view (sy_world S)) i (pk_OriginNode pkt) (pk_RoutingPath pkt @ map nd_id as @ [last (stations t as)]) (fst (unpack X i pkt raw S)) \<Longrightarrow>
    \<exists>S' row. voyage X iv i n pkt as S S' \<and> st_telemetry (view (sy_world S')) = st_telemetry (view (sy_world S)) @ [row] \<and>
      row_says row (pk_OriginNode pkt) (last (stations t as)) (pk_HopCount pkt + int (length as)) (pk_RoutingPath pkt @ map nd_id as)
        (fst (unpack X i pkt raw S))"
proof (induction as arbitrary: S n t pkt)
  case Nil
  have sent: "transmitted X iv i n pkt S = HandleTransmit X i n pkt S"
    by (rule seaworthy_sent [OF Nil.prems(4)])
  from Nil.prems(9) obtain d e where "clear_link view X i p n t pr d S" and e: "edge_named (view (sy_world S)) t = Some e" by auto
  then have fly: "ready_to_fly view X i n pkt pr d S" using Nil.prems(2,3,4,6,7) by (simp add: ready_to_fly_def seaworthy_def)
  have dec: "DecodeString (pk_BinaryPayloadB64 pkt) = Some raw" using raw Nil.prems(5) by simp
  have st: "storable F (view (sy_world S)) i (pk_OriginNode pkt) (pk_RoutingPath pkt @ [pk_TargetParent pkt]) (fst (unpack X i pkt raw S))"
    using Nil.prems(10) by (simp add: stations_def Nil.prems(7))
  from transmit_delivers [OF X Nil.prems(1) fly _ dec st] e Nil.prems(7) last_hop [of X iv i n pkt S]
  show ?case unfolding sent by (auto simp: stations_def)
next
  case (Cons a as)
  let ?rf = "pkt\<lparr>pk_Event := EvMeshReceiveRF\<rparr>" and ?S1 = "HandleTransmit X i n pkt S"
  let ?pkt' = "relay_frame ?rf a"
  have sent: "transmitted X iv i n pkt S = ?S1"
    by (rule seaworthy_sent [OF Cons.prems(4)])
  from Cons.prems(9) obtain d where link: "clear_link view X i p n t pr d S" and ship: "edge_named (view (sy_world S)) t = None"
    and a: "nd_id a = t" "nd_routed a" "\<not> bad_id (nd_parent a)" "\<not> nd_seen a p" and ahead: "route_ahead view X i p pr S t (nd_parent a) as"
    by auto
  have fly: "ready_to_fly view X i n pkt pr d S" using link Cons.prems(2,3,4,6,7) by (simp add: ready_to_fly_def seaworthy_def)
  note tr = transmit_reaches [OF X Cons.prems(1) fly ship [folded Cons.prems(7)], unfolded Cons.prems(6,7)]
  have leaves: "hop_leaves view i p t S ?S1" using hop_leaves_transmit [OF X Cons.prems(1) fly] ship Cons.prems(6,7) by simp
  have far: "t \<notin> set (stations (nd_parent a) as)" "distinct (stations (nd_parent a) as)" using Cons.prems(8) by (auto simp: stations_def)
  have sea: "seaworthy ?pkt' t pr (length as)" "pk_HopCount ?pkt' = pk_HopCount pkt + 1"
    using relay_seaworthy [of pkt n pr "length as" a] Cons.prems(4,7) a(1,3) by simp_all
  have fields: "pk_BinaryPayloadB64 ?pkt' = b64" "pk_PacketID ?pkt' = p" "pk_TargetParent ?pkt' = nd_parent a"
    "pk_OriginNode ?pkt' = pk_OriginNode pkt" "pk_RoutingPath ?pkt' = pk_RoutingPath pkt @ [nd_id a]"
    using Cons.prems(5,6) by (simp_all add: relay_frame_def)
  have same: "unpack X i ?pkt' raw u = unpack X i pkt raw u" for u by (rule unpack_payload) (simp add: relay_frame_def)
  have dec: "fst (unpack X i ?pkt' raw ?S1) = fst (unpack X i pkt raw S)" unfolding same by (rule steady_unpack(3) [OF X tr(6)])
  have par: "stored_params (view (sy_world ?S1)) i = Some pr"
    using stored_params_keeps [OF tr(5), of i] Cons.prems(3) by (simp add: loop_keys)
  have route: "route_ahead view X i p pr ?S1 t (nd_parent a) as" using ahead hop_leaves_route [OF leaves far(1)] by simp
  have st: "storable F (view (sy_world ?S1)) i (pk_OriginNode ?pkt')
      (pk_RoutingPath ?pkt' @ map nd_id as @ [last (stations (nd_parent a) as)]) (fst (unpack X i ?pkt' raw ?S1))"
    using Cons.prems(10) tr(6) unfolding dec fields by (simp add: storable_def has_session_def tables_def stations_def)
  obtain S' row where rest: "voyage X iv i t ?pkt' as ?S1 S'"
    "st_telemetry (view (sy_world S')) = st_telemetry (view (sy_world ?S1)) @ [row]"
    "row_says row (pk_OriginNode pkt) (last (stations t (a # as))) (pk_HopCount pkt + int (length (a # as)))
      (pk_RoutingPath pkt @ map nd_id (a # as)) (fst (unpack X i pkt raw S))"
    using Cons.IH [OF tr(1,8) par sea(1) fields(1,2,3) far(2) route st] unfolding dec fields sea(2) by (auto simp: stations_def algebra_simps)
  obtain a1 a2 where relay: "reader (Inr (packet_json ?rf)) a = (True, [Acking ?rf], a1)" "handleReceive ?rf a1 = (Sending ?pkt' (Try 0), a2)"
    using ship_relays [OF Cons.prems(4) a(2,3)] a(4) Cons.prems(6) by metis
  have "can_queue (sy_hub S) i t" using link ship by (simp add: clear_link_def)
  then obtain q where "shipbox S i t = Some q" by (auto simp: can_queue_def inbox_def)
  then have box: "shipbox ?S1 i (nd_id a) = Some (q @ [FReceiveRF ?rf])" using tr(2) [of i t] a(1) by simp
  have "voyage X iv i n pkt (a # as) S S'"
    by (rule relayed [OF sent [symmetric] box relay]) (use rest(1) a(1) in simp)
  then show ?case using rest(2,3) tr(6) by (auto simp: tables_def)
qed

text \<open>
  C4. Store and forward works: in a world whose services answer and whose air is clear, a packet whose
  route ahead consists of ships that are connected, know their parents and have not seen it, and ends
  at an edge within five hops, travels along it: every ship finds it in its queue, reads it and
  transmits it to its parent, and at the end the telemetry table has gained exactly the row of the
  packet, with its origin, the edge, the number of hops, the names of all ships passed, and the payload
  decoded by the session's schema.
\<close>

theorem report_reaches_telemetry:
  assumes "steady F view X" "sys_inv S" "edges_known view S" "stored_params (view (sy_world S)) i = Some pr"
    and "seaworthy pkt n pr (length as)" "DecodeString (pk_BinaryPayloadB64 pkt) = Some raw"
    and "distinct (stations (pk_TargetParent pkt) as)" "route_ahead view X i (pk_PacketID pkt) pr S n (pk_TargetParent pkt) as"
    and "code = last (stations (pk_TargetParent pkt) as)" "path = pk_RoutingPath pkt @ map nd_id as" "payload = fst (unpack X i pkt raw S)"
    and "storable F (view (sy_world S)) i (pk_OriginNode pkt) (path @ [code]) payload"
  shows "\<exists>S' row. voyage X iv i n pkt as S S' \<and>
    st_telemetry (view (sy_world S')) = st_telemetry (view (sy_world S)) @ [row] \<and>
    tl_OriginNodeID row = pk_OriginNode pkt \<and> tl_EdgeCode row = code \<and> tl_HopCount row = pk_HopCount pkt + int (length as) \<and>
    tl_RoutingPath row = Join (path @ [code]) ''->'' \<and> tl_DecodedPayload row = payload"
proof -
  have "storable F (view (sy_world S)) i (pk_OriginNode pkt)
      (pk_RoutingPath pkt @ map nd_id as @ [last (stations (pk_TargetParent pkt) as)]) (fst (unpack X i pkt raw S))"
    using assms(9-12) by simp
  from voyage_arrives [OF assms(1,6) assms(2-5) refl refl refl assms(7,8) this, of iv] show ?thesis
    using assms(9-11) unfolding row_says_def by metis
qed

text \<open>Ship A's packet, relayed by ship B to the edge E.\<close>

theorem report_reaches_telemetry_witness:
  "\<exists>b S' row. voyage duo_X 0 ''S'' ''A'' (duo_pkt ''B'') [b] duo_sys S' \<and> st_telemetry (sy_world S') = [row] \<and>
     tl_EdgeCode row = ''E'' \<and> tl_HopCount row = 2 \<and> tl_RoutingPath row = ''A->B->E''"
proof -
  let ?p = "duo_pkt ''B''" and ?b = "first_node\<lparr>nd_id := ''B'', nd_routed := True, nd_parent := ''E''\<rparr>"
  have h: "hash_at duo_store (keyParams ''S'') = [(''spreading_factor'', Txt (Itoa 7)), (''tx_power_dbm'', Txt (Itoa 20)), (''weather_severity'', FloatTxt 1)]"
    "geo_at duo_store (keyGeo ''S'') = [(''A'', 0, 0), (''B'', 0, 0)]" by (simp_all add: duo_eval)
  have par: "stored_params (sy_world duo_sys) ''S'' = Some duo_params"
    using duo_flies by (simp add: ready_to_fly_def)
  have sea: "seaworthy ?p ''A'' duo_params (length [?b])"
    using duo_flies by (simp add: ready_to_fly_def seaworthy_def duo_pkt_def MaxHops_def)
  have link1: "clear_link (\<lambda>w. w) duo_X ''S'' ''p'' ''A'' ''B'' duo_params 0 duo_sys"
    using duo_flies by (simp add: ready_to_fly_def duo_pkt_simps)
  have edge: "edge_named duo_store ''E'' = Some duo_edge" by (simp add: edge_named_def duo_store_def duo_edge_def)
  have link2: "clear_link (\<lambda>w. w) duo_X ''S'' ''p'' ''B'' ''E'' duo_params 0 duo_sys"
    using link1 edge h(2) by (simp add: clear_link_def reach_def target_place_def duo_sys_def duo_edge_def haversine_self live_entry_def duo_store_def duo_keys)
  have ship: "route_ahead (\<lambda>w. w) duo_X ''S'' (pk_PacketID ?p) duo_params duo_sys ''A'' (pk_TargetParent ?p) [?b]"
    using link1 link2 edge duo_no_edge(1)
    by (auto simp: duo_pkt_simps duo_sys_def first_node_def new_node_def bad_id_def maxIDLength_def)
  have pay: "fst (unpack duo_X ''S'' ?p [1, 2, 3] duo_sys) = raw_payload ?p"
    by (simp add: unpack_def GetActive_def GetLatest_def on_world_def row_or_def duo_ops ref_LatestSchema_def duo_sys_def duo_store_def)
  have st: "storable plain_formats (sy_world duo_sys) ''S'' (pk_OriginNode ?p) ((pk_RoutingPath ?p @ map nd_id [?b]) @ [''E'']) (raw_payload ?p)"
    by (simp add: storable_def has_session_def duo_sys_def duo_store_def duo_session_def plain_formats_def raw_payload_def duo_pkt_def)
  have raw: "DecodeString (pk_BinaryPayloadB64 ?p) = Some [1, 2, 3]" by (simp add: duo_pkt_simps duo_payload)
  have dist: "distinct (stations (pk_TargetParent ?p) [?b])" "last (stations (pk_TargetParent ?p) [?b]) = ''E''"
    by (simp_all add: stations_def duo_pkt_simps)
  from report_reaches_telemetry [OF duo_steady duo_inv duo_no_edge(2) par sea raw dist(1) ship dist(2) [symmetric] refl pay [symmetric] st, of 0]
  obtain S' row where "voyage duo_X 0 ''S'' ''A'' ?p [?b] duo_sys S'" "st_telemetry (sy_world S') = st_telemetry (sy_world duo_sys) @ [row]"
    "tl_EdgeCode row = ''E''" "tl_HopCount row = pk_HopCount ?p + int (length [?b])"
    "tl_RoutingPath row = Join ((pk_RoutingPath ?p @ map nd_id [?b]) @ [''E'']) ''->''" by blast
  then show ?thesis by (intro exI [of _ ?b] exI [of _ S'] exI [of _ row]) (simp add: duo_sys_def duo_store_def duo_pkt_def)
qed

end
