(* ===== verification/Arrival.thy ===== *)
theory Arrival
  imports Voyage
begin

text \<open>
  From the fleet's positions to the telemetry table: the table \<open>BuildTopology\<close> computes, the directives
  the ships read, and the voyages along them.  Every ship the table routes can report, in exactly as many
  transmissions as its hop level says.
\<close>

section \<open>A fleet that obeys its table\<close>

definition routing_table :: "store \<Rightarrow> NodePosition list \<Rightarrow> SessionParams \<Rightarrow> string \<Rightarrow> RouteEntry option" where
  "routing_table st nodes pr = map_of (BuildTopology nodes (st_edges st) (MaxRangeKm (sp_TxPowerDbm pr)))"

text \<open>
  The ships of session \<open>i\<close> before a packet \<open>p\<close>: connected with room in their queues, at the positions
  Redis holds, named unlike any edge, and each has read the directive of its entry and not seen \<open>p\<close>.
\<close>

definition fleet_ready ::
  "('w \<Rightarrow> store) \<Rightarrow> 'w ext \<Rightarrow> string \<Rightarrow> string \<Rightarrow> SessionParams \<Rightarrow> NodePosition list \<Rightarrow> (string \<Rightarrow> node) \<Rightarrow> 'w sys \<Rightarrow> bool" where
  "fleet_ready view X i p pr nodes ships S \<longleftrightarrow>
     (let st = view (sy_world S) in
      distinct (map np_ID nodes) \<and> edges_known view S \<and> (\<forall>t. live_entry st (keyDedup i p t) = None) \<and>
      (\<forall>e \<in> set (st_edges st). \<not> bad_id (ed_EdgeCode e)) \<and>
      (\<forall>m \<in> set nodes. map_of (geo_at st (keyGeo i)) (np_ID m) = Some (np_Lat m, np_Lng m) \<and> can_queue (sy_hub S) i (np_ID m) \<and>
         edge_named st (np_ID m) = None \<and> \<not> bad_id (np_ID m)) \<and>
      (\<forall>j e. routing_table st nodes pr j = Some e \<longrightarrow>
         nd_id (ships j) = j \<and> \<not> nd_seen (ships j) p \<and>
         (\<exists>before d. ships j = snd (snd (reader (Inr (routing_json (routing_update e d))) before))) \<and>
         (re_Status e = RouteStatusRouted \<longrightarrow> clear_air X pr (re_DistanceKm e))))"

lemma read_directive:
  "reader (Inr (routing_json (routing_update e d))) n =
    (True, [], n\<lparr>nd_parent := re_Parent e, nd_parentIsEdge := re_ParentIsEdge e, nd_routed := (re_Status e = RouteStatusRouted)\<rparr>)"
  by (simp add: reader_def on_route_def read_route routing_update_def event_names RouteStatusRouted_def)

section \<open>The way along the parents\<close>

text \<open>One entry: an edge in range, or a routed ship one level below.\<close>

lemma entry_target:
  assumes ready: "fleet_ready view X i p pr nodes ships S" and e: "routing_table (view (sy_world S)) nodes pr j = Some e"
    and routed: "re_Status e = RouteStatusRouted"
  obtains "re_HopLevel e = 1" "edge_named (view (sy_world S)) (re_Parent e) \<noteq> None"
      "clear_link view X i p j (re_Parent e) pr (re_DistanceKm e) S" "\<not> bad_id (re_Parent e)"
  | e' where "1 < re_HopLevel e" "edge_named (view (sy_world S)) (re_Parent e) = None"
      "clear_link view X i p j (re_Parent e) pr (re_DistanceKm e) S" "\<not> bad_id (re_Parent e)"
      "routing_table (view (sy_world S)) nodes pr (re_Parent e) = Some e'" "re_Status e' = RouteStatusRouted" "re_HopLevel e' = re_HopLevel e - 1"
proof -
  let ?st = "view (sy_world S)" and ?r = "MaxRangeKm (sp_TxPowerDbm pr)"
  let ?E = "set (st_edges ?st)"
  note f = ready [unfolded fleet_ready_def Let_def]
  have d: "distinct (map np_ID nodes)" and codes: "distinct (map ed_EdgeCode (st_edges ?st))" using f by (auto simp: edges_known_def)
  have air: "clear_air X pr (re_DistanceKm e)" using f e routed by blast
  obtain n k where n: "n \<in> set nodes" "np_ID n = j" "min_hops ?r (set nodes) ?E n k" "k \<le> 5"
    "entry_ok ?r (level_cands ?r (set nodes) ?E k n) k n e"
    using BuildTopology_routed [OF d e [unfolded routing_table_def] routed] by blast
  have pos: "map_of (geo_at ?st (keyGeo i)) j = Some (np_Lat n, np_Lng n)" using f n(1,2) by blast
  have k: "0 < k" "re_HopLevel e = int k" using n(3,5) by (auto simp: min_hops_def entry_ok_def dest: hops_pos)
  have near: "(re_DistanceKm e, re_Parent e) \<in> level_cands ?r (set nodes) ?E k n" using n(5) by (auto simp: entry_ok_def nearest_def)
  show thesis
  proof (cases "k = 1")
    case True
    then obtain e0 where e0: "e0 \<in> ?E" "re_Parent e = ed_EdgeCode e0"
      "re_DistanceKm e = HaversineKm (np_Lat n) (np_Lng n) (ed_Latitude e0) (ed_Longitude e0)"
      using near by (auto simp: level_cands_def edge_cand_def)
    have named: "edge_named ?st (re_Parent e) = Some e0" using e0(1,2) find_distinct [OF codes] by (simp add: edge_named_def)
    have "clear_link view X i p j (re_Parent e) pr (re_DistanceKm e) S"
      using f pos air named e0(3) by (simp add: clear_link_def reach_def target_place_def)
    then show thesis using that(1) True k(2) named f e0(1,2) by auto
  next
    case False
    then obtain m where m: "m \<in> set nodes" "min_hops ?r (set nodes) ?E m (k - 1)" "re_Parent e = np_ID m"
      "re_DistanceKm e = HaversineKm (np_Lat n) (np_Lng n) (np_Lat m) (np_Lng m)"
      using near by (auto simp: level_cands_def node_cand_def)
    have "k - 1 \<le> 5" using n(4) by simp
    from BuildTopology_level_entry [OF d m(2) this] obtain e' where e': "routing_table ?st nodes pr (np_ID m) = Some e'"
      "re_Status e' = RouteStatusRouted" "re_HopLevel e' = int (k - 1)"
      by (auto simp: routing_table_def entry_ok_def)
    have none: "edge_named ?st (re_Parent e) = None" "\<not> bad_id (re_Parent e)" using f m(1,3) by auto
    have "clear_link view X i p j (re_Parent e) pr (re_DistanceKm e) S"
      using f pos air none m by (simp add: clear_link_def reach_def target_place_def)
    then show thesis using that(2) False k none e' m(3) by auto
  qed
qed

lemma way_ahead:
  assumes ready: "fleet_ready view X i p pr nodes ships S"
  shows "routing_table (view (sy_world S)) nodes pr j = Some e \<Longrightarrow> re_Status e = RouteStatusRouted \<Longrightarrow> re_HopLevel e = int (Suc k) \<Longrightarrow>
    \<exists>as. length as = k \<and> route_ahead view X i p pr S j (re_Parent e) as \<and>
      (\<exists>code. edge_named (view (sy_world S)) code \<noteq> None \<and> stations (re_Parent e) as = map nd_id as @ [code]) \<and>
      distinct (map nd_id as) \<and>
      (\<forall>m \<in> set (map nd_id as). edge_named (view (sy_world S)) m = None \<and>
         (\<exists>e'. routing_table (view (sy_world S)) nodes pr m = Some e' \<and> re_HopLevel e' \<le> int k))"
proof (induction k arbitrary: j e)
  case 0
  from ready 0(1,2) show ?case
  proof (cases rule: entry_target)
    case 1
    then show ?thesis by (intro exI [of _ "[]"]) (auto simp: stations_def)
  qed (use 0(3) in simp)
next
  case (Suc k)
  from ready Suc.prems(1,2) show ?case
  proof (cases rule: entry_target)
    case (2 e')
    let ?t = "re_Parent e"
    have "re_HopLevel e' = int (Suc k)" using 2(7) Suc.prems(3) by simp
    from Suc.IH [OF 2(5,6) this] obtain as code where as: "length as = k" "route_ahead view X i p pr S ?t (re_Parent e') as"
      "edge_named (view (sy_world S)) code \<noteq> None" "stations (re_Parent e') as = map nd_id as @ [code]" "distinct (map nd_id as)"
      "\<forall>m \<in> set (map nd_id as). edge_named (view (sy_world S)) m = None \<and>
         (\<exists>e''. routing_table (view (sy_world S)) nodes pr m = Some e'' \<and> re_HopLevel e'' \<le> int k)"
      by blast
    let ?a = "ships ?t"
    note f = ready [unfolded fleet_ready_def Let_def]
    obtain before d where rd: "nd_id ?a = ?t" "\<not> nd_seen ?a p" "?a = snd (snd (reader (Inr (routing_json (routing_update e' d))) before))"
      using f 2(5) by blast
    have a: "nd_routed ?a" "nd_parent ?a = re_Parent e'" by (subst rd(3), simp add: read_directive 2(6))+
    have bad: "\<not> bad_id (re_Parent e')" using ready 2(5,6) by (cases rule: entry_target) blast+
    have "route_ahead view X i p pr S j ?t (?a # as)" using 2(2,3) rd(1,2) a bad as(2) by auto
    moreover have "stations ?t (?a # as) = map nd_id (?a # as) @ [code]" using as(4) a(2) rd(1) by (simp add: stations_def)
    moreover have "?t \<notin> set (map nd_id as)" using as(6) 2(5,7) Suc.prems(3) by force
    moreover have "\<forall>m \<in> set (map nd_id (?a # as)). edge_named (view (sy_world S)) m = None \<and>
         (\<exists>e''. routing_table (view (sy_world S)) nodes pr m = Some e'' \<and> re_HopLevel e'' \<le> int (Suc k))"
      using as(6) rd(1) 2(2,5,7) Suc.prems(3) by force
    ultimately show ?thesis using as(1,3,5) rd(1) by (intro exI [of _ "?a # as"]) auto
  qed (use Suc.prems(3) in simp)
qed

section \<open>From the table to the telemetry\<close>

text \<open>
  C3. The scheduler's table is good for what it promises: in a world whose services answer and whose air
  is clear, a ship that the table of \<open>BuildTopology\<close> marks routed, in a fleet whose ships have read their
  directives, gets its report to the shore.  The packet it sends to the parent of its entry travels over
  exactly as many transmissions as the entry's hop level says, from ship to ship along the parents the
  directives named, and the telemetry table gains exactly one row for it: with the ship that reported, an
  edge that exists, the number of hops, the ships passed in order, and the decoded payload.
\<close>

theorem routed_ship_reports:
  assumes "steady F view X" "sys_inv S" "stored_params (view (sy_world S)) i = Some pr"
    and "fleet_ready view X i (pk_PacketID pkt) pr nodes ships S"
    and "routing_table (view (sy_world S)) nodes pr n = Some e" "re_Status e = RouteStatusRouted" "pk_TargetParent pkt = re_Parent e"
    and "seaworthy pkt n pr (nat (re_HopLevel e) - 1)" "DecodeString (pk_BinaryPayloadB64 pkt) = Some raw"
    and "payload = fst (unpack X i pkt raw S)"
    and "\<forall>names code. length names < nat (re_HopLevel e) \<and> edge_named (view (sy_world S)) code \<noteq> None \<longrightarrow>
      (\<forall>m \<in> set names. routing_table (view (sy_world S)) nodes pr m \<noteq> None) \<longrightarrow>
      storable F (view (sy_world S)) i (pk_OriginNode pkt) (pk_RoutingPath pkt @ names @ [code]) payload"
  shows "\<exists>S' row as code. voyage X iv i n pkt as S S' \<and> int (length as) + 1 = re_HopLevel e \<and>
    edge_named (view (sy_world S)) code \<noteq> None \<and> (\<forall>m \<in> set (map nd_id as). routing_table (view (sy_world S)) nodes pr m \<noteq> None) \<and>
    st_telemetry (view (sy_world S')) = st_telemetry (view (sy_world S)) @ [row] \<and>
    tl_OriginNodeID row = pk_OriginNode pkt \<and> tl_EdgeCode row = code \<and> tl_HopCount row = pk_HopCount pkt + re_HopLevel e - 1 \<and>
    tl_RoutingPath row = Join (pk_RoutingPath pkt @ map nd_id as @ [code]) ''->'' \<and> tl_DecodedPayload row = payload"
proof -
  let ?st = "view (sy_world S)" and ?k = "nat (re_HopLevel e) - 1"
  have level: "1 \<le> re_HopLevel e" using assms(4-6) by (cases rule: entry_target) auto
  then have lev: "re_HopLevel e = int (Suc ?k)" by simp
  from way_ahead [OF assms(4-6) lev] obtain as code where as: "length as = ?k"
    "route_ahead view X i (pk_PacketID pkt) pr S n (re_Parent e) as" "edge_named ?st code \<noteq> None"
    "stations (re_Parent e) as = map nd_id as @ [code]" "distinct (map nd_id as)"
    "\<forall>m \<in> set (map nd_id as). edge_named ?st m = None \<and> (\<exists>e'. routing_table ?st nodes pr m = Some e' \<and> re_HopLevel e' \<le> int ?k)"
    by blast
  have dist: "distinct (stations (re_Parent e) as)" "last (stations (re_Parent e) as) = code" using as(3-6) by auto
  have names: "\<forall>m \<in> set (map nd_id as). routing_table ?st nodes pr m \<noteq> None" using as(6) by blast
  have "length (map nd_id as) < nat (re_HopLevel e)" using as(1) level by simp
  then have st: "storable F ?st i (pk_OriginNode pkt) (pk_RoutingPath pkt @ map nd_id as @ [last (stations (re_Parent e) as)]) (fst (unpack X i pkt raw S))"
    unfolding dist(2) using assms(10,11) as(3) names by blast
  have ed: "edges_known view S" using assms(4) by (simp add: fleet_ready_def Let_def)
  from voyage_arrives [OF assms(1,9,2) ed assms(3,8) [folded as(1)] refl refl assms(7) dist(1) as(2) st, of iv]
  obtain S' row where v: "voyage X iv i n pkt as S S'" "st_telemetry (view (sy_world S')) = st_telemetry ?st @ [row]"
    "row_says row (pk_OriginNode pkt) code (pk_HopCount pkt + int (length as)) (pk_RoutingPath pkt @ map nd_id as) payload"
    unfolding dist(2) assms(10) by blast
  have n: "int (length as) + 1 = re_HopLevel e" using as(1) level by simp
  show ?thesis
    using v n names as(3) unfolding row_says_def
    by (intro exI [of _ S'] exI [of _ row] exI [of _ as] exI [of _ code]) auto
qed

section \<open>Two ships in a line\<close>

text \<open>The duo at the lowest power, four kilometres apart: the edge E, ship B, and ship A beyond its reach.\<close>

definition line_params :: SessionParams where
  "line_params = \<lparr>sp_SpreadingFactor = 7, sp_TxPowerDbm = 14, sp_WeatherSeverity = 1\<rparr>"

definition line_deg :: real where "line_deg = 720 / (earthRadiusKm * pi)"

definition line_nodes :: "NodePosition list" where
  "line_nodes = [\<lparr>np_ID = ''A'', np_Lat = 2 * line_deg, np_Lng = 0\<rparr>, \<lparr>np_ID = ''B'', np_Lat = line_deg, np_Lng = 0\<rparr>]"

definition line_sys :: "store sys" where
  "line_sys = duo_sys\<lparr>sy_world := duo_store\<lparr>st_keys :=
     [keyParams ''S'' \<mapsto> RHash [(''spreading_factor'', Txt (Itoa 7)), (''tx_power_dbm'', Txt (Itoa 14)), (''weather_severity'', FloatTxt 1)],
      keyGeo ''S'' \<mapsto> RGeo [(''A'', 2 * line_deg, 0), (''B'', line_deg, 0)]]\<rparr>\<rparr>"

definition line_ships :: "string \<Rightarrow> node" where
  "line_ships j = (case routing_table (sy_world line_sys) line_nodes line_params j of None \<Rightarrow> first_node
     | Some e \<Rightarrow> snd (snd (reader (Inr (routing_json (routing_update e 0))) (first_node\<lparr>nd_id := j\<rparr>))))"

lemma line_deg: "0 < line_deg" "line_deg < 1"
proof -
  show "0 < line_deg" by (simp add: line_deg_def earthRadiusKm_def)
  have "720 < 6371 * pi" using pi_ge_two by linarith
  then show "line_deg < 1" by (simp add: line_deg_def earthRadiusKm_def)
qed

lemma line_range: "MaxRangeKm 14 = 5"
  by (simp add: MaxRangeKm_def)

lemma line_dist: "\<bar>b - a\<bar> \<le> 2 \<Longrightarrow> HaversineKm (a * line_deg) 0 (b * line_deg) 0 = \<bar>b - a\<bar> * 4"
proof -
  assume "\<bar>b - a\<bar> \<le> 2"
  then have "\<bar>b - a\<bar> * line_deg \<le> 2 * 1" using line_deg by (intro mult_mono) auto
  moreover have "\<bar>b * line_deg - a * line_deg\<bar> = \<bar>b - a\<bar> * line_deg" using line_deg by (simp add: abs_mult flip: left_diff_distrib)
  ultimately show ?thesis using haversine_meridian [of "b * line_deg" "a * line_deg" 0] by (simp add: line_deg_def earthRadiusKm_def)
qed

lemma line_dists: "HaversineKm line_deg 0 0 0 = 4" "HaversineKm (2 * line_deg) 0 0 0 = 8" "HaversineKm (2 * line_deg) 0 line_deg 0 = 4"
  using line_dist [of 0 1] line_dist [of 0 2] line_dist [of 1 2] by simp_all

lemma line_levels:
  "min_hops 5 (set line_nodes) {duo_edge} \<lparr>np_ID = ''A'', np_Lat = 2 * line_deg, np_Lng = 0\<rparr> 2" (is "min_hops _ _ _ ?A 2")
proof -
  let ?B = "\<lparr>np_ID = ''B'', np_Lat = line_deg, np_Lng = 0\<rparr>"
  have B: "hops 5 (set line_nodes) {duo_edge} ?B 1"
    by (rule hops.direct) (simp_all add: line_nodes_def edge_link_def edge_cand_def duo_edge_def line_dists)
  have "hops 5 (set line_nodes) {duo_edge} ?A 2"
    using hops.relay [OF _ B, of ?A] by (simp add: line_nodes_def node_link_def node_cand_def line_dists numeral_2_eq_2)
  moreover have "\<not> hops 5 (set line_nodes) {duo_edge} ?A 1"
    by (auto elim!: hops_1E hops_0E simp: edge_link_def edge_cand_def duo_edge_def line_dists)
  ultimately show ?thesis by (auto simp: min_hops_def less_2_cases_iff dest: hops_pos)
qed

lemma line_world: "sy_hub line_sys = duo_hub" "sy_byCode line_sys = None"
  "hash_at (sy_world line_sys) (keyParams ''S'') = [(''spreading_factor'', Txt (Itoa 7)), (''tx_power_dbm'', Txt (Itoa 14)), (''weather_severity'', FloatTxt 1)]"
  "geo_at (sy_world line_sys) (keyGeo ''S'') = [(''A'', 2 * line_deg, 0), (''B'', line_deg, 0)]"
  "live_entry (sy_world line_sys) (keyDedup ''S'' ''p'' t) = None"
  by (simp_all add: line_sys_def duo_sys_def duo_store_def hash_at_def geo_at_def live_entry_def duo_keys)

lemma line_tables: "st_edges (sy_world line_sys) = [duo_edge]" "st_sessions (sy_world line_sys) = [duo_session]"
  "st_schemas (sy_world line_sys) = []" "st_telemetry (sy_world line_sys) = []"
  by (simp_all add: line_sys_def duo_sys_def duo_store_def)

lemma line_named: "edge_named (sy_world line_sys) t = (if t = ''E'' then Some duo_edge else None)"
  by (simp add: edge_named_def line_tables duo_edge_def)

lemma line_ready: "fleet_ready (\<lambda>w. w) duo_X ''S'' ''p'' line_params line_nodes line_ships line_sys"
proof -
  let ?T = "routing_table (sy_world line_sys) line_nodes line_params"
  have ship: "nd_id (line_ships j) = j \<and> \<not> nd_seen (line_ships j) ''p'' \<and>
      (\<exists>before d. line_ships j = snd (snd (reader (Inr (routing_json (routing_update e d))) before)))" if "?T j = Some e" for j e
  proof -
    have "line_ships j = snd (snd (reader (Inr (routing_json (routing_update e 0))) (first_node\<lparr>nd_id := j\<rparr>)))"
      using that by (simp add: line_ships_def)
    moreover from this have "nd_id (line_ships j) = j \<and> \<not> nd_seen (line_ships j) ''p''"
      by (simp add: read_directive first_node_def new_node_def)
    ultimately show ?thesis by blast
  qed
  have air: "clear_air duo_X line_params (re_DistanceKm e)" if T: "?T j = Some e" "re_Status e = RouteStatusRouted" for j e
  proof -
    have d: "distinct (map np_ID line_nodes)" by (simp add: line_nodes_def)
    obtain n k where "entry_ok 5 (level_cands 5 (set line_nodes) (set (st_edges (sy_world line_sys))) k n) k n e"
      using BuildTopology_routed [OF d T(1) [unfolded routing_table_def] T(2)] unfolding line_params_def SessionParams.simps line_range by blast
    then have "re_DistanceKm e \<le> 5" by (simp add: entry_ok_def nearest_def)
    then show ?thesis
      by (simp add: clear_air_def line_params_def line_range FinalLossPercent_def BaseLossPercent_def duo_ops)
  qed
  have "edges_known (\<lambda>w. w) line_sys" by (simp add: edges_known_def line_world(2) line_tables)
  moreover have "can_queue (sy_hub line_sys) ''S'' ''A''" "can_queue (sy_hub line_sys) ''S'' ''B''"
    by (simp_all add: line_world(1) can_queue_def duo_hub_eq node_ref_def session_nodes_def)
  ultimately show ?thesis using ship air
    by (auto simp: fleet_ready_def Let_def line_nodes_def line_world(4,5) line_tables line_named duo_edge_def bad_id_def maxIDLength_def)
qed

text \<open>Ship A reports through ship B to the edge E.\<close>

theorem routed_ship_reports_witness:
  "\<exists>pkt as S' row. voyage duo_X 0 ''S'' ''A'' pkt as line_sys S' \<and> length as = 1 \<and> st_telemetry (sy_world S') = [row] \<and>
     tl_EdgeCode row = ''E'' \<and> tl_HopCount row = 2"
proof -
  let ?w = "sy_world line_sys" and ?A = "\<lparr>np_ID = ''A'', np_Lat = 2 * line_deg, np_Lng = 0\<rparr>"
  have d: "distinct (map np_ID line_nodes)" by (simp add: line_nodes_def)
  have "min_hops (MaxRangeKm (sp_TxPowerDbm line_params)) (set line_nodes) (set (st_edges ?w)) ?A 2"
    using line_levels by (simp add: line_params_def line_range line_tables)
  from BuildTopology_level_entry [OF d this] obtain e where
    e: "routing_table ?w line_nodes line_params ''A'' = Some e" "re_Status e = RouteStatusRouted" "re_HopLevel e = 2"
    by (auto simp: routing_table_def entry_ok_def)
  let ?p = "duo_pkt (re_Parent e)"
  have bad: "\<not> bad_id (re_Parent e)" using line_ready e(1,2) by (cases rule: entry_target) blast+
  have inv: "sys_inv line_sys" using duo_inv by (simp add: line_sys_def)
  have par: "stored_params ?w ''S'' = Some line_params"
    by (simp add: stored_params_def line_world(3) line_params_def Atoi_Itoa int64_min_def int64_max_def)
  have ready: "fleet_ready (\<lambda>w. w) duo_X ''S'' (pk_PacketID ?p) line_params line_nodes line_ships line_sys"
    using line_ready by (simp add: duo_pkt_simps)
  have sea: "seaworthy ?p ''A'' line_params (nat (re_HopLevel e) - 1)"
    using bad by (simp add: seaworthy_def flyable_def duo_pkt_simps duo_payload e(3) line_params_def MaxPayloadBytes_def MaxHops_def)
      (simp add: duo_pkt_def valid_packet_def bad_id_def maxIDLength_def MaxHops_def)
  have raw: "DecodeString (pk_BinaryPayloadB64 ?p) = Some [1, 2, 3]" by (simp add: duo_pkt_simps duo_payload)
  have pay: "raw_payload ?p = fst (unpack duo_X ''S'' ?p [1, 2, 3] line_sys)"
    by (simp add: unpack_def GetActive_def GetLatest_def on_world_def row_or_def duo_ops ref_LatestSchema_def line_tables)
  have short: "length (Join (''A'' # names @ [''E'']) ''->'') \<le> 255"
    if "length names < 2" "\<forall>m \<in> set names. routing_table ?w line_nodes line_params m \<noteq> None" for names
  proof -
    have "set names \<subseteq> np_ID ` set line_nodes"
      using that(2) BuildTopology_table(2) [OF d] unfolding routing_table_def by blast
    then have "set names \<subseteq> {''A'', ''B''}" by (simp add: line_nodes_def)
    moreover from that(1) have "names = [] \<or> (\<exists>m. names = [m])" by (cases names) simp_all
    ultimately have "names \<in> {[], [''A''], [''B'']}" by fastforce
    then show ?thesis by (elim insertE emptyE) simp_all
  qed
  have st: "\<forall>names code. length names < nat (re_HopLevel e) \<and> edge_named ?w code \<noteq> None \<longrightarrow>
      (\<forall>m \<in> set names. routing_table ?w line_nodes line_params m \<noteq> None) \<longrightarrow>
      storable plain_formats ?w ''S'' (pk_OriginNode ?p) (pk_RoutingPath ?p @ names @ [code]) (raw_payload ?p)"
    using short by (simp add: storable_def has_session_def line_tables line_named duo_session_def plain_formats_def raw_payload_def duo_pkt_def e(3))
  note routed_ship_reports [OF duo_steady inv par ready e(1,2) duo_pkt_simps(2) sea raw pay st, of 0]
  then obtain S' row as code where "voyage duo_X 0 ''S'' ''A'' ?p as line_sys S'" "int (length as) + 1 = 2" "edge_named ?w code \<noteq> None"
    "st_telemetry (sy_world S') = [row]" "tl_EdgeCode row = code" "tl_HopCount row = 1 + 2 - 1"
    unfolding e(3) line_tables duo_pkt_simps append_Nil by blast
  moreover from this have "code = ''E''" by (simp add: line_named split: if_splits)
  ultimately show ?thesis by (intro exI [of _ ?p] exI [of _ as] exI [of _ S'] exI [of _ row]) simp
qed

end
