(* ===== verification/Threads.thy ===== *)
theory Threads
  imports Prelude
begin

text \<open>
  Goroutines that share a state.  A program is a tree of actions: an action is what the code does
  atomically (a command of a repository, a section under a lock, a read of the clock), and what comes
  next depends on what it returned.  \<open>run\<close> executes a program alone; \<open>pool_run\<close> interleaves the actions of
  any number of programs that begin at any time.  \<open>upholds\<close> is the rely-guarantee judgement: whatever
  steps within \<open>R\<close> the others take in between, every action of the program is a step within \<open>R\<close>.
\<close>

section \<open>Programs\<close>

datatype ('s, 'a) prog = Ret 'a | Act "'s \<Rightarrow> ('s, 'a) prog \<times> 's"

primrec run :: "('s, 'a) prog \<Rightarrow> 's \<Rightarrow> 'a \<times> 's" where
  "run (Ret x) = Pair x"
| "run (Act f) = (\<lambda>s. case map_prod run id (f s) of (k, s') \<Rightarrow> k s')"

primrec and_then :: "('s, 'a) prog \<Rightarrow> ('a \<Rightarrow> ('s, 'b) prog) \<Rightarrow> ('s, 'b) prog" where
  "and_then (Ret x) g = g x"
| "and_then (Act f) g = Act (\<lambda>s. map_prod (\<lambda>p. and_then p g) id (f s))"

text \<open>One action with a result, and one without.\<close>

definition call :: "('s \<Rightarrow> 'a \<times> 's) \<Rightarrow> ('s, 'a) prog" where
  "call f = Act (\<lambda>s. (Ret (fst (f s)), snd (f s)))"

definition act :: "('s \<Rightarrow> 's) \<Rightarrow> ('s, unit) prog" where
  "act f = call (\<lambda>s. ((), f s))"

definition seq :: "('s, unit) prog \<Rightarrow> ('s, 'b) prog \<Rightarrow> ('s, 'b) prog" where
  "seq p q = and_then p (\<lambda>_. q)"

primrec for_each :: "('a \<Rightarrow> ('s, unit) prog) \<Rightarrow> 'a list \<Rightarrow> ('s, unit) prog" where
  "for_each g [] = Ret ()"
| "for_each g (x # xs) = seq (g x) (for_each g xs)"

definition ignore :: "('s, 'a) prog \<Rightarrow> ('s, unit) prog" where
  "ignore p = and_then p (\<lambda>_. Ret ())"

named_theorems runs \<open>what a program does when it runs alone\<close>

lemma run_Act [simp]: "run (Act f) s = run (fst (f s)) (snd (f s))"
  by (simp add: case_prod_beta)

lemma run_Ret [simp]: "run (Ret x) s = (x, s)"
  by simp

declare run.simps [simp del]

lemma run_and_then [simp]: "run (and_then p g) s = run (g (fst (run p s))) (snd (run p s))"
proof (induction p arbitrary: s)
  case (Act f)
  show ?case using Act.IH [of "f s" "fst (f s)"] by (simp add: prod_set_defs)
qed simp

lemma run_call [simp]: "run (call f) s = f s"
  by (simp add: call_def)

lemma run_act [simp]: "run (act f) s = ((), f s)"
  by (simp add: act_def)

lemma run_seq [simp]: "run (seq p q) s = run q (snd (run p s))"
  by (simp add: seq_def)

lemma run_ignore [simp]: "run (ignore p) s = ((), snd (run p s))"
  by (simp add: ignore_def)

lemma run_for_each: "(\<And>x s. snd (run (g x) s) = f x s) \<Longrightarrow> run (for_each g xs) s = ((), fold f xs s)"
  by (induction xs arbitrary: s) simp_all

section \<open>Interleaving\<close>

text \<open>
  A pool: the state and the programs in flight, in the order in which they began.  The log of a run holds
  every action with the index of its program and the states before and after.
\<close>

type_synonym 's pool = "'s \<times> ('s, unit) prog list"

inductive pool_run :: "('s \<Rightarrow> ('s, unit) prog \<Rightarrow> bool) \<Rightarrow> ('s \<Rightarrow> 's \<Rightarrow> bool) \<Rightarrow> 's pool \<Rightarrow> (nat \<times> 's \<times> 's) list \<Rightarrow> 's pool \<Rightarrow> bool"
  for A :: "'s \<Rightarrow> ('s, unit) prog \<Rightarrow> bool" and E :: "'s \<Rightarrow> 's \<Rightarrow> bool" and c :: "'s pool" where
  idle_pool: "pool_run A E c [] c"
| begins: "pool_run A E c tr (s, ps) \<Longrightarrow> A s p \<Longrightarrow> pool_run A E c tr (s, ps @ [p])"
| acts: "pool_run A E c tr (s, ps) \<Longrightarrow> k < length ps \<Longrightarrow> ps ! k = Act f \<Longrightarrow> f s = (p, s') \<Longrightarrow>
    pool_run A E c (tr @ [(k, s, s')]) (s', ps[k := p])"
| ambient: "pool_run A E c tr (s, ps) \<Longrightarrow> E s s' \<Longrightarrow> pool_run A E c tr (s', ps)"

text \<open>A program in flight may go on alone to its end, whatever its place in the pool.\<close>

lemma pool_runs_at:
  assumes "pool_run A E c tr (s, ps)" "k < length ps"
  shows "\<exists>tr'. pool_run A E c tr' (snd (run (ps ! k) s), ps[k := Ret ()])"
proof -
  have "\<exists>tr'. pool_run A E c tr' (snd (run p s), ps[k := Ret (fst (run p s))])"
    if "pool_run A E c tr (s, ps)" "k < length ps" "ps ! k = p" for p ps tr
    using that
  proof (induction p arbitrary: s ps tr)
    case (Ret x)
    then show ?case by (metis fst_conv list_update_id run_Ret snd_conv)
  next
    case (Act f)
    obtain q s' where q: "f s = (q, s')" by force
    have "pool_run A E c (tr @ [(k, s, s')]) (s', ps[k := q])" by (rule acts [where f = f]) (use Act.prems in \<open>auto simp: q\<close>)
    moreover have "(q, s') \<in> range f" using q by (metis rangeI)
    ultimately show ?case using Act.IH [of "(q, s')" q _ s' "ps[k := q]"] Act.prems(2) q by (simp add: prod_set_defs)
  qed
  from this [OF assms refl] show ?thesis by simp
qed

lemma pool_runs_new:
  assumes "pool_run A E c tr (s, ps)" "A s p"
  shows "\<exists>tr'. pool_run A E c tr' (snd (run p s), ps @ [Ret ()])"
  using pool_runs_at [OF begins [OF assms], of "length ps"] by simp

text \<open>One action of a program in flight.\<close>

lemma pool_acts_at:
  assumes "pool_run A E c tr (s, ps)" "k < length ps" "ps ! k = and_then (call f) g"
  shows "pool_run A E c (tr @ [(k, s, snd (f s))]) (snd (f s), ps[k := g (fst (f s))])"
  by (rule acts [OF assms(1,2)]) (use assms(3) in \<open>auto simp: call_def\<close>)

lemma and_then_assoc: "and_then (and_then p g) h = and_then p (\<lambda>x. and_then (g x) h)"
proof (induction p)
  case (Act f)
  have "and_then (and_then (fst (f s)) g) h = and_then (fst (f s)) (\<lambda>x. and_then (g x) h)" for s
    by (rule Act.IH [of "f s"]) (simp_all add: prod_set_defs)
  then show ?case by (simp add: map_prod_def case_prod_beta)
qed simp

lemma and_then_Ret [simp]: "and_then p Ret = p"
proof (induction p)
  case (Act f)
  have "and_then (fst (f s)) Ret = fst (f s)" for s by (rule Act.IH [of "f s"]) (simp_all add: prod_set_defs)
  then show ?case by (simp add: map_prod_def case_prod_beta)
qed simp

lemma ignore_and_then: "ignore (and_then p g) = and_then p (\<lambda>x. ignore (g x))"
  by (simp add: ignore_def and_then_assoc)

section \<open>Rely and guarantee\<close>

definition stable :: "('s \<Rightarrow> 's \<Rightarrow> bool) \<Rightarrow> ('s \<Rightarrow> bool) \<Rightarrow> bool" where
  "stable R P \<longleftrightarrow> (\<forall>s s'. P s \<longrightarrow> R s s' \<longrightarrow> P s')"

primrec upholds :: "('s \<Rightarrow> 's \<Rightarrow> bool) \<Rightarrow> ('s, 'a) prog \<Rightarrow> ('s \<Rightarrow> bool) \<Rightarrow> ('a \<Rightarrow> 's \<Rightarrow> bool) \<Rightarrow> bool" where
  "upholds R (Ret x) = (\<lambda>P Q. \<forall>s. P s \<longrightarrow> Q x s)"
| "upholds R (Act f) = (\<lambda>P Q. \<forall>s. P s \<longrightarrow> R s (snd (f s)) \<and>
     (\<exists>P'. stable R P' \<and> P' (snd (f s)) \<and> fst (map_prod (upholds R) id (f s)) P' Q))"

lemma upholds_Ret [simp]: "upholds R (Ret x) P Q \<longleftrightarrow> (\<forall>s. P s \<longrightarrow> Q x s)"
  by simp

lemma upholds_Act: "upholds R (Act f) P Q \<longleftrightarrow> (\<forall>s. P s \<longrightarrow> R s (snd (f s)) \<and>
     (\<exists>P'. stable R P' \<and> P' (snd (f s)) \<and> upholds R (fst (f s)) P' Q))"
  by simp

declare upholds.simps [simp del]

lemma upholds_conseq: "upholds R p P Q \<Longrightarrow> (\<And>s. P' s \<Longrightarrow> P s) \<Longrightarrow> (\<And>x s. Q x s \<Longrightarrow> Q' x s) \<Longrightarrow> upholds R p P' Q'"
proof (induction p arbitrary: P P')
  case (Act f)
  show ?case
    unfolding upholds_Act
  proof (intro allI impI)
    fix s assume "P' s"
    then obtain P'' where "R s (snd (f s))" "stable R P''" "P'' (snd (f s))" "upholds R (fst (f s)) P'' Q"
      using Act.prems(1,2) unfolding upholds_Act by blast
    then show "R s (snd (f s)) \<and> (\<exists>P'. stable R P' \<and> P' (snd (f s)) \<and> upholds R (fst (f s)) P' Q')"
      using Act.IH [of "f s" "fst (f s)" P'' P''] Act.prems(3) by (auto simp: prod_set_defs)
  qed
qed simp

lemma upholds_and_then:
  "upholds R p P Q \<Longrightarrow> (\<And>x. upholds R (g x) (Q x) Q') \<Longrightarrow> upholds R (and_then p g) P Q'"
proof (induction p arbitrary: P)
  case (Ret x)
  have "upholds R (g x) P Q'" by (rule upholds_conseq [OF Ret.prems(2) [of x]]) (use Ret.prems(1) in auto)
  then show ?case by simp
next
  case (Act f)
  show ?case
    unfolding and_then.simps upholds_Act
  proof (intro allI impI)
    fix s assume "P s"
    then obtain P' where "R s (snd (f s))" "stable R P'" "P' (snd (f s))" "upholds R (fst (f s)) P' Q"
      using Act.prems(1) unfolding upholds_Act by blast
    then show "R s (snd (map_prod (\<lambda>p. and_then p g) id (f s))) \<and> (\<exists>P'. stable R P' \<and>
        P' (snd (map_prod (\<lambda>p. and_then p g) id (f s))) \<and> upholds R (fst (map_prod (\<lambda>p. and_then p g) id (f s))) P' Q')"
      using Act.IH [of "f s" "fst (f s)" P'] Act.prems(2) by (auto simp: prod_set_defs)
  qed
qed

lemma upholds_call:
  "(\<And>s. P s \<Longrightarrow> R s (snd (f s)) \<and> Q (fst (f s)) (snd (f s))) \<Longrightarrow> (\<And>x. stable R (Q x)) \<Longrightarrow> upholds R (call f) P Q"
  unfolding call_def upholds_Act by (intro allI impI conjI) (auto intro!: exI [of _ "Q (fst (f _))"])

lemma stable_True [simp]: "stable R (\<lambda>_. c)"
  by (simp add: stable_def)

text \<open>A program all of whose actions are within \<open>R\<close>, wherever they happen.\<close>

primrec safe :: "('s \<Rightarrow> 's \<Rightarrow> bool) \<Rightarrow> ('s, 'a) prog \<Rightarrow> bool" where
  "safe R (Ret x) = True"
| "safe R (Act f) = (\<forall>s. R s (snd (f s)) \<and> fst (map_prod (safe R) id (f s)))"

lemma safe_Ret [simp]: "safe R (Ret x)"
  by simp

lemma safe_Act: "safe R (Act f) \<longleftrightarrow> (\<forall>s. R s (snd (f s)) \<and> safe R (fst (f s)))"
  by simp

declare safe.simps [simp del]

lemma safe_upholds: "safe R p \<Longrightarrow> upholds R p P (\<lambda>_ _. True)"
proof (induction p arbitrary: P)
  case (Act f)
  have "upholds R (fst (f s)) (\<lambda>_. True) (\<lambda>_ _. True)" for s
    using Act.IH [of "f s" "fst (f s)"] Act.prems by (simp add: safe_Act prod_set_defs)
  then show ?case using Act.prems unfolding upholds_Act safe_Act by (intro allI impI conjI exI [of _ "\<lambda>_. True"]) simp_all
qed simp

lemma safe_and_then: "safe R p \<Longrightarrow> (\<And>x. safe R (g x)) \<Longrightarrow> safe R (and_then p g)"
proof (induction p)
  case (Act f)
  then show ?case using Act.IH [of "f _" "fst (f _)"] by (simp add: safe_Act prod_set_defs)
qed simp

text \<open>Going on with a result that the action can return.\<close>

lemma safe_call_then: "(\<And>s. R s (snd (f s))) \<Longrightarrow> (\<And>s x s'. f s = (x, s') \<Longrightarrow> safe R (g x)) \<Longrightarrow> safe R (and_then (call f) g)"
  by (simp add: call_def safe_Act) (metis prod.collapse)

lemma safe_call: "(\<And>s. R s (snd (f s))) \<Longrightarrow> safe R (call f)"
  by (simp add: call_def safe_Act)

lemma safe_act: "(\<And>s. R s (f s)) \<Longrightarrow> safe R (act f)"
  unfolding act_def by (rule safe_call) simp

lemma safe_seq: "safe R p \<Longrightarrow> safe R q \<Longrightarrow> safe R (seq p q)"
  unfolding seq_def by (rule safe_and_then)

lemma safe_ignore: "safe R p \<Longrightarrow> safe R (ignore p)"
  unfolding ignore_def by (rule safe_and_then) simp_all

lemma safe_for_each: "(\<And>x. x \<in> set xs \<Longrightarrow> safe R (g x)) \<Longrightarrow> safe R (for_each g xs)"
  by (induction xs) (auto intro: safe_seq)

lemma safe_sum: "(\<And>e. r = Inl e \<Longrightarrow> safe R (a e)) \<Longrightarrow> (\<And>x. r = Inr x \<Longrightarrow> safe R (b x)) \<Longrightarrow>
    safe R (case r of Inl e \<Rightarrow> a e | Inr x \<Rightarrow> b x)"
  by (cases r) auto

lemma safe_option: "(r = None \<Longrightarrow> safe R a) \<Longrightarrow> (\<And>x. r = Some x \<Longrightarrow> safe R (b x)) \<Longrightarrow>
    safe R (case r of None \<Rightarrow> a | Some x \<Rightarrow> b x)"
  by (cases r) auto

lemma safe_if: "(q \<Longrightarrow> safe R a) \<Longrightarrow> (\<not> q \<Longrightarrow> safe R b) \<Longrightarrow> safe R (if q then a else b)"
  by simp

lemma safe_pair: "(\<And>x y. r = (x, y) \<Longrightarrow> safe R (g x y)) \<Longrightarrow> safe R (case r of (x, y) \<Rightarrow> g x y)"
  by (cases r) auto

lemma safe_gerr:
  "safe R a \<Longrightarrow> safe R b \<Longrightarrow> safe R c \<Longrightarrow> (\<And>v. safe R (d v)) \<Longrightarrow> (\<And>m t. safe R (f m t)) \<Longrightarrow>
   safe R (case e of ErrNotFound \<Rightarrow> a | ErrSessionInactive \<Rightarrow> b | ErrSessionStillActive \<Rightarrow> c | ErrValidation v \<Rightarrow> d v | ErrOther m t \<Rightarrow> f m t)"
  by (cases e) auto

lemmas safe_flow = safe_Ret safe_seq safe_ignore safe_sum safe_option safe_if safe_pair safe_gerr

section \<open>All programs together\<close>

locale rely =
  fixes R :: "'s \<Rightarrow> 's \<Rightarrow> bool"
  assumes same_state: "R s s" and steps: "R s s' \<Longrightarrow> R s' s'' \<Longrightarrow> R s s''"
begin

text \<open>
  If every program in flight, and every program that may begin, upholds \<open>R\<close> from a stable condition that holds
  there, then every run stays within \<open>R\<close>: so do the states of its log, each action with all the later ones.
\<close>

definition ordered :: "'s \<Rightarrow> (nat \<times> 's \<times> 's) list \<Rightarrow> 's \<Rightarrow> bool" where
  "ordered s0 tr s \<longleftrightarrow> R s0 s \<and> (\<forall>(k, u, u') \<in> set tr. R s0 u \<and> R u u' \<and> R u' s) \<and> sorted_wrt (\<lambda>(k, u, u') (l, v, v'). R u' v) tr"

lemma ordered_later: "ordered s0 tr s \<Longrightarrow> R s s' \<Longrightarrow> ordered s0 tr s'"
  unfolding ordered_def by (auto intro: steps)

lemma ordered_action: "ordered s0 tr s \<Longrightarrow> R s s' \<Longrightarrow> ordered s0 (tr @ [(k, s, s')]) s'"
  unfolding ordered_def sorted_wrt_append by (auto intro: steps same_state)

definition keeping :: "'s \<Rightarrow> ('s, unit) prog \<Rightarrow> bool" where
  "keeping s p \<longleftrightarrow> (\<exists>P. stable R P \<and> P s \<and> upholds R p P (\<lambda>_ _. True))"

lemma keeping_later: "keeping s p \<Longrightarrow> R s s' \<Longrightarrow> keeping s' p"
  unfolding keeping_def stable_def by blast

lemma safe_keeping: "safe R p \<Longrightarrow> keeping s p"
  unfolding keeping_def using safe_upholds [of R p "\<lambda>_. True"] by (intro exI [of _ "\<lambda>_. True"]) simp

lemma keeping_action: "keeping s (Act f) \<Longrightarrow> f s = (p, s') \<Longrightarrow> R s s' \<and> keeping s' p"
  unfolding keeping_def upholds_Act by (metis fst_conv snd_conv)

theorem pool_upholds:
  assumes "pool_run A E (s0, ps0) tr (s, ps)" "stable R I" "I s0" "\<forall>p \<in> set ps0. keeping s0 p"
    and "\<And>u p. A u p \<Longrightarrow> I u \<Longrightarrow> keeping u p" "\<And>u u'. E u u' \<Longrightarrow> R u u'"
  shows "ordered s0 tr s \<and> I s \<and> (\<forall>p \<in> set ps. keeping s p)"
  using assms(1)
proof (induction tr "(s, ps)" arbitrary: s ps rule: pool_run.induct)
  case idle_pool
  show ?case using assms(3,4) same_state by (simp add: ordered_def)
next
  case (begins tr s ps p)
  then show ?case using assms(5) [of s p] by auto
next
  case (acts tr s ps k f p s')
  have "Act f \<in> set ps" using acts.hyps(3,4) by (metis nth_mem)
  then have new: "R s s'" "keeping s' p" using acts.hyps(2,5) keeping_action by blast+
  have "keeping s' q" if "q \<in> set (ps[k := p])" for q
    using that set_update_subset_insert [of ps k p] acts.hyps(2) keeping_later [OF _ new(1)] new(2) by blast
  then show ?case using acts.hyps(2) new(1) ordered_action assms(2) unfolding stable_def by blast
next
  case (ambient tr s ps s')
  then show ?case using assms(2) assms(6) [OF ambient.hyps(3)] ordered_later keeping_later unfolding stable_def by blast
qed

end

section \<open>Credit\<close>

text \<open>
  A program earns one credit with every action \<open>win\<close> and spends one with every action \<open>pay\<close>: \<open>affords\<close> says that
  from \<open>n\<close> credits it never spends more than it has, as long as its actions start in states of \<open>I\<close>.  In a pool
  of such programs the actions \<open>pay\<close> are no more than the actions \<open>win\<close>, however they interleave.
\<close>

primrec affords :: "('s \<Rightarrow> bool) \<Rightarrow> ('s \<Rightarrow> 's \<Rightarrow> bool) \<Rightarrow> ('s \<Rightarrow> 's \<Rightarrow> bool) \<Rightarrow> ('s, 'a) prog \<Rightarrow> nat \<Rightarrow> ('a \<Rightarrow> nat \<Rightarrow> bool) \<Rightarrow> bool" where
  "affords I win pay (Ret x) = (\<lambda>n Q. Q x n)"
| "affords I win pay (Act f) = (\<lambda>n Q. \<forall>s. I s \<longrightarrow>
     (\<exists>m. m + of_bool (pay s (snd (f s))) \<le> n + of_bool (win s (snd (f s))) \<and> fst (map_prod (affords I win pay) id (f s)) m Q))"

lemma affords_Ret [simp]: "affords I win pay (Ret x) n Q \<longleftrightarrow> Q x n"
  by simp

lemma affords_Act: "affords I win pay (Act f) n Q \<longleftrightarrow> (\<forall>s. I s \<longrightarrow>
     (\<exists>m. m + of_bool (pay s (snd (f s))) \<le> n + of_bool (win s (snd (f s))) \<and> affords I win pay (fst (f s)) m Q))"
  by simp

declare affords.simps [simp del]

lemma affords_and_then:
  "affords I win pay p n Q \<Longrightarrow> (\<And>x m. Q x m \<Longrightarrow> affords I win pay (g x) m Q') \<Longrightarrow> affords I win pay (and_then p g) n Q'"
proof (induction p arbitrary: n)
  case (Act f)
  show ?case
    unfolding and_then.simps affords_Act
  proof (intro allI impI)
    fix s assume "I s"
    then obtain m where m: "m + of_bool (pay s (snd (f s))) \<le> n + of_bool (win s (snd (f s)))" "affords I win pay (fst (f s)) m Q"
      using Act.prems(1) unfolding affords_Act by blast
    have "affords I win pay (and_then (fst (f s)) g) m Q'"
      using Act.IH [of "f s" "fst (f s)", OF _ _ m(2) Act.prems(2)] by (simp add: prod_set_defs)
    then show "\<exists>m. m + of_bool (pay s (snd (map_prod (\<lambda>p. and_then p g) id (f s)))) \<le> n + of_bool (win s (snd (map_prod (\<lambda>p. and_then p g) id (f s)))) \<and>
        affords I win pay (fst (map_prod (\<lambda>p. and_then p g) id (f s))) m Q'"
      using m(1) by auto
  qed
qed simp

lemma affords_conseq: "affords I win pay p n Q \<Longrightarrow> (\<And>x m. Q x m \<Longrightarrow> Q' x m) \<Longrightarrow> affords I win pay p n Q'"
  using affords_and_then [of I win pay p n Q Ret Q'] by simp

lemma affords_call:
  "(\<And>s. I s \<Longrightarrow> \<exists>m. m + of_bool (pay s (snd (f s))) \<le> n + of_bool (win s (snd (f s))) \<and> Q (fst (f s)) m) \<Longrightarrow>
   affords I win pay (call f) n Q"
  by (simp add: call_def affords_Act)

text \<open>Programs that never pay.\<close>

lemma affords_safe: "safe R p \<Longrightarrow> (\<And>s s'. R s s' \<Longrightarrow> I s \<Longrightarrow> \<not> pay s s') \<Longrightarrow> affords I win pay p n (\<lambda>_ m. m = n)"
proof (induction p)
  case (Act f)
  have "affords I win pay (fst (f s)) n (\<lambda>_ m. m = n)" for s
    using Act.IH [of "f s" "fst (f s)"] Act.prems by (simp add: safe_Act prod_set_defs)
  then show ?case using Act.prems unfolding affords_Act safe_Act by (intro allI impI exI [of _ n]) simp
qed simp

lemma affords_sum: "(\<And>e. r = Inl e \<Longrightarrow> affords I win pay (a e) n Q) \<Longrightarrow> (\<And>x. r = Inr x \<Longrightarrow> affords I win pay (b x) n Q) \<Longrightarrow>
    affords I win pay (case r of Inl e \<Rightarrow> a e | Inr x \<Rightarrow> b x) n Q"
  by (cases r) auto

lemma affords_option: "(r = None \<Longrightarrow> affords I win pay a n Q) \<Longrightarrow> (\<And>x. r = Some x \<Longrightarrow> affords I win pay (b x) n Q) \<Longrightarrow>
    affords I win pay (case r of None \<Rightarrow> a | Some x \<Rightarrow> b x) n Q"
  by (cases r) auto

lemma affords_if: "(q \<Longrightarrow> affords I win pay a n Q) \<Longrightarrow> (\<not> q \<Longrightarrow> affords I win pay b n Q) \<Longrightarrow> affords I win pay (if q then a else b) n Q"
  by simp

lemma affords_pair: "(\<And>x y. r = (x, y) \<Longrightarrow> affords I win pay (g x y) n Q) \<Longrightarrow> affords I win pay (case r of (x, y) \<Rightarrow> g x y) n Q"
  by (cases r) auto

lemmas affords_flow = affords_Ret [THEN iffD2] affords_sum affords_option affords_if affords_pair

definition paid :: "nat \<Rightarrow> ('s \<Rightarrow> 's \<Rightarrow> bool) \<Rightarrow> (nat \<times> 's \<times> 's) list \<Rightarrow> nat" where
  "paid n pay tr = length (filter (\<lambda>(k, u, u'). k < n \<and> pay u u') tr)"

lemma paid_simps [simp]: "paid n pay [] = 0"
  "paid n pay (tr @ [(k, u, u')]) = paid n pay tr + of_bool (k < n \<and> pay u u')"
  by (simp_all add: paid_def)

lemma sum_list_swap: "k < length cs \<Longrightarrow> sum_list (cs[k := m]) + cs ! k = sum_list cs + (m :: nat)"
  by (induction cs arbitrary: k) (auto simp: nth_Cons split: nat.split)

theorem pool_affords:
  assumes "pool_run A E (s0, ps0) tr (s, ps)" "\<forall>p \<in> set ps0. \<exists>Q. affords I win pay p 0 Q" "\<forall>(k, u, u') \<in> set tr. I u"
  shows "paid (length ps0) pay tr \<le> paid (length ps0) win tr"
proof -
  let ?n = "length ps0"
  have "\<exists>cs. length cs = ?n \<and> ?n \<le> length ps \<and> (\<forall>k < ?n. \<exists>Q. affords I win pay (ps ! k) (cs ! k) Q) \<and>
      paid ?n pay tr + sum_list cs \<le> paid ?n win tr"
    using assms(1,3)
  proof (induction tr "(s, ps)" arbitrary: s ps rule: pool_run.induct)
    case idle_pool
    show ?case using assms(2) by (intro exI [of _ "replicate ?n 0"]) (simp add: sum_list_replicate)
  next
    case (begins tr s ps p)
    then obtain cs where "length cs = ?n" "?n \<le> length ps" "\<forall>k < ?n. \<exists>Q. affords I win pay (ps ! k) (cs ! k) Q"
        "paid ?n pay tr + sum_list cs \<le> paid ?n win tr" by blast
    then show ?case by (intro exI [of _ cs]) (simp add: nth_append)
  next
    case (acts tr s ps k f p s')
    then obtain cs where cs: "length cs = ?n" "?n \<le> length ps" "\<forall>k < ?n. \<exists>Q. affords I win pay (ps ! k) (cs ! k) Q"
        "paid ?n pay tr + sum_list cs \<le> paid ?n win tr" by auto
    show ?case
    proof (cases "k < ?n")
      case False
      then show ?thesis using cs by (intro exI [of _ cs]) simp
    next
      case True
      then obtain Q where "affords I win pay (Act f) (cs ! k) Q" using cs(3) acts.hyps(4) by metis
      then obtain m where m: "m + of_bool (pay s s') \<le> cs ! k + of_bool (win s s')" "affords I win pay p m Q"
        using acts.hyps(5) acts.prems unfolding affords_Act by fastforce
      have "sum_list (cs[k := m]) + cs ! k = sum_list cs + m" using sum_list_swap True cs(1) by metis
      then have "paid ?n pay (tr @ [(k, s, s')]) + sum_list (cs[k := m]) \<le> paid ?n win (tr @ [(k, s, s')])"
        using m(1) cs(4) True by simp
      moreover have "\<forall>l < ?n. \<exists>Q. affords I win pay (ps[k := p] ! l) (cs[k := m] ! l) Q"
      proof (intro allI impI)
        fix l assume "l < ?n"
        then show "\<exists>Q. affords I win pay (ps[k := p] ! l) (cs[k := m] ! l) Q"
          using cs(1-3) m(2) True by (cases "l = k") auto
      qed
      ultimately show ?thesis using cs(1,2) by (intro exI [of _ "cs[k := m]"]) simp
    qed
  next
    case (ambient tr s ps s')
    then show ?case by blast
  qed
  then show ?thesis by auto
qed

end
