(* ===== verification/Programs.thy ===== *)
theory Programs
  imports Threads Backend
begin

text \<open>
  The handlers as programs of atomic actions, in the order of the code: each command of a repository, each
  section under a lock of the hub, the scheduler or the edge cache, each read of the clock or the dice is
  one action.  Each program run alone is its handler, the function of the earlier theories (lemmas \<open>runs\<close>);
  what other goroutines do in between is the subject of the later theories.  \<open>AllPositions\<close>, which reads
  Redis twice, and the opening and the teardown of a connection count as one action each.
\<close>

section \<open>The hub\<close>

definition cmd :: "('w \<Rightarrow> 'a \<times> 'w) \<Rightarrow> ('w sys, 'a) prog" where
  "cmd f = call (on_world f)"

definition look :: "('w sys \<Rightarrow> 'a) \<Rightarrow> ('w sys, 'a) prog" where
  "look f = call (\<lambda>s. (f s, s))"

lemma run_cmd [simp]: "run (cmd f) s = on_world f s"
  by (simp add: cmd_def)

lemma run_look [simp]: "run (look f) s = (f s, s)"
  by (simp add: look_def)

definition close_client :: "cref \<Rightarrow> 'w sys \<Rightarrow> 'w sys" where
  "close_client c s = s\<lparr>sy_hub := Close c (sy_hub s)\<rparr>"

definition SendToNode_prog :: "string \<Rightarrow> string \<Rightarrow> frame \<Rightarrow> ('w sys, unit) prog" where
  "SendToNode_prog i n f =
     and_then (look (\<lambda>s. node_ref (sy_hub s) i n))
       (\<lambda>r. case r of None \<Rightarrow> Ret () | Some c \<Rightarrow> act (monitor_send c f))"

definition BroadcastToNodes_prog :: "string \<Rightarrow> frame \<Rightarrow> ('w sys, unit) prog" where
  "BroadcastToNodes_prog i f =
     and_then (look (\<lambda>s. snapshotNodes i (sy_hub s))) (for_each (\<lambda>c. act (monitor_send c f)))"

definition BroadcastToMonitors_prog :: "string \<Rightarrow> frame \<Rightarrow> ('w sys, unit) prog" where
  "BroadcastToMonitors_prog i f =
     and_then (look (\<lambda>s. session_monitors (sy_hub s) i = []))
       (\<lambda>none. if none then Ret ()
          else and_then (look (\<lambda>s. snapshotMonitors i (sy_hub s))) (for_each (\<lambda>c. act (monitor_send c f))))"

definition KickSession_prog :: "string \<Rightarrow> ('w sys, unit) prog" where
  "KickSession_prog i =
     and_then (look (\<lambda>s. snapshotNodes i (sy_hub s))) (\<lambda>ns.
     and_then (look (\<lambda>s. snapshotMonitors i (sy_hub s))) (\<lambda>ms.
     for_each (\<lambda>c. act (close_client c)) (ns @ ms)))"

definition Shutdown_prog :: "('w sys, unit) prog" where
  "Shutdown_prog = and_then (look (\<lambda>s. all_refs (sy_hub s))) (for_each (\<lambda>c. act (close_client c)))"

lemma fold_hub:
  assumes "\<And>c s. g c s = s\<lparr>sy_hub := h c (sy_hub s)\<rparr>"
  shows "fold g cs s = s\<lparr>sy_hub := fold h cs (sy_hub s)\<rparr>"
  by (induction cs arbitrary: s) (simp_all add: assms)

lemma run_sends: "run (for_each (\<lambda>c. act (monitor_send c f)) cs) s = ((), s\<lparr>sy_hub := send_all cs f (sy_hub s)\<rparr>)"
proof -
  have "run (for_each (\<lambda>c. act (monitor_send c f)) cs) s = ((), fold (\<lambda>c. monitor_send c f) cs s)"
    by (rule run_for_each) simp
  also have "fold (\<lambda>c. monitor_send c f) cs s = s\<lparr>sy_hub := fold (\<lambda>c h. snd (trySend c f h)) cs (sy_hub s)\<rparr>"
    by (rule fold_hub) (simp add: monitor_send_def on_hub_def)
  finally show ?thesis by (simp add: send_all_def)
qed

lemma run_closes: "run (for_each (\<lambda>c. act (close_client c)) cs) s = ((), s\<lparr>sy_hub := fold Close cs (sy_hub s)\<rparr>)"
proof -
  have "run (for_each (\<lambda>c. act (close_client c)) cs) s = ((), fold close_client cs s)" by (rule run_for_each) simp
  also have "fold close_client cs s = s\<lparr>sy_hub := fold Close cs (sy_hub s)\<rparr>" by (rule fold_hub) (simp add: close_client_def)
  finally show ?thesis .
qed

lemma hub_runs [runs]:
  "run (SendToNode_prog i n f) s = ((), send_node i n f s)"
  "run (BroadcastToNodes_prog i f) s = ((), to_nodes i f s)"
  "run (BroadcastToMonitors_prog i f) s = ((), to_monitors i f s)"
  "run (KickSession_prog i) s = ((), kick_session i s)"
  "run Shutdown_prog s = ((), s\<lparr>sy_hub := Shutdown (sy_hub s)\<rparr>)"
  by (simp_all add: SendToNode_prog_def send_node_def SendToNode_def monitor_send_def on_hub_def BroadcastToNodes_prog_def
      to_nodes_def BroadcastToNodes_def BroadcastToMonitors_prog_def to_monitors_def BroadcastToMonitors_def KickSession_prog_def
      kick_session_def KickSession_def Shutdown_prog_def Shutdown_def run_sends run_closes split: option.split)

section \<open>Engine\<close>

definition incr_prog :: "'w ext \<Rightarrow> string \<Rightarrow> string \<Rightarrow> ('w sys, unit) prog" where
  "incr_prog X i field = ignore (cmd (IncrStat X i field))"

definition emitPacketEvent_prog :: "'w ext \<Rightarrow> string \<Rightarrow> PacketEvent \<Rightarrow> ('w sys, unit) prog" where
  "emitPacketEvent_prog X i ev =
     and_then (cmd (xClock X)) (\<lambda>now. BroadcastToMonitors_prog i (FPacketEvent (ev\<lparr>pe_Event := EvPacketEvent, pe_At := now\<rparr>)))"

definition reject_prog :: "'w ext \<Rightarrow> string \<Rightarrow> string \<Rightarrow> string \<Rightarrow> string \<Rightarrow> ('w sys, unit) prog" where
  "reject_prog X i sender code msg =
     seq (incr_prog X i StatDroppedInvalid) (SendToNode_prog i sender (errorEvent code msg))"

definition drop_prog :: "'w ext \<Rightarrow> string \<Rightarrow> TransmitPacket \<Rightarrow> string \<Rightarrow> string \<Rightarrow> TraversalVerdict option \<Rightarrow> ('w sys, unit) prog" where
  "drop_prog X i pkt reason statField verdict =
     seq (incr_prog X i statField) (emitPacketEvent_prog X i (packet_event PktDrop pkt verdict reason))"

definition roll_prog :: "'w ext \<Rightarrow> real \<Rightarrow> SessionParams \<Rightarrow> ('w sys, TraversalVerdict) prog" where
  "roll_prog X distKm params = cmd (Evaluate (xRand X) distKm params)"

definition HandlePing_prog :: "'w ext \<Rightarrow> duration \<Rightarrow> string \<Rightarrow> string \<Rightarrow> real \<Rightarrow> real \<Rightarrow> ('w sys, unit) prog" where
  "HandlePing_prog X iv i n lat lng =
     (if lat < -90 \<or> lat > 90 \<or> lng < -180 \<or> lng > 180
      then SendToNode_prog i n (errorEvent ''invalid_coordinates'' ''out of range'')
      else and_then (cmd (AllowPing X i n iv)) (\<lambda>r. case r of
          Inl _ \<Rightarrow> Ret ()
        | Inr allowed \<Rightarrow>
            (if \<not> allowed then incr_prog X i StatPingsRateLimited
             else and_then (cmd (UpsertPosition X i n lat lng)) (\<lambda>r. case r of
                 Inl _ \<Rightarrow> Ret ()
               | Inr _ \<Rightarrow> seq (incr_prog X i StatPingsAccepted) (BroadcastToMonitors_prog i
                   (FNodePing \<lparr>ng_Event = EvNodePing, ng_NodeID = n, ng_SessionID = i, ng_Lat = lat, ng_Lng = lng\<rparr>))))))"

definition handleDuplicate_prog ::
  "'w ext \<Rightarrow> string \<Rightarrow> TransmitPacket \<Rightarrow> string \<Rightarrow> real \<Rightarrow> SessionParams \<Rightarrow> TraversalVerdict \<Rightarrow> ('w sys, unit) prog" where
  "handleDuplicate_prog X i pkt transmitter distKm params verdict =
     seq (incr_prog X i StatDuplicatesFiltered)
    (seq (emitPacketEvent_prog X i
           ((packet_event PktDuplicate pkt (Some verdict) ''duplicate retry filtered'')\<lparr>pe_FromNode := transmitter\<rparr>))
    (and_then (roll_prog X distKm params) (\<lambda>back.
       if tv_Dropped back then incr_prog X i StatAcksDropped
       else SendToNode_prog i transmitter (mesh_ack (pk_PacketID pkt) (pk_TargetParent pkt) ''received'' True))))"

definition forwardToNode_prog ::
  "'w ext \<Rightarrow> string \<Rightarrow> TransmitPacket \<Rightarrow> string \<Rightarrow> TraversalVerdict \<Rightarrow> ('w sys, unit) prog" where
  "forwardToNode_prog X i pkt transmitter verdict =
     seq (ignore (cmd (RememberAckSender X i (pk_PacketID pkt) (pk_TargetParent pkt) transmitter)))
    (seq (SendToNode_prog i (pk_TargetParent pkt) (FReceiveRF (pkt\<lparr>pk_Event := EvMeshReceiveRF\<rparr>)))
    (seq (incr_prog X i StatForwardedToNode)
         (emitPacketEvent_prog X i ((packet_event PktForward pkt (Some verdict) [])\<lparr>pe_FromNode := transmitter\<rparr>))))"

definition unpack_with :: "'w ext \<Rightarrow> TransmitPacket \<Rightarrow> bytes \<Rightarrow> DynamicSchema res \<Rightarrow> jmap" where
  "unpack_with X pkt payload r =
     (case r of
        Inl _ \<Rightarrow> raw_payload pkt
      | Inr schema \<Rightarrow>
          (let (dec, problems) =
                 DecodePayload (xUnmarshalMap X) (xUnmarshalArray X) (xFloatToInt X) payload (ds_Fields schema);
               decoded = (case dec of Some d \<Rightarrow> map (\<lambda>(k, v). (k, JVal v)) d | None \<Rightarrow> raw_payload pkt)
           in if problems \<noteq> [] then AList.update ''_schema_problems'' (JProblems problems) decoded else decoded))"

definition return_ack_prog ::
  "'w ext \<Rightarrow> string \<Rightarrow> string \<Rightarrow> string \<Rightarrow> string \<Rightarrow> string \<Rightarrow> TraversalVerdict \<Rightarrow> ('w sys, unit) prog" where
  "return_ack_prog X i packetID receiver transmitter status back =
     (if tv_Dropped back then
        seq (incr_prog X i StatAcksDropped)
          (emitPacketEvent_prog X i
            ((ack_event PktAckDrop packetID receiver transmitter)
               \<lparr>pe_DistanceKm := tv_DistanceKm back, pe_LossProbability := tv_LossPercent back,
                pe_Reason := ''ack lost in the air''\<rparr>))
      else
        seq (SendToNode_prog i transmitter (mesh_ack packetID receiver status False))
       (seq (incr_prog X i StatAcksRelayed)
            (emitPacketEvent_prog X i (ack_event PktAck packetID receiver transmitter))))"

definition deliverToEdge_prog ::
  "'w ext \<Rightarrow> string \<Rightarrow> TransmitPacket \<Rightarrow> bytes \<Rightarrow> Edge \<Rightarrow> string \<Rightarrow> real \<Rightarrow> SessionParams \<Rightarrow> TraversalVerdict \<Rightarrow> ('w sys, unit) prog" where
  "deliverToEdge_prog X i pkt payload edge transmitter distKm params verdict =
     and_then (cmd (GetLatest X i)) (\<lambda>r.
       seq (ignore (cmd (TelemetryInsert X (telemetry_row i pkt edge (unpack_with X pkt payload r)))))
      (seq (incr_prog X i StatDeliveredToEdge)
      (seq (emitPacketEvent_prog X i
             ((packet_event PktDeliver pkt (Some verdict) [])\<lparr>pe_FromNode := transmitter, pe_ToNode := ed_EdgeCode edge\<rparr>))
      (and_then (roll_prog X distKm params)
        (\<lambda>back. return_ack_prog X i (pk_PacketID pkt) (ed_EdgeCode edge) transmitter ''received'' back)))))"

lemma unpack_eq: "unpack X i pkt payload s = (case on_world (GetLatest X i) s of (r, s1) \<Rightarrow> (unpack_with X pkt payload r, s1))"
  by (simp add: unpack_def unpack_with_def GetActive_def Let_def case_prod_beta split: sum.split)

lemma run_incr [runs]: "run (incr_prog X i g) s = ((), incr X i g s)"
  by (simp add: incr_prog_def incr_def)

lemma run_emit [runs]: "run (emitPacketEvent_prog X i ev) s = ((), emitPacketEvent X i ev s)"
  by (simp add: emitPacketEvent_prog_def emitPacketEvent_def runs case_prod_beta del: on_world_simps)

lemma run_reject [runs]: "run (reject_prog X i n code msg) s = ((), reject X i n code msg s)"
  by (simp add: reject_prog_def reject_def runs)

lemma run_drop [runs]: "run (drop_prog X i pkt reason g v) s = ((), drop_frame X i pkt reason g v s)"
  by (simp add: drop_prog_def drop_frame_def runs)

lemma run_roll [runs]: "run (roll_prog X d pr) s = roll X d pr s"
  by (simp add: roll_prog_def roll_def)

lemma run_duplicate [runs]: "run (handleDuplicate_prog X i pkt t d pr v) s = ((), handleDuplicate X i pkt t d pr v s)"
  by (simp add: handleDuplicate_prog_def handleDuplicate_def Let_def case_prod_beta runs)

lemma run_forward [runs]: "run (forwardToNode_prog X i pkt t v) s = ((), forwardToNode X i pkt t v s)"
  by (simp add: forwardToNode_prog_def forwardToNode_def Let_def runs del: on_world_simps)

lemma run_return_ack [runs]: "run (return_ack_prog X i p r t status v) s = ((), return_ack X i p r t status v s)"
  by (simp add: return_ack_prog_def return_ack_def runs)

lemma run_deliver [runs]: "run (deliverToEdge_prog X i pkt payload e t d pr v) s = ((), deliverToEdge X i pkt payload e t d pr v s)"
  by (simp add: deliverToEdge_prog_def deliverToEdge_def unpack_eq Let_def case_prod_beta runs del: on_world_simps)

lemma run_ping [runs]: "run (HandlePing_prog X iv i n la lo) s = ((), HandlePing X iv i n la lo s)"
  by (simp add: HandlePing_prog_def HandlePing_def runs case_prod_beta del: on_world_simps split: sum.split)

section \<open>Transmissions\<close>

text \<open>The cache reads its map under one lock, queries without a lock, and writes under another.\<close>

definition edgeCache_peek :: "'w ext \<Rightarrow> string \<Rightarrow> 'w sys \<Rightarrow> (bool \<times> Edge option) \<times> 'w sys" where
  "edgeCache_peek X code s = (case edgeCache_fresh X s of (fresh, s1) \<Rightarrow> ((fresh, edgeCache_lookup code s), s1))"

definition edgeCache_fill :: "'w ext \<Rightarrow> Edge list \<Rightarrow> string \<Rightarrow> 'w sys \<Rightarrow> Edge option \<times> 'w sys" where
  "edgeCache_fill X edges code s =
     (let byCode = fold (\<lambda>e. AList.update (ed_EdgeCode e) e) edges [];
          (now, s1) = on_world (xClock X) s
      in (map_of byCode code, s1\<lparr>sy_byCode := Some byCode, sy_loadedAt := now\<rparr>))"

definition edgeCache_get_prog :: "'w ext \<Rightarrow> string \<Rightarrow> ('w sys, Edge option res) prog" where
  "edgeCache_get_prog X code =
     and_then (call (edgeCache_peek X code)) (\<lambda>(fresh, e).
       if fresh then Ret (Inr e)
       else and_then (cmd (EdgeList X)) (\<lambda>r. case r of
           Inl err \<Rightarrow> and_then (look (\<lambda>s. sy_byCode s \<noteq> None)) (\<lambda>filled. Ret (if filled then Inr e else Inl err))
         | Inr edges \<Rightarrow> and_then (call (edgeCache_fill X edges code)) (\<lambda>e'. Ret (Inr e'))))"

definition propagate_prog ::
  "'w ext \<Rightarrow> string \<Rightarrow> TransmitPacket \<Rightarrow> bytes \<Rightarrow> Edge option \<Rightarrow> string \<Rightarrow> real \<Rightarrow> SessionParams \<Rightarrow> ('w sys, unit) prog" where
  "propagate_prog X i pkt payload edge transmitter distKm params =
     and_then (roll_prog X distKm params) (\<lambda>verdict.
       if tv_Dropped verdict then
         (if tv_OutOfRange verdict
          then drop_prog X i pkt ''out_of_range'' StatDroppedOutOfRange (Some verdict)
          else drop_prog X i pkt ''air_loss'' StatDroppedAirLoss (Some verdict))
       else and_then (cmd (MarkPacketSeen X i (pk_PacketID pkt) (pk_TargetParent pkt))) (\<lambda>r. case r of
           Inl _ \<Rightarrow> Ret ()
         | Inr firstTime \<Rightarrow>
             (if \<not> firstTime then handleDuplicate_prog X i pkt transmitter distKm params verdict
              else case edge of
                     Some e \<Rightarrow> deliverToEdge_prog X i pkt payload e transmitter distKm params verdict
                   | None \<Rightarrow> forwardToNode_prog X i pkt transmitter verdict)))"

definition resolve_target_prog ::
  "'w ext \<Rightarrow> string \<Rightarrow> TransmitPacket \<Rightarrow> Edge option \<Rightarrow> ('w sys, (real \<times> real) option) prog" where
  "resolve_target_prog X i pkt edge =
     (case edge of
        Some e \<Rightarrow> Ret (Some (ed_Latitude e, ed_Longitude e))
      | None \<Rightarrow>
          and_then (look (\<lambda>s. NodeOnline i (pk_TargetParent pkt) (sy_hub s))) (\<lambda>online.
            if \<not> online then seq (drop_prog X i pkt ''target_offline'' StatDroppedTargetOffline None) (Ret None)
            else and_then (cmd (Position X i (pk_TargetParent pkt))) (\<lambda>r. case r of
                Inl e \<Rightarrow> (if e = ErrNotFound
                    then seq (drop_prog X i pkt ''target_no_position'' StatDroppedNoPosition None) (Ret None) else Ret None)
              | Inr tPos \<Rightarrow> Ret (Some (np_Lat tPos, np_Lng tPos)))))"

definition transmit_checked_prog ::
  "'w ext \<Rightarrow> string \<Rightarrow> TransmitPacket \<Rightarrow> string \<Rightarrow> bytes \<Rightarrow> SessionParams \<Rightarrow> ('w sys, unit) prog" where
  "transmit_checked_prog X i pkt transmitter payload params =
     (if int (length payload) > MaxPayloadBytes (sp_SpreadingFactor params)
      then drop_prog X i pkt ''sf_limit_exceeded'' StatDroppedSFLimit None
      else if pk_HopCount pkt > MaxHops
      then drop_prog X i pkt ''max_hops_exceeded'' StatDroppedMaxHops None
      else and_then (edgeCache_get_prog X (pk_TargetParent pkt)) (\<lambda>r. case r of
          Inl _ \<Rightarrow> Ret ()
        | Inr edge \<Rightarrow> and_then (cmd (Position X i transmitter)) (\<lambda>r. case r of
              Inl e \<Rightarrow> (if e = ErrNotFound
                  then drop_prog X i pkt ''transmitter_no_position'' StatDroppedNoPosition None else Ret ())
            | Inr txPos \<Rightarrow> and_then (resolve_target_prog X i pkt edge) (\<lambda>r. case r of
                  None \<Rightarrow> Ret ()
                | Some (lat, lng) \<Rightarrow> propagate_prog X i pkt payload edge transmitter
                    (HaversineKm (np_Lat txPos) (np_Lng txPos) lat lng) params))))"

definition HandleTransmit_prog :: "'w ext \<Rightarrow> string \<Rightarrow> string \<Rightarrow> TransmitPacket \<Rightarrow> ('w sys, unit) prog" where
  "HandleTransmit_prog X i sender pkt =
     (case (Validate pkt, Transmitter pkt) of
        (Inr _, Some transmitter) \<Rightarrow>
          (if transmitter \<noteq> sender
           then reject_prog X i sender ''transmitter_mismatch'' ''routing_path ends with another node''
           else case DecodeString (pk_BinaryPayloadB64 pkt) of
             None \<Rightarrow> reject_prog X i sender ''invalid_base64'' ''illegal base64 data''
           | Some payload \<Rightarrow> and_then (cmd (GetParams X i)) (\<lambda>r. case r of
                 Inl _ \<Rightarrow> SendToNode_prog i sender
                     (errorEvent ''session_unavailable'' ''session parameters missing; was the session stopped?'')
               | Inr params \<Rightarrow> seq (incr_prog X i StatTransmitTotal) (transmit_checked_prog X i pkt transmitter payload params)))
      | (Inr _, None) \<Rightarrow> Ret ()
      | (Inl _, _) \<Rightarrow> reject_prog X i sender ''invalid_envelope'' ''validation error'')"

definition HandleAck_prog :: "'w ext \<Rightarrow> string \<Rightarrow> string \<Rightarrow> NodeAck \<Rightarrow> ('w sys, unit) prog" where
  "HandleAck_prog X i receiver ack =
     (if na_PacketID ack = [] then Ret ()
      else and_then (cmd (TakeAckSender X i (na_PacketID ack) receiver)) (\<lambda>r. case r of
          Inl e \<Rightarrow> (if e = ErrNotFound then incr_prog X i StatAcksStale else Ret ())
        | Inr sender \<Rightarrow> and_then (cmd (GetParams X i)) (\<lambda>r. case r of
              Inl _ \<Rightarrow> Ret ()
            | Inr params \<Rightarrow>
                and_then (cmd (Position X i receiver)) (\<lambda>rx.
                and_then (cmd (Position X i sender)) (\<lambda>tx.
                  case (rx, tx) of
                    (Inr rxPos, Inr txPos) \<Rightarrow>
                      and_then (roll_prog X (HaversineKm (np_Lat rxPos) (np_Lng rxPos) (np_Lat txPos) (np_Lng txPos)) params)
                        (return_ack_prog X i (na_PacketID ack) receiver sender
                           (if na_Status ack = [] then ''received'' else na_Status ack))
                  | _ \<Rightarrow> incr_prog X i StatAcksDropped)))))"

lemma run_edgeCache_get [runs]: "run (edgeCache_get_prog X code) s = edgeCache_get X code s"
  by (simp add: edgeCache_get_prog_def edgeCache_get_def edgeCache_peek_def edgeCache_fill_def Let_def case_prod_beta
      del: on_world_simps split: sum.split bool.split)

lemma run_propagate [runs]: "run (propagate_prog X i pkt payload edge t d pr) s = ((), propagate X i pkt payload edge t d pr s)"
  by (simp add: propagate_prog_def propagate_def Let_def case_prod_beta runs del: on_world_simps split: sum.split option.split)

lemma run_resolve [runs]: "run (resolve_target_prog X i pkt edge) s = resolve_target X i pkt edge s"
  by (auto simp: resolve_target_prog_def resolve_target_def case_prod_beta runs simp del: on_world_simps
      split: sum.split option.split gerr.split)

lemma run_transmit_checked [runs]:
  "run (transmit_checked_prog X i pkt t payload pr) s = ((), transmit_checked X i pkt t payload pr s)"
  by (auto simp: transmit_checked_prog_def transmit_checked_def case_prod_beta runs simp del: on_world_simps
      split: sum.split option.split gerr.split)

lemma run_transmit [runs]: "run (HandleTransmit_prog X i sender pkt) s = ((), HandleTransmit X i sender pkt s)"
  by (simp add: HandleTransmit_prog_def HandleTransmit_def case_prod_beta runs del: on_world_simps Validate_ok_iff_valid
      split: sum.split option.split)

lemma run_ack [runs]: "run (HandleAck_prog X i receiver ack) s = ((), HandleAck X i receiver ack s)"
  by (auto simp: HandleAck_prog_def HandleAck_def Let_def case_prod_beta runs simp del: on_world_simps
      split: sum.split gerr.split)

section \<open>Connections\<close>

definition push_params_prog :: "'w ext \<Rightarrow> string \<Rightarrow> (frame \<Rightarrow> ('w sys, unit) prog) \<Rightarrow> ('w sys, unit) prog" where
  "push_params_prog X i send =
     and_then (cmd (GetParams X i)) (\<lambda>r. case r of
         Inr params \<Rightarrow> send (FEnvSync (EnvParamsFrom params))
       | Inl _ \<Rightarrow> Ret ())"

definition NodeConnected_prog :: "'w ext \<Rightarrow> string \<Rightarrow> string \<Rightarrow> ('w sys, unit) prog" where
  "NodeConnected_prog X i n =
     seq (BroadcastToMonitors_prog i (node_status n True))
    (seq (push_params_prog X i (SendToNode_prog i n))
    (seq (and_then (cmd (GetLatest X i)) (\<lambda>r. case r of
            Inr schema \<Rightarrow> SendToNode_prog i n (FSchemaSync (schema_sync (ds_Fields schema)))
          | Inl _ \<Rightarrow> Ret ()))
         (and_then (cmd (GetRoute X i n)) (\<lambda>r. case r of
            Inr entry \<Rightarrow> SendToNode_prog i n (FRoutingUpdate (routing_update entry (re_DistanceKm entry)))
          | Inl _ \<Rightarrow> Ret ()))))"

definition NodeDisconnected_prog :: "'w ext \<Rightarrow> string \<Rightarrow> string \<Rightarrow> ('w sys, unit) prog" where
  "NodeDisconnected_prog X i n =
     seq (ignore (cmd (RemoveNode X i n))) (BroadcastToMonitors_prog i (node_status n False))"

definition Snapshot_prog :: "'w ext \<Rightarrow> string \<Rightarrow> ('w sys, TopologySnapshot res) prog" where
  "Snapshot_prog X i =
     and_then (cmd (AllPositions X i)) (\<lambda>r. case r of Inl e \<Rightarrow> Ret (Inl e) | Inr positions \<Rightarrow>
     and_then (cmd (GetTable X i)) (\<lambda>r. case r of Inl e \<Rightarrow> Ret (Inl e) | Inr tbl \<Rightarrow>
     and_then (cmd (EdgeList X)) (\<lambda>r. case r of Inl e \<Rightarrow> Ret (Inl e) | Inr edges \<Rightarrow>
     and_then (look (\<lambda>s. OnlineNodes i (sy_hub s))) (\<lambda>online.
       Ret (Inr \<lparr>ts_Nodes = sort_key tn_NodeID
                   (map (\<lambda>p. \<lparr>tn_NodeID = np_ID p, tn_Lat = np_Lat p, tn_Lng = np_Lng p,
                              tn_Online = (np_ID p \<in> set online)\<rparr>) positions),
                 ts_Routes = rt_Routes (tableEvent tbl), ts_Edges = edges\<rparr>)))))"

definition MonitorConnected_prog :: "'w ext \<Rightarrow> string \<Rightarrow> (frame \<Rightarrow> ('w sys, unit) prog) \<Rightarrow> ('w sys, unit) prog" where
  "MonitorConnected_prog X i send =
     seq (push_params_prog X i send)
       (and_then (Snapshot_prog X i) (\<lambda>r. case r of
          Inr snap \<Rightarrow> send (FRoutingTable \<lparr>rt_Event = EvMeshRoutingUpdate, rt_Routes = ts_Routes snap\<rparr>)
        | Inl _ \<Rightarrow> Ret ()))"

definition HandleNodeWS_prog :: "'w ext \<Rightarrow> bool \<Rightarrow> string \<Rightarrow> string \<Rightarrow> ('w sys, ws_result) prog" where
  "HandleNodeWS_prog X upgraded i n =
     (if i = [] \<or> \<not> nodeIDRe_match n
      then Ret (Refused 400 ''session_id and a valid node_id query parameter are required'')
      else and_then (cmd (GetParams X i)) (\<lambda>r.
        if \<not> is_ok r then Ret (Refused 404 ''unknown or inactive simulation session'')
        else if \<not> upgraded then Ret UpgradeFailed
        else and_then (call (on_hub (open_node i n))) (\<lambda>c. seq (NodeConnected_prog X i n) (Ret (Connected c)))))"

definition HandleMonitorWS_prog :: "'w ext \<Rightarrow> bool \<Rightarrow> string \<Rightarrow> ('w sys, ws_result) prog" where
  "HandleMonitorWS_prog X upgraded i =
     (if i = [] then Ret (Refused 400 ''session_id query parameter is required'')
      else and_then (cmd (GetParams X i)) (\<lambda>r.
        if \<not> is_ok r then Ret (Refused 404 ''unknown or inactive simulation session'')
        else if \<not> upgraded then Ret UpgradeFailed
        else and_then (call (on_hub (open_monitor i)))
          (\<lambda>c. seq (MonitorConnected_prog X i (\<lambda>f. act (monitor_send c f))) (Ret (Connected c)))))"

definition node_onClose_prog :: "'w ext \<Rightarrow> string \<Rightarrow> string \<Rightarrow> cref \<Rightarrow> ('w sys, unit) prog" where
  "node_onClose_prog X i n c =
     and_then (call (on_hub (\<lambda>h. unregisterNode c (Close c h))))
       (\<lambda>removed. if removed then NodeDisconnected_prog X i n else Ret ())"

definition safeProcess_prog :: "'w ext \<Rightarrow> duration \<Rightarrow> job \<Rightarrow> ('w sys, unit) prog" where
  "safeProcess_prog X iv j =
     (let sendError = (\<lambda>code msg. SendToNode_prog (jb_sessionID j) (jb_nodeID j) (errorEvent code msg)) in
      case Unmarshal False envelope_fields [] (jb_raw j) of
        Inl err \<Rightarrow> sendError ''invalid_json'' err
      | Inr event \<Rightarrow>
          (if event = EvNodePing then
             (case Unmarshal False ping_fields zero_ping (jb_raw j) of
                Inl err \<Rightarrow> sendError ''invalid_ping'' err
              | Inr ping \<Rightarrow> HandlePing_prog X iv (jb_sessionID j) (jb_nodeID j) (ng_Lat ping) (ng_Lng ping))
           else if event = EvNodeTransmit then
             (case Unmarshal False packet_fields zero_packet (jb_raw j) of
                Inl err \<Rightarrow> sendError ''invalid_transmit'' err
              | Inr pkt \<Rightarrow> HandleTransmit_prog X (jb_sessionID j) (jb_nodeID j) pkt)
           else if event = EvNodeAck then
             (case Unmarshal False ack_fields zero_ack (jb_raw j) of
                Inl err \<Rightarrow> sendError ''invalid_ack'' err
              | Inr ack \<Rightarrow> HandleAck_prog X (jb_sessionID j) (jb_nodeID j) ack)
           else sendError ''unknown_event'' (''unsupported event: '' @ event)))"

lemma run_push [runs]:
  "(\<And>f u. run (send' f) u = ((), send f u)) \<Longrightarrow> run (push_params_prog X i send') s = ((), push_params X i send s)"
  by (simp add: push_params_prog_def push_params_def case_prod_beta del: on_world_simps split: sum.split)

lemma run_connected [runs]: "run (NodeConnected_prog X i n) s = ((), NodeConnected X i n s)"
  by (auto simp: NodeConnected_prog_def NodeConnected_def GetActive_def CurrentRoute_def Let_def case_prod_beta runs
      simp del: on_world_simps split: sum.split)

lemma run_disconnected [runs]: "run (NodeDisconnected_prog X i n) s = ((), NodeDisconnected X i n s)"
  by (simp add: NodeDisconnected_prog_def NodeDisconnected_def runs del: on_world_simps)

lemma run_Snapshot [runs]: "run (Snapshot_prog X i) s = Snapshot X i s"
  by (simp add: Snapshot_prog_def Snapshot_def case_prod_beta Let_def del: on_world_simps split: sum.split)

lemma run_monitor [runs]:
  "(\<And>f u. run (send' f) u = ((), send f u)) \<Longrightarrow> run (MonitorConnected_prog X i send') s = ((), MonitorConnected X i send s)"
  by (simp add: MonitorConnected_prog_def MonitorConnected_def case_prod_beta runs split: sum.split)

lemma run_NodeWS [runs]: "run (HandleNodeWS_prog X up i n) s = HandleNodeWS X up i n s"
  by (simp add: HandleNodeWS_prog_def HandleNodeWS_def SessionActive_def Let_def case_prod_beta runs
      del: on_world_simps is_ok_iff split: bool.split)

lemma run_MonitorWS [runs]: "run (HandleMonitorWS_prog X up i) s = HandleMonitorWS X up i s"
  by (simp add: HandleMonitorWS_prog_def HandleMonitorWS_def SessionActive_def Let_def case_prod_beta runs
      del: on_world_simps is_ok_iff split: bool.split)

lemma run_onClose [runs]: "run (node_onClose_prog X i n c) s = ((), node_onClose X i n c s)"
  by (simp add: node_onClose_prog_def node_onClose_def case_prod_beta runs)

lemma run_safeProcess [runs]: "run (safeProcess_prog X iv j) s = ((), safeProcess X iv j s)"
  by (simp add: safeProcess_prog_def safeProcess_def sendError_def Let_def runs split: sum.split)

section \<open>The scheduler\<close>

fun notify_prog :: "string \<Rightarrow> table \<Rightarrow> int \<Rightarrow> table \<Rightarrow> ('w sys, int) prog" where
  "notify_prog i oldTable changed [] = Ret changed"
| "notify_prog i oldTable changed (ne # rest) =
     (if routeUnchanged oldTable (fst ne) (snd ne) then notify_prog i oldTable changed rest
      else seq (SendToNode_prog i (fst ne) (FRoutingUpdate (routing_update (snd ne) (round3 (re_DistanceKm (snd ne))))))
             (notify_prog i oldTable (changed + 1) rest))"

definition recompute_prog :: "'w ext \<Rightarrow> string \<Rightarrow> ('w sys, unit res) prog" where
  "recompute_prog X i =
     and_then (cmd (xClock X)) (\<lambda>started.
     and_then (cmd (GetParams X i)) (\<lambda>r. case r of Inl e \<Rightarrow> Ret (Inl e) | Inr params \<Rightarrow>
     and_then (cmd (AllPositions X i)) (\<lambda>r. case r of Inl e \<Rightarrow> Ret (Inl e) | Inr positions \<Rightarrow>
     and_then (look (\<lambda>s. OnlineNodes i (sy_hub s))) (\<lambda>online.
     and_then (cmd (EdgeList X)) (\<lambda>r. case r of Inl e \<Rightarrow> Ret (Inl e) | Inr edges \<Rightarrow>
       let newTable = BuildTopology (live_nodes online positions) edges (MaxRangeKm (sp_TxPowerDbm params)) in
     and_then (cmd (GetTable X i)) (\<lambda>r. case r of Inl e \<Rightarrow> Ret (Inl e) | Inr oldTable \<Rightarrow>
     and_then (cmd (SaveTable X i newTable)) (\<lambda>r. case r of Inl e \<Rightarrow> Ret (Inl e) | Inr _ \<Rightarrow>
     and_then (notify_prog i oldTable 0 newTable) (\<lambda>changed.
     seq (if changed > 0 \<or> length newTable \<noteq> length oldTable
          then BroadcastToMonitors_prog i (FRoutingTable (tableEvent newTable)) else Ret ())
       (Ret (Inr ()))))))))))"

definition tick_prog :: "'w ext \<Rightarrow> ('w sys, unit) prog" where
  "tick_prog X = and_then (look activeSessions) (for_each (\<lambda>i. ignore (recompute_prog X i)))"

lemma run_notify: "run (notify_prog i old changed tbl) s = fold (notify_step i old) tbl (changed, s)"
  by (induction i old changed tbl arbitrary: s rule: notify_prog.induct) (simp_all add: notify_step_def runs)

lemma run_recompute [runs]: "run (recompute_prog X i) s = recompute X i s"
  by (simp add: recompute_prog_def recompute_def notify_all_def run_notify Let_def case_prod_beta runs
      del: on_world_simps split: sum.split)

lemma run_tick [runs]: "run (tick_prog X) s = ((), tick X s)"
proof -
  have "run (for_each (\<lambda>i. ignore (recompute_prog X i)) ids) s = ((), fold (safeRecompute X) ids s)" for ids
    by (rule run_for_each) (simp add: safeRecompute_def runs)
  then show ?thesis by (simp add: tick_prog_def tick_def)
qed

section \<open>Sessions and schemas\<close>

definition cacheParams_prog :: "'w ext \<Rightarrow> Session \<Rightarrow> ('w sys, unit res) prog" where
  "cacheParams_prog X sess = cmd (SaveParams X (ss_ID sess) (session_params sess))"

definition Create_prog :: "'w ext \<Rightarrow> string \<Rightarrow> int \<Rightarrow> int \<Rightarrow> real \<Rightarrow> ('w sys, Session res) prog" where
  "Create_prog X name sf txPowerDbm weather =
     (case ValidateSpreadingFactor sf of Inl e \<Rightarrow> Ret (Inl e) | Inr _ \<Rightarrow>
      case ValidateTxPower txPowerDbm of Inl e \<Rightarrow> Ret (Inl e) | Inr _ \<Rightarrow>
      case ValidateWeatherSeverity weather of Inl e \<Rightarrow> Ret (Inl e) | Inr _ \<Rightarrow>
      and_then (cmd (SessionCreate X (new_session name sf txPowerDbm weather))) (\<lambda>r. case r of Inl e \<Rightarrow> Ret (Inl e) | Inr sess \<Rightarrow>
      and_then (cacheParams_prog X sess) (\<lambda>r. case r of Inl e \<Rightarrow> Ret (Inl e) | Inr _ \<Rightarrow>
      seq (act (AddSession (ss_ID sess))) (Ret (Inr sess)))))"

definition refreshAndBroadcast_prog :: "'w ext \<Rightarrow> string \<Rightarrow> ('w sys, Session res) prog" where
  "refreshAndBroadcast_prog X i =
     and_then (cmd (GetByID X i)) (\<lambda>r. case r of Inl e \<Rightarrow> Ret (Inl e) | Inr sess \<Rightarrow>
     and_then (cacheParams_prog X sess) (\<lambda>r. case r of Inl e \<Rightarrow> Ret (Inl e) | Inr _ \<Rightarrow>
       let env = FEnvSync (EnvParamsFrom (session_params sess))
       in seq (BroadcastToNodes_prog i env) (seq (BroadcastToMonitors_prog i env) (Ret (Inr sess)))))"

definition UpdateWeather_prog :: "'w ext \<Rightarrow> string \<Rightarrow> real \<Rightarrow> ('w sys, Session res) prog" where
  "UpdateWeather_prog X i severity =
     (case ValidateWeatherSeverity severity of Inl e \<Rightarrow> Ret (Inl e) | Inr _ \<Rightarrow>
      and_then (cmd (RepoUpdateWeather X i severity)) (\<lambda>r. case r of Inl e \<Rightarrow> Ret (Inl e) | Inr _ \<Rightarrow>
      refreshAndBroadcast_prog X i))"

definition UpdateRadioParams_prog :: "'w ext \<Rightarrow> string \<Rightarrow> int option \<Rightarrow> int option \<Rightarrow> ('w sys, Session res) prog" where
  "UpdateRadioParams_prog X i sf txPowerDbm =
     and_then (cmd (GetByID X i)) (\<lambda>r. case r of Inl e \<Rightarrow> Ret (Inl e) | Inr current \<Rightarrow>
       if \<not> ss_IsActive current then Ret (Inl ErrSessionInactive)
       else let newSF = (case sf of Some v \<Rightarrow> v | None \<Rightarrow> ss_SpreadingFactor current);
                newTx = (case txPowerDbm of Some v \<Rightarrow> v | None \<Rightarrow> ss_TxPowerDbm current)
            in case ValidateSpreadingFactor newSF of Inl e \<Rightarrow> Ret (Inl e) | Inr _ \<Rightarrow>
               case ValidateTxPower newTx of Inl e \<Rightarrow> Ret (Inl e) | Inr _ \<Rightarrow>
               and_then (cmd (RepoUpdateRadioParams X i newSF newTx)) (\<lambda>r. case r of Inl e \<Rightarrow> Ret (Inl e) | Inr _ \<Rightarrow>
               refreshAndBroadcast_prog X i))"

definition Stop_prog :: "'w ext \<Rightarrow> string \<Rightarrow> ('w sys, Session res) prog" where
  "Stop_prog X i =
     and_then (cmd (GetStats X i)) (\<lambda>r. case r of Inl e \<Rightarrow> Ret (Inl e) | Inr stats \<Rightarrow>
     and_then (cmd (RepoStop X i stats)) (\<lambda>r. case r of Inl e \<Rightarrow> Ret (Inl e) | Inr _ \<Rightarrow>
     seq (BroadcastToNodes_prog i (session_ended i))
    (seq (BroadcastToMonitors_prog i (session_ended i))
    (seq (KickSession_prog i)
    (seq (act (RemoveSession i))
    (seq (ignore (cmd (GeoClear X i)))
    (seq (ignore (cmd (RoutesClear X i)))
    (seq (ignore (cmd (ClearSession X i)))
         (cmd (GetByID X i))))))))))"

definition Get_prog :: "'w ext \<Rightarrow> string \<Rightarrow> ('w sys, (Session \<times> (string \<times> int) list option) res) prog" where
  "Get_prog X i =
     and_then (cmd (GetByID X i)) (\<lambda>r. case r of Inl e \<Rightarrow> Ret (Inl e) | Inr sess \<Rightarrow>
       if ss_IsActive sess
       then and_then (cmd (GetStats X i)) (\<lambda>r. case r of Inl e \<Rightarrow> Ret (Inl e) | Inr live \<Rightarrow> Ret (Inr (sess, Some live)))
       else Ret (Inr (sess, None)))"

definition DeleteSession_prog :: "'w ext \<Rightarrow> string \<Rightarrow> ('w sys, unit res) prog" where
  "DeleteSession_prog X i =
     and_then (cmd (GetByID X i)) (\<lambda>r. case r of Inl e \<Rightarrow> Ret (Inl e) | Inr sess \<Rightarrow>
       if ss_IsActive sess then Ret (Inl ErrSessionStillActive) else cmd (RepoDelete X i))"

definition LiveStats_prog :: "'w ext \<Rightarrow> string \<Rightarrow> ('w sys, (string \<times> int) list res) prog" where
  "LiveStats_prog X i =
     and_then (cmd (GetByID X i)) (\<lambda>r. case r of Inl e \<Rightarrow> Ret (Inl e) | Inr _ \<Rightarrow> cmd (GetStats X i))"

primrec resume_prog :: "'w ext \<Rightarrow> Session list \<Rightarrow> ('w sys, unit res) prog" where
  "resume_prog X [] = Ret (Inr ())"
| "resume_prog X (sess # rest) =
     and_then (cacheParams_prog X sess) (\<lambda>r. case r of Inl e \<Rightarrow> Ret (Inl e) | Inr _ \<Rightarrow>
       seq (act (AddSession (ss_ID sess))) (resume_prog X rest))"

definition ResumeActive_prog :: "'w ext \<Rightarrow> ('w sys, unit res) prog" where
  "ResumeActive_prog X =
     and_then (cmd (ListActive X)) (\<lambda>r. case r of Inl e \<Rightarrow> Ret (Inl e) | Inr active \<Rightarrow> resume_prog X active)"

definition SetSchema_prog ::
  "'w ext \<Rightarrow> string \<Rightarrow> SchemaField list \<Rightarrow> ('w sys, (DynamicSchema \<times> int \<times> (int \<times> int) option) res) prog" where
  "SetSchema_prog X i flds =
     (case ValidateSchemaFields flds of Inl e \<Rightarrow> Ret (Inl e) | Inr _ \<Rightarrow>
      and_then (cmd (GetByID X i)) (\<lambda>r. case r of Inl e \<Rightarrow> Ret (Inl e) | Inr sess \<Rightarrow>
        if \<not> ss_IsActive sess then Ret (Inl ErrSessionInactive)
        else and_then (cmd (SchemaCreate X i flds)) (\<lambda>r. case r of Inl e \<Rightarrow> Ret (Inl e) | Inr schema \<Rightarrow>
          let estimate = EstimatePackedBytes flds;
              limit = MaxPayloadBytes (ss_SpreadingFactor sess);
              warning = (if estimate > limit then Some (estimate, limit) else None);
              sync = FSchemaSync (schema_sync flds)
          in seq (BroadcastToNodes_prog i sync) (seq (BroadcastToMonitors_prog i sync) (Ret (Inr (schema, estimate, warning)))))))"

lemma run_cacheParams [runs]: "run (cacheParams_prog X sess) s = cacheParams X sess s"
  by (simp add: cacheParams_prog_def cacheParams_def)

lemma run_resume [runs]: "run (resume_prog X rows) s = resume_all X rows s"
  by (induction rows arbitrary: s) (simp_all add: runs case_prod_beta split: sum.split)

lemma run_refresh [runs]: "run (refreshAndBroadcast_prog X i) s = refreshAndBroadcast X i s"
  by (simp add: refreshAndBroadcast_prog_def refreshAndBroadcast_def Let_def case_prod_beta runs del: on_world_simps split: sum.split)

lemma run_Create [runs]: "run (Create_prog X name sf tx ws) s = Create X name sf tx ws s"
  by (simp add: Create_prog_def Create_def case_prod_beta runs del: on_world_simps Validate_ok_iff split: sum.split)

lemma session_runs [runs]:
  "run (UpdateWeather_prog X i ws) s = UpdateWeather X i ws s"
  "run (UpdateRadioParams_prog X i sf tx) s = UpdateRadioParams X i sf tx s"
  "run (Stop_prog X i) s = Stop X i s"
  "run (Get_prog X i) s = Get X i s"
  "run (DeleteSession_prog X i) s = DeleteSession X i s"
  "run (LiveStats_prog X i) s = LiveStats X i s"
  "run (ResumeActive_prog X) s = ResumeActive X s"
  "run (SetSchema_prog X i flds) s = SetSchema X i flds s"
  by (simp_all add: UpdateWeather_prog_def UpdateWeather_def UpdateRadioParams_prog_def UpdateRadioParams_def Stop_prog_def Stop_def
      Get_prog_def Get_def DeleteSession_prog_def DeleteSession_def LiveStats_prog_def LiveStats_def ResumeActive_prog_def ResumeActive_def
      SetSchema_prog_def SetSchema_def Let_def case_prod_beta runs del: on_world_simps Validate_ok_iff split: sum.split)

end
