(* ===== verification/Calls.thy ===== *)
theory Calls
  imports Programs
begin

text \<open>
  Everything that can begin on the backend, as one datatype: the request a REST or WebSocket endpoint
  amounts to once its parameters and body are read, a frame taken from the job queue, a tick, the end of a
  connection, start-up and shutdown.  \<open>program\<close> is what it does in atomic actions, \<open>serial\<close> what it does
  when nothing else happens.
\<close>

datatype 'w call =
    Idle
  | CallCreate string int int real
  | CallList int
  | CallGet string
  | CallStop string
  | CallDelete string
  | CallWeather string real
  | CallParams string "int option" "int option"
  | CallStats string
  | CallSetSchema string "SchemaField list"
  | CallGetSchema string
  | CallTopology string
  | CallTelemetry string int int
  | CallCreateEdge string string real real
  | CallUpdateEdge string string real real
  | CallListEdges
  | CallDeleteEdge string
  | CallHealth
  | CallReady "'w \<Rightarrow> (string + unit) \<times> 'w"
  | CallNodeWS bool string string
  | CallMonitorWS bool string
  | CallJob job
  | CallTick
  | CallResume
  | CallNodeGone string string cref
  | CallMonitorGone cref
  | CallShutdown

definition new_edge :: "string \<Rightarrow> string \<Rightarrow> real \<Rightarrow> real \<Rightarrow> Edge" where
  "new_edge code name lat lng =
     \<lparr>ed_ID = 0, ed_EdgeCode = code, ed_Name = name, ed_Latitude = lat, ed_Longitude = lng, ed_CreatedAt = 0, ed_UpdatedAt = 0\<rparr>"

fun program :: "'w ext \<Rightarrow> duration \<Rightarrow> 'w call \<Rightarrow> ('w sys, unit) prog" where
  "program X iv Idle = Ret ()"
| "program X iv (CallCreate name sf tx ws) = ignore (Create_prog X name sf tx ws)"
| "program X iv (CallList limit) = ignore (cmd (SessionList X limit))"
| "program X iv (CallGet i) = ignore (Get_prog X i)"
| "program X iv (CallStop i) = ignore (Stop_prog X i)"
| "program X iv (CallDelete i) = ignore (DeleteSession_prog X i)"
| "program X iv (CallWeather i ws) = ignore (UpdateWeather_prog X i ws)"
| "program X iv (CallParams i sf tx) = ignore (UpdateRadioParams_prog X i sf tx)"
| "program X iv (CallStats i) = ignore (LiveStats_prog X i)"
| "program X iv (CallSetSchema i flds) = ignore (SetSchema_prog X i flds)"
| "program X iv (CallGetSchema i) = ignore (cmd (GetLatest X i))"
| "program X iv (CallTopology i) = ignore (Snapshot_prog X i)"
| "program X iv (CallTelemetry i limit offset) =
     and_then (cmd (ListBySession X i limit offset)) (\<lambda>r. case r of Inl _ \<Rightarrow> Ret () | Inr _ \<Rightarrow> ignore (cmd (CountBySession X i)))"
| "program X iv (CallCreateEdge code name lat lng) = ignore (cmd (EdgeCreate X (new_edge code name lat lng)))"
| "program X iv (CallUpdateEdge code name lat lng) = ignore (cmd (EdgeUpdate X code name lat lng))"
| "program X iv CallListEdges = ignore (cmd (EdgeList X))"
| "program X iv (CallDeleteEdge code) = ignore (cmd (EdgeDelete X code))"
| "program X iv CallHealth = ignore (cmd (xClock X))"
| "program X iv (CallReady probe) = ignore (cmd probe)"
| "program X iv (CallNodeWS up i n) = ignore (HandleNodeWS_prog X up i n)"
| "program X iv (CallMonitorWS up i) = ignore (HandleMonitorWS_prog X up i)"
| "program X iv (CallJob j) = safeProcess_prog X iv j"
| "program X iv CallTick = tick_prog X"
| "program X iv CallResume = ignore (ResumeActive_prog X)"
| "program X iv (CallNodeGone i n c) = node_onClose_prog X i n c"
| "program X iv (CallMonitorGone c) = act (monitor_onClose c)"
| "program X iv CallShutdown = Shutdown_prog"

fun serial :: "'w ext \<Rightarrow> duration \<Rightarrow> 'w call \<Rightarrow> 'w sys \<Rightarrow> 'w sys" where
  "serial X iv Idle s = s"
| "serial X iv (CallCreate name sf tx ws) s = snd (Create X name sf tx ws s)"
| "serial X iv (CallList limit) s = snd (ListSessions X limit s)"
| "serial X iv (CallGet i) s = snd (Get X i s)"
| "serial X iv (CallStop i) s = snd (Stop X i s)"
| "serial X iv (CallDelete i) s = snd (DeleteSession X i s)"
| "serial X iv (CallWeather i ws) s = snd (UpdateWeather X i ws s)"
| "serial X iv (CallParams i sf tx) s = snd (UpdateRadioParams X i sf tx s)"
| "serial X iv (CallStats i) s = snd (LiveStats X i s)"
| "serial X iv (CallSetSchema i flds) s = snd (SetSchema X i flds s)"
| "serial X iv (CallGetSchema i) s = snd (GetActive X i s)"
| "serial X iv (CallTopology i) s = snd (Snapshot X i s)"
| "serial X iv (CallTelemetry i limit offset) s =
     (case on_world (ListBySession X i limit offset) s of
        (Inl _, s1) \<Rightarrow> s1
      | (Inr _, s1) \<Rightarrow> snd (on_world (CountBySession X i) s1))"
| "serial X iv (CallCreateEdge code name lat lng) s = snd (on_world (EdgeCreate X (new_edge code name lat lng)) s)"
| "serial X iv (CallUpdateEdge code name lat lng) s = snd (on_world (EdgeUpdate X code name lat lng) s)"
| "serial X iv CallListEdges s = snd (on_world (EdgeList X) s)"
| "serial X iv (CallDeleteEdge code) s = snd (on_world (EdgeDelete X code) s)"
| "serial X iv CallHealth s = snd (on_world (xClock X) s)"
| "serial X iv (CallReady probe) s = snd (on_world probe s)"
| "serial X iv (CallNodeWS up i n) s = snd (HandleNodeWS X up i n s)"
| "serial X iv (CallMonitorWS up i) s = snd (HandleMonitorWS X up i s)"
| "serial X iv (CallJob j) s = safeProcess X iv j s"
| "serial X iv CallTick s = tick X s"
| "serial X iv CallResume s = snd (ResumeActive X s)"
| "serial X iv (CallNodeGone i n c) s = node_onClose X i n c s"
| "serial X iv (CallMonitorGone c) s = monitor_onClose c s"
| "serial X iv CallShutdown s = s\<lparr>sy_hub := Shutdown (sy_hub s)\<rparr>"

lemma run_program: "run (program X iv c) s = ((), serial X iv c s)"
  by (cases c) (simp_all add: runs ListSessions_def GetActive_def case_prod_beta del: on_world_simps split: sum.split)

section \<open>Requests\<close>

definition parsed :: "response + 'a \<Rightarrow> ('a \<Rightarrow> 'w call) \<Rightarrow> 'w call" where
  "parsed r g = (case r of Inl _ \<Rightarrow> Idle | Inr x \<Rightarrow> g x)"

definition edge_call :: "edgeRequest \<Rightarrow> (string \<Rightarrow> real \<Rightarrow> real \<Rightarrow> 'w call) \<Rightarrow> 'w call" where
  "edge_call req g =
     (case (check_edge req, er_Latitude req, er_Longitude req) of
        (None, Some lat, Some lng) \<Rightarrow> g (er_Name req) lat lng
      | _ \<Rightarrow> Idle)"

fun endpoint_call :: "'w http_env \<Rightarrow> endpoint \<Rightarrow> request \<Rightarrow> 'w call" where
  "endpoint_call env CreateSimulation r =
     parsed (decodeBody createSimulation_fields zero_create (rq_size r) (rq_body r)) (\<lambda>req.
       if cs_SessionName req = [] \<or> length (cs_SessionName req) > 150 then Idle
       else CallCreate (cs_SessionName req) (case cs_SpreadingFactor req of Some v \<Rightarrow> v | None \<Rightarrow> 7)
              (case cs_TxPowerDbm req of Some v \<Rightarrow> v | None \<Rightarrow> 20) (case cs_WeatherSeverity req of Some v \<Rightarrow> v | None \<Rightarrow> 1))"
| "endpoint_call env ListSimulations r = CallList (queryInt r ''limit'' 50 1 200)"
| "endpoint_call env GetSimulation r = parsed (sessionID (he_uuid env) r) CallGet"
| "endpoint_call env StopSimulation r = parsed (sessionID (he_uuid env) r) CallStop"
| "endpoint_call env DeleteSimulation r = parsed (sessionID (he_uuid env) r) CallDelete"
| "endpoint_call env PutWeather r =
     parsed (sessionID (he_uuid env) r) (\<lambda>i.
     parsed (decodeBody updateWeather_fields None (rq_size r) (rq_body r)) (\<lambda>req.
       case req of None \<Rightarrow> Idle | Some severity \<Rightarrow> CallWeather i severity))"
| "endpoint_call env PutParams r =
     parsed (sessionID (he_uuid env) r) (\<lambda>i.
     parsed (decodeBody updateParams_fields zero_params (rq_size r) (rq_body r)) (\<lambda>req.
       if up_SpreadingFactor req = None \<and> up_TxPowerDbm req = None then Idle
       else CallParams i (up_SpreadingFactor req) (up_TxPowerDbm req)))"
| "endpoint_call env PostSchema r =
     parsed (sessionID (he_uuid env) r) (\<lambda>i.
     parsed (decodeBody setSchema_fields [] (rq_size r) (rq_body r)) (CallSetSchema i))"
| "endpoint_call env GetSchema r = parsed (sessionID (he_uuid env) r) CallGetSchema"
| "endpoint_call env GetTopology r = parsed (sessionID (he_uuid env) r) CallTopology"
| "endpoint_call env ListTelemetry r =
     parsed (sessionID (he_uuid env) r) (\<lambda>i.
       CallTelemetry i (queryInt r ''limit'' 50 1 500) (queryInt r ''offset'' 0 0 1000000))"
| "endpoint_call env GetStatistics r = parsed (sessionID (he_uuid env) r) CallStats"
| "endpoint_call env CreateEdge r =
     parsed (decodeBody createEdge_fields zero_edge (rq_size r) (rq_body r)) (\<lambda>req.
       if check_code (er_EdgeCode req) \<noteq> None then Idle else edge_call req (CallCreateEdge (er_EdgeCode req)))"
| "endpoint_call env ListEdges r = CallListEdges"
| "endpoint_call env PutEdge r =
     (if check_code (rq_code r) \<noteq> None then Idle
      else parsed (decodeBody updateEdge_fields zero_edge (rq_size r) (rq_body r)) (\<lambda>req. edge_call req (CallUpdateEdge (rq_code r))))"
| "endpoint_call env RemoveEdge r = (if check_code (rq_code r) \<noteq> None then Idle else CallDeleteEdge (rq_code r))"
| "endpoint_call env WsNodes r = CallNodeWS (he_upgraded env) (rq_query r ''session_id'') (rq_query r ''node_id'')"
| "endpoint_call env WsMonitor r = CallMonitorWS (he_upgraded env) (rq_query r ''session_id'')"
| "endpoint_call env Healthz r = CallHealth"
| "endpoint_call env Readyz r = CallReady (he_ready env)"

definition request_call :: "'w http_env \<Rightarrow> string \<Rightarrow> string list \<Rightarrow> request \<Rightarrow> 'w call" where
  "request_call env m path r =
     (if m = ''OPTIONS'' then Idle
      else case route m path of
             Found e vars \<Rightarrow> (let v = (case vars of [] \<Rightarrow> [] | x # _ \<Rightarrow> x) in endpoint_call env e (r\<lparr>rq_id := v, rq_code := v\<rparr>))
           | MethodNotAllowed \<Rightarrow> Idle
           | NoRoute \<Rightarrow> Idle)"

lemma answer_snd [simp]: "snd (answer f rs) = snd rs"
  by (simp add: answer_def)

lemma edge_effects:
  "snd (handleCreateEdge X r s) = serial X iv (endpoint_call env CreateEdge r) s"
  "snd (handleUpdateEdge X r s) = serial X iv (endpoint_call env PutEdge r) s"
  by (auto simp: handleCreateEdge_def handleUpdateEdge_def parsed_def edge_call_def new_edge_def
      simp del: on_world_simps split: sum.split option.split)

lemma simulation_effects:
  "snd (handleCreateSimulation X r s) = serial X iv (endpoint_call env CreateSimulation r) s"
  "snd (handleUpdateWeather X (he_uuid env) r s) = serial X iv (endpoint_call env PutWeather r) s"
  "snd (handleUpdateParams X (he_uuid env) r s) = serial X iv (endpoint_call env PutParams r) s"
  "snd (handleSetSchema X (he_uuid env) r s) = serial X iv (endpoint_call env PostSchema r) s"
  by (auto simp: handleCreateSimulation_def handleUpdateWeather_def handleUpdateParams_def handleSetSchema_def parsed_def Let_def
      split: sum.split option.split)

lemma query_effects:
  "snd (handleListSimulations X r s) = serial X iv (endpoint_call env ListSimulations r) s"
  "snd (handleGetSimulation X (he_uuid env) r s) = serial X iv (endpoint_call env GetSimulation r) s"
  "snd (handleStopSimulation X (he_uuid env) r s) = serial X iv (endpoint_call env StopSimulation r) s"
  "snd (handleDeleteSession X (he_uuid env) r s) = serial X iv (endpoint_call env DeleteSimulation r) s"
  "snd (handleGetStats X (he_uuid env) r s) = serial X iv (endpoint_call env GetStatistics r) s"
  "snd (handleGetSchema X (he_uuid env) r s) = serial X iv (endpoint_call env GetSchema r) s"
  "snd (handleGetTopology X (he_uuid env) r s) = serial X iv (endpoint_call env GetTopology r) s"
  "snd (handleListTelemetry X (he_uuid env) r s) = serial X iv (endpoint_call env ListTelemetry r) s"
  "snd (handleListEdges X r s) = serial X iv (endpoint_call env ListEdges r) s"
  "snd (handleDeleteEdge X r s) = serial X iv (endpoint_call env RemoveEdge r) s"
  "snd (handleHealthz X r s) = serial X iv (endpoint_call env Healthz r) s"
  "snd (handleReadyz (he_ready env) r s) = serial X iv (endpoint_call env Readyz r) s"
  by (auto simp: handleListSimulations_def handleGetSimulation_def handleStopSimulation_def handleDeleteSession_def handleGetStats_def
      handleGetSchema_def handleGetTopology_def handleListTelemetry_def handleListEdges_def handleDeleteEdge_def handleHealthz_def
      handleReadyz_def parsed_def Let_def case_prod_beta simp del: on_world_simps split: sum.split option.split)

lemma serve_serial: "snd (serve X env m path origin r s) = serial X iv (request_call env m path r) s"
proof -
  have e: "snd (serve_endpoint X env e vars r s) =
      serial X iv (endpoint_call env e (r\<lparr>rq_id := (case vars of [] \<Rightarrow> [] | x # _ \<Rightarrow> x), rq_code := (case vars of [] \<Rightarrow> [] | x # _ \<Rightarrow> x)\<rparr>)) s" for e vars
    by (cases e) (simp_all add: serve_endpoint_def Let_def case_prod_beta simulation_effects [where env = env and iv = iv]
        edge_effects [where env = env and iv = iv] query_effects [where env = env and iv = iv]
        del: endpoint_call.simps(1-16,19,20) on_world_simps)
  show ?thesis by (simp add: serve_def request_call_def Let_def case_prod_beta e split: dispatch.split)
qed

text \<open>
  Nothing is lost by cutting the handlers into atomic actions: whatever an HTTP request is, the program
  of its actions, run alone, leaves the system exactly as the request served in one piece does, and so do the
  programs of a frame from the job queue, a tick of the scheduler, the end of a connection, the start-up and
  the shutdown.
\<close>

theorem programs_implement_handlers:
  "run (program X iv (request_call env m path r)) s = ((), snd (serve X env m path origin r s)) \<and>
   run (program X iv (CallJob j)) s = ((), safeProcess X iv j s) \<and>
   run (program X iv CallTick) s = ((), tick X s) \<and>
   run (program X iv (CallNodeGone i n c)) s = ((), node_onClose X i n c s) \<and>
   run (program X iv (CallMonitorGone c)) s = ((), monitor_onClose c s) \<and>
   run (program X iv CallResume) s = ((), snd (ResumeActive X s)) \<and>
   run (program X iv CallShutdown) s = ((), s\<lparr>sy_hub := Shutdown (sy_hub s)\<rparr>)"
  by (simp add: run_program serve_serial [where iv = iv] del: program.simps)

end
