(* ===== verification/Ledger.thy ===== *)
theory Ledger
  imports Integrity
begin

text \<open>
  The sessions as a client may think of them: a ledger of sessions, each running with its radio
  parameters, ended with its final counters, or erased for good.  Every run of the backend, whatever arrives, in whatever
  order, and wherever a command fails, is a run of this small machine; its laws are laws of the program.
\<close>

section \<open>The abstract machine\<close>

datatype phase = Running SessionParams | Ended SessionParams "(string \<times> int) list option" | Erased

type_synonym ledger = "string \<Rightarrow> phase option"

definition legal_params :: "SessionParams \<Rightarrow> bool" where
  "legal_params p \<longleftrightarrow> ValidateSpreadingFactor (sp_SpreadingFactor p) = Inr () \<and>
     ValidateTxPower (sp_TxPowerDbm p) = Inr () \<and> ValidateWeatherSeverity (sp_WeatherSeverity p) = Inr ()"

inductive life_step :: "ledger \<Rightarrow> ledger \<Rightarrow> bool" where
  opened: "L i = None \<Longrightarrow> legal_params p \<Longrightarrow> life_step L (L(i \<mapsto> Running p))"
| weathered: "L i = Some (Running p) \<Longrightarrow> ValidateWeatherSeverity w = Inr () \<Longrightarrow>
    life_step L (L(i \<mapsto> Running (p\<lparr>sp_WeatherSeverity := w\<rparr>)))"
| retuned: "L i = Some (Running p) \<Longrightarrow> ValidateSpreadingFactor sf = Inr () \<Longrightarrow> ValidateTxPower tx = Inr () \<Longrightarrow>
    life_step L (L(i \<mapsto> Running (p\<lparr>sp_SpreadingFactor := sf, sp_TxPowerDbm := tx\<rparr>)))"
| ended: "L i = Some (Running p) \<Longrightarrow> life_step L (L(i \<mapsto> Ended p (Some stats)))"
| erased: "L i = Some (Ended p stats) \<Longrightarrow> life_step L (L(i \<mapsto> Erased))"

text \<open>
  Its laws.  A session is opened running; a running one never vanishes without having ended, and
  an ended one is frozen until it is erased, and the identifier of an erased one is never used again.
\<close>

lemma life_step_laws:
  assumes "life_step L L'"
  shows "L i = None \<Longrightarrow> L' i = None \<or> (\<exists>p. L' i = Some (Running p) \<and> legal_params p)"
    "L i = Some (Running p) \<Longrightarrow> \<exists>p' st. L' i = Some (Running p') \<or> L' i = Some (Ended p' st)"
    "L i = Some (Ended p st) \<Longrightarrow> L' i = Some (Ended p st) \<or> L' i = Some Erased"
    "L i = Some Erased \<Longrightarrow> L' i = Some Erased"
  using assms by (cases; auto split: if_splits)+

lemma ended_stays:
  assumes "life_step\<^sup>*\<^sup>* L L'" "L i = Some (Ended p st) \<or> L i = Some Erased"
  shows "L' i = Some (Ended p st) \<or> L' i = Some Erased"
  using assms by (induction rule: rtranclp_induct) (use life_step_laws in blast)+

section \<open>The ledger in the database\<close>

definition params_of :: "Session \<Rightarrow> SessionParams" where
  "params_of r = \<lparr>sp_SpreadingFactor = ss_SpreadingFactor r, sp_TxPowerDbm = ss_TxPowerDbm r, sp_WeatherSeverity = ss_WeatherSeverity r\<rparr>"

definition phase_of :: "Session \<Rightarrow> phase" where
  "phase_of r = (if ss_IsActive r then Running (params_of r) else Ended (params_of r) (ss_StatsSnapshot r))"

definition ledger_of :: "store \<Rightarrow> ledger" where
  "ledger_of st i =
     (case find (\<lambda>r. ss_ID r = i) (st_sessions st) of
        Some r \<Rightarrow> Some (phase_of r)
      | None \<Rightarrow> if i \<in> set (st_erased st) then Some Erased else None)"

text \<open>\<open>gen_random_uuid()\<close> hits no identifier of the table, nor one that was in it.\<close>

definition fresh_ids :: "formats \<Rightarrow> bool" where
  "fresh_ids F \<longleftrightarrow> (\<forall>st. fm_uuid F st \<notin> set (st_erased st) \<union> ss_ID ` set (st_sessions st))"

definition follows :: "formats \<Rightarrow> store \<Rightarrow> store \<Rightarrow> bool" where
  "follows F st st' \<longleftrightarrow> (fresh_ids F \<longrightarrow> life_step\<^sup>*\<^sup>* (ledger_of st) (ledger_of st') \<and>
     (distinct (map ss_ID (st_sessions st)) \<longrightarrow> distinct (map ss_ID (st_sessions st'))))"

lemma ledger_same: "st_sessions st' = st_sessions st \<Longrightarrow> st_erased st' = st_erased st \<Longrightarrow> ledger_of st' = ledger_of st"
  by (rule ext) (simp add: ledger_of_def split: option.split)

lemma follows_same: "st_sessions st' = st_sessions st \<Longrightarrow> st_erased st' = st_erased st \<Longrightarrow> follows F st st'"
  using ledger_same [of st' st] by (simp add: follows_def)

lemma find_append: "find P (xs @ ys) = (case find P xs of None \<Rightarrow> find P ys | Some x \<Rightarrow> Some x)"
  by (induction xs) auto

lemma find_absent: "i \<notin> ss_ID ` set rs \<Longrightarrow> find (\<lambda>r. ss_ID r = i) rs = None"
  by (auto simp: find_None_iff)

lemma follows_insert:
  assumes "legal_session (new_session nm sf tx ws)"
  shows "follows F st (snd (ref_InsertSession F nm sf tx ws st))"
proof -
  let ?st' = "snd (ref_InsertSession F nm sf tx ws st)" and ?i = "fm_uuid F st"
  let ?p = "\<lparr>sp_SpreadingFactor = sf, sp_TxPowerDbm = tx, sp_WeatherSeverity = sql_round 2 ws\<rparr>"
  have "life_step (ledger_of st) (ledger_of ?st')" "distinct (map ss_ID (st_sessions st)) \<longrightarrow> distinct (map ss_ID (st_sessions ?st'))"
    if "fresh_ids F" "\<not> fm_chars F nm > 150"
  proof -
    have new: "?i \<notin> ss_ID ` set (st_sessions st)" "?i \<notin> set (st_erased st)" using that(1) by (auto simp: fresh_ids_def)
    have "legal_params ?p" using assms legal_weather_round [of ws] by (simp add: legal_params_def legal_session_def new_session_def)
    moreover have "ledger_of ?st' = (ledger_of st)(?i \<mapsto> Running ?p)"
      using that(2) find_absent [OF new(1)] by (auto simp: ledger_of_def ref_InsertSession_def find_append phase_of_def params_of_def split: option.splits)
    ultimately show "life_step (ledger_of st) (ledger_of ?st')"
      using find_absent [OF new(1)] opened [of "ledger_of st" ?i ?p] new(2) by (simp add: ledger_of_def)
    show "distinct (map ss_ID (st_sessions st)) \<longrightarrow> distinct (map ss_ID (st_sessions ?st'))"
      using that(2) new(1) by (simp add: ref_InsertSession_def)
  qed
  then show ?thesis by (cases "fm_chars F nm > 150") (auto simp: follows_def ref_InsertSession_def)
qed

text \<open>An \<open>UPDATE\<close> of the running session of an identifier changes its phase only.\<close>

lemma follows_update:
  assumes "\<And>r. ss_ID (f r) = ss_ID r" "\<And>r p. ss_IsActive r \<Longrightarrow> phase_of r = Running p \<Longrightarrow> phase_of (f r) = g p"
    and step: "\<And>L p. L (fm_canon F i) = Some (Running p) \<Longrightarrow> life_step L (L(fm_canon F i \<mapsto> g p))"
  shows "follows F st (snd (update_sessions (active_with_id F i) f st))"
proof -
  let ?c = "fm_canon F i" and ?h = "\<lambda>r. if active_with_id F i r then f r else r" and ?st' = "snd (update_sessions (active_with_id F i) f st)"
  have id: "ss_ID (?h r) = ss_ID r" for r using assms(1) by simp
  have find: "find (\<lambda>r. ss_ID r = j) (map ?h rs) = map_option ?h (find (\<lambda>r. ss_ID r = j) rs)" for j rs
    by (induction rs) (simp_all add: id)
  have ledger: "ledger_of ?st' j = (case find (\<lambda>r. ss_ID r = j) (st_sessions st) of Some r \<Rightarrow> Some (phase_of (?h r))
      | None \<Rightarrow> if j \<in> set (st_erased st) then Some Erased else None)" for j
    by (simp add: ledger_of_def update_sessions_def find split: option.split)
  have found: "ss_ID r = j" if "find (\<lambda>r. ss_ID r = j) rs = Some r" for j r rs using that by (auto simp: find_Some_iff)
  have "life_step\<^sup>*\<^sup>* (ledger_of st) (ledger_of ?st')"
  proof (cases "\<exists>r. find (\<lambda>r. ss_ID r = ?c) (st_sessions st) = Some r \<and> ss_IsActive r")
    case True
    then obtain r where r: "find (\<lambda>r. ss_ID r = ?c) (st_sessions st) = Some r" "ss_IsActive r" by blast
    have h: "phase_of (?h r) = g (params_of r)"
      using r found [OF r(1)] assms(2) [OF r(2)] by (simp add: active_with_id_def phase_of_def)
    have "ledger_of ?st' j = ((ledger_of st)(?c \<mapsto> g (params_of r))) j" for j
    proof (cases "j = ?c")
      case True
      then show ?thesis using r(1) h by (simp add: ledger)
    next
      case False
      have "?h r' = r'" if "find (\<lambda>r. ss_ID r = j) (st_sessions st) = Some r'" for r'
        using found [OF that] False by (simp add: active_with_id_def)
      then show ?thesis
        unfolding ledger by (cases "find (\<lambda>r. ss_ID r = j) (st_sessions st)") (simp_all add: ledger_of_def False)
    qed
    then have "ledger_of ?st' = (ledger_of st)(?c \<mapsto> g (params_of r))" by blast
    moreover have "ledger_of st ?c = Some (Running (params_of r))" using r by (simp add: ledger_of_def phase_of_def)
    ultimately show ?thesis using step by (metis r_into_rtranclp)
  next
    case False
    have "ledger_of ?st' j = ledger_of st j" for j
    proof -
      have "?h r' = r'" if "find (\<lambda>r. ss_ID r = j) (st_sessions st) = Some r'" for r'
        using found [OF that] False that by (auto simp: active_with_id_def)
      then show ?thesis
        unfolding ledger by (cases "find (\<lambda>r. ss_ID r = j) (st_sessions st)") (simp_all add: ledger_of_def)
    qed
    then have "ledger_of ?st' = ledger_of st" by blast
    then show ?thesis by simp
  qed
  moreover have "map ss_ID (st_sessions ?st') = map ss_ID (st_sessions st)" by (simp add: update_sessions_def id comp_def)
  ultimately show ?thesis by (simp only: follows_def simp_thms)
qed

lemma follows_delete:
  assumes "\<And>sess. find (\<lambda>s. ss_ID s = fm_canon F i) (st_sessions st) = Some sess \<Longrightarrow> \<not> ss_IsActive sess"
  shows "follows F st (snd (ref_DeleteSession F i st))"
proof -
  let ?c = "fm_canon F i" and ?st' = "snd (ref_DeleteSession F i st)"
  have rest: "find (\<lambda>r. ss_ID r = j) (filter (\<lambda>r. ss_ID r \<noteq> ?c) rs) = (if j = ?c then None else find (\<lambda>r. ss_ID r = j) rs)" for j rs
    by (induction rs) auto
  have life: "life_step\<^sup>*\<^sup>* (ledger_of st) (ledger_of ?st')"
  proof (cases "find (\<lambda>s. ss_ID s = ?c) (st_sessions st)")
    case None
    then have none: "\<forall>r \<in> set (st_sessions st). ss_ID r \<noteq> ?c" by (auto simp: find_None_iff)
    then have "st_sessions ?st' = st_sessions st" "st_erased ?st' = st_erased st"
      by (auto simp: ref_DeleteSession_def filter_id_conv filter_empty_conv)
    then have "ledger_of ?st' = ledger_of st" by (rule ledger_same)
    then show ?thesis by simp
  next
    case (Some sess)
    then have "sess \<in> set (st_sessions st)" "ss_ID sess = ?c" by (auto simp: find_Some_iff)
    then have st': "st_sessions ?st' = filter (\<lambda>r. ss_ID r \<noteq> ?c) (st_sessions st)" "set (st_erased ?st') = insert ?c (set (st_erased st))"
      by (auto simp: ref_DeleteSession_def)
    have "ledger_of ?st' j = ((ledger_of st)(?c \<mapsto> Erased)) j" for j
      unfolding ledger_of_def st' rest by simp
    then have "ledger_of ?st' = (ledger_of st)(?c \<mapsto> Erased)" by blast
    moreover have "ledger_of st ?c = Some (Ended (params_of sess) (ss_StatsSnapshot sess))"
      using Some assms [OF Some] by (simp add: ledger_of_def phase_of_def)
    ultimately show ?thesis using erased [of "ledger_of st" ?c] by auto
  qed
  then show ?thesis by (simp add: follows_def ref_DeleteSession_def distinct_map_filter)
qed

interpretation ledger: table_frame F view X "follows F" for F view and X :: "'w ext"
proof
  show "tables st' = tables st \<Longrightarrow> follows F st st'" for st st' by (simp add: follows_same tables_def)
  show "follows F st st' \<Longrightarrow> follows F st' st'' \<Longrightarrow> follows F st st''" for st st' st'' by (auto simp: follows_def)
  show "follows F st (snd (ref_UpdateWeather F i ws st))" if "ValidateWeatherSeverity ws = Inr ()" for i ws st
    unfolding ref_UpdateWeather_def
    by (rule follows_update [where g = "\<lambda>p. Running (p\<lparr>sp_WeatherSeverity := sql_round 2 ws\<rparr>)"])
      (use legal_weather_round [OF that] in \<open>auto simp: phase_of_def params_of_def intro: weathered\<close>)
  show "follows F st (snd (ref_UpdateRadio F i sf tx st))"
    if "ValidateSpreadingFactor sf = Inr ()" "ValidateTxPower tx = Inr ()" for i sf tx st
    unfolding ref_UpdateRadio_def
    by (rule follows_update [where g = "\<lambda>p. Running (p\<lparr>sp_SpreadingFactor := sf, sp_TxPowerDbm := tx\<rparr>)"])
      (use that in \<open>auto simp: phase_of_def params_of_def intro: retuned\<close>)
  show "follows F st (snd (ref_StopSession F i js st))" for i js st
    unfolding ref_StopSession_def
    by (rule follows_update [where g = "\<lambda>p. Ended p (Some js)"]) (auto simp: phase_of_def params_of_def intro: ended)
  show "follows F st (snd (ref_DeleteSession F i st))"
    if "find (\<lambda>s. ss_ID s = fm_canon F i) (st_sessions st) = Some sess" "\<not> ss_IsActive sess" for i st sess
    by (rule follows_delete) (use that in simp)
qed (simp_all add: follows_insert follows_same ref_InsertEdge_def ref_UpdateEdge_def ref_DeleteEdge_def
    ref_InsertSchema_def ref_InsertTelemetry_def Let_def)

section \<open>Every run is a run of the ledger\<close>

text \<open>
  Whatever requests and frames arrive and wherever a command fails, the sessions of the database go
  through the steps of the ledger only: they are opened running under a new identifier with legal
  parameters, retuned while they run, ended once with their counters, frozen from then on, and erased,
  for good, only after they have ended; and no two rows ever share an identifier.
\<close>

theorem sessions_refine_ledger:
  assumes "ext_ok F view X" "fresh_ids F" "backend_run view X iv (start n w) b"
  shows "life_step\<^sup>*\<^sup>* (ledger_of (view w)) (ledger_of (view (sy_world (be_sys b)))) \<and>
    (distinct (map ss_ID (st_sessions (view w))) \<longrightarrow> distinct (map ss_ID (st_sessions (view (sy_world (be_sys b))))))"
  using ledger.run [OF assms(3,1)] assms(2) by (simp add: follows_def start_def)

text \<open>A request to erase the session of the small system, refused because it runs.\<close>

lemma plain_fresh: "fresh_ids plain_formats"
proof -
  have short: "length j \<le> length (concat js)" if "j \<in> set js" for j and js :: "string list"
    using that by (induction js) auto
  have new: "''u'' @ concat js \<notin> set js" for js using short [of "''u'' @ concat js" js] by auto
  have "fm_uuid plain_formats st \<notin> set (st_erased st) \<union> ss_ID ` set (st_sessions st)" for st
    using new [of "st_erased st @ map ss_ID (st_sessions st)"] by (simp add: plain_formats_def)
  then show ?thesis by (simp add: fresh_ids_def)
qed

theorem sessions_refine_ledger_witness:
  "life_step\<^sup>*\<^sup>* (ledger_of duo_store)
     (ledger_of (sy_world (snd (serve duo_X plain_env ''DELETE'' [''api'', ''v1'', ''simulations'', ''S''] [] plain_request (be_sys (start 8 duo_store))))))"
proof -
  have "backend_run (\<lambda>w. w) duo_X 0 (start 8 duo_store)
      (on_sys (\<lambda>s. snd (serve duo_X plain_env ''DELETE'' [''api'', ''v1'', ''simulations'', ''S''] [] plain_request s)) (start 8 duo_store))"
    by (rule run_step [OF run_here step_http [OF plain_probe]])
  from sessions_refine_ledger [OF duo_ext_ok plain_fresh this, THEN conjunct1] show ?thesis by (simp only: on_sys_simps)
qed

end
