(* ===== verification/Interleaved.thy ===== *)
theory Interleaved
  imports Calls Ledger
begin

text \<open>
  The backend with everything in flight at once: HTTP requests, frames of the job queue, ticks, connections
  that come and go, and the sockets' own goroutines, interleaved action by action.  The locale
  \<open>concurrent_frame\<close> extends the frame contract by what it takes to survive interference, and concludes that
  every interleaving of any number of calls stays within the relation.  Flights interprets it for the hub, for
  the legality of the tables, for the ledger of sessions and for the claims in Redis.
\<close>

section \<open>The machine\<close>

text \<open>
  What can begin: any call; but an edge is created or updated only as the REST layer asks for it when it serves a
  request, a probe changes nothing, a frame comes from a session whose identifier is a UUID, and the end of a
  connection is that of a client of the hub.
\<close>

fun permitted :: "('w \<Rightarrow> store) \<Rightarrow> 'w sys \<Rightarrow> 'w call \<Rightarrow> bool" where
  "permitted view s (CallCreateEdge code name lat lng) \<longleftrightarrow>
     (\<exists>env m path r. request_call (env :: 'w http_env) m path r = CallCreateEdge code name lat lng)"
| "permitted view s (CallUpdateEdge code name lat lng) \<longleftrightarrow>
     (\<exists>env m path r. request_call (env :: 'w http_env) m path r = CallUpdateEdge code name lat lng)"
| "permitted view s (CallReady probe) \<longleftrightarrow> (\<forall>w. calm {} (view w) (view (snd (probe w))))"
| "permitted view s (CallJob j) \<longleftrightarrow> colon_free (jb_sessionID j)"
| "permitted view s (CallNodeGone i n c) \<longleftrightarrow> colon_free i \<and> is_client (sy_hub s) c (kindNode, i, n)"
| "permitted view s (CallMonitorGone c) \<longleftrightarrow> (\<exists>i. is_client (sy_hub s) c (kindMonitor, i, []))"
| "permitted view s _ \<longleftrightarrow> True"

definition begins_call :: "('w \<Rightarrow> store) \<Rightarrow> 'w ext \<Rightarrow> duration \<Rightarrow> 'w sys \<Rightarrow> ('w sys, unit) prog \<Rightarrow> bool" where
  "begins_call view X iv s p \<longleftrightarrow> (\<exists>c. permitted view s c \<and> p = program X iv c)"

text \<open>The write pump of a socket takes a frame from its queue, or a pump closes the socket.\<close>

definition socket_step :: "'w sys \<Rightarrow> 'w sys \<Rightarrow> bool" where
  "socket_step s s' \<longleftrightarrow> (\<exists>c. s' = snd (on_hub (writePump_frame c) s) \<or> s' = close_client c s)"

definition concurrent_run ::
  "('w \<Rightarrow> store) \<Rightarrow> 'w ext \<Rightarrow> duration \<Rightarrow> 'w sys pool \<Rightarrow> (nat \<times> 'w sys \<times> 'w sys) list \<Rightarrow> 'w sys pool \<Rightarrow> bool" where
  "concurrent_run view X iv = pool_run (begins_call view X iv) socket_step"

text \<open>The checks of the handlers stand between a request and the edge it asks for.\<close>

lemma edge_call_legal:
  "edge_call req (CallCreateEdge code) = CallCreateEdge code' name la lo \<Longrightarrow> code' = code \<and> legal_place name la lo"
  "edge_call req (CallUpdateEdge code) = CallUpdateEdge code' name la lo \<Longrightarrow> legal_place name la lo"
  using legal_checked_edge(1) [of req] by (auto simp: edge_call_def split: option.splits)

lemma edge_call_other [simp]:
  "edge_call req (CallCreateEdge code) \<noteq> CallUpdateEdge code' name la lo" "edge_call req (CallUpdateEdge code) \<noteq> CallCreateEdge code' name la lo"
  by (auto simp: edge_call_def split: option.splits)

lemma request_edge_legal:
  "request_call env m path r = CallCreateEdge code name la lo \<Longrightarrow> legal_code code \<and> legal_place name la lo"
  "request_call env m path r = CallUpdateEdge code name la lo \<Longrightarrow> legal_place name la lo"
proof -
  have code: "legal_code code" if "check_code code = None" for code using that by (rule legal_checked_edge(2))
  have "legal_code code \<and> legal_place name la lo" if "endpoint_call env ep r' = CallCreateEdge code name la lo" for ep r'
    using that by (cases ep) (auto simp: parsed_def code dest: edge_call_legal split: sum.splits option.splits if_splits)
  then show "request_call env m path r = CallCreateEdge code name la lo \<Longrightarrow> legal_code code \<and> legal_place name la lo"
    by (auto simp: request_call_def Let_def split: dispatch.splits if_splits)
  have "legal_place name la lo" if "endpoint_call env ep r' = CallUpdateEdge code name la lo" for ep r'
    using that by (cases ep) (auto simp: parsed_def dest: edge_call_legal split: sum.splits option.splits if_splits)
  then show "request_call env m path r = CallUpdateEdge code name la lo \<Longrightarrow> legal_place name la lo"
    by (auto simp: request_call_def Let_def split: dispatch.splits if_splits)
qed

lemma permitted_edge:
  "permitted view s (CallCreateEdge code name la lo) \<Longrightarrow> legal_code code \<and> legal_place name la lo"
  "permitted view s (CallUpdateEdge code name la lo) \<Longrightarrow> legal_place name la lo"
  by (auto dest: request_edge_legal)

text \<open>Every request may begin.\<close>

lemma request_permitted: "quiet_probe view env \<Longrightarrow> permitted view s (request_call env m path r)"
proof -
  assume probe: "quiet_probe view env"
  have not_inner: "request_call env m path r \<noteq> CallJob j" "request_call env m path r \<noteq> CallNodeGone i n c"
      "request_call env m path r \<noteq> CallMonitorGone c" for j i n c
  proof -
    have "endpoint_call env ep r' \<noteq> CallJob j \<and> endpoint_call env ep r' \<noteq> CallNodeGone i n c \<and> endpoint_call env ep r' \<noteq> CallMonitorGone c" for ep r'
      by (cases ep) (auto simp: parsed_def edge_call_def split: sum.split option.split)
    then show "request_call env m path r \<noteq> CallJob j" "request_call env m path r \<noteq> CallNodeGone i n c"
      "request_call env m path r \<noteq> CallMonitorGone c" by (auto simp: request_call_def Let_def split: dispatch.split)
  qed
  have ready: "p = he_ready env" if "request_call env m path r = CallReady p" for p
  proof -
    have "p = he_ready env" if "endpoint_call env ep r' = CallReady p" for ep r'
      using that by (cases ep) (auto simp: parsed_def edge_call_def split: sum.splits option.splits if_splits)
    then show ?thesis using that by (auto simp: request_call_def Let_def split: dispatch.splits if_splits)
  qed
  show ?thesis
  proof (cases "request_call env m path r")
    case (CallReady p)
    then show ?thesis using ready probe by (simp add: quiet_probe_def)
  qed (use not_inner in \<open>auto simp del: not_None_eq intro: exI\<close>)
qed

section \<open>The frame contract under interference\<close>

locale concurrent_frame = service_frame X P ok
  for X :: "'w ext" and P :: "'w sys \<Rightarrow> 'w sys \<Rightarrow> bool" and ok :: "string \<Rightarrow> bool" +
  fixes view :: "'w \<Rightarrow> store" and inv :: "'w sys \<Rightarrow> bool"
  assumes erase_later: "on_world (GetByID X i) s = (Inr sess, s') \<Longrightarrow> \<not> ss_IsActive sess \<Longrightarrow> P s' u \<Longrightarrow>
      P u (snd (on_world (RepoDelete X i) u))"
    and inv_later: "inv s \<Longrightarrow> P s u \<Longrightarrow> inv u" and served: "inv s \<Longrightarrow> i \<in> sy_active s \<Longrightarrow> ok i"
    and uuids: "colon_free i \<Longrightarrow> ok i"
    and probes: "(\<And>w. calm {} (view w) (view (snd (probe w)))) \<Longrightarrow> P s (snd (on_world (probe :: 'w \<Rightarrow> (string + unit) \<times> 'w) s))"
    and sockets: "P s (snd (on_hub (writePump_frame c) s))" "P s (close_client c s)"
    and partings: "inv s \<Longrightarrow> is_client (sy_hub s) c (kindNode, i, n) \<Longrightarrow> P s u \<Longrightarrow> P u (snd (on_hub (\<lambda>h. unregisterNode c (Close c h)) u))"
      "inv s \<Longrightarrow> is_client (sy_hub s) c (kindMonitor, i, []) \<Longrightarrow> P s u \<Longrightarrow> P u (monitor_onClose c u)"

sublocale concurrent_frame \<subseteq> rely P
  by unfold_locales (auto intro: trans)

context concurrent_frame
begin

lemma safe_cmd: "(\<And>s. P s (snd (on_world f s))) \<Longrightarrow> safe P (cmd f)"
  unfolding cmd_def by (rule safe_call)

lemma safe_cmd_then:
  "(\<And>s. P s (snd (on_world f s))) \<Longrightarrow> (\<And>s x s'. on_world f s = (x, s') \<Longrightarrow> safe P (g x)) \<Longrightarrow> safe P (and_then (cmd f) g)"
  unfolding cmd_def by (rule safe_call_then)

lemma safe_look: "safe P (look f)"
  unfolding look_def by (rule safe_call) simp

lemma safe_look_then: "(\<And>x. safe P (g x)) \<Longrightarrow> safe P (and_then (look f) g)"
  by (rule safe_and_then [OF safe_look])

lemmas laws = reads queries removals clock rand statements writes claims

lemmas go = safe_flow safe_cmd_then safe_cmd safe_look_then

lemma safe_sends: "safe P (for_each (\<lambda>c. act (monitor_send c f)) cs)"
  by (intro safe_for_each safe_act sends)

lemma safe_hub:
  "safe P (SendToNode_prog i n f)" "safe P (BroadcastToNodes_prog i f)" "safe P (BroadcastToMonitors_prog i f)"
  "safe P (KickSession_prog i)" "safe P Shutdown_prog"
  unfolding SendToNode_prog_def BroadcastToNodes_prog_def BroadcastToMonitors_prog_def KickSession_prog_def Shutdown_prog_def
  by (intro go safe_sends safe_for_each safe_act sends sockets)+

lemma safe_incr: "ok i \<Longrightarrow> safe P (incr_prog X i g)"
  unfolding incr_prog_def by (intro go laws)

lemma safe_emit: "safe P (emitPacketEvent_prog X i ev)"
  unfolding emitPacketEvent_prog_def by (intro go laws safe_hub)

lemma safe_reject: "ok i \<Longrightarrow> safe P (reject_prog X i n code msg)"
  unfolding reject_prog_def by (intro go safe_hub safe_incr)

lemma safe_drop: "ok i \<Longrightarrow> safe P (drop_prog X i pkt reason g v)"
  unfolding drop_prog_def by (intro go safe_emit safe_incr)

lemma safe_roll: "safe P (roll_prog X d pr)" "(\<And>v. safe P (g v)) \<Longrightarrow> safe P (and_then (roll_prog X d pr) g)"
  unfolding roll_prog_def by (intro go laws; assumption)+

lemmas tools = safe_hub safe_incr safe_emit safe_reject safe_drop safe_roll

lemma safe_ping: "ok i \<Longrightarrow> safe P (HandlePing_prog X iv i n la lo)"
  unfolding HandlePing_prog_def by (rule go laws tools | assumption)+

lemma safe_duplicate: "ok i \<Longrightarrow> safe P (handleDuplicate_prog X i pkt t d pr v)"
  unfolding handleDuplicate_prog_def by (rule go laws tools | assumption)+

lemma safe_forward: "ok i \<Longrightarrow> safe P (forwardToNode_prog X i pkt t v)"
  unfolding forwardToNode_prog_def by (rule go laws tools | assumption)+

lemma safe_return_ack: "ok i \<Longrightarrow> safe P (return_ack_prog X i p r t status v)"
  unfolding return_ack_prog_def by (rule go laws tools | assumption)+

lemma safe_deliver: "ok i \<Longrightarrow> legal_hops (pk_HopCount pkt) \<Longrightarrow> safe P (deliverToEdge_prog X i pkt payload e t d pr v)"
  unfolding deliverToEdge_prog_def by (rule go laws tools safe_return_ack | simp add: telemetry_row_def | assumption)+

lemma safe_propagate: "ok i \<Longrightarrow> legal_hops (pk_HopCount pkt) \<Longrightarrow> safe P (propagate_prog X i pkt payload edge t d pr)"
  unfolding propagate_prog_def by (rule go laws tools safe_duplicate safe_forward safe_deliver | assumption)+

lemma safe_edgeCache: "safe P (edgeCache_get_prog X code)"
proof -
  have peek: "P s (snd (edgeCache_peek X code s))" for s
    using clock [of s] by (simp add: edgeCache_peek_def edgeCache_fresh_def Let_def case_prod_beta)
  have fill: "P s (snd (edgeCache_fill X es code s))" for s es
    using trans [OF clock [of s] cache] by (simp add: edgeCache_fill_def Let_def case_prod_beta)
  have calls: "safe P (call (edgeCache_peek X code))" "safe P (call (edgeCache_fill X es code))" for es
    by (rule safe_call, rule peek, rule safe_call, rule fill)
  show ?thesis
    unfolding edgeCache_get_prog_def by (rule go laws safe_and_then [OF calls(1)] safe_and_then [OF calls(2)] | assumption)+
qed

lemma safe_resolve: "ok i \<Longrightarrow> safe P (resolve_target_prog X i pkt edge)"
  unfolding resolve_target_prog_def by (rule go laws tools | assumption)+

lemma safe_transmit_checked: "ok i \<Longrightarrow> Validate pkt = Inr x \<Longrightarrow> safe P (transmit_checked_prog X i pkt t payload pr)"
  unfolding transmit_checked_prog_def
  by (rule go laws tools safe_and_then [OF safe_edgeCache] safe_and_then [OF safe_resolve] safe_propagate legal_valid_hops | assumption)+

lemma safe_transmit: "ok i \<Longrightarrow> safe P (HandleTransmit_prog X i sender pkt)"
  unfolding HandleTransmit_prog_def prod.case by (rule go laws tools safe_transmit_checked | assumption)+

lemma safe_ack: "ok i \<Longrightarrow> safe P (HandleAck_prog X i receiver ack)"
  unfolding HandleAck_prog_def prod.case by (rule go laws tools safe_return_ack | assumption)+

lemma safe_push: "(\<And>f. safe P (send f)) \<Longrightarrow> safe P (push_params_prog X i send)"
  unfolding push_params_prog_def by (rule go laws | assumption)+

lemma safe_connected: "safe P (NodeConnected_prog X i n)"
  unfolding NodeConnected_prog_def by (rule go laws tools safe_push | assumption)+

lemma safe_disconnected: "ok i \<Longrightarrow> safe P (NodeDisconnected_prog X i n)"
  unfolding NodeDisconnected_prog_def by (rule go laws tools | assumption)+

lemma safe_Snapshot: "safe P (Snapshot_prog X i)"
  unfolding Snapshot_prog_def by (rule go laws | assumption)+

lemma safe_monitor: "(\<And>f. safe P (send f)) \<Longrightarrow> safe P (MonitorConnected_prog X i send)"
  unfolding MonitorConnected_prog_def by (rule go safe_push safe_and_then [OF safe_Snapshot] | assumption)+

lemma safe_open: "(\<And>c. safe P (g c)) \<Longrightarrow> safe P (and_then (call (on_hub (open_node i n))) g)"
  "(\<And>c. safe P (g c)) \<Longrightarrow> safe P (and_then (call (on_hub (open_monitor i))) g)"
proof -
  have "safe P (call (on_hub (open_node i n)))" "safe P (call (on_hub (open_monitor i)))"
    by (rule safe_call, rule opens)+
  then show "(\<And>c. safe P (g c)) \<Longrightarrow> safe P (and_then (call (on_hub (open_node i n))) g)"
    "(\<And>c. safe P (g c)) \<Longrightarrow> safe P (and_then (call (on_hub (open_monitor i))) g)"
    by (auto intro: safe_and_then)
qed

lemma safe_NodeWS: "safe P (HandleNodeWS_prog X up i n)"
  unfolding HandleNodeWS_prog_def by (rule go laws safe_open safe_connected | assumption)+

lemma safe_MonitorWS: "safe P (HandleMonitorWS_prog X up i)"
  unfolding HandleMonitorWS_prog_def by (rule go laws safe_open safe_monitor safe_act sends | assumption)+

lemma safe_job: "ok (jb_sessionID j) \<Longrightarrow> safe P (safeProcess_prog X iv j)"
  unfolding safeProcess_prog_def Let_def by (rule go tools safe_ping safe_transmit safe_ack | assumption)+

lemma safe_notify: "safe P (notify_prog i old changed tbl)"
  by (induction i old changed tbl rule: notify_prog.induct) (auto intro: safe_seq safe_hub)

lemma safe_recompute: "ok i \<Longrightarrow> safe P (recompute_prog X i)"
  unfolding recompute_prog_def Let_def by (rule go laws tools safe_and_then [OF safe_notify] | assumption)+

lemma safe_cacheParams: "ok (ss_ID sess) \<Longrightarrow> safe P (cacheParams_prog X sess)"
  unfolding cacheParams_prog_def by (intro go laws)

lemma safe_schedule: "ok i \<Longrightarrow> safe P (act (AddSession i))" "safe P (act (RemoveSession i))"
  by (intro safe_act schedule; assumption?)+

lemma safe_Create: "safe P (Create_prog X name sf tx ws)"
  unfolding Create_prog_def
  by (rule go laws safe_and_then [OF safe_cacheParams] safe_schedule created_id legal_new_session | assumption)+

lemma safe_refresh: "safe P (refreshAndBroadcast_prog X i)"
  unfolding refreshAndBroadcast_prog_def Let_def
  by (rule go laws tools safe_and_then [OF safe_cacheParams] found_id | assumption)+

lemma safe_updates: "safe P (UpdateWeather_prog X i ws)" "safe P (UpdateRadioParams_prog X i sf tx)"
  unfolding UpdateWeather_prog_def UpdateRadioParams_prog_def Let_def by (rule go laws safe_refresh | assumption)+

lemma safe_Stop: "safe P (Stop_prog X i)"
  unfolding Stop_prog_def by (rule go laws tools safe_schedule stopped_id | assumption)+

lemma safe_Get: "safe P (Get_prog X i)" "safe P (LiveStats_prog X i)"
  unfolding Get_prog_def LiveStats_prog_def by (rule go laws | assumption)+

lemma safe_SetSchema: "safe P (SetSchema_prog X i flds)"
  unfolding SetSchema_prog_def Let_def by (rule go laws tools | assumption)+

lemma safe_resume: "list_all (\<lambda>r. ok (ss_ID r)) rows \<Longrightarrow> safe P (resume_prog X rows)"
  by (induction rows) (auto intro!: safe_flow safe_schedule safe_and_then [OF safe_cacheParams])

lemma safe_ResumeActive: "safe P (ResumeActive_prog X)"
  unfolding ResumeActive_prog_def by (rule go laws safe_resume listed_ids | assumption)+

text \<open>Between the look at the row and the deletion others may act: what it relies on is that an ended row stays ended.\<close>

lemma upholds_Delete: "upholds P (DeleteSession_prog X i) (\<lambda>_. True) (\<lambda>_ _. True)"
proof -
  let ?seen = "\<lambda>r u. \<forall>sess. r = Inr sess \<longrightarrow> \<not> ss_IsActive sess \<longrightarrow> (\<exists>s s'. on_world (GetByID X i) s = (Inr sess, s') \<and> P s' u)"
  show ?thesis
    unfolding DeleteSession_prog_def
  proof (rule upholds_and_then)
    show "upholds P (cmd (GetByID X i)) (\<lambda>_. True) ?seen"
      unfolding cmd_def
    proof (rule upholds_call)
      show "P s (snd (on_world (GetByID X i) s)) \<and> ?seen (fst (on_world (GetByID X i) s)) (snd (on_world (GetByID X i) s))" for s
        using queries(1) refl by (metis prod.collapse)
      show "stable P (?seen x)" for x unfolding stable_def using trans by blast
    qed
    show "upholds P (case r of Inl e \<Rightarrow> Ret (Inl e) | Inr sess \<Rightarrow>
        if ss_IsActive sess then Ret (Inl ErrSessionStillActive) else cmd (RepoDelete X i)) (?seen r) (\<lambda>_ _. True)" for r
    proof (cases "\<exists>sess. r = Inr sess \<and> \<not> ss_IsActive sess")
      case True
      then obtain sess where r: "r = Inr sess" "\<not> ss_IsActive sess" by blast
      have "upholds P (cmd (RepoDelete X i)) (?seen r) (\<lambda>_ _. True)"
        unfolding cmd_def by (rule upholds_call) (use r erase_later in auto)
      then show ?thesis using r by simp
    next
      case False
      then show ?thesis by (cases r) auto
    qed
  qed
qed

lemma upholds_tick: "upholds P (tick_prog X) inv (\<lambda>_ _. True)"
  unfolding tick_prog_def
proof (rule upholds_and_then)
  have "\<forall>i \<in> set (activeSessions s). ok i" if "inv s" for s
    using served [OF that] by (cases "finite (sy_active s)") (simp_all add: activeSessions_def)
  then show "upholds P (look activeSessions) inv (\<lambda>ids _. \<forall>i \<in> set ids. ok i)"
    unfolding look_def by (intro upholds_call) auto
  show "upholds P (for_each (\<lambda>i. ignore (recompute_prog X i)) ids) (\<lambda>_. \<forall>i \<in> set ids. ok i) (\<lambda>_ _. True)" for ids
  proof (cases "\<forall>i \<in> set ids. ok i")
    case True
    then show ?thesis by (intro safe_upholds safe_for_each safe_ignore safe_recompute) auto
  next
    case False
    have "upholds P p (\<lambda>_. False) Q" for p :: "('w sys, unit) prog" and Q by (cases p) (auto simp: upholds_Act)
    then show ?thesis by (simp only: False)
  qed
qed

lemma upholds_node_gone:
  assumes "ok i" "inv s" "is_client (sy_hub s) c (kindNode, i, n)"
  shows "upholds P (node_onClose_prog X i n c) (P s) (\<lambda>_ _. True)"
  unfolding node_onClose_prog_def
proof (rule upholds_and_then)
  show "upholds P (call (on_hub (\<lambda>h. unregisterNode c (Close c h)))) (P s) (\<lambda>_ _. True)"
    by (rule upholds_call) (use partings(1) [OF assms(2,3)] in auto)
  show "upholds P (if removed then NodeDisconnected_prog X i n else Ret ()) (\<lambda>_. True) (\<lambda>_ _. True)" for removed
    using safe_upholds [OF safe_disconnected [OF assms(1), of n]] by simp
qed

lemma upholds_monitor_gone:
  assumes "inv s" "is_client (sy_hub s) c (kindMonitor, i, [])"
  shows "upholds P (act (monitor_onClose c)) (P s) (\<lambda>_ _. True)"
  unfolding act_def by (rule upholds_call) (use partings(2) [OF assms] in auto)

text \<open>What every call upholds, and the condition it starts from.\<close>

lemma stable_since [simp]: "stable P (P s)"
  unfolding stable_def using trans by blast

lemma stable_inv [simp]: "stable P inv"
  unfolding stable_def using inv_later by blast

lemma safe_edges:
  "legal_code code \<Longrightarrow> legal_place name la lo \<Longrightarrow> safe P (cmd (EdgeCreate X (new_edge code name la lo)))"
  "legal_place name la lo \<Longrightarrow> safe P (cmd (EdgeUpdate X code name la lo))"
  by (intro go laws; simp add: new_edge_def)+

lemma safe_program:
  assumes "permitted view s c" "case c of CallDelete _ \<Rightarrow> False | CallTick \<Rightarrow> False | CallNodeGone _ _ _ \<Rightarrow> False | CallMonitorGone _ \<Rightarrow> False | _ \<Rightarrow> True"
  shows "safe P (program X iv c)"
proof (cases c)
  case (CallTelemetry i limit offset)
  show ?thesis unfolding CallTelemetry program.simps by (rule go laws | assumption)+
next
  case (CallReady probe)
  then show ?thesis using assms(1) by (auto intro!: go probes)
next
  case (CallCreateEdge code name la lo)
  then show ?thesis using permitted_edge(1) [of view s] assms(1) by (simp add: safe_ignore safe_edges del: permitted.simps)
next
  case (CallUpdateEdge code name la lo)
  then show ?thesis using permitted_edge(2) [of view s] assms(1) by (simp add: safe_ignore safe_edges del: permitted.simps)
next
  case (CallJob j)
  then show ?thesis using assms(1) by (simp add: safe_job uuids)
qed (use assms(2) in \<open>simp_all add: safe_ignore safe_cmd laws removals safe_hub safe_Create safe_updates safe_Stop safe_Get safe_SetSchema
      safe_Snapshot safe_NodeWS safe_MonitorWS safe_ResumeActive\<close>)

lemma call_upholds:
  assumes "permitted view s c" "inv s"
  shows "keeping s (program X iv c)"
proof (cases c)
  case (CallDelete i)
  have "upholds P (ignore (DeleteSession_prog X i)) (\<lambda>_. True) (\<lambda>_ _. True)"
    unfolding ignore_def by (rule upholds_and_then [OF upholds_Delete]) simp
  then show ?thesis unfolding CallDelete program.simps keeping_def by (intro exI [of _ "\<lambda>_. True"]) simp
next
  case CallTick
  then show ?thesis using assms(2) upholds_tick unfolding CallTick program.simps keeping_def by (intro exI [of _ inv]) simp
next
  case (CallNodeGone i n d)
  then show ?thesis using assms(1) upholds_node_gone [OF uuids assms(2)] unfolding keeping_def by (intro exI [of _ "P s"]) simp
next
  case (CallMonitorGone d)
  then show ?thesis using assms(1) upholds_monitor_gone [OF assms(2)] unfolding keeping_def by (intro exI [of _ "P s"]) auto
qed (rule safe_keeping, rule safe_program [OF assms(1)], simp)+

text \<open>Every interleaving stays within the relation.\<close>

theorem concurrent:
  assumes "concurrent_run view X iv (s0, ps0) tr (s, ps)" "inv s0" "\<forall>p \<in> set ps0. keeping s0 p"
  shows "ordered s0 tr s \<and> inv s"
proof -
  have "P u u'" if "socket_step u u'" for u u' using that sockets by (auto simp: socket_step_def)
  moreover have "keeping u p" if "begins_call view X iv u p" "inv u" for u p
    using that call_upholds by (auto simp: begins_call_def)
  ultimately show ?thesis
    using pool_upholds [OF assms(1) [unfolded concurrent_run_def] stable_inv assms(2,3)] by blast
qed

text \<open>Transmissions that are in flight from the beginning.\<close>

lemma keeping_transmissions: "ok i \<Longrightarrow> \<forall>p \<in> set (map (\<lambda>(sender, pkt). HandleTransmit_prog X i sender pkt) txs). keeping s0 p"
  by (auto intro!: safe_keeping safe_transmit)

end

section \<open>The tables\<close>

text \<open>A relation between tables survives interference if a row once seen ended may be erased from then on.\<close>

locale table_rely = table_frame F view X R
  for F :: formats and view :: "'w \<Rightarrow> store" and X :: "'w ext" and R :: "store \<Rightarrow> store \<Rightarrow> bool" +
  assumes erase_ended: "find (\<lambda>s. ss_ID s = fm_canon F i) (st_sessions st) = Some sess \<Longrightarrow> \<not> ss_IsActive sess \<Longrightarrow> R st st' \<Longrightarrow>
      R st' (snd (ref_DeleteSession F i st'))"

sublocale table_rely \<subseteq> flights: concurrent_frame X obeys "\<lambda>_. True" view "\<lambda>_. True"
proof
  fix s s' u :: "'w sys" and i sess
  assume got: "on_world (GetByID X i) s = (Inr sess, s')" "\<not> ss_IsActive sess" and later: "obeys s' u"
  show "obeys u (snd (on_world (RepoDelete X i) u))"
    unfolding obeys_def
  proof
    assume X: "ext_ok F view X"
    obtain w' where "GetByID X i (sy_world s) = (Inr sess, w')" "sy_world s' = w'" using got(1) by (rule on_worldE) simp
    then have seen: "find (\<lambda>s. ss_ID s = fm_canon F i) (st_sessions (view (sy_world s'))) = Some sess"
      using found_row [OF ext_parts(2) [OF X]] by simp
    have "R (view (sy_world s')) (at_time t (view (sy_world u)))" for t
      using later X chain [OF _ same [of "at_time t (view (sy_world u))" "view (sy_world u)"]] by (simp add: obeys_def)
    then have "R (view (sy_world u)) (view (snd (qDeleteSession X i (sy_world u))))"
      by (intro statement_step [OF sql_okD(8) [OF ext_parts(2) [OF X]] erase_ended [OF seen got(2)]])
    then show "R (view (sy_world u)) (view (sy_world (snd (on_world (RepoDelete X i) u))))" by (simp add: RepoDelete_def)
  qed
next
  show "obeys s (snd (on_world f s))" if "\<And>w. calm {} (view w) (view (snd (f w)))" for f :: "'w \<Rightarrow> (string + unit) \<times> 'w" and s
    by (rule obeys_calm [where K = "{}"]) (rule that)
qed (simp_all add: obeys_same close_client_def monitor_onClose_def)

end
