(* ===== verification/Flights.thy ===== *)
theory Flights
  imports Interleaved Runs
begin

text \<open>
  What holds however the requests, frames, ticks and connections of the backend interleave: the interpretations
  of the contract of interference for the tables, the hub and the dedup claims, and the properties they give.
\<close>

section \<open>The tables\<close>

interpretation legal_rely: table_rely F view X "\<lambda>st st'. legal_store st \<longrightarrow> legal_store st'" for F view and X :: "'w ext"
proof
  show "legal_store st' \<longrightarrow> legal_store (snd (ref_DeleteSession F i st'))" for i st' by (rule impI, erule legal_effects)
qed

interpretation ledger_rely: table_rely F view X "follows F" for F view and X :: "'w ext"
proof
  fix i st st' sess
  assume row: "find (\<lambda>s. ss_ID s = fm_canon F i) (st_sessions st) = Some sess" "\<not> ss_IsActive sess" and later: "follows F st st'"
  show "follows F st' (snd (ref_DeleteSession F i st'))"
  proof (cases "fresh_ids F")
    case True
    have "ledger_of st (fm_canon F i) = Some (Ended (params_of sess) (ss_StatsSnapshot sess))"
      using row by (simp add: ledger_of_def phase_of_def)
    then have now: "ledger_of st' (fm_canon F i) = Some (Ended (params_of sess) (ss_StatsSnapshot sess)) \<or> ledger_of st' (fm_canon F i) = Some Erased"
      using ended_stays [of "ledger_of st" "ledger_of st'"] later True by (simp add: follows_def)
    show ?thesis
    proof (rule follows_delete)
      fix r assume "find (\<lambda>s. ss_ID s = fm_canon F i) (st_sessions st') = Some r"
      then have "ledger_of st' (fm_canon F i) = Some (phase_of r)" by (simp add: ledger_of_def)
      then show "\<not> ss_IsActive r" using now by (auto simp: phase_of_def)
    qed
  qed (simp add: follows_def)
qed

section \<open>The hub\<close>

text \<open>Any hub step leaves the clients that exist where they are.\<close>

definition hub_moves :: "int \<Rightarrow> 'w sys \<Rightarrow> 'w sys \<Rightarrow> bool" where
  "hub_moves n s s' \<longleftrightarrow> (hub_reachable n (sy_hub s) \<longrightarrow>
     hub_reachable n (sy_hub s') \<and> (\<forall>c d. is_client (sy_hub s) c d \<longrightarrow> is_client (sy_hub s') c d))"

lemma register_clients [simp]:
  "is_client (registerNode c h) e d = is_client h e d" "is_client (snd (unregisterNode c h)) e d = is_client h e d"
  "is_client (registerMonitor c h) e d = is_client h e d" "is_client (unregisterMonitor c h) e d = is_client h e d"
  by (auto simp: registerNode_def unregisterNode_def registerMonitor_def unregisterMonitor_def Let_def
      is_client_same [OF Close_registry] split: option.split)

lemma hub_step_clients: "hub_step h h' \<Longrightarrow> hub_inv h \<Longrightarrow> is_client h c d \<Longrightarrow> is_client h' c d"
proof (induction rule: hub_step.induct)
  case (step_open_node h s n)
  obtain u h1 where n: "newClient kindNode s n h = (u, h1)" by force
  then have "is_client h1 c d" using hub_inv_fresh [OF step_open_node] step_open_node(2) by (auto simp: newClient_def is_client_def)
  then show ?case by (simp add: open_node_def n)
next
  case (step_open_monitor h s)
  obtain u h1 where n: "newClient kindMonitor s [] h = (u, h1)" by force
  then have "is_client h1 c d" using hub_inv_fresh [OF step_open_monitor] step_open_monitor(2) by (auto simp: newClient_def is_client_def)
  then show ?case by (simp add: open_monitor_def n)
next
  case (step_close_node h e s n)
  then show ?case using is_client_same [OF Close_registry] by simp
qed (simp_all add: is_client_same [OF Close_registry] is_client_same [OF trySend_registry] is_client_same [OF writePump_registry]
    broadcast_registry [THEN is_client_same])

lemma hub_moves_step: "hub_step (sy_hub s) (sy_hub s') \<Longrightarrow> hub_moves n s s'"
  unfolding hub_moves_def using reach_step hub_step_clients hub_reachable_inv by blast

lemma hub_moves_same: "sy_hub s' = sy_hub s \<Longrightarrow> hub_moves n s s'"
  by (simp add: hub_moves_def)

interpretation moves: service_frame X "hub_moves n" "\<lambda>_. True" for X :: "'w ext" and n
proof
  show "hub_moves n s s' \<Longrightarrow> hub_moves n s' s'' \<Longrightarrow> hub_moves n s s''" for s s' s'' :: "'w sys"
    unfolding hub_moves_def by blast
  show "hub_moves n s (send_node i k f s)" "hub_moves n s (to_nodes i f s)" "hub_moves n s (to_monitors i f s)"
    "hub_moves n s (kick_session i s)" "hub_moves n s (monitor_send c f s)" for s :: "'w sys" and i k f c
    by (rule hub_moves_step, simp add: kick_session_def monitor_send_def hub_step.intros)+
  show "hub_moves n s (snd (on_hub (open_node i k) s))" "hub_moves n s (snd (on_hub (open_monitor i) s))" for s :: "'w sys" and i k
    by (rule hub_moves_step, simp add: hub_step.intros)+
qed (simp_all add: hub_moves_same AddSession_def RemoveSession_def list_all_iff)

interpretation moves: concurrent_frame X "hub_moves n" "\<lambda>_. True" view "\<lambda>s. hub_reachable n (sy_hub s)" for X :: "'w ext" and n view
proof
  fix s u :: "'w sys" and c i k
  assume r: "hub_reachable n (sy_hub s)" and u: "hub_moves n s u"
  show "hub_moves n u (snd (on_hub (\<lambda>h. unregisterNode c (Close c h)) u))" if "is_client (sy_hub s) c (kindNode, i, k)"
  proof (rule hub_moves_step)
    have "is_client (sy_hub u) c (kindNode, i, k)" using that r u by (simp add: hub_moves_def)
    then show "hub_step (sy_hub u) (sy_hub (snd (on_hub (\<lambda>h. unregisterNode c (Close c h)) u)))" by (simp add: hub_step.intros)
  qed
  show "hub_moves n u (monitor_onClose c u)" if "is_client (sy_hub s) c (kindMonitor, i, [])"
  proof (rule hub_moves_step)
    have "is_client (sy_hub u) c (kindMonitor, i, [])" using that r u by (simp add: hub_moves_def)
    then show "hub_step (sy_hub u) (sy_hub (monitor_onClose c u))" by (simp add: monitor_onClose_def hub_step.intros)
  qed
next
  show "hub_moves n s (snd (on_hub (writePump_frame c) s))" "hub_moves n s (close_client c s)" for s :: "'w sys" and c
    by (rule hub_moves_step, simp add: close_client_def hub_step.intros)+
qed (simp_all add: hub_moves_same hub_moves_def)

section \<open>The claims\<close>

lemma service_frame_both:
  assumes p: "service_frame X P ok" and q: "service_frame X Q ok"
  shows "service_frame X (\<lambda>s s'. P s s' \<and> Q s s') ok"
proof (unfold_locales, goal_cases)
  case (2 s s' s'')
  then show ?case using service_frame.trans [OF p] service_frame.trans [OF q] by blast
qed (assumption | rule conjI service_frame.refl [OF p] service_frame.clock [OF p] service_frame.rand [OF p] service_frame.reads [OF p]
    service_frame.queries [OF p] service_frame.removals [OF p] service_frame.erasure [OF p] service_frame.statements [OF p]
    service_frame.writes [OF p] service_frame.claims [OF p] service_frame.sends [OF p] service_frame.schedule [OF p]
    service_frame.cache [OF p] service_frame.row_ids [OF p] service_frame.opens [OF p]
    service_frame.refl [OF q] service_frame.clock [OF q] service_frame.rand [OF q] service_frame.reads [OF q]
    service_frame.queries [OF q] service_frame.removals [OF q] service_frame.erasure [OF q] service_frame.statements [OF q]
    service_frame.writes [OF q] service_frame.claims [OF q] service_frame.sends [OF q] service_frame.schedule [OF q]
    service_frame.cache [OF q] service_frame.opens [OF q])+

definition served :: "formats \<Rightarrow> ('w \<Rightarrow> store) \<Rightarrow> 'w ext \<Rightarrow> 'w sys \<Rightarrow> bool" where
  "served F view X s \<longleftrightarrow> (\<forall>i \<in> sy_active s. ext_ok F view X \<longrightarrow> colon_free i)"

definition holds :: "formats \<Rightarrow> ('w \<Rightarrow> store) \<Rightarrow> 'w ext \<Rightarrow> string \<Rightarrow> 'w sys \<Rightarrow> 'w sys \<Rightarrow> bool" where
  "holds F view X k s s' \<longleftrightarrow> guards F view X k s s' \<and> (served F view X s \<longrightarrow> served F view X s')"

lemma served_frame: "service_frame X (\<lambda>s s'. served F view X s \<longrightarrow> served F view X s') (\<lambda>i. ext_ok F view X \<longrightarrow> colon_free i)"
proof
  show "served F view X s \<longrightarrow> served F view X (AddSession i s)" if "ext_ok F view X \<longrightarrow> colon_free i" for s i
    using that by (auto simp: served_def AddSession_def)
  show "served F view X s \<longrightarrow> served F view X (RemoveSession i s)" for s i
    by (simp add: served_def RemoveSession_def)
  have id: "row_id X i \<Longrightarrow> ext_ok F view X \<longrightarrow> colon_free i" for i by (auto simp: row_id_def dest: ext_parts(4))
  show "ext_ok F view X \<longrightarrow> colon_free (ss_ID sess')" if "on_world (SessionCreate X sess) s = (Inr sess', s')" for sess s sess' s'
    by (rule id) (rule row_id_results(1) [OF that])
  show "ext_ok F view X \<longrightarrow> colon_free (ss_ID sess')" if "on_world (GetByID X i) s = (Inr sess', s')" for i s sess' s'
    by (rule id) (rule row_id_results(2) [OF that])
  show "list_all (\<lambda>r. ext_ok F view X \<longrightarrow> colon_free (ss_ID r)) rows" if "on_world (ListActive X) s = (Inr rows, s')" for s rows s'
    using row_id_results(3) [OF that] by (rule list.pred_mono_strong) (rule id)
  show "ext_ok F view X \<longrightarrow> colon_free i" if "on_world (RepoStop X i stats) s = (Inr (), s')" for i stats s s'
    by (rule id) (rule row_id_results(4) [OF that])
qed (auto simp: served_def kick_session_def monitor_send_def)

interpretation holds: service_frame X "holds F view X k" "\<lambda>i. ext_ok F view X \<longrightarrow> colon_free i" for X :: "'w ext" and F view k
  unfolding holds_def by (rule service_frame_both [OF guard_frame.service_frame_axioms served_frame])

interpretation holds: concurrent_frame X "holds F view X k" "\<lambda>i. ext_ok F view X \<longrightarrow> colon_free i" view "served F view X" for X :: "'w ext" and F view k
proof
  have same: "holds F view X k u u'" if "sy_world u' = sy_world u" "sy_active u' = sy_active u" for u u'
    using that by (simp add: holds_def guards_same served_def)
  show "holds F view X k s (snd (on_hub (writePump_frame c) s))" "holds F view X k s (close_client c s)" for s c
    by (rule same; simp add: close_client_def)+
  show "holds F view X k u (snd (on_hub (\<lambda>h. unregisterNode c (Close c h)) u))" "holds F view X k u (monitor_onClose c u)" for u c
    by (rule same; simp add: monitor_onClose_def)+
  show "holds F view X k s (snd (on_world f s))" if "\<And>w. calm {} (view w) (view (snd (f w)))" for f :: "'w \<Rightarrow> (string + unit) \<times> 'w" and s
    unfolding holds_def by (intro conjI guards_read calm_keeps that) (simp add: served_def)
  show "holds F view X k u (snd (on_world (RepoDelete X i) u))" for u i
    unfolding holds_def by (intro conjI guards_read sql_repo_keeps ext_parts(2)) (simp_all add: served_def)
qed (simp_all add: holds_def served_def)

section \<open>Properties of every interleaving\<close>

text \<open>
  C13. Whatever requests, frames, ticks and connections are in flight at once, and however their actions
  interleave, the database holds legal rows only: radio parameters and weather within their windows, schemas that
  pass validation, edges with a code, a name and coordinates on the globe and no two with the same code, and
  telemetry of one to five hops.  A call on an edge begins as \<open>request_call\<close> makes it of an HTTP request, so that the
  checks of the handlers are all that keeps an illegal edge out.
\<close>

theorem tables_legal_concurrently:
  assumes "ext_ok F view X" "legal_store (view (sy_world s0))" "concurrent_run view X iv (s0, []) tr (s, ps)"
  shows "let st = view (sy_world s) in
    (\<forall>r \<in> set (st_sessions st). 7 \<le> ss_SpreadingFactor r \<and> ss_SpreadingFactor r \<le> 12 \<and>
       2 \<le> ss_TxPowerDbm r \<and> ss_TxPowerDbm r \<le> 20 \<and> 0 \<le> ss_WeatherSeverity r \<and> ss_WeatherSeverity r \<le> 2) \<and>
    (\<forall>d \<in> set (st_schemas st). ValidateSchemaFields (ds_Fields d) = Inr ()) \<and>
    (\<forall>e \<in> set (st_edges st). ed_EdgeCode e \<noteq> [] \<and> length (ed_EdgeCode e) \<le> 50 \<and> ed_Name e \<noteq> [] \<and>
       length (ed_Name e) \<le> 150 \<and> \<bar>ed_Latitude e\<bar> \<le> 90 \<and> \<bar>ed_Longitude e\<bar> \<le> 180) \<and>
    distinct (map ed_EdgeCode (st_edges st)) \<and>
    (\<forall>t \<in> set (st_telemetry st). 1 \<le> tl_HopCount t \<and> tl_HopCount t \<le> 5)"
proof -
  have "legal_rely.flights.ordered F view X s0 tr s" using legal_rely.flights.concurrent [OF assms(3)] by simp
  then have "legal_store (view (sy_world s))"
    using assms(1,2) by (simp add: legal_rely.flights.ordered_def legal.obeys_def)
  then show ?thesis by (rule legal_store_rows)
qed

text \<open>
  C14. However their actions interleave, requests, frames, ticks and connections take the sessions of the database
  through the steps of the ledger only: opened running under a new identifier with legal parameters, retuned while
  they run, ended once with their counters, frozen from then on, and erased, for good, only after they have ended,
  although the check and the deletion are two commands; and no two rows ever share an identifier.
\<close>

theorem ledger_concurrently:
  assumes "ext_ok F view X" "fresh_ids F" "concurrent_run view X iv (s0, []) tr (s, ps)"
  shows "life_step\<^sup>*\<^sup>* (ledger_of (view (sy_world s0))) (ledger_of (view (sy_world s))) \<and>
    (distinct (map ss_ID (st_sessions (view (sy_world s0)))) \<longrightarrow> distinct (map ss_ID (st_sessions (view (sy_world s)))))"
proof -
  have "ledger_rely.flights.ordered F view X s0 tr s" using ledger_rely.flights.concurrent [OF assms(3)] by simp
  then show ?thesis
    using assms(1,2) by (simp add: ledger_rely.flights.ordered_def ledger.obeys_def follows_def)
qed

text \<open>
  C12. However requests, frames, ticks, connections and the sockets' own goroutines interleave, the hub's registries
  agree with their clients and every send queue stays within its capacity, and so they do between any two actions;
  and no client loses its identity: what a goroutine looked up stays what it was.
\<close>

theorem hub_concurrently:
  assumes "hub_reachable n (sy_hub s0)" "concurrent_run view X iv (s0, []) tr (s, ps)"
  shows "hub_inv (sy_hub s) \<and> queues_ok (sy_hub s) \<and> (\<forall>c d. is_client (sy_hub s0) c d \<longrightarrow> is_client (sy_hub s) c d) \<and>
    (\<forall>(k, u, u') \<in> set tr. hub_inv (sy_hub u) \<and> queues_ok (sy_hub u) \<and>
       (\<forall>c d. is_client (sy_hub u) c d \<longrightarrow> is_client (sy_hub u') c d))"
proof -
  have "moves.ordered n s0 tr s" using moves.concurrent [OF assms(2,1)] by simp
  then have moves: "hub_moves n s0 s" "\<forall>(k, u, u') \<in> set tr. hub_moves n s0 u \<and> hub_moves n u u'" by (auto simp: moves.ordered_def)
  have "hub_reachable n (sy_hub s)" using moves(1) assms(1) by (simp add: hub_moves_def)
  then have "hub_inv (sy_hub s)" "queues_ok (sy_hub s)" by (rule hub_reachable_inv, rule hub_reachable_queues)
  moreover have "hub_inv (sy_hub u) \<and> queues_ok (sy_hub u) \<and> (\<forall>c d. is_client (sy_hub u) c d \<longrightarrow> is_client (sy_hub u') c d)"
    if "(k, u, u') \<in> set tr" for k u u'
    using moves(2) assms(1) that hub_reachable_inv hub_reachable_queues unfolding hub_moves_def by blast
  ultimately show ?thesis using moves(1) assms(1) by (auto simp: hub_moves_def)
qed

text \<open>
  In the small system, a request to erase the session looks at its row, and before it goes on another one sets
  the weather.
\<close>

definition duo_weathered :: "store sys" where
  "duo_weathered = snd (UpdateWeather duo_X ''S'' 2 (snd (on_world (GetByID duo_X ''S'') duo_sys)))"

lemma duo_interleaved: "\<exists>tr ps. concurrent_run (\<lambda>w. w) duo_X 0 (duo_sys, []) tr (duo_weathered, ps)"
proof -
  let ?A = "begins_call (\<lambda>w. w) duo_X 0" and ?d = "program duo_X 0 (CallDelete ''S'')"
  have "pool_run ?A socket_step (duo_sys, []) [] (duo_sys, [] @ [?d])"
    by (rule begins [OF idle_pool]) (auto simp: begins_call_def intro!: exI [of _ "CallDelete ''S''"])
  then obtain tr ps where "pool_run ?A socket_step (duo_sys, []) tr (snd (on_world (GetByID duo_X ''S'') duo_sys), ps)"
    using pool_acts_at [of ?A socket_step _ _ duo_sys "[?d]" 0 "on_world (GetByID duo_X ''S'')"]
    by (fastforce simp: DeleteSession_prog_def ignore_and_then cmd_def)
  moreover have "?A u (program duo_X 0 (CallWeather ''S'' 2))" for u by (auto simp: begins_call_def intro!: exI [of _ "CallWeather ''S'' 2"])
  ultimately show ?thesis
    using pool_runs_new [of ?A socket_step _ tr _ ps "program duo_X 0 (CallWeather ''S'' 2)"]
    by (fastforce simp: concurrent_run_def duo_weathered_def runs)
qed

theorem tables_legal_concurrently_witness: "distinct (map ed_EdgeCode (st_edges (sy_world duo_weathered)))"
proof -
  obtain tr ps where run: "concurrent_run (\<lambda>w. w) duo_X 0 (duo_sys, []) tr (duo_weathered, ps)" using duo_interleaved by blast
  from tables_legal_concurrently [OF duo_ext_ok _ run] duo_legal show ?thesis by (simp add: duo_sys_def Let_def)
qed

theorem ledger_concurrently_witness: "life_step\<^sup>*\<^sup>* (ledger_of duo_store) (ledger_of (sy_world duo_weathered))"
proof -
  obtain tr ps where run: "concurrent_run (\<lambda>w. w) duo_X 0 (duo_sys, []) tr (duo_weathered, ps)" using duo_interleaved by blast
  from ledger_concurrently [OF duo_ext_ok plain_fresh run] show ?thesis by (simp add: duo_sys_def)
qed

theorem hub_concurrently_witness: "hub_inv (sy_hub duo_weathered) \<and> queues_ok (sy_hub duo_weathered)"
proof -
  obtain tr ps where run: "concurrent_run (\<lambda>w. w) duo_X 0 (duo_sys, []) tr (duo_weathered, ps)" using duo_interleaved by blast
  from hub_concurrently [OF duo_reachable run] show ?thesis by blast
qed

end
