(* ===== verification/Once.thy ===== *)
theory Once
  imports Flights
begin

text \<open>
  At-most-once reception when any number of copies of a packet are processed at the same time, and anything
  else happens in between.  Winning the claim earns a transmission the right to one delivery; nothing else of
  it delivers, and within \<open>dedupTTL\<close> only one claim can be won.
\<close>

section \<open>What delivers nothing\<close>

lemma quiet_monitor_send: "\<not> is_rf f \<Longrightarrow> quiet view K s (monitor_send c f s)"
proof -
  assume f: "\<not> is_rf f"
  have reg: "same_registry (sy_hub s) (snd (trySend c f (sy_hub s)))" by (rule trySend_registry)
  have "map_option (filter is_rf) (inbox (snd (trySend c f h)) i n) = map_option (filter is_rf) (inbox h i n)" for i n h
    using f same_registry_lookup(3) [OF trySend_registry [of h c f]] by (auto simp: inbox_def trySend_def split: option.split)
  then show ?thesis using reg by (simp add: quiet_def rfbox_def monitor_send_def)
qed

text \<open>Programs all of whose actions leave the data frames and the tables alone.\<close>

abbreviation hushed :: "('w \<Rightarrow> store) \<Rightarrow> ('w sys, 'a) prog \<Rightarrow> bool" where
  "hushed view \<equiv> safe (quiet view UNIV)"

lemma hushed_cmd: "(\<And>w. calm K (view w) (view (snd (f w)))) \<Longrightarrow> hushed view (cmd f)"
  unfolding cmd_def by (rule safe_call, rule quiet_mono [OF quiet_world subset_UNIV])

lemma hushed_look: "hushed view (look f)"
  unfolding look_def by (rule safe_call) simp

lemma hushed_sends: "\<not> is_rf f \<Longrightarrow> hushed view (for_each (\<lambda>c. act (monitor_send c f)) cs)"
  by (intro safe_for_each safe_act quiet_monitor_send)

lemma hushed_hub:
  "\<not> is_rf f \<Longrightarrow> hushed view (SendToNode_prog i n f)" "\<not> is_rf f \<Longrightarrow> hushed view (BroadcastToMonitors_prog i f)"
  unfolding SendToNode_prog_def BroadcastToMonitors_prog_def
  by (rule safe_and_then [OF hushed_look] safe_flow hushed_sends safe_act quiet_monitor_send | assumption)+

lemma engine_frames [simp]:
  "\<not> is_rf (errorEvent code msg)" "\<not> is_rf (mesh_ack p r st d)" "\<not> is_rf (FPacketEvent ev)"
  by (simp_all add: errorEvent_def mesh_ack_def)

lemma hushed_engine:
  assumes "ext_ok F view X"
  shows "hushed view (incr_prog X i g)" "hushed view (emitPacketEvent_prog X i ev)" "hushed view (reject_prog X i n code msg)"
    "hushed view (drop_prog X i pkt reason g v)" "hushed view (roll_prog X d pr)"
    "hushed view (handleDuplicate_prog X i pkt t d pr u)" "hushed view (return_ack_prog X i p r t status u)"
proof -
  note x = ext_parts [OF assms]
  show incr: "hushed view (incr_prog X i g)" for g
    unfolding incr_prog_def by (rule safe_ignore, rule hushed_cmd, rule repo_calm(7) [OF x(1)])
  show emit: "hushed view (emitPacketEvent_prog X i ev)" for ev
    unfolding emitPacketEvent_prog_def by (rule safe_and_then, rule hushed_cmd, rule env_calm(1) [OF x(3)], rule hushed_hub) simp
  show "hushed view (reject_prog X i n code msg)"
    unfolding reject_prog_def by (intro safe_seq incr hushed_hub) simp
  show "hushed view (drop_prog X i pkt reason g v)"
    unfolding drop_prog_def by (intro safe_seq incr emit)
  show roll: "hushed view (roll_prog X d pr)"
    unfolding roll_prog_def by (rule hushed_cmd [where K = "{}"]) (simp add: Evaluate_world env_calm [OF x(3)])
  show "hushed view (handleDuplicate_prog X i pkt t d pr u)"
    unfolding handleDuplicate_prog_def by (intro safe_seq safe_and_then incr emit roll safe_if hushed_hub) simp
  show "hushed view (return_ack_prog X i p r t status u)"
    unfolding return_ack_prog_def by (intro safe_seq incr emit safe_if hushed_hub) simp
qed

lemma quiet_edge_cache:
  assumes "ext_ok F view X"
  shows "quiet view UNIV s (snd (edgeCache_peek X code s))" "quiet view UNIV s (snd (edgeCache_fill X es code s))"
  by (rule quiet_same_hub; simp add: edgeCache_peek_def edgeCache_fresh_def edgeCache_fill_def Let_def case_prod_beta
      calm_empty env_calm [OF ext_parts(3) [OF assms]])+

lemma hushed_lookups:
  assumes "ext_ok F view X"
  shows "hushed view (edgeCache_get_prog X code)" "hushed view (resolve_target_prog X i pkt edge)"
proof -
  note x = ext_parts [OF assms]
  have edges: "hushed view (cmd (EdgeList X))" by (rule hushed_cmd) (simp add: EdgeList_def calm_empty query_calm [OF x(2)])
  have calls: "hushed view (call (edgeCache_peek X code))" "hushed view (call (edgeCache_fill X es code))" for es
    by (rule safe_call, rule quiet_edge_cache [OF assms])+
  show "hushed view (edgeCache_get_prog X code)"
    unfolding edgeCache_get_prog_def
    by (rule safe_and_then [OF calls(1)] safe_and_then [OF calls(2)] safe_and_then [OF edges] safe_and_then [OF hushed_look] safe_flow)+
  have position: "hushed view (cmd (Position X i n))" for n by (rule hushed_cmd) (rule repo_calm_any [OF x(1)])
  show "hushed view (resolve_target_prog X i pkt edge)"
    unfolding resolve_target_prog_def
    by (rule safe_and_then [OF hushed_look] safe_and_then [OF position] safe_flow hushed_engine [OF assms])+
qed

section \<open>A transmission pays with the claim it won\<close>

definition wins_claim :: "'w ext \<Rightarrow> string \<Rightarrow> string \<Rightarrow> string \<Rightarrow> 'w sys \<Rightarrow> 'w sys \<Rightarrow> bool" where
  "wins_claim X i p r s s' \<longleftrightarrow> MarkPacketSeen X i p r (sy_world s) = (Inr True, sy_world s')"

abbreviation entitled ::
  "('w \<Rightarrow> store) \<Rightarrow> 'w ext \<Rightarrow> string \<Rightarrow> string \<Rightarrow> string \<Rightarrow> ('w sys, 'a) prog \<Rightarrow> nat \<Rightarrow> ('a \<Rightarrow> nat \<Rightarrow> bool) \<Rightarrow> bool" where
  "entitled view X i p r \<equiv> affords sys_inv (wins_claim X i p r) (arrives view)"

lemma hushed_entitled: "hushed view q \<Longrightarrow> entitled view X i p r q n (\<lambda>_ m. m = n)"
  by (erule affords_safe) (rule quiet_silent)

lemma hushed_then: "hushed view q \<Longrightarrow> (\<And>x. entitled view X i p r (g x) n Q) \<Longrightarrow> entitled view X i p r (and_then q g) n Q"
  by (rule affords_and_then, erule hushed_entitled) simp

lemma hushed_seq: "hushed view q \<Longrightarrow> entitled view X i p r q' n Q \<Longrightarrow> entitled view X i p r (seq q q') n Q"
  unfolding seq_def by (rule hushed_then)

lemma hushed_ends: "hushed view q \<Longrightarrow> entitled view X i p r q n (\<lambda>_ _. True)"
  by (erule affords_conseq [OF hushed_entitled]) simp

text \<open>One action may deliver, at the price of one credit.\<close>

lemma pays_call: "entitled view X i p r (call g) 1 (\<lambda>_ _. True)"
  by (rule affords_call) (intro exI [of _ 0], simp)

lemma pays_once:
  assumes "hushed view q'"
  shows "entitled view X i p r (seq (act f) q') 1 (\<lambda>_ _. True)" "entitled view X i p r (seq (ignore (cmd h)) q') 1 (\<lambda>_ _. True)"
proof -
  have rest: "entitled view X i p r q' m (\<lambda>_ _. True)" for m by (rule hushed_ends [OF assms])
  show "entitled view X i p r (seq (act f) q') 1 (\<lambda>_ _. True)" "entitled view X i p r (seq (ignore (cmd h)) q') 1 (\<lambda>_ _. True)"
    unfolding seq_def act_def ignore_def cmd_def and_then_assoc
    by (rule affords_and_then [OF pays_call], simp add: rest)+
qed

lemma entitled_forward:
  assumes "ext_ok F view X"
  shows "entitled view X i p r (forwardToNode_prog X i' pkt t v) 1 (\<lambda>_ _. True)"
  unfolding forwardToNode_prog_def
proof (rule hushed_seq)
  show "hushed view (ignore (cmd (RememberAckSender X i' (pk_PacketID pkt) (pk_TargetParent pkt) t)))"
    by (rule safe_ignore, rule hushed_cmd) (rule repo_calm(4) [OF ext_parts(1) [OF assms]])
  let ?rest = "seq (incr_prog X i' StatForwardedToNode)
    (emitPacketEvent_prog X i' ((packet_event PktForward pkt (Some v) [])\<lparr>pe_FromNode := t\<rparr>))"
  have rest_ok: "hushed view ?rest" by (intro safe_seq hushed_engine [OF assms])
  have "entitled view X i p r (seq (case c of None \<Rightarrow> Ret () | Some c \<Rightarrow> act (monitor_send c f)) ?rest) 1 (\<lambda>_ _. True)" for c f
    by (cases c) (simp_all only: option.case pays_once(1) [OF rest_ok] hushed_ends [OF safe_seq [OF safe_Ret rest_ok]])
  then show "entitled view X i p r (seq (SendToNode_prog i' (pk_TargetParent pkt) (FReceiveRF (pkt\<lparr>pk_Event := EvMeshReceiveRF\<rparr>))) ?rest) 1 (\<lambda>_ _. True)"
    unfolding SendToNode_prog_def by (simp only: seq_def and_then_assoc hushed_then [OF hushed_look])
qed

lemma entitled_deliver:
  assumes "ext_ok F view X"
  shows "entitled view X i p r (deliverToEdge_prog X i' pkt payload e t d pr v) 1 (\<lambda>_ _. True)"
  unfolding deliverToEdge_prog_def
proof (rule hushed_then)
  show "hushed view (cmd (GetLatest X i'))"
    by (rule hushed_cmd [where K = "{}"]) (simp add: GetLatest_def query_calm [OF ext_parts(2) [OF assms]])
qed (intro pays_once(2) safe_seq safe_and_then hushed_engine [OF assms])

lemma entitled_propagate:
  assumes "ext_ok F view X" "pk_PacketID pkt = p" "pk_TargetParent pkt = r"
  shows "entitled view X i p r (propagate_prog X i pkt payload edge t d pr) 0 (\<lambda>_ _. True)"
  unfolding propagate_prog_def
proof (rule hushed_then)
  show "hushed view (roll_prog X d pr)" by (rule hushed_engine [OF assms(1)])
  let ?claim = "cmd (MarkPacketSeen X i (pk_PacketID pkt) (pk_TargetParent pkt))"
  have quiet: "quiet view UNIV s (snd (on_world (MarkPacketSeen X i p r) s))" for s
    by (rule quiet_mono [OF quiet_world subset_UNIV], rule repo_calm(3) [OF ext_parts(1) [OF assms(1)]])
  have claim: "entitled view X i p r ?claim 0 (\<lambda>x m. x = Inr True \<longrightarrow> m = 1)"
    unfolding cmd_def assms(2,3)
  proof (rule affords_call)
    fix s :: "'a sys" assume "sys_inv s"
    then have "\<not> arrives view s (snd (on_world (MarkPacketSeen X i p r) s))" using quiet_silent [OF quiet] by blast
    moreover have "wins_claim X i p r s (snd (on_world (MarkPacketSeen X i p r) s)) \<longleftrightarrow> fst (on_world (MarkPacketSeen X i p r) s) = Inr True"
      by (simp add: wins_claim_def prod_eq_iff)
    ultimately show "\<exists>m :: nat. m + of_bool (arrives view s (snd (on_world (MarkPacketSeen X i p r) s))) \<le>
        0 + of_bool (wins_claim X i p r s (snd (on_world (MarkPacketSeen X i p r) s))) \<and>
        (fst (on_world (MarkPacketSeen X i p r) s) = Inr True \<longrightarrow> m = 1)"
      by (intro exI [of _ "of_bool (fst (on_world (MarkPacketSeen X i p r) s) = Inr True)"]) (simp del: on_world_simps)
  qed
  let ?after = "\<lambda>v x. case x of Inl _ \<Rightarrow> Ret () | Inr firstTime \<Rightarrow>
      if \<not> firstTime then handleDuplicate_prog X i pkt t d pr v
      else case edge of None \<Rightarrow> forwardToNode_prog X i pkt t v | Some e \<Rightarrow> deliverToEdge_prog X i pkt payload e t d pr v"
  have after: "entitled view X i p r (?after v x) m (\<lambda>_ _. True)" if "x = Inr True \<longrightarrow> m = 1" for v m and x :: "bool res"
  proof (cases "x = Inr True")
    case True
    then show ?thesis
      using that by (cases edge) (simp_all add: entitled_forward [OF assms(1)] entitled_deliver [OF assms(1)] del: One_nat_def)
  next
    case False
    then show ?thesis by (cases x) (auto intro!: hushed_ends hushed_engine [OF assms(1)])
  qed
  show "entitled view X i p r (if tv_Dropped v
      then if tv_OutOfRange v then drop_prog X i pkt ''out_of_range'' StatDroppedOutOfRange (Some v)
           else drop_prog X i pkt ''air_loss'' StatDroppedAirLoss (Some v)
      else and_then ?claim (?after v)) 0 (\<lambda>_ _. True)" for v
    by (rule affords_if affords_and_then [OF claim after] | assumption | rule hushed_ends, rule hushed_engine [OF assms(1)])+
qed

lemma entitled_transmit:
  assumes "ext_ok F view X" "pk_PacketID pkt = p" "pk_TargetParent pkt = r"
  shows "entitled view X i p r (HandleTransmit_prog X i sender pkt) 0 (\<lambda>_ _. True)"
proof -
  note x = ext_parts [OF assms(1)]
  have params: "hushed view (cmd (GetParams X i))" by (rule hushed_cmd, rule repo_calm(2) [OF x(1)])
  have position: "hushed view (cmd (Position X i n))" for n by (rule hushed_cmd, rule repo_calm_any [OF x(1)])
  note quiet = hushed_engine [OF assms(1)] hushed_lookups [OF assms(1)]
  have checked: "entitled view X i p r (transmit_checked_prog X i pkt t payload pr) 0 (\<lambda>_ _. True)" for t payload pr
    unfolding transmit_checked_prog_def
    by (rule affords_flow hushed_then [OF quiet(8)] hushed_then [OF position] hushed_then [OF quiet(9)] entitled_propagate [OF assms] TrueI
        | rule hushed_ends, rule quiet)+
  show ?thesis
    unfolding HandleTransmit_prog_def
    by (rule affords_flow hushed_then [OF params] checked hushed_seq [OF quiet(1)] TrueI
        | rule hushed_ends, rule quiet | rule hushed_ends, rule hushed_hub, simp)+
qed

section \<open>One claim within the interval\<close>

lemma at_most_one:
  "sorted_wrt le xs \<Longrightarrow> (\<And>x y. x \<in> set xs \<Longrightarrow> y \<in> set xs \<Longrightarrow> le x y \<Longrightarrow> Q x \<Longrightarrow> Q y \<Longrightarrow> False) \<Longrightarrow> length (filter Q xs) \<le> 1"
proof (induction xs)
  case (Cons a xs)
  show ?case
  proof (cases "Q a")
    case True
    then have "filter Q xs = []" using Cons.prems by (auto simp: filter_empty_conv)
    then show ?thesis by simp
  next
    case False
    have "length (filter Q xs) \<le> 1" by (rule Cons.IH) (use Cons.prems in auto)
    then show ?thesis using False by simp
  qed
qed simp

text \<open>
  C2. At-most-once reception survives concurrency: whatever number of copies of a packet for the same target
  the workers process at the same time, from whatever senders, and whatever requests, frames, ticks and
  connections interleave with them action by action, together they put at most one data frame into a ship's
  queue or one row into the telemetry table before \<open>dedupTTL\<close> (30 s) has passed.
\<close>

theorem accepted_once_concurrently:
  assumes "ext_ok F view X" "colon_free i" "hub_reachable n (sy_hub s0)" "\<forall>j \<in> sy_active s0. colon_free j"
    and copies: "\<forall>(sender, pkt) \<in> set txs. pk_PacketID pkt = p \<and> pk_TargetParent pkt = r"
    and run: "concurrent_run view X iv (s0, map (\<lambda>(sender, pkt). HandleTransmit_prog X i sender pkt) txs) tr (s, ps)"
    and soon: "st_now (view (sy_world s)) < st_now (view (sy_world s0)) + dedupTTL"
  shows "length (filter (\<lambda>(k, u, u'). k < length txs \<and> arrives view u u') tr) \<le> 1"
proof -
  let ?k = "keyDedup i p r" and ?ps0 = "map (\<lambda>(sender, pkt). HandleTransmit_prog X i sender pkt) txs"
  have key: "claim_key ?k" using assms(2) by (auto simp: claim_key_def)
  have moves: "moves.ordered n s0 tr s"
    by (rule moves.concurrent [OF run assms(3) moves.keeping_transmissions, THEN conjunct1]) simp
  have "holds.ordered F view X ?k s0 tr s"
    by (rule holds.concurrent [OF run _ holds.keeping_transmissions, THEN conjunct1]) (use assms(2,4) in \<open>simp_all add: served_def\<close>)
  then have stays: "(\<forall>(k, u, u') \<in> set tr. stays view ?k s0 u \<and> stays view ?k u' s) \<and> sorted_wrt (\<lambda>(k, u, u') (l, v, v'). stays view ?k u' v) tr"
    using assms(1) key by (simp add: holds.ordered_def holds_def guards_def) (auto elim: sorted_wrt_mono_rel [rotated])
  have inv: "\<forall>(k, u, u') \<in> set tr. sys_inv u"
    using moves assms(3) hub_reachable_inv unfolding moves.ordered_def hub_moves_def by blast
  have "entitled view X i p r (HandleTransmit_prog X i sender pkt) 0 (\<lambda>_ _. True)" if "(sender, pkt) \<in> set txs" for sender pkt
    using copies that by (intro entitled_transmit [OF assms(1)]) auto
  then have "\<forall>q \<in> set ?ps0. \<exists>Q. entitled view X i p r q 0 Q" by auto
  then have "paid (length ?ps0) (arrives view) tr \<le> paid (length ?ps0) (wins_claim X i p r) tr"
    by (rule pool_affords [OF run [unfolded concurrent_run_def] _ inv])
  also have "\<dots> \<le> 1"
    unfolding paid_def
  proof (rule at_most_one [OF stays [THEN conjunct2]])
    fix x y assume x: "x \<in> set tr" "y \<in> set tr" "(\<lambda>(k, u, u') (l, v, v'). stays view ?k u' v) x y"
      "case x of (k, u, u') \<Rightarrow> k < length ?ps0 \<and> wins_claim X i p r u u'" "case y of (k, u, u') \<Rightarrow> k < length ?ps0 \<and> wins_claim X i p r u u'"
    obtain k u u' l v v' where xy: "x = (k, u, u')" "y = (l, v, v')" by (metis prod_cases3)
    have "st_now (view (sy_world u)) + dedupTTL \<le> st_now (view (sy_world v'))"
      using dedup.won_apart [OF redis_env_ext [OF assms(1)], of "(i, p, r)" "sy_world u" "sy_world u'" "sy_world v" "sy_world v'"] x(3-5)
      by (simp add: xy wins_claim_def stays_def)
    moreover have "st_now (view (sy_world s0)) \<le> st_now (view (sy_world u))" "st_now (view (sy_world v')) \<le> st_now (view (sy_world s))"
      using stays x(1,2) xy by (auto simp: stays_def)
    ultimately show False using soon by simp
  qed
  finally show ?thesis by (simp add: paid_def)
qed

text \<open>
  Two copies of a packet of the small system: the second worker reads the parameters, then the first one runs to
  its end and the ship receives the packet.
\<close>

lemma duo_first_action:
  "HandleTransmit_prog duo_X ''S'' ''A'' (duo_pkt ''B'') = and_then (cmd (GetParams duo_X ''S'')) (\<lambda>r. case r of
     Inl _ \<Rightarrow> SendToNode_prog ''S'' ''A'' (errorEvent ''session_unavailable'' ''session parameters missing; was the session stopped?'')
   | Inr params \<Rightarrow> seq (incr_prog duo_X ''S'' StatTransmitTotal) (transmit_checked_prog duo_X ''S'' (duo_pkt ''B'') ''A'' [1, 2, 3] params))"
  using duo_valid(1) by (simp add: HandleTransmit_prog_def duo_pkt_simps duo_payload del: Validate_ok_iff_valid cong: sum.case_cong)

lemma duo_start: "st_now (sy_world duo_sys) = 0" "sy_active duo_sys = {''S''}"
  by (simp_all add: duo_sys_def duo_store_def)

lemma duo_still: "st_now (sy_world (HandleTransmit duo_X ''S'' ''A'' (duo_pkt ''B'') duo_sys)) = 0"
proof -
  obtain v s' where "HandleTransmit duo_X ''S'' ''A'' (duo_pkt ''B'') duo_sys = forwardToNode duo_X ''S'' (duo_pkt ''B'') ''A'' v s'"
    "sy_world s' = put_key (keyDedup ''S'' ''p'' ''B'') (RStr ''1'' (Some dedupTTL))
      (put_key (keyStats ''S'') (RHash [(StatTransmitTotal, Txt (Itoa 1))]) duo_store)" by (rule duo_forwarded)
  moreover have "st_now (snd (ref_Set k x t st)) = st_now st" "st_now (snd (ref_HIncrBy k g n st)) = st_now st" "st_now (put_key k e st) = st_now st"
    for k x t st g n e by (auto simp: ref_Set_def ref_HIncrBy_def hset_def put_key_def Let_def split: option.split)
  ultimately show ?thesis
    by (simp add: forwardToNode_def emitPacketEvent_def incr_def IncrStat_def RememberAckSender_def duo_ops Let_def case_prod_beta duo_start(1) [unfolded duo_sys_def sys.simps] split: sum.split)
qed

theorem accepted_once_concurrently_witness:
  "\<exists>tr ps. concurrent_run (\<lambda>w. w) duo_X 0 (duo_sys, replicate 2 (HandleTransmit_prog duo_X ''S'' ''A'' (duo_pkt ''B''))) tr
       (HandleTransmit duo_X ''S'' ''A'' (duo_pkt ''B'') duo_sys, ps) \<and>
     length (filter (\<lambda>(k, u, u'). k < 2 \<and> arrives (\<lambda>w. w) u u') tr) \<le> 1"
proof -
  let ?t = "HandleTransmit_prog duo_X ''S'' ''A'' (duo_pkt ''B'')" and ?fin = "HandleTransmit duo_X ''S'' ''A'' (duo_pkt ''B'') duo_sys"
  let ?A = "begins_call (\<lambda>w. w) duo_X 0"
  have now: "on_world (GetParams duo_X ''S'') duo_sys = (Inr duo_params, duo_sys)" by (simp add: on_world_def duo_sys_def duo_GetParams)
  obtain tr q where "pool_run ?A socket_step (duo_sys, [?t, ?t]) tr (duo_sys, [?t, q])"
    using pool_acts_at [OF idle_pool, of 1 "[?t, ?t]" "on_world (GetParams duo_X ''S'')" _ ?A socket_step duo_sys] duo_first_action
    by (auto simp: now cmd_def)
  from pool_runs_at [OF this, of 0] obtain tr' where
    run: "concurrent_run (\<lambda>w. w) duo_X 0 (duo_sys, [?t, ?t]) tr' (?fin, [Ret (), q])" by (auto simp: concurrent_run_def runs)
  moreover have "length (filter (\<lambda>(k, u, u'). k < 2 \<and> arrives (\<lambda>w. w) u u') tr') \<le> 1"
    using accepted_once_concurrently [OF duo_ext_ok _ duo_reachable, of "''S''" "replicate 2 (''A'', duo_pkt ''B'')" "''p''" "''B''" 0 tr' ?fin "[Ret (), q]"] run
    by (simp add: duo_pkt_simps duo_still numeral_2_eq_2 duo_start dedupTTL_def Second_def Millisecond_def)
  ultimately show ?thesis by (intro exI conjI) (simp_all add: numeral_2_eq_2)
qed

end
