(* ===== verification/Config.thy ===== *)
theory Config
  imports Radio
begin

text \<open>
  \<^verbatim>\<open>config/config.go\<close>: the configuration read from the environment.  The environment is the
  function \<open>os.Getenv\<close>, the empty string where a variable is not set.  An error is its text without
  the quoted value and the cause.
\<close>

section \<open>Reading the environment\<close>

type_synonym environment = "string \<Rightarrow> string"

definition getEnv :: "environment \<Rightarrow> string \<Rightarrow> string \<Rightarrow> string" where
  "getEnv env key fallback = (let v = env key in if v \<noteq> [] then v else fallback)"

definition getEnvInt :: "environment \<Rightarrow> string \<Rightarrow> int \<Rightarrow> string + int" where
  "getEnvInt env key fallback =
     (let v = env key
      in if v = [] then Inr fallback
         else case Atoi v of
                None \<Rightarrow> Inl (''env '' @ key @ '' must be an integer'')
              | Some n \<Rightarrow> Inr n)"

record Config =
  cf_HTTPAddr :: string
  cf_PprofAddr :: string
  cf_PostgresDSN :: string
  cf_RedisAddr :: string
  cf_RedisPass :: string
  cf_RedisDB :: int
  cf_LogLevel :: string
  cf_TopologyInterval :: duration
  cf_PingMinInterval :: duration
  cf_ShutdownTimeout :: duration
  cf_WorkerPoolSize :: int
  cf_WSSendBuffer :: int
  cf_CORSAllowedOrigins :: string

definition postgres_dsn :: "environment \<Rightarrow> string" where
  "postgres_dsn env =
     (if env ''POSTGRES_DSN'' = [] then
        (let host = getEnv env ''POSTGRES_HOST'' ''localhost'';
             port = getEnv env ''POSTGRES_PORT'' ''5432'';
             user = getEnv env ''POSTGRES_USER'' ''simulator'';
             pass = getEnv env ''POSTGRES_PASSWORD'' ''simulator'';
             db = getEnv env ''POSTGRES_DB'' ''lora_simulator'';
             ssl = getEnv env ''POSTGRES_SSLMODE'' ''disable''
         in ''postgres://'' @ user @ '':'' @ pass @ ''@'' @ host @ '':'' @ port @ ''/'' @ db @ ''?sslmode='' @ ssl)
      else env ''POSTGRES_DSN'')"

text \<open>\<open>time.Duration(n) * time.Second\<close> at 64 bits.\<close>

definition seconds :: "int \<Rightarrow> duration" where
  "seconds n = wrap64 (n * Second)"

definition Load :: "environment \<Rightarrow> string + Config" where
  "Load env =
     (case getEnvInt env ''REDIS_DB'' 0 of Inl err \<Rightarrow> Inl err | Inr redisDB \<Rightarrow>
      case getEnvInt env ''WORKER_POOL_SIZE'' 0 of Inl err \<Rightarrow> Inl err | Inr pool \<Rightarrow>
      case getEnvInt env ''WS_SEND_BUFFER'' 256 of Inl err \<Rightarrow> Inl err | Inr buffer \<Rightarrow>
      case getEnvInt env ''TOPOLOGY_INTERVAL_SECONDS'' 5 of Inl err \<Rightarrow> Inl err | Inr topoSec \<Rightarrow>
      if topoSec < 1 then Inl ''TOPOLOGY_INTERVAL_SECONDS must be >= 1''
      else case getEnvInt env ''PING_MIN_INTERVAL_SECONDS'' 3 of Inl err \<Rightarrow> Inl err | Inr pingSec \<Rightarrow>
      case getEnvInt env ''SHUTDOWN_TIMEOUT_SECONDS'' 10 of Inl err \<Rightarrow> Inl err | Inr shutSec \<Rightarrow>
        Inr \<lparr>cf_HTTPAddr = getEnv env ''HTTP_ADDR'' '':8080'', cf_PprofAddr = getEnv env ''PPROF_ADDR'' [],
             cf_PostgresDSN = postgres_dsn env, cf_RedisAddr = getEnv env ''REDIS_ADDR'' ''localhost:6379'',
             cf_RedisPass = getEnv env ''REDIS_PASSWORD'' [], cf_RedisDB = redisDB,
             cf_LogLevel = getEnv env ''LOG_LEVEL'' ''info'', cf_TopologyInterval = seconds topoSec,
             cf_PingMinInterval = seconds pingSec, cf_ShutdownTimeout = seconds shutSec,
             cf_WorkerPoolSize = pool, cf_WSSendBuffer = buffer,
             cf_CORSAllowedOrigins = getEnv env ''CORS_ALLOWED_ORIGINS'' ''*''\<rparr>)"

section \<open>What is accepted\<close>

definition int_or_unset :: "environment \<Rightarrow> string \<Rightarrow> bool" where
  "int_or_unset env key \<longleftrightarrow> env key = [] \<or> Atoi (env key) \<noteq> None"

definition env_int :: "environment \<Rightarrow> string \<Rightarrow> int \<Rightarrow> int" where
  "env_int env key fallback = (if env key = [] then fallback else the (Atoi (env key)))"

lemma getEnvInt_cases:
  "getEnvInt env key fallback =
     (if int_or_unset env key then Inr (env_int env key fallback) else Inl (''env '' @ key @ '' must be an integer''))"
  by (auto simp: getEnvInt_def int_or_unset_def env_int_def Let_def split: option.splits)

definition integer_keys :: "string list" where
  "integer_keys = [''REDIS_DB'', ''WORKER_POOL_SIZE'', ''WS_SEND_BUFFER'', ''TOPOLOGY_INTERVAL_SECONDS'',
     ''PING_MIN_INTERVAL_SECONDS'', ''SHUTDOWN_TIMEOUT_SECONDS'']"

lemma Load_Inr:
  "(\<exists>cfg. Load env = Inr cfg) \<longleftrightarrow>
     list_all (int_or_unset env) integer_keys \<and> 1 \<le> env_int env ''TOPOLOGY_INTERVAL_SECONDS'' 5"
  by (auto simp: Load_def getEnvInt_cases integer_keys_def)

lemma Load_durations:
  assumes "Load env = Inr cfg"
  shows "cf_TopologyInterval cfg = seconds (env_int env ''TOPOLOGY_INTERVAL_SECONDS'' 5)"
    "cf_PingMinInterval cfg = seconds (env_int env ''PING_MIN_INTERVAL_SECONDS'' 3)"
    "cf_ShutdownTimeout cfg = seconds (env_int env ''SHUTDOWN_TIMEOUT_SECONDS'' 10)"
    "cf_WorkerPoolSize cfg = env_int env ''WORKER_POOL_SIZE'' 0"
    "cf_WSSendBuffer cfg = env_int env ''WS_SEND_BUFFER'' 256"
    "cf_PostgresDSN cfg = postgres_dsn env"
  using assms by (auto simp: Load_def getEnvInt_cases split: if_splits)

lemma seconds_exact: "\<bar>n\<bar> \<le> 9223372036 \<Longrightarrow> seconds n = n * Second"
  unfolding seconds_def by (rule wrap64_id) (simp_all add: int64_min_def int64_max_def duration_consts)

lemma Load_accepts_default: "\<exists>cfg. Load (\<lambda>_. []) = Inr cfg"
  using Load_Inr [of "\<lambda>_. []"] by (simp add: integer_keys_def int_or_unset_def env_int_def)

text \<open>
  \<open>Load\<close> succeeds exactly when each of the six numeric variables is unset or an integer of 64 bits
  and the topology interval is at least one second.  The three intervals are then the given numbers of
  seconds, exactly, up to 9223372036 seconds (292 years); an explicit connection string is taken as it is.
\<close>

lemma Load_accepts:
  "((\<exists>cfg. Load env = Inr cfg) \<longleftrightarrow>
     (\<forall>key \<in> set integer_keys. env key = [] \<or> Atoi (env key) \<noteq> None) \<and>
     (env ''TOPOLOGY_INTERVAL_SECONDS'' = [] \<or> (\<exists>n \<ge> 1. Atoi (env ''TOPOLOGY_INTERVAL_SECONDS'') = Some n))) \<and>
   (\<forall>cfg key n. Load env = Inr cfg \<longrightarrow> \<bar>n\<bar> \<le> 9223372036 \<longrightarrow> Atoi (env key) = Some n \<longrightarrow>
     (key = ''TOPOLOGY_INTERVAL_SECONDS'' \<longrightarrow> cf_TopologyInterval cfg = n * Second \<and> 0 < cf_TopologyInterval cfg) \<and>
     (key = ''PING_MIN_INTERVAL_SECONDS'' \<longrightarrow> cf_PingMinInterval cfg = n * Second) \<and>
     (key = ''SHUTDOWN_TIMEOUT_SECONDS'' \<longrightarrow> cf_ShutdownTimeout cfg = n * Second)) \<and>
   (\<forall>cfg. Load env = Inr cfg \<longrightarrow> env ''POSTGRES_DSN'' \<noteq> [] \<longrightarrow> cf_PostgresDSN cfg = env ''POSTGRES_DSN'')"
proof (intro conjI allI impI)
  show "(\<exists>cfg. Load env = Inr cfg) \<longleftrightarrow>
     (\<forall>key \<in> set integer_keys. env key = [] \<or> Atoi (env key) \<noteq> None) \<and>
     (env ''TOPOLOGY_INTERVAL_SECONDS'' = [] \<or> (\<exists>n \<ge> 1. Atoi (env ''TOPOLOGY_INTERVAL_SECONDS'') = Some n))"
    unfolding Load_Inr by (auto simp: list_all_iff int_or_unset_def env_int_def integer_keys_def)
next
  fix cfg key n assume l: "Load env = Inr cfg" and n: "\<bar>n\<bar> \<le> 9223372036" "Atoi (env key) = Some n"
  have "Atoi [] = None" by (simp add: Atoi_def all_digits_def)
  then have v: "env_int env key d = n" for d using n(2) by (auto simp: env_int_def)
  have "1 \<le> env_int env ''TOPOLOGY_INTERVAL_SECONDS'' 5" using l Load_Inr [of env] by blast
  then show "key = ''TOPOLOGY_INTERVAL_SECONDS'' \<Longrightarrow> cf_TopologyInterval cfg = n * Second"
    "key = ''TOPOLOGY_INTERVAL_SECONDS'' \<Longrightarrow> 0 < cf_TopologyInterval cfg"
    "key = ''PING_MIN_INTERVAL_SECONDS'' \<Longrightarrow> cf_PingMinInterval cfg = n * Second"
    "key = ''SHUTDOWN_TIMEOUT_SECONDS'' \<Longrightarrow> cf_ShutdownTimeout cfg = n * Second"
    using v by (auto simp: Load_durations [OF l] seconds_exact [OF n(1)] duration_consts)
next
  fix cfg assume "Load env = Inr cfg" "env ''POSTGRES_DSN'' \<noteq> []"
  then show "cf_PostgresDSN cfg = env ''POSTGRES_DSN''" by (simp add: Load_durations postgres_dsn_def)
qed

text \<open>Beyond that bound the interval overflows: a topology interval that passes the check is negative.\<close>

lemma topology_interval_overflow:
  "\<exists>cfg. Load ((\<lambda>_. [])(''TOPOLOGY_INTERVAL_SECONDS'' := Itoa 9223372037)) = Inr cfg \<and> cf_TopologyInterval cfg < 0"
proof -
  let ?env = "(\<lambda>_. [])(''TOPOLOGY_INTERVAL_SECONDS'' := Itoa 9223372037)"
  have a: "Atoi (Itoa 9223372037) = Some 9223372037" by (rule Atoi_Itoa) (simp_all add: int64_min_def int64_max_def)
  moreover have "Atoi [] = None" by (simp add: Atoi_def all_digits_def)
  ultimately have v: "env_int ?env ''TOPOLOGY_INTERVAL_SECONDS'' 5 = 9223372037" by (auto simp: env_int_def)
  have "list_all (int_or_unset ?env) integer_keys" using a by (simp add: int_or_unset_def integer_keys_def)
  then obtain cfg where l: "Load ?env = Inr cfg" using Load_Inr [of ?env] v by auto
  have "cf_TopologyInterval cfg < 0"
    unfolding Load_durations(1) [OF l] v seconds_def by (simp add: wrap64_alt duration_consts)
  with l show ?thesis by blast
qed

end
