(* ===== verification/Infra.thy ===== *)
theory Infra
  imports Config
begin

text \<open>
  \<^verbatim>\<open>internal/infra\<close>: the two connection loops (\<^verbatim>\<open>postgres.go\<close>, \<^verbatim>\<open>redis.go\<close>), the migrations
  (\<^verbatim>\<open>migrate.go\<close> over the files embedded by \<^verbatim>\<open>migrations/embed.go\<close>) and the level of the logger
  (\<^verbatim>\<open>logger.go\<close>).  The drivers are parameters: functions on the world \<open>'w\<close> that return the driver's
  error or their result.  What the migrations rely on is that PostgreSQL's transactions are atomic.
\<close>

section \<open>Log levels (logger.go)\<close>

datatype level = LevelDebug | LevelInfo | LevelWarn | LevelError

definition ToLower :: "string \<Rightarrow> string" where
  "ToLower s = map (\<lambda>c. if 65 \<le> byte_of c \<and> byte_of c \<le> (90 :: nat) then char_of (byte_of c + (32 :: nat)) else c) s"

definition log_level :: "string \<Rightarrow> level" where
  "log_level l =
     (let s = ToLower l
      in if s = ''debug'' then LevelDebug else if s = ''warn'' \<or> s = ''warning'' then LevelWarn
         else if s = ''error'' then LevelError else LevelInfo)"

section \<open>Waiting for a server (postgres.go, redis.go)\<close>

text \<open>
  A connection: the \<open>Ping\<close> within three seconds, the pause of two seconds (\<open>True\<close> when the context is
  cancelled meanwhile), and closing it.
\<close>

record 'w conn =
  cn_Ping :: "'w \<Rightarrow> (string + unit) \<times> 'w"
  cn_Wait :: "'w \<Rightarrow> bool \<times> 'w"
  cn_Close :: "'w \<Rightarrow> 'w"

definition maxAttempts :: nat where "maxAttempts = 30"

function connect_loop :: "'w conn \<Rightarrow> string \<Rightarrow> nat \<Rightarrow> 'w \<Rightarrow> (string + 'w conn) \<times> 'w" where
  "connect_loop C what attempt w =
     (case cn_Ping C w of
        (Inr _, w1) \<Rightarrow> (Inr C, w1)
      | (Inl err, w1) \<Rightarrow>
          if attempt \<ge> maxAttempts then (Inl (what @ '' unreachable: '' @ err), cn_Close C w1)
          else case cn_Wait C w1 of
                 (True, w2) \<Rightarrow> (Inl ''context canceled'', cn_Close C w2)
               | (False, w2) \<Rightarrow> connect_loop C what (Suc attempt) w2)"
  by pat_completeness auto
termination
  by (relation "measure (\<lambda>(_, _, attempt, _). maxAttempts - attempt)") auto

declare connect_loop.simps [simp del]

record pool_config =
  pc_MaxConns :: int
  pc_MinConns :: int
  pc_MaxConnLifetime :: duration
  pc_HealthCheckPeriod :: duration

definition pool_settings :: pool_config where
  "pool_settings = \<lparr>pc_MaxConns = 16, pc_MinConns = 2, pc_MaxConnLifetime = 60 * Minute, pc_HealthCheckPeriod = 30 * Second\<rparr>"

text \<open>\<open>parse\<close> and \<open>create\<close> are pgx's \<open>ParseConfig\<close> and \<open>NewWithConfig\<close>.\<close>

definition NewPostgresPool ::
  "(string \<Rightarrow> string + 'c) \<Rightarrow> ('c \<Rightarrow> pool_config \<Rightarrow> 'w \<Rightarrow> (string + 'w conn) \<times> 'w) \<Rightarrow> string \<Rightarrow> 'w \<Rightarrow> (string + 'w conn) \<times> 'w" where
  "NewPostgresPool parse create dsn w =
     (case parse dsn of
        Inl err \<Rightarrow> (Inl (''parse postgres dsn: '' @ err), w)
      | Inr poolCfg \<Rightarrow>
          (case create poolCfg pool_settings w of
             (Inl err, w1) \<Rightarrow> (Inl (''create postgres pool: '' @ err), w1)
           | (Inr pool, w1) \<Rightarrow> connect_loop pool ''postgres'' 1 w1))"

text \<open>\<open>open_client\<close> is go-redis's \<open>NewClient\<close>, which does not fail.\<close>

record redis_options =
  ro_Addr :: string
  ro_Password :: string
  ro_DB :: int
  ro_DialTimeout :: duration
  ro_ReadTimeout :: duration
  ro_WriteTimeout :: duration
  ro_PoolSize :: int

definition NewRedisClient :: "(redis_options \<Rightarrow> 'w conn) \<Rightarrow> string \<Rightarrow> string \<Rightarrow> int \<Rightarrow> 'w \<Rightarrow> (string + 'w conn) \<times> 'w" where
  "NewRedisClient open_client addr password db w =
     connect_loop (open_client \<lparr>ro_Addr = addr, ro_Password = password, ro_DB = db, ro_DialTimeout = 3 * Second,
        ro_ReadTimeout = 3 * Second, ro_WriteTimeout = 3 * Second, ro_PoolSize = 32\<rparr>) ''redis'' 1 w"

text \<open>The world after so many failed pings, each followed by a full pause.\<close>

fun failed_rounds :: "'w conn \<Rightarrow> nat \<Rightarrow> 'w \<Rightarrow> 'w option" where
  "failed_rounds C 0 w = Some w"
| "failed_rounds C (Suc k) w =
     (case cn_Ping C w of
        (Inr _, _) \<Rightarrow> None
      | (Inl _, w1) \<Rightarrow> (case cn_Wait C w1 of (True, _) \<Rightarrow> None | (False, w2) \<Rightarrow> failed_rounds C k w2))"

lemma connect_loop_outcome:
  assumes "1 \<le> attempt" "attempt \<le> maxAttempts"
  shows "(\<exists>k w1 w2. attempt + k \<le> maxAttempts \<and> failed_rounds C k w = Some w1 \<and> cn_Ping C w1 = (Inr (), w2) \<and>
            connect_loop C what attempt w = (Inr C, w2)) \<or>
         (\<exists>k w1 w2 err msg. attempt + k \<le> maxAttempts \<and> failed_rounds C k w = Some w1 \<and> cn_Ping C w1 = (Inl err, w2) \<and>
            (attempt + k = maxAttempts \<and> connect_loop C what attempt w = (Inl msg, cn_Close C w2) \<or>
             fst (cn_Wait C w2) \<and> connect_loop C what attempt w = (Inl msg, cn_Close C (snd (cn_Wait C w2)))))"
  using assms
proof (induction C what attempt w rule: connect_loop.induct)
  case (1 C what attempt w)
  obtain r w1 where p: "cn_Ping C w = (r, w1)" by force
  show ?case
  proof (cases r)
    case (Inr u)
    then show ?thesis using p "1.prems" by (intro disjI1 exI [of _ 0]) (simp add: connect_loop.simps [of C])
  next
    case (Inl err)
    obtain stop w2 where q: "cn_Wait C w1 = (stop, w2)" by force
    show ?thesis
    proof (cases "attempt \<ge> maxAttempts \<or> stop")
      case True
      then show ?thesis using p q Inl "1.prems"
        by (intro disjI2 exI [of _ 0]) (auto simp: connect_loop.simps [of C])
    next
      case False
      then have eq: "connect_loop C what attempt w = connect_loop C what (Suc attempt) w2"
        using p q Inl by (simp add: connect_loop.simps [of C what attempt])
      have rounds: "failed_rounds C (Suc k) w = failed_rounds C k w2" for k using p q Inl False by simp
      from "1.IH" [OF p [symmetric] Inl] False q "1.prems"
      have "(\<exists>k w1 w'. Suc attempt + k \<le> maxAttempts \<and> failed_rounds C k w2 = Some w1 \<and> cn_Ping C w1 = (Inr (), w') \<and>
            connect_loop C what (Suc attempt) w2 = (Inr C, w')) \<or>
         (\<exists>k w1 w' err msg. Suc attempt + k \<le> maxAttempts \<and> failed_rounds C k w2 = Some w1 \<and> cn_Ping C w1 = (Inl err, w') \<and>
            (Suc attempt + k = maxAttempts \<and> connect_loop C what (Suc attempt) w2 = (Inl msg, cn_Close C w') \<or>
             fst (cn_Wait C w') \<and> connect_loop C what (Suc attempt) w2 = (Inl msg, cn_Close C (snd (cn_Wait C w')))))"
        by auto
      then show ?thesis unfolding eq by (metis add_Suc_shift rounds)
    qed
  qed
qed

lemma connect_loop_ok:
  "attempt + k \<le> maxAttempts \<Longrightarrow> failed_rounds C k w = Some w1 \<Longrightarrow> cn_Ping C w1 = (Inr u, w2) \<Longrightarrow>
   connect_loop C what attempt w = (Inr C, w2)"
proof (induction k arbitrary: attempt w)
  case 0
  then show ?case by (simp add: connect_loop.simps [of C])
next
  case (Suc k)
  then show ?case
    by (auto simp: connect_loop.simps [of C what attempt] split: prod.splits sum.splits bool.splits)
qed

text \<open>
  The start-up waits for PostgreSQL and Redis at most thirty pings: the connection is handed out
  exactly when one of the first thirty pings is answered with a full pause after each failure before it,
  and otherwise it is closed and an error returned (after the thirtieth failure, or when the
  context is cancelled during a pause).
\<close>

lemma connects_within_thirty:
  "((\<exists>w2. connect_loop C what 1 w = (Inr C, w2)) \<longleftrightarrow>
      (\<exists>k w1 w2. k < 30 \<and> failed_rounds C k w = Some w1 \<and> cn_Ping C w1 = (Inr (), w2))) \<and>
   ((\<exists>w2. connect_loop C what 1 w = (Inr C, w2)) \<or> (\<exists>msg w2. connect_loop C what 1 w = (Inl msg, cn_Close C w2)))"
proof -
  note out = connect_loop_outcome [of 1 C w what]
  have ok: "connect_loop C what 1 w = (Inr C, w2)" if "k < 30" "failed_rounds C k w = Some w1" "cn_Ping C w1 = (Inr (), w2)" for k w1 w2
    using connect_loop_ok [OF _ that(2,3), of 1] that(1) by (simp add: maxAttempts_def)
  show ?thesis using out ok unfolding maxAttempts_def by fastforce
qed

section \<open>Migrations (migrate.go)\<close>

text \<open>The statements of a migration, in the order the code issues them.\<close>

record 'w migration_db =
  mg_CreateTable :: "'w \<Rightarrow> (string + unit) \<times> 'w"
  mg_Exists :: "string \<Rightarrow> 'w \<Rightarrow> (string + bool) \<times> 'w"
  mg_Begin :: "'w \<Rightarrow> (string + unit) \<times> 'w"
  mg_Exec :: "string \<Rightarrow> 'w \<Rightarrow> (string + unit) \<times> 'w"
  mg_Record :: "string \<Rightarrow> 'w \<Rightarrow> (string + unit) \<times> 'w"
  mg_Commit :: "'w \<Rightarrow> (string + unit) \<times> 'w"
  mg_Rollback :: "'w \<Rightarrow> 'w"

text \<open>The embedded files by name; \<open>fs.Glob\<close> keeps the names that end in \<open>.sql\<close>.\<close>

type_synonym files = "(string \<times> string) list"

definition is_sql :: "string \<Rightarrow> bool" where
  "is_sql name \<longleftrightarrow> length name \<ge> 4 \<and> drop (length name - 4) name = ''.sql''"

definition migration_names :: "files \<Rightarrow> string list" where
  "migration_names files = sort (filter is_sql (map fst files))"

definition apply_migration :: "'w migration_db \<Rightarrow> string \<Rightarrow> string \<Rightarrow> 'w \<Rightarrow> (string + unit) \<times> 'w" where
  "apply_migration D name sql w =
     (case mg_Begin D w of
        (Inl err, w1) \<Rightarrow> (Inl (''begin migration '' @ name @ '': '' @ err), w1)
      | (Inr _, w1) \<Rightarrow>
      case mg_Exec D sql w1 of
        (Inl err, w2) \<Rightarrow> (Inl (''apply migration '' @ name @ '': '' @ err), mg_Rollback D w2)
      | (Inr _, w2) \<Rightarrow>
      case mg_Record D name w2 of
        (Inl err, w3) \<Rightarrow> (Inl (''record migration '' @ name @ '': '' @ err), mg_Rollback D w3)
      | (Inr _, w3) \<Rightarrow>
      case mg_Commit D w3 of
        (Inl err, w4) \<Rightarrow> (Inl (''commit migration '' @ name @ '': '' @ err), w4)
      | (Inr _, w4) \<Rightarrow> (Inr (), w4))"

fun migrate_files :: "'w migration_db \<Rightarrow> files \<Rightarrow> string list \<Rightarrow> 'w \<Rightarrow> (string + unit) \<times> 'w" where
  "migrate_files D files [] w = (Inr (), w)"
| "migrate_files D files (name # names) w =
     (case mg_Exists D name w of
        (Inl err, w1) \<Rightarrow> (Inl (''check migration '' @ name @ '': '' @ err), w1)
      | (Inr True, w1) \<Rightarrow> migrate_files D files names w1
      | (Inr False, w1) \<Rightarrow>
          (case map_of files name of
             None \<Rightarrow> (Inl (''read migration '' @ name @ '': file does not exist''), w1)
           | Some sql \<Rightarrow>
               (case apply_migration D name sql w1 of
                  (Inl err, w2) \<Rightarrow> (Inl err, w2)
                | (Inr _, w2) \<Rightarrow> migrate_files D files names w2)))"

definition Migrate :: "'w migration_db \<Rightarrow> files \<Rightarrow> 'w \<Rightarrow> (string + unit) \<times> 'w" where
  "Migrate D files w =
     (case mg_CreateTable D w of
        (Inl err, w1) \<Rightarrow> (Inl (''create schema_migrations: '' @ err), w1)
      | (Inr _, w1) \<Rightarrow> migrate_files D files (migration_names files) w1)"

section \<open>What the migrations rely on\<close>

text \<open>The committed versions and scripts in order, and those of the open transaction.\<close>

record ledger =
  lg_applied :: "string list"
  lg_ran :: "string list"
  lg_tx :: "(string list \<times> string list) option"

text \<open>
  A transaction starts from the committed state, is invisible until it commits, and commits as a whole
  or not at all, also when the answer to the commit is lost.
\<close>

definition migration_ok :: "('w \<Rightarrow> ledger) \<Rightarrow> 'w migration_db \<Rightarrow> bool" where
  "migration_ok view D \<longleftrightarrow>
     (\<forall>w. view (snd (mg_CreateTable D w)) = view w) \<and>
     (\<forall>n w. view (snd (mg_Exists D n w)) = view w \<and> (\<forall>b. fst (mg_Exists D n w) = Inr b \<longrightarrow> b = (n \<in> set (lg_applied (view w))))) \<and>
     (\<forall>w. view (snd (mg_Begin D w)) =
        (if is_ok (fst (mg_Begin D w)) then (view w)\<lparr>lg_tx := Some (lg_applied (view w), lg_ran (view w))\<rparr> else view w)) \<and>
     (\<forall>q w a r. lg_tx (view w) = Some (a, r) \<longrightarrow>
        (\<exists>tx. view (snd (mg_Exec D q w)) = (view w)\<lparr>lg_tx := Some tx\<rparr> \<and> (is_ok (fst (mg_Exec D q w)) \<longrightarrow> tx = (a, r @ [q])))) \<and>
     (\<forall>n w a r. lg_tx (view w) = Some (a, r) \<longrightarrow>
        (\<exists>tx. view (snd (mg_Record D n w)) = (view w)\<lparr>lg_tx := Some tx\<rparr> \<and> (is_ok (fst (mg_Record D n w)) \<longrightarrow> tx = (a @ [n], r)))) \<and>
     (\<forall>w a r. lg_tx (view w) = Some (a, r) \<longrightarrow>
        view (snd (mg_Commit D w)) = \<lparr>lg_applied = a, lg_ran = r, lg_tx = None\<rparr> \<or>
        \<not> is_ok (fst (mg_Commit D w)) \<and> view (snd (mg_Commit D w)) = (view w)\<lparr>lg_tx := None\<rparr>) \<and>
     (\<forall>w. view (mg_Rollback D w) = (view w)\<lparr>lg_tx := None\<rparr>)"

lemma migration_okD:
  assumes "migration_ok view D"
  shows "view (snd (mg_CreateTable D w)) = view w"
    "mg_Exists D n w = (res, w1) \<Longrightarrow> view w1 = view w \<and> (\<forall>b. res = Inr b \<longrightarrow> b = (n \<in> set (lg_applied (view w))))"
    "mg_Begin D w = (rb, w2) \<Longrightarrow> view w2 = (if is_ok rb then (view w)\<lparr>lg_tx := Some (lg_applied (view w), lg_ran (view w))\<rparr> else view w)"
    "lg_tx (view w) = Some (a, r) \<Longrightarrow> mg_Exec D q w = (rb, w2) \<Longrightarrow>
     \<exists>tx. view w2 = (view w)\<lparr>lg_tx := Some tx\<rparr> \<and> (is_ok rb \<longrightarrow> tx = (a, r @ [q]))"
    "lg_tx (view w) = Some (a, r) \<Longrightarrow> mg_Record D n w = (rb, w2) \<Longrightarrow>
     \<exists>tx. view w2 = (view w)\<lparr>lg_tx := Some tx\<rparr> \<and> (is_ok rb \<longrightarrow> tx = (a @ [n], r))"
    "lg_tx (view w) = Some (a, r) \<Longrightarrow> mg_Commit D w = (rb, w2) \<Longrightarrow>
     view w2 = \<lparr>lg_applied = a, lg_ran = r, lg_tx = None\<rparr> \<or> \<not> is_ok rb \<and> view w2 = (view w)\<lparr>lg_tx := None\<rparr>"
    "view (mg_Rollback D w) = (view w)\<lparr>lg_tx := None\<rparr>"
  using assms unfolding migration_ok_def by (metis fst_conv snd_conv)+

text \<open>One migration is applied with its record, or nothing happened; success means applied.\<close>

lemma apply_migration_atomic:
  assumes D: "migration_ok view D" and st: "lg_tx (view w) = None" and ap: "apply_migration D n q w = (res, w')"
  shows "view w' = \<lparr>lg_applied = lg_applied (view w) @ [n], lg_ran = lg_ran (view w) @ [q], lg_tx = None\<rparr> \<or>
     \<not> is_ok res \<and> view w' = view w"
proof -
  note law = migration_okD [OF D]
  have closed: "(view w)\<lparr>lg_tx := None\<rparr> = view w" using st by simp
  obtain r1 w1 where 1: "mg_Begin D w = (r1, w1)" by force
  show ?thesis
  proof (cases r1)
    case (Inl e)
    then show ?thesis using ap 1 law(3) [OF 1] by (auto simp: apply_migration_def)
  next
    case (Inr u)
    let ?a = "lg_applied (view w)" and ?r = "lg_ran (view w)"
    have v1: "view w1 = (view w)\<lparr>lg_tx := Some (?a, ?r)\<rparr>" using law(3) [OF 1] Inr by simp
    obtain r2 w2 where 2: "mg_Exec D q w1 = (r2, w2)" by force
    then obtain t2 where v2: "view w2 = (view w)\<lparr>lg_tx := Some t2\<rparr>" "is_ok r2 \<longrightarrow> t2 = (?a, ?r @ [q])"
      using law(4) [OF _ 2, of ?a ?r] v1 by auto
    obtain r3 w3 where 3: "mg_Record D n w2 = (r3, w3)" by force
    then obtain t3 where v3: "view w3 = (view w)\<lparr>lg_tx := Some t3\<rparr>" "is_ok r2 \<and> is_ok r3 \<longrightarrow> t3 = (?a @ [n], ?r @ [q])"
      using law(5) [OF _ 3, of "fst t2" "snd t2"] v2 by auto
    obtain r4 w4 where 4: "mg_Commit D w3 = (r4, w4)" by force
    have v4: "view w4 = \<lparr>lg_applied = fst t3, lg_ran = snd t3, lg_tx = None\<rparr> \<or> \<not> is_ok r4 \<and> view w4 = view w"
      using law(6) [OF _ 4, of "fst t3" "snd t3"] v3(1) closed by auto
    show ?thesis
      using ap 1 2 3 4 Inr v2(1) v3 v4 closed law(7)
      by (cases r2; cases r3; cases r4) (auto simp: apply_migration_def)
  qed
qed

lemma migrate_files_prefix:
  assumes D: "migration_ok view D"
  shows "lg_tx (view w) = None \<Longrightarrow> distinct names \<Longrightarrow> migrate_files D files names w = (res, w') \<Longrightarrow>
    \<exists>k. let todo = filter (\<lambda>n. n \<notin> set (lg_applied (view w))) names
        in lg_applied (view w') = lg_applied (view w) @ take k todo \<and>
           lg_ran (view w') = lg_ran (view w) @ map (\<lambda>n. the (map_of files n)) (take k todo) \<and>
           lg_tx (view w') = None \<and> (res = Inr () \<longrightarrow> k = length todo)"
proof (induction names arbitrary: w)
  case Nil
  then show ?case by simp
next
  case (Cons n names)
  obtain r1 w1 where 1: "mg_Exists D n w = (r1, w1)" by force
  note v1 = migration_okD(2) [OF D 1]
  show ?case
  proof (cases "r1 = Inr True")
    case True
    then show ?thesis using Cons.IH [of w1] Cons.prems 1 v1 by auto
  next
    case new: False
    show ?thesis
    proof (cases "r1 = Inr False \<and> map_of files n \<noteq> None")
      case False
      then have "view w' = view w \<and> \<not> is_ok res" using new 1 v1 Cons.prems(3) by (auto split: sum.splits bool.splits option.splits)
      then show ?thesis using Cons.prems(1) by (intro exI [of _ 0]) (auto simp: Let_def)
    next
      case True
      then obtain q where q: "map_of files n = Some q" by auto
      have todo: "n \<notin> set (lg_applied (view w))" using v1 True by auto
      obtain r2 w2 where 2: "apply_migration D n q w1 = (r2, w2)" by force
      note v2 = apply_migration_atomic [OF D _ 2]
      show ?thesis
      proof (cases "is_ok r2")
        case False
        then have "w' = w2" "\<not> is_ok res" using True q 1 2 Cons.prems(3) by (auto split: sum.splits)
        then show ?thesis using v2 v1 Cons.prems(1) todo q
          by (cases "view w2 = view w") (auto simp: Let_def intro: exI [of _ 0] exI [of _ 1])
      next
        case ok: True
        then have v: "view w2 = \<lparr>lg_applied = lg_applied (view w) @ [n], lg_ran = lg_ran (view w) @ [q], lg_tx = None\<rparr>"
          using v2 v1 Cons.prems(1) by auto
        have "filter (\<lambda>m. m \<notin> set (lg_applied (view w2))) names = filter (\<lambda>m. m \<notin> set (lg_applied (view w))) names"
          using Cons.prems(2) by (intro filter_cong) (auto simp: v)
        moreover have "migrate_files D files names w2 = (res, w')" using True ok q 1 2 Cons.prems(3) by auto
        ultimately obtain k where "lg_applied (view w') = lg_applied (view w2) @ take k (filter (\<lambda>m. m \<notin> set (lg_applied (view w))) names)"
          "lg_ran (view w') = lg_ran (view w2) @ map (\<lambda>n. the (map_of files n)) (take k (filter (\<lambda>m. m \<notin> set (lg_applied (view w))) names))"
          "lg_tx (view w') = None" "res = Inr () \<longrightarrow> k = length (filter (\<lambda>m. m \<notin> set (lg_applied (view w))) names)"
          using Cons.IH [of w2] Cons.prems(2) by (auto simp: v Let_def)
        then show ?thesis using v q todo by (intro exI [of _ "Suc k"]) (auto simp: Let_def)
      qed
    qed
  qed
qed

text \<open>
  C39. Each migration is applied exactly once, in lexical order: a run applies a prefix of the scripts not
  yet recorded, records exactly those, leaves no transaction open, and applies all of them if it
  succeeds; a second run after a success applies nothing.
\<close>

theorem Migrate_once:
  assumes "migration_ok view D" "lg_tx (view w) = None" "distinct (map fst files)" "Migrate D files w = (res, w')"
  shows "(\<exists>k. let todo = filter (\<lambda>n. n \<notin> set (lg_applied (view w))) (migration_names files)
        in lg_applied (view w') = lg_applied (view w) @ take k todo \<and>
           lg_ran (view w') = lg_ran (view w) @ map (\<lambda>n. the (map_of files n)) (take k todo) \<and>
           lg_tx (view w') = None \<and> (res = Inr () \<longrightarrow> k = length todo)) \<and>
    sorted (migration_names files) \<and>
    (res = Inr () \<longrightarrow> view (snd (Migrate D files w')) = view w')"
proof -
  have sorted: "sorted (migration_names files)" and dist: "distinct (migration_names files)"
    using assms(3) by (simp_all add: migration_names_def distinct_filter)
  have run: "\<exists>k. let todo = filter (\<lambda>n. n \<notin> set (lg_applied (view w))) (migration_names files)
        in lg_applied (view w') = lg_applied (view w) @ take k todo \<and>
           lg_ran (view w') = lg_ran (view w) @ map (\<lambda>n. the (map_of files n)) (take k todo) \<and>
           lg_tx (view w') = None \<and> (res = Inr () \<longrightarrow> k = length todo)"
    if "lg_tx (view w) = None" "Migrate D files w = (res, w')" for w w' res
  proof -
    obtain r1 w1 where 1: "mg_CreateTable D w = (r1, w1)" by force
    have v1: "view w1 = view w" using migration_okD(1) [OF assms(1), of w] 1 by simp
    show ?thesis
    proof (cases r1)
      case (Inl e)
      then show ?thesis using that 1 v1 by (intro exI [of _ 0]) (auto simp: Migrate_def)
    next
      case (Inr u)
      then show ?thesis using migrate_files_prefix [OF assms(1) _ dist, of w1 files res w'] that 1 v1 by (auto simp: Migrate_def)
    qed
  qed
  have "view (snd (Migrate D files w')) = view w'" if ok: "res = Inr ()"
  proof -
    have all: "set (migration_names files) \<subseteq> set (lg_applied (view w'))" and tx: "lg_tx (view w') = None"
      using run [OF assms(2,4)] ok by (auto simp: Let_def)
    obtain r2 w2 where 2: "Migrate D files w' = (r2, w2)" by force
    have "filter (\<lambda>n. n \<notin> set (lg_applied (view w'))) (migration_names files) = []" using all by (auto simp: filter_empty_conv)
    then have "lg_applied (view w2) = lg_applied (view w')" "lg_ran (view w2) = lg_ran (view w')" "lg_tx (view w2) = None"
      using run [OF tx 2] by auto
    then show ?thesis using tx by (simp add: 2)
  qed
  then show ?thesis using run [OF assms(2,4)] sorted by blast
qed

text \<open>A database in memory.\<close>

definition mem_migration :: "ledger migration_db" where
  "mem_migration =
     \<lparr>mg_CreateTable = (\<lambda>w. (Inr (), w)), mg_Exists = (\<lambda>n w. (Inr (n \<in> set (lg_applied w)), w)),
      mg_Begin = (\<lambda>w. (Inr (), w\<lparr>lg_tx := Some (lg_applied w, lg_ran w)\<rparr>)),
      mg_Exec = (\<lambda>q w. (Inr (), w\<lparr>lg_tx := map_option (\<lambda>(a, r). (a, r @ [q])) (lg_tx w)\<rparr>)),
      mg_Record = (\<lambda>n w. (Inr (), w\<lparr>lg_tx := map_option (\<lambda>(a, r). (a @ [n], r)) (lg_tx w)\<rparr>)),
      mg_Commit = (\<lambda>w. (Inr (), case lg_tx w of Some (a, r) \<Rightarrow> \<lparr>lg_applied = a, lg_ran = r, lg_tx = None\<rparr> | None \<Rightarrow> w)),
      mg_Rollback = (\<lambda>w. w\<lparr>lg_tx := None\<rparr>)\<rparr>"

theorem Migrate_once_witness:
  "lg_applied (snd (Migrate mem_migration [(''b.sql'', ''B''), (''a.sql'', ''A'')] \<lparr>lg_applied = [''a.sql''], lg_ran = [''A''], lg_tx = None\<rparr>))
     = [''a.sql'', ''b.sql'']"
proof -
  let ?f = "[(''b.sql'', ''B''), (''a.sql'', ''A'')]" and ?w = "\<lparr>lg_applied = [''a.sql''], lg_ran = [''A''], lg_tx = None\<rparr>"
  have names: "migration_names ?f = [''a.sql'', ''b.sql'']"
    by (simp add: migration_names_def is_sql_def less_eq_char_def less_char_def)
  have ok: "migration_ok (\<lambda>w. w) mem_migration" by (auto simp: migration_ok_def mem_migration_def)
  obtain res w' where m: "Migrate mem_migration ?f ?w = (res, w')" by force
  then have "res = Inr ()"
    by (simp add: Migrate_def mem_migration_def) (simp add: names apply_migration_def)
  then show ?thesis using Migrate_once [OF ok _ _ m] names m by (auto simp: Let_def)
qed

end
