(* ===== verification/Server.thy ===== *)
theory Server
  imports Infra Surface
begin

text \<open>
  The server process, \<^verbatim>\<open>cmd/server/main.go\<close>: the start-up in its order, up to the state from which the
  workers, the scheduler and the HTTP server run (\<open>backend_step\<close> of \<open>Backend\<close> is one step of any of
  them), and the shutdown.  The drivers and the number of processors are parameters.  Listening, signals,
  the profiler and log lines are left out; an exit is the message it prints.
\<close>

section \<open>Start-up\<close>

record ('w, 'c) platform =
  pl_parse :: "string \<Rightarrow> string + 'c"
  pl_create :: "'c \<Rightarrow> pool_config \<Rightarrow> 'w \<Rightarrow> (string + 'w conn) \<times> 'w"
  pl_redis :: "redis_options \<Rightarrow> 'w conn"
  pl_migrations :: "'w migration_db"
  pl_files :: files
  pl_ext :: "'w ext"
  pl_NumCPU :: int

datatype 'w boot = Exit string | Serving Config int "'w backend"

definition worker_count :: "Config \<Rightarrow> int \<Rightarrow> int" where
  "worker_count cfg cpus =
     (let workers = cf_WorkerPoolSize cfg
      in if workers \<le> 0 then (let n = cpus * 4 in if n < 4 then 4 else n) else workers)"

definition server_main :: "environment \<Rightarrow> ('w, 'c) platform \<Rightarrow> 'w \<Rightarrow> 'w boot" where
  "server_main env L w =
     (case Load env of
        Inl err \<Rightarrow> Exit (''config error: '' @ err)
      | Inr cfg \<Rightarrow>
      case NewPostgresPool (pl_parse L) (pl_create L) (cf_PostgresDSN cfg) w of
        (Inl err, _) \<Rightarrow> Exit (''postgres init failed: '' @ err)
      | (Inr pool, w1) \<Rightarrow>
      case Migrate (pl_migrations L) (pl_files L) w1 of
        (Inl err, _) \<Rightarrow> Exit (''migrations failed: '' @ err)
      | (Inr _, w2) \<Rightarrow>
      case NewRedisClient (pl_redis L) (cf_RedisAddr cfg) (cf_RedisPass cfg) (cf_RedisDB cfg) w2 of
        (Inl err, _) \<Rightarrow> Exit (''redis init failed: '' @ err)
      | (Inr rdb, w3) \<Rightarrow>
          (let b = start (cf_WSSendBuffer cfg) w3
           in case ResumeActive (pl_ext L) (be_sys b) of
                (Inl err, _) \<Rightarrow> Exit ''resume active sessions failed''
              | (Inr _, s) \<Rightarrow> Serving cfg (worker_count cfg (pl_NumCPU L)) (b\<lparr>be_sys := s\<rparr>)))"

text \<open>The readiness probe pings both databases.\<close>

definition readiness :: "'w conn \<Rightarrow> 'w conn \<Rightarrow> 'w \<Rightarrow> (string + unit) \<times> 'w" where
  "readiness pool rdb w =
     (case cn_Ping pool w of
        (Inl err, w1) \<Rightarrow> (Inl err, w1)
      | (Inr _, w1) \<Rightarrow> cn_Ping rdb w1)"

text \<open>After the signal and the end of the HTTP server: every socket is closed.\<close>

definition server_stop :: "'w backend \<Rightarrow> 'w backend" where
  "server_stop b = on_sys (\<lambda>s. s\<lparr>sy_hub := Shutdown (sy_hub s)\<rparr>) b"

section \<open>Resuming\<close>

lemma resume_all_active: "resume_all X rows s = (Inr (), s') \<Longrightarrow> sy_active s' = sy_active s \<union> ss_ID ` set rows"
proof (induction rows arbitrary: s)
  case (Cons r rows)
  obtain a s1 where 1: "cacheParams X r s = (a, s1)" by force
  then have "sy_active s1 = sy_active s" by (auto simp: cacheParams_def on_world_def)
  with Cons 1 show ?case by (cases a) (auto simp: AddSession_def)
qed simp

lemma cacheParams_calm:
  assumes "ext_ok F view X" "cacheParams X r s = (a, s1)"
  shows "calm {keyParams (ss_ID r)} (view (sy_world s)) (view (sy_world s1))"
proof -
  obtain w1 where "SaveParams X (ss_ID r) (session_params r) (sy_world s) = (a, w1)" "s1 = s\<lparr>sy_world := w1\<rparr>"
    using assms(2) unfolding cacheParams_def by (rule on_worldE)
  then show ?thesis using repo_calm(1) [OF ext_parts(1) [OF assms(1)], of "ss_ID r" "sy_world s" "session_params r"] by simp
qed

text \<open>The rows resumed later leave the parameters of the earlier ones alone.\<close>

lemma resume_all_params:
  assumes X: "ext_ok F view X"
  shows "resume_all X rows s = (Inr (), s') \<Longrightarrow> distinct (map ss_ID rows) \<Longrightarrow> list_all legal_session rows \<Longrightarrow>
    (\<forall>r \<in> set rows. stored_params (view (sy_world s')) (ss_ID r) = Some (session_params r)) \<and>
    calm (keyParams ` ss_ID ` set rows) (view (sy_world s)) (view (sy_world s'))"
proof (induction rows arbitrary: s)
  case (Cons r rows)
  obtain a s1 where 1: "cacheParams X r s = (a, s1)" by force
  with Cons.prems(1) have a: "a = Inr ()" and rest: "resume_all X rows (AddSession (ss_ID r) s1) = (Inr (), s')"
    by (auto split: sum.splits)
  have w: "sy_world (AddSession (ss_ID r) s1) = sy_world s1" by (simp add: AddSession_def)
  note ih = Cons.IH [OF rest, unfolded w]
  have calms: "calm (keyParams ` ss_ID ` set rows) (view (sy_world s1)) (view (sy_world s'))" using ih Cons.prems by simp
  have saved: "stored_params (view (sy_world s1)) (ss_ID r) = Some (session_params r)"
    using saved_params [OF X _ 1 [unfolded cacheParams_def a]] Cons.prems(3) by simp
  have "keyParams (ss_ID r) \<notin> keyParams ` ss_ID ` set rows"
    using Cons.prems(2) by (auto simp: keyParams_def sim_key_def)
  then have "stored_params (view (sy_world s')) (ss_ID r) = Some (session_params r)"
    using stored_params_keeps [OF calm_keeps [OF calms]] saved by metis
  moreover have "calm (keyParams ` ss_ID ` set (r # rows)) (view (sy_world s)) (view (sy_world s'))"
    by (rule calm_trans [OF calm_mono [OF cacheParams_calm [OF X 1]] calm_mono [OF calms]]) auto
  ultimately show ?case using ih Cons.prems by simp
qed simp

lemma ResumeActive_complete:
  assumes X: "ext_ok F view X" and res: "ResumeActive X s = (Inr (), s')"
    and st: "legal_store (view (sy_world s))" "distinct (map ss_ID (st_sessions (view (sy_world s))))"
    and r: "r \<in> set (st_sessions (view (sy_world s)))" "ss_IsActive r"
  shows "ss_ID r \<in> sy_active s'" "stored_params (view (sy_world s')) (ss_ID r) = Some (session_params r)"
proof -
  obtain rows s1 where 1: "on_world (ListActive X) s = (Inr rows, s1)" and all: "resume_all X rows s1 = (Inr (), s')"
    using res by (auto simp: ResumeActive_def split: prod.splits sum.splits)
  obtain w1 where "ListActive X (sy_world s) = (Inr rows, w1)" using 1 by (rule on_worldE)
  then have "qListActive X (sy_world s) = (Inr rows, w1)" by (simp add: ListActive_def wrap_err_eq)
  then obtain t where "ref_ListActive (at_time t (view (sy_world s))) = (Inr rows, view w1)"
    using implements_Inr [OF sql_okD(4) [OF ext_parts(2) [OF X]]] by metis
  then have rows: "rows = sort_key ss_CreatedAt (filter ss_IsActive (st_sessions (view (sy_world s))))"
    by (simp add: ref_ListActive_def at_time_def)
  then have "set rows = {r \<in> set (st_sessions (view (sy_world s))). ss_IsActive r}" by simp
  moreover have "distinct (map ss_ID rows)" unfolding rows distinct_map using st(2) by (auto simp: distinct_map inj_on_def)
  moreover have "list_all legal_session rows" using st(1) calculation(1) by (auto simp: legal_store_def list_all_iff)
  ultimately show "ss_ID r \<in> sy_active s'" "stored_params (view (sy_world s')) (ss_ID r) = Some (session_params r)"
    using resume_all_active [OF all] resume_all_params [OF X all] r by auto
qed

text \<open>
  C40. A restart loses no running session: when the server comes up, with at least one worker, every
  active row of the database is in the scheduler's set and its own parameters are in Redis; and the
  state it serves from is one that the run theorems start from.
\<close>

theorem server_resumes:
  assumes "ext_ok F view (pl_ext L)" "server_main env L w = Serving cfg n b" "0 \<le> pl_NumCPU L"
  shows "1 \<le> n \<and> Load env = Inr cfg \<and> be_jobs b = [] \<and>
    (\<exists>w3. backend_run view (pl_ext L) iv (start (cf_WSSendBuffer cfg) w3) b \<and>
      (legal_store (view w3) \<and> distinct (map ss_ID (st_sessions (view w3))) \<longrightarrow>
       (\<forall>r \<in> set (st_sessions (view w3)). ss_IsActive r \<longrightarrow>
          ss_ID r \<in> sy_active (be_sys b) \<and> stored_params (view (sy_world (be_sys b))) (ss_ID r) = Some (session_params r))))"
proof -
  obtain w3 s where l: "Load env = Inr cfg" and n: "n = worker_count cfg (pl_NumCPU L)"
    and res: "ResumeActive (pl_ext L) (be_sys (start (cf_WSSendBuffer cfg) w3)) = (Inr (), s)"
    and b: "b = (start (cf_WSSendBuffer cfg) w3)\<lparr>be_sys := s\<rparr>"
    using assms(2) by (auto simp: server_main_def Let_def split: sum.splits prod.splits)
  let ?b0 = "start (cf_WSSendBuffer cfg) w3"
  have "b = on_sys (\<lambda>s. snd (ResumeActive (pl_ext L) s)) ?b0" using res by (simp add: b on_sys_def)
  then have run: "backend_run view (pl_ext L) iv ?b0 b" using run_step [OF run_here step_resume] by metis
  have w: "sy_world (be_sys ?b0) = w3" "be_jobs b = []" "be_sys b = s" by (simp_all add: b start_def)
  have "1 \<le> n" using assms(3) by (simp add: n worker_count_def Let_def)
  then show ?thesis using l run ResumeActive_complete [OF assms(1) res, unfolded w(1)] w(2,3) by blast
qed

text \<open>A machine on which everything answers, with the small system's database.\<close>

definition calm_conn :: "store conn" where
  "calm_conn = \<lparr>cn_Ping = (\<lambda>w. (Inr (), w)), cn_Wait = (\<lambda>w. (False, w)), cn_Close = (\<lambda>w. w)\<rparr>"

definition calm_platform :: "(store, unit) platform" where
  "calm_platform =
     \<lparr>pl_parse = (\<lambda>_. Inr ()), pl_create = (\<lambda>_ _ w. (Inr calm_conn, w)), pl_redis = (\<lambda>_. calm_conn),
      pl_migrations = \<lparr>mg_CreateTable = (\<lambda>w. (Inr (), w)), mg_Exists = (\<lambda>_ w. (Inr True, w)), mg_Begin = (\<lambda>w. (Inr (), w)),
        mg_Exec = (\<lambda>_ w. (Inr (), w)), mg_Record = (\<lambda>_ w. (Inr (), w)), mg_Commit = (\<lambda>w. (Inr (), w)), mg_Rollback = (\<lambda>w. w)\<rparr>,
      pl_files = [], pl_ext = duo_X, pl_NumCPU = 8\<rparr>"

lemma duo_resumed: "\<exists>s. ResumeActive duo_X (be_sys (start n duo_store)) = (Inr (), s)"
  by (simp add: ResumeActive_def start_def on_world_def ListActive_def wrap_err_def duo_X_def mem_ext_def uuid_result_def ref_ListActive_def
      duo_store_def duo_session_def new_session_def  cacheParams_def SaveParams_def ref_HSet_def is_hash_def live_entry_def
      duo_keys AddSession_def)

lemma calm_boot: "\<exists>cfg b. server_main (\<lambda>_. []) calm_platform duo_store = Serving cfg 32 b"
proof -
  obtain cfg where l: "Load (\<lambda>_. []) = Inr cfg" using Load_accepts_default by blast
  then have k: "cf_WorkerPoolSize cfg = 0" using Load_durations(4) [OF l] by (simp add: env_int_def)
  obtain s where "ResumeActive duo_X (be_sys (start (cf_WSSendBuffer cfg) duo_store)) = (Inr (), s)" using duo_resumed by blast
  then show ?thesis
    by (simp add: server_main_def l k worker_count_def NewPostgresPool_def NewRedisClient_def connect_loop.simps calm_conn_def
        calm_platform_def Migrate_def migration_names_def Let_def)
qed

theorem server_resumes_witness:
  "\<exists>cfg b w3. server_main (\<lambda>_. []) calm_platform duo_store = Serving cfg 32 b \<and>
     backend_run (\<lambda>w. w) duo_X 0 (start (cf_WSSendBuffer cfg) w3) b"
proof -
  obtain cfg b where b: "server_main (\<lambda>_. []) calm_platform duo_store = Serving cfg 32 b" using calm_boot by blast
  have X: "ext_ok plain_formats (\<lambda>w. w) (pl_ext calm_platform)" "0 \<le> pl_NumCPU calm_platform" "pl_ext calm_platform = duo_X"
    using duo_ext_ok by (simp_all add: calm_platform_def)
  show ?thesis using server_resumes [OF X(1) b X(2), of 0] b X(3) by auto
qed

end
