(* ===== verification/Process.thy ===== *)
theory Process
  imports Once Server "HOL-Library.Multiset"
begin

text \<open>
  The server process from the moment it serves to its exit: the workers of \<^verbatim>\<open>ws/gateway.go\<close>, the scheduler of
  \<^verbatim>\<open>service/mesh_topology.go\<close>, the main goroutine of \<^verbatim>\<open>cmd/server/main.go\<close>, the goroutines of HTTP requests and of
  sockets, each advancing by one action at a time.  \<open>pr_done\<close> is the root context: once cancelled it stays so.
  Every run of the process is one of the interleavings of \<open>concurrent_run\<close>, whose theorems therefore hold for it.
\<close>

section \<open>Goroutines\<close>

text \<open>A goroutine that selects between the context and its channel, processes what it received, or has returned.\<close>

datatype 'w routine = Selecting | Busy "('w sys, unit) prog" | Returned

datatype 'w stage = AwaitSignal | Draining | Closing "('w sys, unit) prog" | AwaitWorkers | Gone

text \<open>One worker; its channel is the job queue.\<close>

inductive worker_move :: "'w ext \<Rightarrow> duration \<Rightarrow> bool \<Rightarrow> 'w sys \<times> job list \<times> 'w routine \<Rightarrow> 'w sys \<times> job list \<times> 'w routine \<Rightarrow> bool"
  for X :: "'w ext" and iv :: duration and cancelled :: bool where
  worker_quits: "cancelled \<Longrightarrow> worker_move X iv cancelled (s, js, Selecting) (s, js, Returned)"
| worker_takes: "worker_move X iv cancelled (s, j # js, Selecting) (s, js, Busy (safeProcess_prog X iv j))"
| worker_works: "f s = (p, s') \<Longrightarrow> worker_move X iv cancelled (s, js, Busy (Act f)) (s', js, Busy p)"
| worker_ready: "worker_move X iv cancelled (s, js, Busy (Ret ())) (s, js, Selecting)"

text \<open>The scheduler; its channel is the ticker, which may fire at any time.\<close>

inductive scheduler_move :: "'w ext \<Rightarrow> bool \<Rightarrow> 'w sys \<times> 'w routine \<Rightarrow> 'w sys \<times> 'w routine \<Rightarrow> bool"
  for X :: "'w ext" and cancelled :: bool where
  scheduler_quits: "cancelled \<Longrightarrow> scheduler_move X cancelled (s, Selecting) (s, Returned)"
| scheduler_ticks: "scheduler_move X cancelled (s, Selecting) (s, Busy (tick_prog X))"
| scheduler_works: "f s = (p, s') \<Longrightarrow> scheduler_move X cancelled (s, Busy (Act f)) (s', Busy p)"
| scheduler_ready: "scheduler_move X cancelled (s, Busy (Ret ())) (s, Selecting)"

text \<open>
  The end of \<open>main\<close>: it waits for the context, shuts the HTTP server down (which ends when the handlers have, or at
  the timeout), closes the sockets, and waits for the workers.
\<close>

inductive main_move :: "bool \<Rightarrow> 'w routine list \<Rightarrow> 'w sys \<times> 'w stage \<Rightarrow> 'w sys \<times> 'w stage \<Rightarrow> bool"
  for cancelled :: bool and workers :: "'w routine list" where
  main_signalled: "cancelled \<Longrightarrow> main_move cancelled workers (s, AwaitSignal) (s, Draining)"
| main_drained: "main_move cancelled workers (s, Draining) (s, Closing Shutdown_prog)"
| main_closes: "f s = (p, s') \<Longrightarrow> main_move cancelled workers (s, Closing (Act f)) (s', Closing p)"
| main_closed: "main_move cancelled workers (s, Closing (Ret ())) (s, AwaitWorkers)"
| main_exits: "\<forall>w \<in> set workers. w = Returned \<Longrightarrow> main_move cancelled workers (s, AwaitWorkers) (s, Gone)"

section \<open>The process\<close>

record 'w process =
  pr_sys :: "'w sys"
  pr_jobs :: "job list"
  pr_done :: bool
  pr_main :: "'w stage"
  pr_workers :: "'w routine list"
  pr_scheduler :: "'w routine"
  pr_handlers :: "('w sys, unit) prog list"

text \<open>What the HTTP server begins, and what the goroutines of a socket begin.\<close>

fun http_call :: "'w call \<Rightarrow> bool" where
  "http_call (CallJob _) = False"
| "http_call CallTick = False"
| "http_call (CallNodeGone _ _ _) = False"
| "http_call (CallMonitorGone _) = False"
| "http_call CallResume = False"
| "http_call CallShutdown = False"
| "http_call _ = True"

fun socket_call :: "'w call \<Rightarrow> bool" where
  "socket_call (CallNodeGone _ _ _) = True"
| "socket_call (CallMonitorGone _) = True"
| "socket_call _ = False"

inductive goroutine_step :: "('w \<Rightarrow> store) \<Rightarrow> 'w ext \<Rightarrow> duration \<Rightarrow> 'w process \<Rightarrow> 'w process \<Rightarrow> bool"
  for view :: "'w \<Rightarrow> store" and X :: "'w ext" and iv :: duration where
  signalled: "goroutine_step view X iv P (P\<lparr>pr_done := True\<rparr>)"
| worker: "k < length (pr_workers P) \<Longrightarrow> worker_move X iv (pr_done P) (pr_sys P, pr_jobs P, pr_workers P ! k) (s, js, w) \<Longrightarrow>
    goroutine_step view X iv P (P\<lparr>pr_sys := s, pr_jobs := js, pr_workers := (pr_workers P)[k := w]\<rparr>)"
| scheduler: "scheduler_move X (pr_done P) (pr_sys P, pr_scheduler P) (s, w) \<Longrightarrow>
    goroutine_step view X iv P (P\<lparr>pr_sys := s, pr_scheduler := w\<rparr>)"
| main: "main_move (pr_done P) (pr_workers P) (pr_sys P, pr_main P) (s, m) \<Longrightarrow>
    goroutine_step view X iv P (P\<lparr>pr_sys := s, pr_main := m\<rparr>)"
| request: "permitted view (pr_sys P) c \<Longrightarrow> http_call c \<and> pr_main P = AwaitSignal \<or> socket_call c \<Longrightarrow>
    goroutine_step view X iv P (P\<lparr>pr_handlers := pr_handlers P @ [program X iv c]\<rparr>)"
| handler: "k < length (pr_handlers P) \<Longrightarrow> pr_handlers P ! k = Act f \<Longrightarrow> f (pr_sys P) = (p, s) \<Longrightarrow>
    goroutine_step view X iv P (P\<lparr>pr_sys := s, pr_handlers := (pr_handlers P)[k := p]\<rparr>)"
| pump: "socket_step (pr_sys P) s \<Longrightarrow> goroutine_step view X iv P (P\<lparr>pr_sys := s\<rparr>)"
| frame: "is_client (sy_hub (pr_sys P)) c (kindNode, i, n) \<Longrightarrow> colon_free i \<Longrightarrow>
    goroutine_step view X iv P (P\<lparr>pr_jobs := be_jobs (enqueue i n raw \<lparr>be_sys = pr_sys P, be_jobs = pr_jobs P\<rparr>)\<rparr>)"

text \<open>The exit of \<open>main\<close> ends all goroutines.\<close>

inductive process_run :: "('w \<Rightarrow> store) \<Rightarrow> 'w ext \<Rightarrow> duration \<Rightarrow> 'w process \<Rightarrow> 'w process \<Rightarrow> bool"
  for view :: "'w \<Rightarrow> store" and X :: "'w ext" and iv :: duration and P :: "'w process" where
  process_here: "process_run view X iv P P"
| process_goes: "process_run view X iv P P' \<Longrightarrow> pr_main P' \<noteq> Gone \<Longrightarrow> goroutine_step view X iv P' P'' \<Longrightarrow> process_run view X iv P P''"

definition booted :: "int \<Rightarrow> 'w sys \<Rightarrow> 'w process" where
  "booted n s = \<lparr>pr_sys = s, pr_jobs = [], pr_done = False, pr_main = AwaitSignal,
     pr_workers = replicate (nat n) Selecting, pr_scheduler = Selecting, pr_handlers = []\<rparr>"

section \<open>Every run of the process is an interleaving\<close>

text \<open>The programs in flight, as a multiset: those of the pool of an interleaving include them.\<close>

fun progs_of :: "'w routine \<Rightarrow> ('w sys, unit) prog multiset" where
  "progs_of (Busy p) = {#p#}"
| "progs_of _ = {#}"

fun main_progs :: "'w stage \<Rightarrow> ('w sys, unit) prog multiset" where
  "main_progs (Closing p) = {#p#}"
| "main_progs _ = {#}"

definition live :: "'w process \<Rightarrow> ('w sys, unit) prog multiset" where
  "live P = sum_list (map progs_of (pr_workers P)) + progs_of (pr_scheduler P) + main_progs (pr_main P) + mset (pr_handlers P)"

definition covered :: "('w \<Rightarrow> store) \<Rightarrow> 'w ext \<Rightarrow> duration \<Rightarrow> 'w sys \<Rightarrow> 'w sys \<Rightarrow> ('w sys, unit) prog multiset \<Rightarrow> bool" where
  "covered view X iv s0 s M \<longleftrightarrow> (\<exists>tr ps. concurrent_run view X iv (s0, []) tr (s, ps) \<and> M \<subseteq># mset ps)"

lemma covered_begins: "covered view X iv s0 s M \<Longrightarrow> permitted view s c \<Longrightarrow> covered view X iv s0 s (add_mset (program X iv c) M)"
proof -
  assume c: "covered view X iv s0 s M" "permitted view s c"
  obtain tr ps where run: "concurrent_run view X iv (s0, []) tr (s, ps)" and sub: "M \<subseteq># mset ps" using c(1) by (auto simp: covered_def)
  have "concurrent_run view X iv (s0, []) tr (s, ps @ [program X iv c])"
    using begins [OF run [unfolded concurrent_run_def]] c(2) by (auto simp: concurrent_run_def begins_call_def)
  moreover have "add_mset (program X iv c) M \<subseteq># mset (ps @ [program X iv c])" using sub by simp
  ultimately show ?thesis unfolding covered_def by blast
qed

lemma covered_acts:
  assumes "covered view X iv s0 s (add_mset (Act f) M)" "f s = (p, s')"
  shows "covered view X iv s0 s' (add_mset p M)"
proof -
  obtain tr ps where run: "concurrent_run view X iv (s0, []) tr (s, ps)" and sub: "add_mset (Act f) M \<subseteq># mset ps"
    using assms(1) by (auto simp: covered_def)
  have "Act f \<in> set ps" using mset_subset_eqD [OF sub] by simp
  then obtain k where k: "k < length ps" "ps ! k = Act f" by (metis in_set_conv_nth)
  have "concurrent_run view X iv (s0, []) (tr @ [(k, s, s')]) (s', ps[k := p])"
    using acts [OF run [unfolded concurrent_run_def] k assms(2)] by (simp add: concurrent_run_def)
  moreover have "add_mset p M \<subseteq># mset (ps[k := p])"
    unfolding mset_update [OF k(1)] k(2) using insert_subset_eq_iff [THEN iffD1, OF sub] by simp
  ultimately show ?thesis unfolding covered_def by blast
qed

lemma covered_less: "covered view X iv s0 s (add_mset p M) \<Longrightarrow> covered view X iv s0 s M"
proof -
  assume "covered view X iv s0 s (add_mset p M)"
  then obtain tr ps where run: "concurrent_run view X iv (s0, []) tr (s, ps)" and sub: "add_mset p M \<subseteq># mset ps"
    by (auto simp: covered_def)
  have "M \<subseteq># mset ps" by (rule subset_mset.order_trans [OF _ sub]) simp
  then show ?thesis unfolding covered_def by (intro exI conjI) (rule run)
qed

lemma covered_pump: "covered view X iv s0 s M \<Longrightarrow> socket_step s s' \<Longrightarrow> covered view X iv s0 s' M"
proof -
  assume c: "covered view X iv s0 s M" and step: "socket_step s s'"
  obtain tr ps where run: "concurrent_run view X iv (s0, []) tr (s, ps)" and sub: "M \<subseteq># mset ps" using c by (auto simp: covered_def)
  have "concurrent_run view X iv (s0, []) tr (s', ps)"
    using ambient [where E = socket_step, OF run [unfolded concurrent_run_def] step] by (simp add: concurrent_run_def)
  then show ?thesis unfolding covered_def using sub by (intro exI conjI)
qed

lemma covered_worker:
  assumes "worker_move X iv d (s, js, w) (s', js', w')" "covered view X iv s0 s (progs_of w + M)" "\<forall>j \<in> set js. colon_free (jb_sessionID j)"
  shows "covered view X iv s0 s' (progs_of w' + M)"
  using assms
proof (cases rule: worker_move.cases)
  case (worker_takes j)
  then show ?thesis using covered_begins [of view X iv s0 s M "CallJob j"] assms(2,3) by simp
next
  case (worker_works f p)
  then show ?thesis using covered_acts assms(2) by fastforce
next
  case worker_ready
  then show ?thesis using covered_less assms(2) by fastforce
qed auto

lemma covered_scheduler:
  assumes "scheduler_move X d (s, w) (s', w')" "covered view X iv s0 s (progs_of w + M)"
  shows "covered view X iv s0 s' (progs_of w' + M)"
  using assms
proof (cases rule: scheduler_move.cases)
  case scheduler_ticks
  then show ?thesis using covered_begins [of view X iv s0 s M CallTick] assms(2) by simp
next
  case (scheduler_works f p)
  then show ?thesis using covered_acts assms(2) by fastforce
next
  case scheduler_ready
  then show ?thesis using covered_less assms(2) by fastforce
qed auto

lemma covered_main:
  assumes "main_move d ws (s, m) (s', m')" "covered view X iv s0 s (main_progs m + M)"
  shows "covered view X iv s0 s' (main_progs m' + M)"
  using assms
proof (cases rule: main_move.cases)
  case main_drained
  then show ?thesis using covered_begins [of view X iv s0 s M CallShutdown] assms(2) by simp
next
  case (main_closes f p)
  then show ?thesis using covered_acts assms(2) by fastforce
next
  case main_closed
  then show ?thesis using covered_less assms(2) by fastforce
qed auto

text \<open>The parts of the process that a step changes, and the rest.\<close>

lemma sum_list_at:
  "k < length ws \<Longrightarrow> \<exists>M. sum_list (map progs_of ws) = progs_of (ws ! k) + M \<and> (\<forall>w. sum_list (map progs_of (ws[k := w])) = progs_of w + M)"
proof (induction ws arbitrary: k)
  case (Cons v ws)
  show ?case
  proof (cases k)
    case (Suc j)
    then obtain M where M: "sum_list (map progs_of ws) = progs_of (ws ! j) + M" "\<forall>w. sum_list (map progs_of (ws[j := w])) = progs_of w + M"
      using Cons by auto
    then show ?thesis by (intro exI [of _ "progs_of v + M"]) (simp add: Suc ac_simps)
  qed (intro exI [of _ "sum_list (map progs_of ws)"], simp)
qed simp

lemma mset_at: "k < length ps \<Longrightarrow> \<exists>M. mset ps = add_mset (ps ! k) M \<and> (\<forall>p. mset (ps[k := p]) = add_mset p M)"
  by (intro exI [of _ "mset ps - {#ps ! k#}"]) (simp add: mset_update)

definition sound :: "('w \<Rightarrow> store) \<Rightarrow> 'w ext \<Rightarrow> duration \<Rightarrow> 'w sys \<Rightarrow> nat \<Rightarrow> 'w process \<Rightarrow> bool" where
  "sound view X iv s0 n P \<longleftrightarrow> covered view X iv s0 (pr_sys P) (live P) \<and> (\<forall>j \<in> set (pr_jobs P). colon_free (jb_sessionID j)) \<and>
     length (pr_jobs P) \<le> jobQueueSize \<and> length (pr_workers P) = n \<and>
     (pr_main P = AwaitSignal \<or> pr_done P) \<and> (pr_main P = Gone \<longrightarrow> (\<forall>w \<in> set (pr_workers P). w = Returned))"

lemma sound_step:
  assumes "goroutine_step view X iv P P'" "sound view X iv s0 n P" "pr_main P \<noteq> Gone"
  shows "sound view X iv s0 n P'"
proof -
  note parts = assms(2) [unfolded sound_def]
  show ?thesis
    using assms(1)
  proof (cases rule: goroutine_step.cases)
    case signalled
    then show ?thesis using parts by (simp add: sound_def live_def)
  next
    case (worker k s js w)
    obtain M where M: "sum_list (map progs_of (pr_workers P)) = progs_of (pr_workers P ! k) + M"
        "\<forall>w. sum_list (map progs_of ((pr_workers P)[k := w])) = progs_of w + M" using sum_list_at [OF worker(2)] by blast
    have "covered view X iv s0 s (progs_of w + (M + progs_of (pr_scheduler P) + main_progs (pr_main P) + mset (pr_handlers P)))"
      by (rule covered_worker [OF worker(3)]) (use parts M(1) in \<open>simp_all add: live_def ac_simps\<close>)
    moreover have "set js \<subseteq> set (pr_jobs P)" "length js \<le> length (pr_jobs P)" using worker(3) by (cases; auto)+
    ultimately show ?thesis using parts assms(3) M(2) by (auto simp: sound_def live_def worker(1) ac_simps)
  next
    case (scheduler s w)
    have "covered view X iv s0 s (progs_of w + (sum_list (map progs_of (pr_workers P)) + main_progs (pr_main P) + mset (pr_handlers P)))"
      by (rule covered_scheduler [OF scheduler(2)]) (use parts in \<open>simp add: live_def ac_simps\<close>)
    then show ?thesis using parts by (simp add: sound_def live_def scheduler(1) ac_simps)
  next
    case (main s m)
    have "covered view X iv s0 s (main_progs m + (sum_list (map progs_of (pr_workers P)) + progs_of (pr_scheduler P) + mset (pr_handlers P)))"
      by (rule covered_main [OF main(2)]) (use parts in \<open>simp add: live_def ac_simps\<close>)
    moreover have "pr_done P \<and> (m = Gone \<longrightarrow> (\<forall>w \<in> set (pr_workers P). w = Returned))"
      using main(2) parts by (cases) auto
    ultimately show ?thesis using parts by (simp add: sound_def live_def main(1) ac_simps)
  next
    case (request c)
    have "covered view X iv s0 (pr_sys P) (add_mset (program X iv c) (live P))"
      by (rule covered_begins [OF _ request(2)]) (use parts in simp)
    then show ?thesis using parts by (simp add: sound_def live_def request(1) ac_simps)
  next
    case (handler k f p s)
    obtain M where M: "mset (pr_handlers P) = add_mset (Act f) M" "\<forall>p. mset ((pr_handlers P)[k := p]) = add_mset p M"
      using mset_at [OF handler(2)] handler(3) by auto
    have "covered view X iv s0 s (add_mset p (M + sum_list (map progs_of (pr_workers P)) + progs_of (pr_scheduler P) + main_progs (pr_main P)))"
      by (rule covered_acts [where f = f and s = "pr_sys P"]) (use parts M(1) handler(4) in \<open>simp_all add: live_def ac_simps\<close>)
    then show ?thesis using parts M(2) by (simp add: sound_def live_def handler(1) ac_simps)
  next
    case (pump s)
    then show ?thesis using parts covered_pump by (simp add: sound_def live_def) blast
  next
    case (frame c i k raw)
    then show ?thesis using parts by (auto simp: sound_def live_def enqueue_def)
  qed
qed

lemma sound_booted: "sound view X iv s (nat n) (booted n s)"
proof -
  have "concurrent_run view X iv (s, []) [] (s, [])" unfolding concurrent_run_def by (rule idle_pool)
  then have "covered view X iv s s {#}" unfolding covered_def by fastforce
  moreover have "sum_list (replicate m {#}) = ({#} :: ('a sys, unit) prog multiset)" for m by (induction m) simp_all
  ultimately show ?thesis by (simp add: sound_def booted_def live_def)
qed

lemma process_sound: "process_run view X iv (booted n s) P \<Longrightarrow> sound view X iv s (nat n) P"
  by (induction rule: process_run.induct) (auto intro: sound_booted sound_step)

section \<open>What holds of the process\<close>

text \<open>
  C11. From its start to its exit the server process, with its workers, its scheduler and its request and socket
  goroutines advancing in any order, stays within the interleavings of the backend's calls: registries and queues
  are sound, the tables legal, the sessions move by the ledger's steps; the job queue holds at most 8192 frames
  and no more jobs than workers are processed at once; and it exits only after the context was cancelled and every
  worker has returned, so that no job is cut off.
\<close>

theorem process_invariant:
  assumes "ext_ok F view X" "fresh_ids F" "legal_store (view (sy_world s))" "hub_reachable b (sy_hub s)"
    and "process_run view X iv (booted n s) P"
  shows "hub_inv (sy_hub (pr_sys P)) \<and> queues_ok (sy_hub (pr_sys P)) \<and> legal_store (view (sy_world (pr_sys P))) \<and>
    life_step\<^sup>*\<^sup>* (ledger_of (view (sy_world s))) (ledger_of (view (sy_world (pr_sys P)))) \<and>
    length (pr_jobs P) \<le> 8192 \<and> length (filter (\<lambda>w. \<exists>p. w = Busy p) (pr_workers P)) \<le> nat n \<and>
    (pr_main P = Gone \<longrightarrow> pr_done P \<and> (\<forall>w \<in> set (pr_workers P). w = Returned))"
proof -
  note sound = process_sound [OF assms(5), unfolded sound_def]
  obtain tr ps where run: "concurrent_run view X iv (s, []) tr (pr_sys P, ps)" using sound by (auto simp: covered_def)
  have "moves.ordered b s tr (pr_sys P)" using moves.concurrent [OF run assms(4)] by simp
  then have "hub_reachable b (sy_hub (pr_sys P))" using assms(4) by (simp add: moves.ordered_def hub_moves_def)
  then have "hub_inv (sy_hub (pr_sys P))" "queues_ok (sy_hub (pr_sys P))" by (rule hub_reachable_inv, rule hub_reachable_queues)
  moreover have "legal_rely.flights.ordered F view X s tr (pr_sys P)" using legal_rely.flights.concurrent [OF run] by simp
  then have "legal_store (view (sy_world (pr_sys P)))" using assms(1,3) by (simp add: legal_rely.flights.ordered_def legal.obeys_def)
  moreover have "ledger_rely.flights.ordered F view X s tr (pr_sys P)" using ledger_rely.flights.concurrent [OF run] by simp
  then have "life_step\<^sup>*\<^sup>* (ledger_of (view (sy_world s))) (ledger_of (view (sy_world (pr_sys P))))"
    using assms(1,2) by (simp add: ledger_rely.flights.ordered_def ledger.obeys_def follows_def)
  moreover have "length (filter (\<lambda>w. \<exists>p. w = Busy p) (pr_workers P)) \<le> nat n" using sound length_filter_le by metis
  ultimately show ?thesis using sound by (auto simp: jobQueueSize_def)
qed

section \<open>The exit\<close>

lemma process_trans: "process_run view X iv P' P'' \<Longrightarrow> process_run view X iv P P' \<Longrightarrow> process_run view X iv P P''"
  by (induction rule: process_run.induct) (auto intro: process_goes)

lemma process_step: "pr_main P \<noteq> Gone \<Longrightarrow> goroutine_step view X iv P P' \<Longrightarrow> process_run view X iv P P'"
  by (rule process_goes [OF process_here])

lemma worker_moves:
  assumes "k < length (pr_workers P)" "pr_main P \<noteq> Gone"
    and "worker_move X iv (pr_done P) (pr_sys P, pr_jobs P, pr_workers P ! k) (s, pr_jobs P, w)"
  shows "process_run view X iv P (P\<lparr>pr_sys := s, pr_workers := (pr_workers P)[k := w]\<rparr>)"
proof -
  have "P\<lparr>pr_sys := s, pr_jobs := pr_jobs P, pr_workers := (pr_workers P)[k := w]\<rparr> = P\<lparr>pr_sys := s, pr_workers := (pr_workers P)[k := w]\<rparr>"
    by (cases P) simp
  with process_step [OF assms(2) worker [OF assms(1,3)]] show ?thesis by simp
qed

lemma worker_finishes:
  assumes "k < length (pr_workers P)" "pr_main P \<noteq> Gone" "pr_workers P ! k = Busy p"
  shows "\<exists>s. process_run view X iv P (P\<lparr>pr_sys := s, pr_workers := (pr_workers P)[k := Selecting]\<rparr>)"
  using assms
proof (induction p arbitrary: P)
  case (Ret x)
  then show ?case using worker_moves [OF Ret(1,2)] worker_ready by (metis (full_types) old.unit.exhaust)
next
  case (Act f)
  obtain p s where f: "f (pr_sys P) = (p, s)" by force
  let ?P = "P\<lparr>pr_sys := s, pr_workers := (pr_workers P)[k := Busy p]\<rparr>"
  have step: "process_run view X iv P ?P" by (rule worker_moves) (use Act.prems f in \<open>auto intro: worker_works\<close>)
  have "(p, s) \<in> range f" using f by (metis rangeI)
  then obtain s' where "process_run view X iv ?P (?P\<lparr>pr_sys := s', pr_workers := (pr_workers ?P)[k := Selecting]\<rparr>)"
    using Act.IH [of "(p, s)" p ?P] Act.prems by (auto simp: prod_set_defs)
  from process_trans [OF this step] show ?case by auto
qed

lemma worker_returns:
  assumes "k < length (pr_workers P)" "pr_main P \<noteq> Gone" "pr_done P"
  shows "\<exists>s. process_run view X iv P (P\<lparr>pr_sys := s, pr_workers := (pr_workers P)[k := Returned]\<rparr>)"
proof -
  have quits: "process_run view X iv Q (Q\<lparr>pr_workers := (pr_workers Q)[k := Returned]\<rparr>)"
    if "k < length (pr_workers Q)" "pr_main Q \<noteq> Gone" "pr_done Q" "pr_workers Q ! k = Selecting" for Q
    using worker_moves [OF that(1,2), of X iv "pr_sys Q" Returned view] worker_quits [OF that(3)] that(4) by (cases Q) auto
  show ?thesis
  proof (cases "pr_workers P ! k")
    case Selecting
    then show ?thesis using quits [OF assms] by (intro exI [of _ "pr_sys P"]) simp
  next
    case (Busy p)
    from worker_finishes [OF assms(1,2) Busy] obtain s where
      run: "process_run view X iv P (P\<lparr>pr_sys := s, pr_workers := (pr_workers P)[k := Selecting]\<rparr>)" by blast
    from process_trans [OF quits run] show ?thesis using assms by auto
  next
    case Returned
    then have "(pr_workers P)[k := Returned] = pr_workers P" by (metis list_update_id)
    then show ?thesis using process_here [of view X iv P] by (intro exI [of _ "pr_sys P"]) simp
  qed
qed

lemma workers_return:
  assumes "pr_main P \<noteq> Gone" "pr_done P" "m \<le> length (pr_workers P)"
  shows "\<exists>s. process_run view X iv P (P\<lparr>pr_sys := s, pr_workers := replicate m Returned @ drop m (pr_workers P)\<rparr>)"
  using assms(3)
proof (induction m)
  case 0
  then show ?case using process_here [of view X iv P] by (intro exI [of _ "pr_sys P"]) simp
next
  case (Suc m)
  then obtain s where run: "process_run view X iv P (P\<lparr>pr_sys := s, pr_workers := replicate m Returned @ drop m (pr_workers P)\<rparr>)" by auto
  let ?Q = "P\<lparr>pr_sys := s, pr_workers := replicate m Returned @ drop m (pr_workers P)\<rparr>"
  obtain s' where more: "process_run view X iv ?Q (?Q\<lparr>pr_sys := s', pr_workers := (pr_workers ?Q)[m := Returned]\<rparr>)"
    using worker_returns [of m ?Q view X iv] Suc.prems assms by auto
  have "(replicate m Returned @ drop m (pr_workers P))[m := Returned] = replicate (Suc m) Returned @ drop (Suc m) (pr_workers P)"
    using Suc.prems by (simp add: list_update_append upd_conv_take_nth_drop Cons_nth_drop_Suc [symmetric] replicate_append_same)
  then show ?case using process_trans [OF more run] by auto
qed

lemma main_step:
  "pr_main P \<noteq> Gone \<Longrightarrow> main_move (pr_done P) (pr_workers P) (pr_sys P, pr_main P) (s, m) \<Longrightarrow>
   process_run view X iv P (P\<lparr>pr_sys := s, pr_main := m\<rparr>)"
  by (rule process_step, assumption, rule main)

lemma main_closes_sockets:
  assumes "pr_main P = Closing p"
  shows "\<exists>s. process_run view X iv P (P\<lparr>pr_sys := s, pr_main := AwaitWorkers\<rparr>)"
  using assms
proof (induction p arbitrary: P)
  case (Ret x)
  then show ?case using main_step [of P "pr_sys P" AwaitWorkers view X iv] main_closed by fastforce
next
  case (Act f)
  obtain p s where f: "f (pr_sys P) = (p, s)" by force
  let ?P = "P\<lparr>pr_sys := s, pr_main := Closing p\<rparr>"
  have step: "process_run view X iv P ?P" by (rule main_step) (use Act.prems f in \<open>auto intro: main_closes\<close>)
  have "(p, s) \<in> range f" using f by (metis rangeI)
  then obtain s' where "process_run view X iv ?P (?P\<lparr>pr_sys := s', pr_main := AwaitWorkers\<rparr>)"
    using Act.IH [of "(p, s)" p ?P] Act.prems by (auto simp: prod_set_defs)
  from process_trans [OF this step] show ?case by auto
qed

lemma main_waits:
  assumes "pr_main P \<noteq> Gone" "pr_done P"
  shows "\<exists>s. process_run view X iv P (P\<lparr>pr_sys := s, pr_main := AwaitWorkers\<rparr>)"
proof -
  have drained: "\<exists>s. process_run view X iv Q (Q\<lparr>pr_sys := s, pr_main := AwaitWorkers\<rparr>)" if "pr_main Q = Draining" for Q
  proof -
    have "process_run view X iv Q (Q\<lparr>pr_sys := pr_sys Q, pr_main := Closing Shutdown_prog\<rparr>)"
      by (rule main_step) (use that in \<open>auto intro: main_drained\<close>)
    moreover obtain s where "process_run view X iv (Q\<lparr>pr_sys := pr_sys Q, pr_main := Closing Shutdown_prog\<rparr>)
        (Q\<lparr>pr_sys := pr_sys Q, pr_main := Closing Shutdown_prog, pr_sys := s, pr_main := AwaitWorkers\<rparr>)"
      using main_closes_sockets [of _ Shutdown_prog view X iv, of "Q\<lparr>pr_sys := pr_sys Q, pr_main := Closing Shutdown_prog\<rparr>"] by auto
    ultimately show ?thesis using process_trans by fastforce
  qed
  show ?thesis
  proof (cases "pr_main P")
    case AwaitSignal
    have "process_run view X iv P (P\<lparr>pr_sys := pr_sys P, pr_main := Draining\<rparr>)"
      by (rule main_step) (use AwaitSignal assms in \<open>auto intro: main_signalled\<close>)
    moreover obtain s where "process_run view X iv (P\<lparr>pr_sys := pr_sys P, pr_main := Draining\<rparr>) (P\<lparr>pr_sys := s, pr_main := AwaitWorkers\<rparr>)"
      using drained [of "P\<lparr>pr_sys := pr_sys P, pr_main := Draining\<rparr>"] by auto
    ultimately show ?thesis using process_trans by blast
  next
    case AwaitWorkers
    then have "P\<lparr>pr_sys := pr_sys P, pr_main := AwaitWorkers\<rparr> = P" by (cases P) simp
    then show ?thesis using process_here [of view X iv P] by (intro exI [of _ "pr_sys P"]) (simp only:)
  qed (use assms drained main_closes_sockets in auto)
qed

text \<open>
  C24. The shutdown always comes to an end: from every state the process can be in once the context is cancelled,
  whatever its goroutines are in the middle of, the main goroutine and the workers alone lead to the exit, without
  a further job being taken from the queue or any request having to finish; nothing they wait for can be missing.
\<close>

theorem process_can_exit:
  assumes "process_run view X iv (booted n s) P" "pr_done P"
  shows "\<exists>P'. process_run view X iv P P' \<and> pr_main P' = Gone \<and> pr_jobs P' = pr_jobs P \<and> pr_handlers P' = pr_handlers P \<and>
    pr_scheduler P' = pr_scheduler P"
proof (cases "pr_main P = Gone")
  case True
  then show ?thesis using process_here by blast
next
  case False
  obtain s1 where run1: "process_run view X iv P (P\<lparr>pr_sys := s1, pr_workers := replicate (length (pr_workers P)) Returned\<rparr>)"
    using workers_return [OF False assms(2), of "length (pr_workers P)" view X iv] by auto
  let ?Q = "P\<lparr>pr_sys := s1, pr_workers := replicate (length (pr_workers P)) Returned\<rparr>"
  obtain s2 where run2: "process_run view X iv ?Q (?Q\<lparr>pr_sys := s2, pr_main := AwaitWorkers\<rparr>)"
    using main_waits [of ?Q view X iv] False assms(2) by auto
  let ?R = "?Q\<lparr>pr_sys := s2, pr_main := AwaitWorkers\<rparr>"
  have "process_run view X iv ?R (?R\<lparr>pr_sys := pr_sys ?R, pr_main := Gone\<rparr>)" by (rule main_step) (auto intro: main_exits)
  from process_trans [OF this process_trans [OF run2 run1]] show ?thesis
    by (intro exI [of _ "?R\<lparr>pr_sys := pr_sys ?R, pr_main := Gone\<rparr>"]) simp
qed

section \<open>A process that stops\<close>

text \<open>Two frames of ship A arrive; the only worker is busy with the first when the context is cancelled.\<close>

definition duo_job :: job where
  "duo_job = \<lparr>jb_sessionID = ''S'', jb_nodeID = ''A'', jb_raw = Inl []\<rparr>"

definition duo_stopping :: "store process" where
  "duo_stopping = (booted 1 duo_sys)\<lparr>pr_jobs := [duo_job], pr_done := True, pr_workers := [Busy (safeProcess_prog duo_X 0 duo_job)]\<rparr>"

lemma duo_stops: "process_run (\<lambda>w. w) duo_X 0 (booted 1 duo_sys) duo_stopping"
proof -
  have arrive: "goroutine_step (\<lambda>w. w) duo_X 0 P (P\<lparr>pr_jobs := pr_jobs P @ [duo_job]\<rparr>)"
    if "pr_sys P = duo_sys" "length (pr_jobs P) < 2" for P
    using frame [of P 0 "''S''" "''A''" "\<lambda>w. w" duo_X 0 "Inl []"] that
    by (simp add: is_client_def client_id_def duo_sys_def duo_hub_eq enqueue_def jobQueueSize_def duo_job_def)
  let ?P1 = "(booted 1 duo_sys)\<lparr>pr_jobs := [duo_job]\<rparr>" and ?P2 = "(booted 1 duo_sys)\<lparr>pr_jobs := [duo_job, duo_job]\<rparr>"
  let ?P3 = "(booted 1 duo_sys)\<lparr>pr_jobs := [duo_job], pr_workers := [Busy (safeProcess_prog duo_X 0 duo_job)]\<rparr>"
  have "goroutine_step (\<lambda>w. w) duo_X 0 (booted 1 duo_sys) ?P1" using arrive [of "booted 1 duo_sys"] by (simp add: booted_def)
  then have run: "process_run (\<lambda>w. w) duo_X 0 (booted 1 duo_sys) ?P1"
    by (rule process_goes [OF process_here, rotated]) (simp add: booted_def)
  have "goroutine_step (\<lambda>w. w) duo_X 0 ?P1 ?P2" using arrive [of ?P1] by (simp add: booted_def)
  then have run: "process_run (\<lambda>w. w) duo_X 0 (booted 1 duo_sys) ?P2"
    by (rule process_goes [OF run, rotated]) (simp add: booted_def)
  have "goroutine_step (\<lambda>w. w) duo_X 0 ?P2 ?P3"
    using worker_takes [of duo_X 0 False duo_sys duo_job "[duo_job]"]
    using worker [of 0 ?P2 duo_X 0 duo_sys "[duo_job]" "Busy (safeProcess_prog duo_X 0 duo_job)" "\<lambda>w. w"]
    by (simp add: booted_def)
  then have run: "process_run (\<lambda>w. w) duo_X 0 (booted 1 duo_sys) ?P3"
    by (rule process_goes [OF run, rotated]) (simp add: booted_def)
  have "goroutine_step (\<lambda>w. w) duo_X 0 ?P3 duo_stopping"
    using signalled [of "\<lambda>w. w" duo_X 0 ?P3] by (simp add: booted_def duo_stopping_def)
  then show ?thesis by (rule process_goes [OF run, rotated]) (simp add: booted_def)
qed

theorem process_invariant_witness:
  "hub_inv (sy_hub (pr_sys duo_stopping)) \<and> legal_store (sy_world (pr_sys duo_stopping)) \<and> length (pr_jobs duo_stopping) \<le> 8192"
proof -
  have "legal_store (sy_world duo_sys)" using duo_legal by (simp add: duo_sys_def)
  from process_invariant [OF duo_ext_ok plain_fresh this duo_reachable duo_stops] show ?thesis by simp
qed

theorem process_can_exit_witness:
  "\<exists>P. process_run (\<lambda>w. w) duo_X 0 duo_stopping P \<and> pr_main P = Gone \<and> pr_jobs P = [duo_job]"
proof -
  have "pr_done duo_stopping" "pr_jobs duo_stopping = [duo_job]" by (simp_all add: duo_stopping_def)
  with process_can_exit [OF duo_stops] show ?thesis by auto
qed

end
