(* ===== verification/Races.thy ===== *)
theory Races
  imports Flights Lifecycle
begin

text \<open>
  Interleavings that go wrong, on the small system.  A change of the radio parameters reads the row and writes
  both parameters back, so that two changes at the same time can lose one of them; and a change that has read the
  row before a stop writes the parameters of the ended session to Redis after the stop has cleared them, which
  lets ships join it again.
\<close>

section \<open>The statements on the small system\<close>

definition row_is :: "bool \<Rightarrow> int \<Rightarrow> int \<Rightarrow> store \<Rightarrow> bool" where
  "row_is active sf tx w \<longleftrightarrow> (\<exists>r. st_sessions w = [r] \<and> ss_ID r = ''S'' \<and> ss_IsActive r = active \<and>
     ss_SpreadingFactor r = sf \<and> ss_TxPowerDbm r = tx)"

lemma duo_row: "row_is True 7 20 duo_store"
  by (simp add: row_is_def duo_store_def duo_session_def new_session_def)

lemma duo_updates:
  "qUpdateRadio duo_X = ref_UpdateRadio plain_formats"
  "qStopSession duo_X i js w = uuid_result (\<lambda>_. colon_free i) (ref_StopSession plain_formats i js w)"
  by (simp_all add: duo_X_def mem_ext_def)

lemmas duo_rows = row_is_def rows_or_def duo_session_ops duo_updates ref_GetSession_def ref_UpdateRadio_def ref_UpdateWeather_def
  ref_StopSession_def update_sessions_def active_with_id_def uuid_result_def plain_formats_def

lemma duo_read: "row_is a sf tx w \<Longrightarrow> \<exists>r. GetByID duo_X ''S'' w = (Inr r, w) \<and> st_sessions w = [r] \<and> ss_ID r = ''S'' \<and> ss_IsActive r = a \<and>
     ss_SpreadingFactor r = sf \<and> ss_TxPowerDbm r = tx"
  by (auto simp: GetByID_def duo_rows)

lemma duo_writes:
  "row_is True sf tx w \<Longrightarrow> fst (RepoUpdateRadioParams duo_X ''S'' sf' tx' w) = Inr () \<and>
     row_is True sf' tx' (snd (RepoUpdateRadioParams duo_X ''S'' sf' tx' w))"
  "row_is True sf tx w \<Longrightarrow> fst (RepoUpdateWeather duo_X ''S'' ws w) = Inr () \<and> row_is True sf tx (snd (RepoUpdateWeather duo_X ''S'' ws w))"
  by (auto simp: RepoUpdateRadioParams_def RepoUpdateWeather_def duo_rows)

text \<open>What follows a write leaves the rows alone.\<close>

lemma refresh_row:
  "row_is a sf tx (sy_world (snd (refreshAndBroadcast duo_X ''S'' s))) = row_is a sf tx (sy_world s)"
proof -
  have e: "snd (GetByID duo_X ''S'' w) = w" for w
    by (auto simp: GetByID_def duo_rows split: option.split)
  have c: "st_sessions (sy_world (snd (cacheParams duo_X r s))) = st_sessions (sy_world s)" for r s
    by (simp add: cacheParams_def SaveParams_def wrap_err_def duo_session_ops ref_HSet_def hset_def put_key_def)
  show ?thesis
    by (auto simp: refreshAndBroadcast_def Let_def case_prod_beta e c row_is_def to_nodes_def to_monitors_def split: sum.split)
qed

section \<open>A lost update\<close>

definition retune :: "int option \<Rightarrow> int option \<Rightarrow> Session \<Rightarrow> (store sys, unit) prog" where
  "retune sf tx current = ignore
     (let newSF = (case sf of Some v \<Rightarrow> v | None \<Rightarrow> ss_SpreadingFactor current);
          newTx = (case tx of Some v \<Rightarrow> v | None \<Rightarrow> ss_TxPowerDbm current)
      in case ValidateSpreadingFactor newSF of Inl e \<Rightarrow> Ret (Inl e) | Inr _ \<Rightarrow>
         case ValidateTxPower newTx of Inl e \<Rightarrow> Ret (Inl e) | Inr _ \<Rightarrow>
         and_then (cmd (RepoUpdateRadioParams duo_X ''S'' newSF newTx)) (\<lambda>r. case r of Inl e \<Rightarrow> Ret (Inl e) | Inr _ \<Rightarrow>
         refreshAndBroadcast_prog duo_X ''S''))"

lemma params_prog:
  "program duo_X 0 (CallParams ''S'' sf tx) = and_then (cmd (GetByID duo_X ''S'')) (\<lambda>r. case r of Inl e \<Rightarrow> Ret () | Inr current \<Rightarrow>
     if ss_IsActive current then retune sf tx current else Ret ())"
  unfolding program.simps UpdateRadioParams_prog_def ignore_and_then
  by (rule arg_cong [where f = "and_then _"], rule ext) (simp add: retune_def ignore_def [of "Ret _"] split: sum.split)

lemma retune_row:
  assumes "row_is True sf0 tx0 (sy_world s)"
    and "ValidateSpreadingFactor (case sf of Some v \<Rightarrow> v | None \<Rightarrow> ss_SpreadingFactor r) = Inr ()"
      "ValidateTxPower (case tx of Some v \<Rightarrow> v | None \<Rightarrow> ss_TxPowerDbm r) = Inr ()"
  shows "row_is True (case sf of Some v \<Rightarrow> v | None \<Rightarrow> ss_SpreadingFactor r) (case tx of Some v \<Rightarrow> v | None \<Rightarrow> ss_TxPowerDbm r)
    (sy_world (snd (run (retune sf tx r) s)))"
  using duo_writes(1) [OF assms(1)] assms(2,3)
  by (simp add: retune_def Let_def runs refresh_row del: Validate_ok_iff split: sum.split)

text \<open>
  One request asks for spreading factor 9, the other for 10 dBm; both are carried out and answered with success, and
  the session ends up with spreading factor 9 and the old power of 20 dBm.
\<close>

theorem concurrent_update_lost:
  "\<exists>tr s. concurrent_run (\<lambda>w. w) duo_X 0 (duo_sys, []) tr (s, [Ret (), Ret ()]) \<and>
     is_ok (fst (UpdateRadioParams duo_X ''S'' None (Some 10) duo_sys)) \<and>
     row_is True 7 10 (sy_world (snd (UpdateRadioParams duo_X ''S'' None (Some 10) duo_sys))) \<and> row_is True 9 20 (sy_world s)"
proof -
  let ?A = "begins_call (\<lambda>w. w) duo_X 0" and ?p = "program duo_X 0 (CallParams ''S'' (Some 9) None)" and ?q = "program duo_X 0 (CallParams ''S'' None (Some 10))"
  let ?s1 = "snd (UpdateRadioParams duo_X ''S'' None (Some 10) duo_sys)"
  have row0: "row_is True 7 20 (sy_world duo_sys)" using duo_row by (simp add: duo_sys_def)
  obtain r where r: "on_world (GetByID duo_X ''S'') duo_sys = (Inr r, duo_sys)" "ss_IsActive r" "ss_SpreadingFactor r = 7" "ss_TxPowerDbm r = 20"
    using duo_read [OF row0] by (auto simp: on_world_def)
  have s1: "snd (run ?q duo_sys) = ?s1" by (simp add: runs)
  have "?s1 = snd (run (retune None (Some 10) r) duo_sys)" unfolding s1 [symmetric] params_prog using r(1,2) by simp
  then have row1: "row_is True 7 10 (sy_world ?s1)"
    using retune_row [OF row0, where r = r and sf = None and tx = "Some 10"] r by (simp add: lora_consts)
  have row2: "row_is True 9 20 (sy_world (snd (run (retune (Some 9) None r) ?s1)))"
    using retune_row [OF row1, where r = r and sf = "Some 9" and tx = None] r by (simp add: lora_consts)
  let ?g = "\<lambda>r. case r of Inl e \<Rightarrow> Ret () | Inr current \<Rightarrow> if ss_IsActive current then retune (Some 9) None current else Ret ()"
  have may: "?A u (program duo_X 0 (CallParams ''S'' sf tx))" for u sf tx
    unfolding begins_call_def by (rule exI [of _ "CallParams ''S'' sf tx"]) simp
  have "pool_run ?A socket_step (duo_sys, []) [] (duo_sys, ([] @ [?p]) @ [?q])" by (intro begins idle_pool may)
  then have "pool_run ?A socket_step (duo_sys, []) [] (duo_sys, [and_then (call (on_world (GetByID duo_X ''S''))) ?g, ?q])"
    unfolding params_prog [of "Some 9" None] cmd_def by simp
  from pool_acts_at [OF this, of 0, OF _ nth_Cons_0] obtain tr where
    "pool_run ?A socket_step (duo_sys, []) tr (duo_sys, [retune (Some 9) None r, ?q])" using r(1,2) by auto
  from pool_runs_at [OF this, of 1] obtain tr where "pool_run ?A socket_step (duo_sys, []) tr (?s1, [retune (Some 9) None r, Ret ()])"
    using s1 by auto
  from pool_runs_at [OF this, of 0] obtain tr where
    "pool_run ?A socket_step (duo_sys, []) tr (snd (run (retune (Some 9) None r) ?s1), [Ret (), Ret ()])" by auto
  moreover have "is_ok (fst (UpdateRadioParams duo_X ''S'' None (Some 10) duo_sys))"
    by (simp add: UpdateRadioParams_def Let_def on_world_def GetByID_def RepoUpdateRadioParams_def refreshAndBroadcast_def cacheParams_def
        SaveParams_def wrap_err_def ref_HSet_def is_hash_def live_entry_def duo_rows duo_sys_def duo_store_def duo_session_def
        new_session_def duo_keys lora_consts ValidateSpreadingFactor_def ValidateTxPower_def)
  ultimately show ?thesis using row1 row2 unfolding concurrent_run_def by blast
qed

section \<open>An ended session that can be joined\<close>

definition duo_wet :: "store sys" where
  "duo_wet = duo_sys\<lparr>sy_world := duo_store\<lparr>st_sessions := [duo_session\<lparr>ss_WeatherSeverity := 2\<rparr>]\<rparr>\<rparr>"

lemma wet_updated: "on_world (RepoUpdateWeather duo_X ''S'' 2) duo_sys = (Inr (), duo_wet)"
  by (simp add: on_world_def RepoUpdateWeather_def duo_rows duo_wet_def duo_sys_def duo_store_def duo_session_def new_session_def sql_round_def)

lemma wet_read: "on_world (GetByID duo_X ''S'') duo_wet = (Inr (duo_session\<lparr>ss_WeatherSeverity := 2\<rparr>), duo_wet)"
  by (simp add: on_world_def GetByID_def duo_rows duo_wet_def duo_sys_def duo_store_def duo_session_def new_session_def)

lemma wet_stopped:
  "is_ok (fst (Stop duo_X ''S'' duo_wet))" "row_is False 7 20 (sy_world (snd (Stop duo_X ''S'' duo_wet)))"
  "st_keys (sy_world (snd (Stop duo_X ''S'' duo_wet))) (keyParams ''S'') = None"
  by (simp_all add: Stop_def Let_def on_world_def GetStats_def parse_stats_def RepoStop_def duo_rows
        GeoClear_def RoutesClear_def ClearSession_def bare_err_def ref_Del_def del_key_def
        GetByID_def kick_session_def RemoveSession_def to_nodes_def to_monitors_def duo_ops ref_HGetAll_def is_hash_def hash_at_def live_entry_def
        duo_wet_def duo_sys_def duo_store_def duo_session_def new_session_def duo_keys)

text \<open>What a change of the weather still does once it has read the row.\<close>

definition recache :: "Session \<Rightarrow> (store sys, unit) prog" where
  "recache sess = ignore (and_then (cacheParams_prog duo_X sess) (\<lambda>r. case r of Inl e \<Rightarrow> Ret (Inl e) | Inr _ \<Rightarrow>
     let env = FEnvSync (EnvParamsFrom (session_params sess))
     in seq (BroadcastToNodes_prog ''S'' env) (seq (BroadcastToMonitors_prog ''S'' env) (Ret (Inr sess)))))"

lemma weather_prog:
  "program duo_X 0 (CallWeather ''S'' 2) = and_then (cmd (RepoUpdateWeather duo_X ''S'' 2)) (\<lambda>r. case r of Inl e \<Rightarrow> Ret () | Inr _ \<Rightarrow>
     and_then (cmd (GetByID duo_X ''S'')) (\<lambda>r. case r of Inl e \<Rightarrow> Ret () | Inr sess \<Rightarrow> recache sess))"
proof -
  have "ignore (refreshAndBroadcast_prog duo_X ''S'') = and_then (cmd (GetByID duo_X ''S'')) (\<lambda>r. case r of Inl e \<Rightarrow> Ret () | Inr sess \<Rightarrow> recache sess)"
    unfolding refreshAndBroadcast_prog_def ignore_and_then
    by (rule arg_cong [where f = "and_then _"], rule ext) (simp add: recache_def ignore_def [of "Ret _"] split: sum.split)
  then have "(\<lambda>x :: unit res. ignore (case x of Inl e \<Rightarrow> Ret (Inl e) | Inr _ \<Rightarrow> refreshAndBroadcast_prog duo_X ''S'')) = (\<lambda>x. case x of Inl e \<Rightarrow> Ret () |
      Inr _ \<Rightarrow> and_then (cmd (GetByID duo_X ''S'')) (\<lambda>r. case r of Inl e \<Rightarrow> Ret () | Inr sess \<Rightarrow> recache sess))"
    by (intro ext) (simp add: ignore_def [of "Ret _"] split: sum.split)
  then show ?thesis
    by (simp add: UpdateWeather_prog_def ignore_and_then ValidateWeatherSeverity_def lora_consts del: Validate_ok_iff)
qed

lemma recache_world:
  assumes "st_keys (sy_world s) (keyParams (ss_ID sess)) = None" "row_is a sf tx (sy_world s)"
    "ss_ID sess = ''S''" "ss_SpreadingFactor sess = 7" "ss_TxPowerDbm sess = 20"
  shows "row_is a sf tx (sy_world (snd (run (recache sess) s)))" "is_ok (fst (GetParams duo_X ''S'' (sy_world (snd (run (recache sess) s)))))"
proof -
  let ?h = "[(''spreading_factor'', Txt (Itoa 7)), (''tx_power_dbm'', Txt (Itoa 20)), (''weather_severity'', FloatTxt (ss_WeatherSeverity sess))]"
  have w: "sy_world (snd (run (recache sess) s)) = put_key (keyParams ''S'') (RHash ?h) (sy_world s)"
    using assms(1,3-5)
    by (simp add: recache_def runs cacheParams_def SaveParams_def on_world_def wrap_err_def duo_session_ops ref_HSet_def hset_def hash_at_def
        is_hash_def live_entry_def session_params_def to_nodes_def to_monitors_def Let_def split: sum.split)
  show "row_is a sf tx (sy_world (snd (run (recache sess) s)))" using assms(2) by (simp add: w row_is_def put_key_def)
  show "is_ok (fst (GetParams duo_X ''S'' (sy_world (snd (run (recache sess) s)))))"
    by (simp add: w GetParams_def duo_ops ref_HGetAll_def is_hash_def hash_at_def live_entry_def put_key_def Atoi_Itoa int64_min_def int64_max_def)
qed

text \<open>
  A change of the weather has written and read the row when a stop runs from its beginning to its end; then it
  goes on.  The session has ended, and a new ship is let in.
\<close>

theorem ended_session_joined:
  "\<exists>tr s c. concurrent_run (\<lambda>w. w) duo_X 0 (duo_sys, []) tr (s, [Ret (), Ret ()]) \<and>
     row_is False 7 20 (sy_world s) \<and> fst (HandleNodeWS duo_X True ''S'' ''C'' s) = Connected c"
proof -
  let ?A = "begins_call (\<lambda>w. w) duo_X 0" and ?q = "program duo_X 0 (CallStop ''S'')" and ?r = "duo_session\<lparr>ss_WeatherSeverity := 2\<rparr>"
  let ?s2 = "snd (Stop duo_X ''S'' duo_wet)" and ?g = "\<lambda>r. case r of Inl e \<Rightarrow> Ret () | Inr sess \<Rightarrow> recache sess"
  let ?s = "snd (run (recache ?r) ?s2)"
  have "?A u (program duo_X 0 (CallWeather ''S'' 2))" "?A u ?q" for u
    unfolding begins_call_def by (rule exI [of _ "CallWeather ''S'' 2"], simp, rule exI [of _ "CallStop ''S''"], simp)
  then have "pool_run ?A socket_step (duo_sys, []) [] (duo_sys, ([] @ [program duo_X 0 (CallWeather ''S'' 2)]) @ [?q])"
    by (intro begins idle_pool)
  then have "pool_run ?A socket_step (duo_sys, []) [] (duo_sys, [and_then (call (on_world (RepoUpdateWeather duo_X ''S'' 2)))
      (\<lambda>r. case r of Inl e \<Rightarrow> Ret () | Inr _ \<Rightarrow> and_then (call (on_world (GetByID duo_X ''S''))) ?g), ?q])"
    unfolding weather_prog cmd_def by simp
  from pool_acts_at [OF this, of 0, OF _ nth_Cons_0] obtain tr where
    "pool_run ?A socket_step (duo_sys, []) tr (duo_wet, [and_then (call (on_world (GetByID duo_X ''S''))) ?g, ?q])"
    using wet_updated by auto
  from pool_acts_at [OF this, of 0, OF _ nth_Cons_0] obtain tr where
    "pool_run ?A socket_step (duo_sys, []) tr (duo_wet, [recache ?r, ?q])" using wet_read by auto
  from pool_runs_at [OF this, of 1] obtain tr where "pool_run ?A socket_step (duo_sys, []) tr (?s2, [recache ?r, Ret ()])"
    by (auto simp: runs)
  from pool_runs_at [OF this, of 0] obtain tr where "pool_run ?A socket_step (duo_sys, []) tr (?s, [Ret (), Ret ()])" by auto
  moreover have "row_is False 7 20 (sy_world ?s)" "is_ok (fst (GetParams duo_X ''S'' (sy_world ?s)))"
    by (rule recache_world; use wet_stopped in \<open>simp add: duo_session_def new_session_def\<close>)+
  moreover have "nodeIDRe_match ''C''" by (simp add: nodeIDRe_match_def is_node_char_def is_letter_def)
  ultimately show ?thesis
    unfolding concurrent_run_def by (force simp: HandleNodeWS_def SessionActive_def Let_def case_prod_beta)
qed

end
