(* ===== verification/Socket.thy ===== *)
theory Socket
  imports Gateway
begin

text \<open>
  One live socket, \<^verbatim>\<open>ws/client.go\<close>, with the goroutines that serve it: \<open>readPump\<close>, the watcher it starts,
  and \<open>writePump\<close>.  The hub sees of it the \<open>Client\<close> only; here the connection and the program counters
  of the goroutines are added, and every action that another goroutine can observe is one step.

  gorilla's connection is a parameter: a read may fail at any time and must fail once the connection is
  closed or the message exceeds the read limit; a write succeeds or fails (\<open>ok\<close>), and fails once the
  connection is closed.  A \<open>select\<close> takes any ready branch.  Deadlines are such failures.  The panic
  handlers have nothing to recover: neither pump's body panics here.
\<close>

section \<open>The socket\<close>

definition maxMessageSize :: nat where "maxMessageSize = 16 * 1024"

datatype message = TextMessage frame | PingMessage | CloseMessage string

text \<open>
  The program counters.  After the read loop the deferred calls run in reverse order: \<open>close(stop)\<close>, then
  \<open>c.Close\<close>, \<open>conn.Close\<close> and \<open>onClose\<close>; after the write loop \<open>c.Close\<close> and \<open>conn.Close\<close>.
\<close>

datatype reader = Reading | Leaving | Stopped | Cancelled | Disconnected | ReaderGone
datatype writer = Selecting | Quitting | Released | WriterGone

text \<open>
  \<open>sk_senders\<close> are the calls of \<open>trySend\<close> that have passed the check of \<open>done\<close> and not yet sent;
  \<open>sk_queued\<close> is the history of the frames the channel took.
\<close>

record socket =
  sk_client :: Client
  sk_open :: bool
  sk_ctx :: bool
  sk_senders :: "frame list"
  sk_queued :: "frame list"
  sk_out :: "message list"
  sk_in :: "(nat \<times> jtext) list"
  sk_reader :: reader
  sk_watching :: bool
  sk_writer :: writer
  sk_onClose :: nat

definition new_socket :: "Client \<Rightarrow> socket" where
  "new_socket cl =
     \<lparr>sk_client = cl\<lparr>cl_send := [], cl_done := False\<rparr>, sk_open = True, sk_ctx = False, sk_senders = [], sk_queued = [],
      sk_out = [], sk_in = [], sk_reader = Reading, sk_watching = True, sk_writer = Selecting, sk_onClose = 0\<rparr>"

section \<open>What the goroutines do\<close>

definition cancel :: "socket \<Rightarrow> socket" where
  "cancel s = s\<lparr>sk_client := (sk_client s)\<lparr>cl_done := True\<rparr>\<rparr>"

definition conn_write :: "bool \<Rightarrow> message \<Rightarrow> socket \<Rightarrow> bool \<times> socket" where
  "conn_write ok m s = (if ok \<and> sk_open s then (True, s\<lparr>sk_out := sk_out s @ [m]\<rparr>) else (False, s))"

text \<open>The second \<open>select\<close> of \<open>trySend\<close>.\<close>

definition put_frame :: "int \<Rightarrow> frame \<Rightarrow> socket \<Rightarrow> socket" where
  "put_frame cap raw s =
     (let s1 = s\<lparr>sk_senders := remove1 raw (sk_senders s)\<rparr>
      in if int (length (cl_send (sk_client s1))) < cap
         then s1\<lparr>sk_client := (sk_client s1)\<lparr>cl_send := cl_send (sk_client s1) @ [raw]\<rparr>, sk_queued := sk_queued s1 @ [raw]\<rparr>
         else s1)"

text \<open>The branches of \<open>writePump\<close>: an error of a text or ping message ends the loop, the close message always does.\<close>

definition keep_writing :: "bool \<times> socket \<Rightarrow> socket" where
  "keep_writing r = (if fst r then snd r else (snd r)\<lparr>sk_writer := Quitting\<rparr>)"

definition write_done :: "bool \<Rightarrow> socket \<Rightarrow> socket" where
  "write_done ok s = (snd (conn_write ok (CloseMessage ''session closed'') s))\<lparr>sk_writer := Quitting\<rparr>"

definition write_frame :: "bool \<Rightarrow> frame \<Rightarrow> frame list \<Rightarrow> socket \<Rightarrow> socket" where
  "write_frame ok raw rest s =
     keep_writing (conn_write ok (TextMessage raw) (s\<lparr>sk_client := (sk_client s)\<lparr>cl_send := rest\<rparr>\<rparr>))"

definition write_ping :: "bool \<Rightarrow> socket \<Rightarrow> socket" where
  "write_ping ok s = keep_writing (conn_write ok PingMessage s)"

definition stop_closed :: "reader \<Rightarrow> bool" where
  "stop_closed r \<longleftrightarrow> r \<in> {Stopped, Cancelled, Disconnected, ReaderGone}"

text \<open>The environment: senders, \<open>Close\<close> from the hub, the server's context.\<close>

inductive world_step :: "int \<Rightarrow> socket \<Rightarrow> socket \<Rightarrow> bool" for cap where
  w_admit: "\<not> cl_done (sk_client s) \<Longrightarrow> world_step cap s (s\<lparr>sk_senders := raw # sk_senders s\<rparr>)"
| w_send: "raw \<in> set (sk_senders s) \<Longrightarrow> world_step cap s (put_frame cap raw s)"
| w_close: "world_step cap s (cancel s)"
| w_context: "world_step cap s (s\<lparr>sk_ctx := True\<rparr>)"

text \<open>The three goroutines.\<close>

inductive pump_step :: "socket \<Rightarrow> socket \<Rightarrow> bool" where
  p_read: "sk_reader s = Reading \<Longrightarrow> sk_open s \<Longrightarrow> len \<le> maxMessageSize \<Longrightarrow>
    pump_step s (s\<lparr>sk_in := sk_in s @ [(len, raw)]\<rparr>)"
| p_read_error: "sk_reader s = Reading \<Longrightarrow> pump_step s (s\<lparr>sk_reader := Leaving\<rparr>)"
| p_stop: "sk_reader s = Leaving \<Longrightarrow> pump_step s (s\<lparr>sk_reader := Stopped\<rparr>)"
| p_cancel: "sk_reader s = Stopped \<Longrightarrow> pump_step s ((cancel s)\<lparr>sk_reader := Cancelled\<rparr>)"
| p_disconnect: "sk_reader s = Cancelled \<Longrightarrow> pump_step s (s\<lparr>sk_open := False, sk_reader := Disconnected\<rparr>)"
| p_onClose: "sk_reader s = Disconnected \<Longrightarrow> pump_step s (s\<lparr>sk_onClose := sk_onClose s + 1, sk_reader := ReaderGone\<rparr>)"
| p_watch: "sk_watching s \<Longrightarrow> sk_ctx s \<or> cl_done (sk_client s) \<Longrightarrow> pump_step s (s\<lparr>sk_open := False, sk_watching := False\<rparr>)"
| p_unwatch: "sk_watching s \<Longrightarrow> stop_closed (sk_reader s) \<Longrightarrow> pump_step s (s\<lparr>sk_watching := False\<rparr>)"
| p_done: "sk_writer s = Selecting \<Longrightarrow> cl_done (sk_client s) \<Longrightarrow> pump_step s (write_done ok s)"
| p_frame: "sk_writer s = Selecting \<Longrightarrow> cl_send (sk_client s) = raw # rest \<Longrightarrow> pump_step s (write_frame ok raw rest s)"
| p_ping: "sk_writer s = Selecting \<Longrightarrow> pump_step s (write_ping ok s)"
| p_release: "sk_writer s = Quitting \<Longrightarrow> pump_step s ((cancel s)\<lparr>sk_writer := Released\<rparr>)"
| p_gone: "sk_writer s = Released \<Longrightarrow> pump_step s (s\<lparr>sk_open := False, sk_writer := WriterGone\<rparr>)"

inductive socket_reachable :: "int \<Rightarrow> Client \<Rightarrow> socket \<Rightarrow> bool" for cap cl where
  s_new: "socket_reachable cap cl (new_socket cl)"
| s_world: "socket_reachable cap cl s \<Longrightarrow> world_step cap s s' \<Longrightarrow> socket_reachable cap cl s'"
| s_pump: "socket_reachable cap cl s \<Longrightarrow> pump_step s s' \<Longrightarrow> socket_reachable cap cl s'"

lemmas socket_defs = cancel_def conn_write_def put_frame_def keep_writing_def write_done_def write_frame_def write_ping_def stop_closed_def

text \<open>What the hub's functions do to a client is what the socket's do to its own.\<close>

lemma hub_client:
  assumes "hb_heap h c = Some (sk_client s)"
  shows "\<not> cl_done (sk_client s) \<Longrightarrow> hb_heap (snd (trySend c raw h)) c = Some (sk_client (put_frame (hb_sendBuffer h) raw s))"
    "hb_heap (Close c h) c = Some (sk_client (cancel s))"
    "cl_send (sk_client s) = raw # rest \<Longrightarrow> hb_heap (snd (writePump_frame c h)) c = Some (sk_client (write_frame ok raw rest s))"
  using assms by (simp_all add: trySend_def Close_def writePump_frame_def socket_defs Let_def)

section \<open>First in, first out\<close>

fun texts :: "message list \<Rightarrow> frame list" where
  "texts [] = []"
| "texts (TextMessage f # ms) = f # texts ms"
| "texts (_ # ms) = texts ms"

fun is_close :: "message \<Rightarrow> bool" where
  "is_close (CloseMessage _) = True"
| "is_close _ = False"

lemma texts_append [simp]: "texts (ms @ ms') = texts ms @ texts ms'"
  by (induction ms rule: texts.induct) simp_all

text \<open>Every queued frame has been written, waits, or was the one whose write failed.\<close>

definition in_order :: "socket \<Rightarrow> frame list \<Rightarrow> bool" where
  "in_order s lost \<longleftrightarrow> sk_queued s = texts (sk_out s) @ lost @ cl_send (sk_client s) \<and> length lost \<le> 1 \<and>
     (sk_writer s = Selecting \<longrightarrow> lost = [])"

definition bounded :: "int \<Rightarrow> socket \<Rightarrow> bool" where
  "bounded cap s \<longleftrightarrow> int (length (cl_send (sk_client s))) \<le> cap \<and> (\<forall>m \<in> set (sk_in s). fst m \<le> maxMessageSize) \<and>
     (\<forall>m \<in> set (butlast (sk_out s)). \<not> is_close m) \<and> (sk_writer s = Selecting \<longrightarrow> (\<forall>m \<in> set (sk_out s). \<not> is_close m))"

lemma in_order_world: "world_step cap s s' \<Longrightarrow> in_order s lost \<Longrightarrow> in_order s' lost"
  by (induction rule: world_step.induct) (auto simp: in_order_def socket_defs Let_def)

lemma in_order_write:
  "in_order s [] \<Longrightarrow> cl_send (sk_client s) = raw # rest \<Longrightarrow> in_order (write_frame ok raw rest s) (if ok \<and> sk_open s then [] else [raw])"
  by (simp add: in_order_def socket_defs)

lemma in_order_pump: "pump_step s s' \<Longrightarrow> in_order s lost \<Longrightarrow> \<exists>lost'. in_order s' lost'"
proof (induction rule: pump_step.induct)
  case (p_frame s raw rest ok)
  then have "in_order s []" by (auto simp: in_order_def)
  then show ?case using in_order_write p_frame.hyps(2) by blast
qed (rule exI [of _ lost], auto simp: in_order_def socket_defs)+

lemma bounded_world: "world_step cap s s' \<Longrightarrow> bounded cap s \<Longrightarrow> bounded cap s'"
  by (induction rule: world_step.induct) (auto simp: bounded_def socket_defs Let_def)

lemma bounded_pump: "pump_step s s' \<Longrightarrow> bounded cap s \<Longrightarrow> bounded cap s'"
  by (induction rule: pump_step.induct) (auto simp: bounded_def socket_defs butlast_append dest: in_set_butlastD)

section \<open>The teardown\<close>

definition orderly :: "socket \<Rightarrow> bool" where
  "orderly s \<longleftrightarrow>
     sk_onClose s = (if sk_reader s = ReaderGone then 1 else 0) \<and>
     (sk_reader s \<in> {Cancelled, Disconnected, ReaderGone} \<or> sk_writer s \<in> {Released, WriterGone} \<longrightarrow> cl_done (sk_client s)) \<and>
     (sk_reader s \<in> {Disconnected, ReaderGone} \<or> sk_writer s = WriterGone \<longrightarrow> \<not> sk_open s) \<and>
     (\<not> sk_watching s \<longrightarrow> \<not> sk_open s \<or> stop_closed (sk_reader s))"

lemma orderly_world: "world_step cap s s' \<Longrightarrow> orderly s \<Longrightarrow> orderly s'"
  by (induction rule: world_step.induct) (auto simp: orderly_def socket_defs Let_def)

lemma orderly_pump: "pump_step s s' \<Longrightarrow> orderly s \<Longrightarrow> orderly s'"
  by (induction rule: pump_step.induct) (auto simp: orderly_def socket_defs)

lemma reachable_socket: "socket_reachable cap cl s \<Longrightarrow> 0 \<le> cap \<Longrightarrow> (\<exists>lost. in_order s lost) \<and> bounded cap s \<and> orderly s"
proof (induction rule: socket_reachable.induct)
  case s_new
  then show ?case by (auto simp: in_order_def bounded_def orderly_def new_socket_def)
next
  case (s_world s s')
  then show ?case using in_order_world bounded_world orderly_world by metis
next
  case (s_pump s s')
  then show ?case using in_order_pump bounded_pump orderly_pump by metis
qed

text \<open>A session for the examples, and the frame that ends it.\<close>

definition demo_client :: Client where
  "demo_client = \<lparr>cl_kind = kindNode, cl_sessionID = ''S'', cl_nodeID = ''A'', cl_send = [], cl_done = False\<rparr>"

definition queued_socket :: "Client \<Rightarrow> frame \<Rightarrow> socket" where
  "queued_socket cl f = (new_socket cl)\<lparr>sk_client := (sk_client (new_socket cl))\<lparr>cl_send := [f]\<rparr>, sk_queued := [f]\<rparr>"

lemma demo_send: "socket_reachable 8 cl (queued_socket cl f)"
proof -
  have "socket_reachable 8 cl ((new_socket cl)\<lparr>sk_senders := f # sk_senders (new_socket cl)\<rparr>)"
    by (rule s_world [OF s_new w_admit]) (simp add: new_socket_def)
  then have "socket_reachable 8 cl (put_frame 8 f ((new_socket cl)\<lparr>sk_senders := f # sk_senders (new_socket cl)\<rparr>))"
    by (rule s_world [OF _ w_send]) simp
  then show ?thesis by (simp add: put_frame_def new_socket_def queued_socket_def)
qed

text \<open>
  C23. A socket delivers in order and ends in order.  The frames its channel took are exactly those
  written, in the order they were queued, then at most one whose write failed, then those that still
  wait, never more than the capacity; nothing follows the close message; no message above 16 KiB
  reaches the gateway; and the close handler runs exactly once, when the socket is cancelled and its
  connection closed.
\<close>

theorem socket_delivers:
  assumes "socket_reachable cap cl s" "0 \<le> cap"
  shows "(\<exists>lost. sk_queued s = texts (sk_out s) @ lost @ cl_send (sk_client s) \<and> length lost \<le> 1 \<and>
       (sk_writer s = Selecting \<longrightarrow> lost = [])) \<and>
    int (length (cl_send (sk_client s))) \<le> cap \<and> (\<forall>m \<in> set (butlast (sk_out s)). \<not> is_close m) \<and>
    (\<forall>m \<in> set (sk_in s). fst m \<le> 16384) \<and>
    sk_onClose s = (if sk_reader s = ReaderGone then 1 else 0) \<and>
    (sk_reader s = ReaderGone \<longrightarrow> cl_done (sk_client s) \<and> \<not> sk_open s)"
  using reachable_socket [OF assms] by (auto simp: in_order_def bounded_def orderly_def maxMessageSize_def)

theorem socket_delivers_witness:
  "int (length (cl_send (sk_client (queued_socket demo_client (session_ended ''S''))))) \<le> 8"
  using socket_delivers [OF demo_send [of demo_client "session_ended ''S''"]] by simp

section \<open>A cancelled socket ends\<close>

fun reader_rank :: "reader \<Rightarrow> nat" where
  "reader_rank Reading = 5"
| "reader_rank Leaving = 4"
| "reader_rank Stopped = 3"
| "reader_rank Cancelled = 2"
| "reader_rank Disconnected = 1"
| "reader_rank ReaderGone = 0"

fun writer_rank :: "writer \<Rightarrow> nat" where
  "writer_rank Selecting = 3"
| "writer_rank Quitting = 2"
| "writer_rank Released = 1"
| "writer_rank WriterGone = 0"

definition work_left :: "socket \<Rightarrow> nat" where
  "work_left s = reader_rank (sk_reader s) + writer_rank (sk_writer s) + (if sk_watching s then 1 else 0)"

definition ended_socket :: "socket \<Rightarrow> bool" where
  "ended_socket s \<longleftrightarrow> sk_reader s = ReaderGone \<and> sk_writer s = WriterGone \<and> \<not> sk_watching s"

lemma pump_works: "pump_step s s' \<Longrightarrow> \<not> sk_open s \<Longrightarrow> \<not> sk_open s' \<and> work_left s' < work_left s"
  by (induction rule: pump_step.induct) (auto simp: work_left_def socket_defs)

lemma world_idles: "world_step cap s s' \<Longrightarrow> sk_open s' = sk_open s \<and> work_left s' = work_left s \<and> (cl_done (sk_client s) \<longrightarrow> cl_done (sk_client s'))"
  by (induction rule: world_step.induct) (auto simp: work_left_def socket_defs Let_def)

lemma pump_done: "pump_step s s' \<Longrightarrow> cl_done (sk_client s) \<Longrightarrow> cl_done (sk_client s')"
  by (induction rule: pump_step.induct) (auto simp: socket_defs)

lemma pump_enabled:
  assumes "cl_done (sk_client s)" "\<not> ended_socket s"
  shows "\<exists>s'. pump_step s s'"
proof (cases "sk_reader s = ReaderGone \<and> sk_writer s = WriterGone")
  case True
  then have "sk_watching s" using assms(2) by (simp add: ended_socket_def)
  then show ?thesis using p_watch assms(1) by blast
next
  case False
  then show ?thesis
  proof (cases "sk_reader s = ReaderGone")
    case True
    then show ?thesis using False p_ping p_release p_gone by (cases "sk_writer s") blast+
  qed (cases "sk_reader s"; use p_read_error p_stop p_cancel p_disconnect p_onClose in blast)
qed

text \<open>Actions of the goroutines, with anything else in between.\<close>

inductive pump_run :: "int \<Rightarrow> socket \<Rightarrow> nat \<Rightarrow> socket \<Rightarrow> bool" for cap s0 where
  pr_none: "pump_run cap s0 0 s0"
| pr_world: "pump_run cap s0 k s \<Longrightarrow> world_step cap s s' \<Longrightarrow> pump_run cap s0 k s'"
| pr_pump: "pump_run cap s0 k s \<Longrightarrow> pump_step s s' \<Longrightarrow> pump_run cap s0 (Suc k) s'"

lemma pump_run_bound: "pump_run cap s0 k s \<Longrightarrow> \<not> sk_open s0 \<Longrightarrow> \<not> sk_open s \<and> k + work_left s \<le> work_left s0"
  by (induction rule: pump_run.induct) (auto dest: pump_works world_idles)

lemma pump_run_done: "pump_run cap s0 k s \<Longrightarrow> cl_done (sk_client s0) \<Longrightarrow> cl_done (sk_client s)"
  by (induction rule: pump_run.induct) (auto dest: pump_done world_idles)

lemma work_left_most: "work_left s \<le> 9"
  by (cases "sk_reader s"; cases "sk_writer s") (simp_all add: work_left_def)

text \<open>
  C38. \<open>Close\<close> unblocks both pumps: while the connection of a cancelled socket is open, its watcher or the
  reader on its way out is there to close it; from then on the goroutines take at most nine more actions
  together, whatever the senders do; and until all three have ended one of them can act.
\<close>

theorem cancelled_socket_ends:
  assumes "socket_reachable cap cl s" "0 \<le> cap" "cl_done (sk_client s)" "pump_run cap s k s'"
  shows "(sk_open s \<longrightarrow> sk_watching s \<or> sk_reader s \<in> {Stopped, Cancelled}) \<and> (\<not> sk_open s \<longrightarrow> k \<le> 9) \<and>
    (\<not> ended_socket s' \<longrightarrow> (\<exists>s''. pump_step s' s''))"
proof (intro conjI impI)
  have o: "orderly s" using reachable_socket [OF assms(1,2)] by blast
  show "sk_watching s \<or> sk_reader s \<in> {Stopped, Cancelled}" if "sk_open s"
    using o that unfolding orderly_def stop_closed_def by blast
  show "k \<le> 9" if "\<not> sk_open s" using pump_run_bound [OF assms(4) that] work_left_most [of s] by simp
  show "\<exists>s''. pump_step s' s''" if "\<not> ended_socket s'" by (rule pump_enabled [OF pump_run_done [OF assms(4,3)] that])
qed

theorem cancelled_socket_ends_witness:
  "\<exists>s''. pump_step (cancel (new_socket demo_client)) s''"
proof -
  have r: "socket_reachable 8 demo_client (cancel (new_socket demo_client))" by (rule s_world [OF s_new w_close])
  have d: "cl_done (sk_client (cancel (new_socket demo_client)))" "\<not> ended_socket (cancel (new_socket demo_client))"
    by (simp_all add: cancel_def ended_socket_def new_socket_def)
  from cancelled_socket_ends [OF r _ d(1) pr_none] d(2) show ?thesis by simp
qed

text \<open>
  \<open>Close\<close> does not wait for the channel to drain: a frame queued before it, the end of the session for
  one, may never be written.
\<close>

lemma queued_frame_may_be_lost:
  "\<exists>s. socket_reachable 8 cl s \<and> sk_queued s = [f] \<and> sk_out s = [CloseMessage ''session closed''] \<and> sk_writer s = Quitting"
proof -
  let ?s = "write_done True (cancel (queued_socket cl f))"
  have "socket_reachable 8 cl (cancel (queued_socket cl f))" by (rule s_world [OF demo_send w_close])
  then have "socket_reachable 8 cl ?s"
    by (rule s_pump [OF _ p_done]) (simp_all add: cancel_def new_socket_def queued_socket_def)
  then have "socket_reachable 8 cl ?s \<and> sk_queued ?s = [f] \<and> sk_out ?s = [CloseMessage ''session closed''] \<and> sk_writer ?s = Quitting"
    by (simp add: socket_defs new_socket_def queued_socket_def)
  then show ?thesis by (rule exI)
qed

end
