(* ===== verification/Spec2Isabelle.thy ===== *)
theory Spec2Isabelle
  imports Arrival Process Races Socket
begin

text \<open>
  A verification of the maritime radio simulator: the Go backend (\<^verbatim>\<open>src/backend/internal\<close>), the process
  that starts it (\<^verbatim>\<open>src/backend/cmd/server\<close>) and the reference ship that talks to it
  (\<^verbatim>\<open>src/backend/cmd/nodesim\<close>).

  \<^bold>\<open>The program.\<close>  Ships of a simulated fleet connect over WebSockets, report positions and transmit
  LoRa frames to a parent.  The backend is the ether between them: it judges every frame by range,
  weather, spreading factor and hop count, forwards it to the parent ship or, at a virtual edge on the
  coast, decodes it into the telemetry table, and carries acknowledgements back through the same air.
  A scheduler recomputes the routing tree of every session and tells the ships whose parent changed;
  operators create, tune, stop and erase sessions over REST and watch them through monitor sockets.
  Sessions, edges, schemas and telemetry live in PostgreSQL; positions, parameters, routes, counters and
  the claims that make delivery happen once live in Redis.

  \<^bold>\<open>The state.\<close>  A \<open>'w sys\<close> (System) is the world of the external services \<open>'w\<close>, the hub with its heap of
  clients, the scheduler's set and the edge cache.  A \<open>'w backend\<close> (Gateway) adds the job queue.  Every
  handler is a function on this state which contains every call that changes it, in the order of the
  code, with errors as values (\<open>gerr\<close> in a sum); \<open>backend_step\<close> (Backend) collects all that can happen, one
  request or job after the other.

  \<^bold>\<open>Goroutines.\<close>  Threads: programs as trees of atomic actions, their interleavings \<open>pool_run\<close>, and the rules of
  rely and guarantee.  Programs: every handler again, as the program of its actions (a command, a section under a
  lock, a read of the clock).  Calls: what each request, frame, tick or end of a connection amounts to, with the theorem that
  its program run alone is the handler.  Interleaved: \<open>concurrent_run\<close>, in which any number of calls are in flight
  while the sockets write and close, and the contract \<open>concurrent_frame\<close> of what survives it.
  Process: the server process itself, whose main goroutine, workers, scheduler, requests and sockets step one at a
  time from serving to the exit; each of its runs is one of those interleavings.

  \<^bold>\<open>The domain and the data.\<close>
  Prelude: Go's integers, strings, numbers as text, maps and stable sorting, shared lemmas and collections.
  Geo (\<^verbatim>\<open>domain/geo.go\<close>), Radio (\<^verbatim>\<open>lora.go\<close>, \<^verbatim>\<open>packetloss.go\<close>, \<^verbatim>\<open>service/anomaly.go\<close>), Packet (\<^verbatim>\<open>packet.go\<close>),
  Schema (\<^verbatim>\<open>schema.go\<close>), Mesh (\<^verbatim>\<open>mesh.go\<close>), Protocol (\<^verbatim>\<open>protocol/events.go\<close>, \<^verbatim>\<open>service/stats.go\<close>), Json
  (the decoder of \<^verbatim>\<open>encoding/json\<close> over JSON values), Wire (what \<^verbatim>\<open>json.Marshal\<close> writes for each message).

  \<^bold>\<open>The services.\<close>
  World: the interface to Redis, PostgreSQL, clock and dice; the documented effect of each command on an
  abstract \<open>store\<close>; the laws \<open>ext_ok\<close> that tie the two; an in-memory instance that satisfies them.
  Repos: \<^verbatim>\<open>internal/repository\<close>.  Hub: \<^verbatim>\<open>ws/hub.go\<close> and the client of \<^verbatim>\<open>ws/client.go\<close>; Socket: its pumps.
  Topology, Sessions, Engine: \<^verbatim>\<open>service/mesh_topology.go\<close>, \<^verbatim>\<open>session_service.go\<close> with \<^verbatim>\<open>schema_service.go\<close>, and
  \<^verbatim>\<open>simulation_engine.go\<close>.  Gateway: \<^verbatim>\<open>ws/gateway.go\<close>.  Api, Router: \<^verbatim>\<open>internal/api\<close>.
  Config, Infra, Server: \<^verbatim>\<open>config.go\<close>, \<^verbatim>\<open>internal/infra\<close> and the start-up of \<^verbatim>\<open>cmd/server/main.go\<close>.
  Nodesim: \<^verbatim>\<open>cmd/nodesim/main.go\<close>, the ship as goroutines with program counters.

  \<^bold>\<open>The interfaces\<close> are locales, each interpreted on the model: \<open>broadcaster\<close> (what the services rely on
  from the hub), \<open>once_guard\<close> (a key that is claimed once per interval), \<open>routing_dag\<close> and
  \<open>air_distance\<close>, \<open>ship_invariant\<close> (what every action of a ship keeps), \<open>service_frame\<close> (what every primitive
  keeps, every handler keeps: the hub's own steps, the scheduler's identifiers, the claims),
  \<open>table_frame\<close> (the same for the SQL statements under the checks made before them, of which a
  \<open>service_frame\<close> is a sublocale: legal rows, the ledger of sessions), and for interleavings \<open>rely\<close>,
  \<open>concurrent_frame\<close> and \<open>table_rely\<close>, which extend them by what a goroutine relies on between two actions.

  \<^bold>\<open>What is proved.\<close>
  The ether (Delivery, Positions, Acks, Runs, Loop, Voyage, Arrival): a frame or a telemetry row appears only after every
  guard has passed; a packet is accepted at most once per interval in every run; a connection moves no
  ship but its own, no faster than the limit; an acknowledgement reaches the recorded transmitter only,
  once; and when services answer and the air is clear, a transmission and its acknowledgement do arrive,
  and a report travels its whole route, relayed by the ships, into the telemetry table.
  The backend as a whole (Backend, Runs, Integrity, Ledger): its hub moves by the hub's steps only, its
  queues are bounded, its tables stay legal, and every run refines an abstract ledger of sessions.
  Its goroutines (Calls, Flights, Once, Process): the last three hold, and a packet is accepted at most once, however the
  actions of requests, frames and ticks interleave.  Races proves two interleavings that go wrong.
  A process whose context is cancelled can always reach its exit.
  The services (Lifecycle, Routing, Surface): create, update and stop do all of what they promise (a stop, for the
  database's spelling of the identifier), a
  recomputation stores the topology and notifies exactly the ships concerned, admission, routing of
  requests, shape of every reply.
  The algorithms (Mesh, Radio, Geo, Schema, Packet): \<open>BuildTopology\<close> is characterised by hop distance
  and nearest parents, loop free and independent of the order of its input; the distance is the great
  circle's; the loss model is a probability and monotone; decoding of payloads, as a map or as an array, stores
  what the type of a field makes of its value and reports every field that is missing or does not conform.
  The sockets (Hub, Socket): registries agree, reconnects replace, frames leave in order, a closed socket ends.
  Ships and start-up (Fleet, Infra, Config, Server): the two programs understand each other, retries end,
  relays are bounded, migrations are applied once, a restart resumes exactly the active sessions.
  Duo holds the small running system on which the witnesses evaluate.

  \<^bold>\<open>Loops.\<close>  No fuel is used.  Counting loops recurse on a measure with the proof of termination
  (\<open>run_levels\<close> over at most \<open>MaxHops\<close> levels, \<open>connect_loop\<close> over thirty attempts); ranges over maps
  and slices are folds; goroutines and pumps, which need not end, are step relations, and that they end
  is a theorem over all interleavings.

  \<^bold>\<open>Assumptions.\<close>  \<open>ext_ok\<close>: each command of go-redis and pgx takes effect at some later time, or fails with
  or without effect; the dice lie in \<open>[0, 1)\<close>; session identifiers are UUIDs and contain no colon.
  \<open>fresh_ids\<close> (ledger only): a generated UUID is not in the table and was not in it before (the store keeps the
  identifiers of erased rows for this purpose alone).  \<open>steady\<close> (Loop, Voyage and Arrival only): the
  commands answer at once.  MessagePack, the WebSocket upgrade, gorilla's connection, HTTP transports and the
  readiness probe are parameters.

  \<^bold>\<open>Idealisations.\<close>  \<open>float64\<close> is a real number; rounding is modelled in the conversions of Schema only,
  overflow only where the code can meet it (so the distance of antipodes, not a number in \<open>float64\<close>, is one here).  A JSON text is the value it parses to, or the parser's error.  Strings are bytes of valid
  UTF-8.  The functional theorems take a request or a job in one piece, without interference; the theorems of
  Flights and Once do not.  There \<open>AllPositions\<close>, which reads Redis twice, and the opening and the teardown of a
  connection are one action each, and \<open>trySend\<close> is atomic inside the hub; Socket splits it.
  Error texts are given without the numbers formatted into them.  The multiplexer's redirects to cleaned paths and
  the message handler inside \<open>readPump\<close> (Socket only) are left out.

  \<^bold>\<open>Not modelled.\<close>  Logging, panic recovery (no modelled body panics where Go's would), response headers
  beyond CORS, constructors that only wire fields, the listening socket and the profiler of the
  server (a signal is an event that cancels the context, and the timeout of the HTTP shutdown may pass at any time), the flags, verbose output and summary of nodesim, and the TypeScript clients.

  \<^bold>\<open>Next.\<close>  The clock in Socket (deadlines against the ping period), and the ships of Nodesim in one pool with the
  goroutines of the backend.
\<close>

end
